(* ===== verification/Prelude.thy ===== *)
theory Prelude
  imports Main "HOL-Library.Sublist" "HOL-Library.List_Lexorder" "HOL-Library.Char_ord"
    "HOL-Library.Product_Lexorder"
begin

text \<open>
  What every component of the development shares: Python's text operations on character
  lists, decimal rendering of integers, the result type of code that may raise, a matcher
  for the regular expressions the program compiles with Python's \<open>re\<close>, and the
  lemmas about sorting and filtering that several components use.

  Text is a list of characters. The program's text is Unicode; the model reads each
  character as one ASCII code point, so case mapping and white space are those of ASCII.
\<close>

section \<open>Automation shared by the components\<close>

named_theorems py_text \<open>evaluation of Python text operations\<close>
named_theorems tenant_rules \<open>facts about the organization boundary\<close>

type_synonym text_line = string

section \<open>Results of code that may raise\<close>

text \<open>\<open>Inl\<close> is the exception, \<open>Inr\<close> the value returned.\<close>

fun res_bind :: "'e + 'a \<Rightarrow> ('a \<Rightarrow> 'e + 'b) \<Rightarrow> 'e + 'b" where
  "res_bind (Inl e) f = Inl e"
| "res_bind (Inr a) f = f a"

fun is_ok :: "'e + 'a \<Rightarrow> bool" where
  "is_ok (Inl e) = False"
| "is_ok (Inr a) = True"

text \<open>A list of checks run in order: the first that fails is the exception raised.\<close>

fun first_failure :: "(bool \<times> 'e) list \<Rightarrow> 'e option" where
  "first_failure [] = None"
| "first_failure ((ok, e) # cs) = (if ok then first_failure cs else Some e)"

text \<open>\<open>if not ok: raise e\<close>.\<close>

definition ensure :: "bool \<Rightarrow> 'e \<Rightarrow> 'e + unit" where
  "ensure b e = (if b then Inr () else Inl e)"

text \<open>The first value of a sequence of optional ones.\<close>

fun first_opt :: "'a option list \<Rightarrow> 'a option" where
  "first_opt [] = None"
| "first_opt (x # xs) = (case x of Some a \<Rightarrow> Some a | None \<Rightarrow> first_opt xs)"

lemma first_opt_None: "first_opt xs = None \<longleftrightarrow> (\<forall>x \<in> set xs. x = None)"
  by (induction xs) (auto split: option.splits)

lemma first_opt_Some_in: "first_opt xs = Some a \<Longrightarrow> Some a \<in> set xs"
  by (induction xs) (auto split: option.splits)

lemma found_in: "find P xs = Some x \<Longrightarrow> x \<in> set xs \<and> P x"
  by (auto simp: find_Some_iff)

lemma find_in_append: "find P (xs @ ys) = (case find P xs of None \<Rightarrow> find P ys | Some x \<Rightarrow> Some x)"
  by (induction xs) auto

lemma ensure_Inr [simp]: "ensure b e = Inr u \<longleftrightarrow> b"
  by (simp add: ensure_def)

lemma ensure_Inl [simp]: "ensure b e = Inl x \<longleftrightarrow> \<not> b \<and> x = e"
  by (auto simp: ensure_def)

lemma res_bind_Inr_iff: "res_bind m f = Inr b \<longleftrightarrow> (\<exists>a. m = Inr a \<and> f a = Inr b)"
  by (cases m) auto

lemma res_bind_Inl_iff:
  "res_bind m f = Inl e \<longleftrightarrow> m = Inl e \<or> (\<exists>a. m = Inr a \<and> f a = Inl e)"
  by (cases m) auto

lemma first_failure_None: "first_failure cs = None \<longleftrightarrow> (\<forall>c \<in> set cs. fst c)"
  by (induction cs rule: first_failure.induct) auto

lemma first_failure_Some_in: "first_failure cs = Some e \<Longrightarrow> (False, e) \<in> set cs"
  by (induction cs rule: first_failure.induct) (auto split: if_splits)

section \<open>Folds\<close>

lemma foldl_invariant:
  "P t \<Longrightarrow> (\<And>u x. x \<in> set xs \<Longrightarrow> P u \<Longrightarrow> P (f u x)) \<Longrightarrow> P (foldl f t xs)"
  by (induction xs arbitrary: t) auto

text \<open>A fold over a concrete state simulates a fold over its abstraction.\<close>

lemma foldl_simulation:
  "(\<And>u x. x \<in> set xs \<Longrightarrow> ab (f u x) = g (ab u) x) \<Longrightarrow> ab (foldl f t xs) = foldl g (ab t) xs"
  by (induction xs arbitrary: t) auto

text \<open>A fold whose steps are folds themselves is a fold over the concatenation.\<close>

lemma foldl_concat_map: "foldl g t (concat (map h xs)) = foldl (\<lambda>u x. foldl g u (h x)) t xs"
  by (induction xs arbitrary: t) auto

section \<open>Lists related element by element\<close>

lemma list_all2_right: "list_all2 R xs ys \<Longrightarrow> y \<in> set ys \<Longrightarrow> \<exists>x \<in> set xs. R x y"
  by (induction rule: list_all2_induct) auto

lemma list_all2_dest: "list_all2 R xs ys \<Longrightarrow> (\<And>x y. x \<in> set xs \<Longrightarrow> R x y \<Longrightarrow> P y) \<Longrightarrow> list_all P ys"
  by (induction rule: list_all2_induct) auto

section \<open>Python text operations\<close>

definition code_of :: "char \<Rightarrow> nat" where
  "code_of c = of_char c"

text \<open>\<open>str.isspace\<close> on ASCII: tab to carriage return, the four separators, blank.\<close>

definition is_space :: "char \<Rightarrow> bool" where
  "is_space c = (let n = code_of c in (9 \<le> n \<and> n \<le> 13) \<or> (28 \<le> n \<and> n \<le> 32))"

definition is_digit :: "char \<Rightarrow> bool" where
  "is_digit c = (let n = code_of c in 48 \<le> n \<and> n \<le> 57)"

definition upper_char :: "char \<Rightarrow> char" where
  "upper_char c = (let n = code_of c in if 97 \<le> n \<and> n \<le> 122 then char_of (n - 32) else c)"

definition lower_char :: "char \<Rightarrow> char" where
  "lower_char c = (let n = code_of c in if 65 \<le> n \<and> n \<le> 90 then char_of (n + 32) else c)"

text \<open>Equations that compute on the bits of a character.\<close>

lemma code_of_bits: "code_of (Char b0 b1 b2 b3 b4 b5 b6 b7) =
   of_bool b0 + 2 * of_bool b1 + 4 * of_bool b2 + 8 * of_bool b3 + 16 * of_bool b4 + 32 * of_bool b5 + 64 * of_bool b6 + 128 * of_bool b7"
  by (simp add: code_of_def)

lemma char_of_code: "code_of d = n \<Longrightarrow> char_of n = d"
  by (auto simp: code_of_def)

lemma lower_char_code [code]:
  "lower_char c = (if CHR ''A'' \<le> c \<and> c \<le> CHR ''Z''
     then (case c of Char b0 b1 b2 b3 b4 b5 b6 b7 \<Rightarrow> Char b0 b1 b2 b3 b4 True b6 b7) else c)"
proof (cases c)
  case (Char b0 b1 b2 b3 b4 b5 b6 b7)
  have range: "CHR ''A'' \<le> c \<and> c \<le> CHR ''Z'' \<longleftrightarrow> 65 \<le> code_of c \<and> code_of c \<le> 90"
    by (simp add: less_eq_char_def code_of_def)
  show ?thesis
  proof (cases "65 \<le> code_of c \<and> code_of c \<le> 90")
    case True
    then have "\<not> b5" unfolding Char code_of_bits by (auto split: if_splits simp: of_bool_def)
    then have "code_of (Char b0 b1 b2 b3 b4 True b6 b7) = code_of c + 32" unfolding Char code_of_bits by simp
    then have "lower_char c = Char b0 b1 b2 b3 b4 True b6 b7"
      using True char_of_code by (simp only: lower_char_def Let_def simp_thms if_True)
    moreover have "CHR ''A'' \<le> c \<and> c \<le> CHR ''Z''" using True range by blast
    ultimately show ?thesis by (simp only: Char simp_thms if_True char.case)
  qed (use range in \<open>auto simp: lower_char_def Let_def\<close>)
qed

lemma upper_char_code [code]:
  "upper_char c = (if CHR ''a'' \<le> c \<and> c \<le> CHR ''z''
     then (case c of Char b0 b1 b2 b3 b4 b5 b6 b7 \<Rightarrow> Char b0 b1 b2 b3 b4 False b6 b7) else c)"
proof (cases c)
  case (Char b0 b1 b2 b3 b4 b5 b6 b7)
  have range: "CHR ''a'' \<le> c \<and> c \<le> CHR ''z'' \<longleftrightarrow> 97 \<le> code_of c \<and> code_of c \<le> 122"
    by (simp add: less_eq_char_def code_of_def)
  show ?thesis
  proof (cases "97 \<le> code_of c \<and> code_of c \<le> 122")
    case True
    then have "b5" unfolding Char code_of_bits by (auto split: if_splits simp: of_bool_def)
    then have "code_of (Char b0 b1 b2 b3 b4 False b6 b7) = code_of c - 32" unfolding Char code_of_bits by simp
    then have "upper_char c = Char b0 b1 b2 b3 b4 False b6 b7"
      using True char_of_code by (simp only: upper_char_def Let_def simp_thms if_True)
    moreover have "CHR ''a'' \<le> c \<and> c \<le> CHR ''z''" using True range by blast
    ultimately show ?thesis by (simp only: Char simp_thms if_True char.case)
  qed (use range in \<open>auto simp: upper_char_def Let_def\<close>)
qed

lemma is_digit_code [code]: "is_digit c = (CHR ''0'' \<le> c \<and> c \<le> CHR ''9'')"
  by (simp add: is_digit_def Let_def less_eq_char_def code_of_def)

lemma is_space_code [code]: "is_space c = (CHR 0x09 \<le> c \<and> c \<le> CHR 0x0D \<or> CHR 0x1C \<le> c \<and> c \<le> CHR 0x20)"
  by (simp add: is_space_def Let_def less_eq_char_def code_of_def)

definition py_upper :: "string \<Rightarrow> string" where
  "py_upper s = map upper_char s"

definition py_lower :: "string \<Rightarrow> string" where
  "py_lower s = map lower_char s"

definition py_lstrip :: "string \<Rightarrow> string" where
  "py_lstrip s = dropWhile is_space s"

definition py_rstrip :: "string \<Rightarrow> string" where
  "py_rstrip s = rev (dropWhile is_space (rev s))"

definition py_strip :: "string \<Rightarrow> string" where
  "py_strip s = py_rstrip (py_lstrip s)"

lemma py_strip_length: "length (py_strip s) \<le> length s"
proof -
  have "length (py_strip s) \<le> length (dropWhile is_space s)"
    unfolding py_strip_def py_lstrip_def py_rstrip_def by (metis length_dropWhile_le length_rev)
  then show ?thesis using length_dropWhile_le [of is_space s] by simp
qed

lemma py_strip_within: "length s \<le> n \<Longrightarrow> length (py_strip s) \<le> n"
  using py_strip_length [of s] by simp

definition py_isdigit :: "string \<Rightarrow> bool" where
  "py_isdigit s = (s \<noteq> [] \<and> list_all is_digit s)"

text \<open>\<open>p in s\<close>, \<open>s.startswith(p)\<close> and \<open>s.endswith(p)\<close>.\<close>

fun py_startswith :: "string \<Rightarrow> string \<Rightarrow> bool" where
  "py_startswith s [] = True"
| "py_startswith [] (p # ps) = False"
| "py_startswith (c # cs) (p # ps) = (c = p \<and> py_startswith cs ps)"

definition py_endswith :: "string \<Rightarrow> string \<Rightarrow> bool" where
  "py_endswith s p = py_startswith (rev s) (rev p)"

fun py_contains :: "string \<Rightarrow> string \<Rightarrow> bool" where
  "py_contains [] p = (p = [])"
| "py_contains (c # cs) p = (py_startswith (c # cs) p \<or> py_contains cs p)"

fun py_join :: "string \<Rightarrow> string list \<Rightarrow> string" where
  "py_join sep [] = []"
| "py_join sep [x] = x"
| "py_join sep (x # y # ys) = x @ sep @ py_join sep (y # ys)"

text \<open>\<open>s.split(d)\<close> for a one-character separator: never empty.\<close>

fun py_split :: "char \<Rightarrow> string \<Rightarrow> string list" where
  "py_split d [] = [[]]"
| "py_split d (c # cs) =
     (if c = d then [] # py_split d cs
      else (case py_split d cs of [] \<Rightarrow> [[c]] | w # ws \<Rightarrow> (c # w) # ws))"

text \<open>\<open>s.split(d, 1)\<close> where \<open>d\<close> occurs in \<open>s\<close>: the parts around its first occurrence.\<close>

definition split_once :: "char \<Rightarrow> string \<Rightarrow> string \<times> string" where
  "split_once d s = (takeWhile (\<lambda>c. c \<noteq> d) s, drop 1 (dropWhile (\<lambda>c. c \<noteq> d) s))"

text \<open>\<open>s.rsplit(d, 1)\<close> where \<open>d\<close> occurs in \<open>s\<close>: the parts around its last occurrence.\<close>

definition rsplit_once :: "char \<Rightarrow> string \<Rightarrow> string \<times> string" where
  "rsplit_once d s = (rev (drop 1 (dropWhile (\<lambda>c. c \<noteq> d) (rev s))), rev (takeWhile (\<lambda>c. c \<noteq> d) (rev s)))"

text \<open>\<open>s.replace(a, b)\<close> for single characters and for a one-character pattern.\<close>

definition py_replace_char :: "char \<Rightarrow> string \<Rightarrow> string \<Rightarrow> string" where
  "py_replace_char a b s = concat (map (\<lambda>c. if c = a then b else [c]) s)"

section \<open>Decimal numerals\<close>

definition digit_char :: "nat \<Rightarrow> char" where
  "digit_char n = char_of (48 + n)"

fun nat_str :: "nat \<Rightarrow> string" where
  "nat_str n = (if n < 10 then [digit_char n] else nat_str (n div 10) @ [digit_char (n mod 10)])"

declare nat_str.simps [simp del]

definition int_str :: "int \<Rightarrow> string" where
  "int_str i = (if i < 0 then CHR ''-'' # nat_str (nat (- i)) else nat_str (nat i))"

text \<open>\<open>int(s)\<close> on a string of digits.\<close>

definition digits_val :: "string \<Rightarrow> nat" where
  "digits_val s = foldl (\<lambda>a c. 10 * a + (code_of c - 48)) 0 s"

lemma digit_char_code: "n < 10 \<Longrightarrow> code_of (digit_char n) = 48 + n"
  by (simp add: digit_char_def code_of_def take_bit_eq_mod)

lemma nat_str_digits: "list_all is_digit (nat_str n)"
proof (induction n rule: nat_str.induct)
  case (1 n)
  then show ?case
    by (subst nat_str.simps) (auto simp: is_digit_def [of "digit_char _"] digit_char_code Let_def)
qed

lemma digits_val_nat_str: "digits_val (nat_str n) = n"
proof (induction n rule: nat_str.induct)
  case (1 n)
  then show ?case
    by (subst nat_str.simps) (auto simp: digits_val_def digit_char_code)
qed

lemma nat_str_inj: "nat_str m = nat_str n \<longleftrightarrow> m = n"
  by (metis digits_val_nat_str)

text \<open>
  \<open>int(s)\<close>: surrounding white space, one optional sign, decimal digits, with single
  underscores between digits.
\<close>

definition py_int_of_str :: "string \<Rightarrow> int option" where
  "py_int_of_str s =
     (let t = py_strip s;
          neg = (case t of [] \<Rightarrow> False | c # _ \<Rightarrow> c = CHR ''-'');
          d = (case t of [] \<Rightarrow> [] | c # cs \<Rightarrow> if c = CHR ''-'' \<or> c = CHR ''+'' then cs else t);
          n = int (digits_val (filter (\<lambda>c. c \<noteq> CHR ''_'') d))
      in if list_all py_isdigit (py_split CHR ''_'' d) then Some (if neg then - n else n) else None)"

end
