(* ===== verification/Py_Ast.thy ===== *)
theory Py_Ast
  imports Prelude
begin

text \<open>
  The abstract syntax trees of Python's \<open>ast\<close> module that the analyses walk: one
  constructor per node class an analysis inspects, with the fields in the order of
  \<open>_fields\<close>, and \<open>Node\<close> for every other class (its class name, its line when it has one,
  its child nodes). Expression contexts and operators are leaves without a line that no
  analysis looks at; they are left out. \<open>ast.walk\<close> and \<open>ast.iter_child_nodes\<close> are
  defined as the library defines them: a queue, and the child nodes in field order.
\<close>

section \<open>Nodes\<close>

datatype pyconst = CStr string | CInt int | CBool bool | CNone | COther string

datatype (plugins only: code size) ast =
    Module "ast list"
  | FunctionDef bool nat string ast "ast list" "ast list" "ast option"
      \<comment> \<open>async?, line, name, arguments, body, decorators, returns\<close>
  | ClassDef nat string "ast list" "ast list" "ast list" "ast list"
      \<comment> \<open>line, name, bases, keywords, body, decorators\<close>
  | Return nat "ast option"
  | Assign nat "ast list" ast
  | AnnAssign nat ast ast "ast option"
  | AugAssign nat ast ast
  | For nat ast ast "ast list" "ast list"
  | While nat ast "ast list" "ast list"
  | If nat ast "ast list" "ast list"
  | Try nat "ast list" "ast list" "ast list" "ast list"
  | ExceptHandler nat "ast option" "ast list"
  | Expr nat ast
  | Arguments "ast list" "ast list" "ast option" "ast list" "ast option list" "ast option" "ast list"
      \<comment> \<open>posonlyargs, args, vararg, kwonlyargs, kw_defaults, kwarg, defaults\<close>
  | Arg nat string "ast option"
  | Keyword nat "string option" ast
  | Name nat string
  | Constant nat pyconst
  | Attribute nat ast string
  | Subscript nat ast ast
  | Call nat ast "ast list" "ast list"
  | BinOp nat ast ast
  | JoinedStr nat "ast list"
  | FormattedValue nat ast "ast option"
  | ListE nat "ast list"
  | DictE nat "ast option list" "ast list"
  | TupleE nat "ast list"
  | Import nat "ast list"
  | ImportFrom nat "string option" "ast list" nat
      \<comment> \<open>line, module, names, level\<close>
  | Alias nat string "string option"
  | Node string "nat option" "ast list"

definition opt_list :: "'a option \<Rightarrow> 'a list" where
  "opt_list x = (case x of None \<Rightarrow> [] | Some y \<Rightarrow> [y])"

definition cat_opts :: "'a option list \<Rightarrow> 'a list" where
  "cat_opts xs = concat (map opt_list xs)"

text \<open>\<open>ast.iter_child_nodes\<close>: the fields in order, \<open>None\<close> skipped.\<close>

fun children :: "ast \<Rightarrow> ast list" where
  "children (Module b) = b"
| "children (FunctionDef a l n args b ds r) = args # b @ ds @ opt_list r"
| "children (ClassDef l n bs ks b ds) = bs @ ks @ b @ ds"
| "children (Return l v) = opt_list v"
| "children (Assign l ts v) = ts @ [v]"
| "children (AnnAssign l t an v) = [t, an] @ opt_list v"
| "children (AugAssign l t v) = [t, v]"
| "children (For l t i b e) = [t, i] @ b @ e"
| "children (While l t b e) = t # b @ e"
| "children (If l t b e) = t # b @ e"
| "children (Try l b hs e f) = b @ hs @ e @ f"
| "children (ExceptHandler l t b) = opt_list t @ b"
| "children (Expr l v) = [v]"
| "children (Arguments po as va ko kd kw ds) =
     po @ as @ opt_list va @ ko @ cat_opts kd @ opt_list kw @ ds"
| "children (Arg l n an) = opt_list an"
| "children (Keyword l n v) = [v]"
| "children (Name l i) = []"
| "children (Constant l c) = []"
| "children (Attribute l v a) = [v]"
| "children (Subscript l v s) = [v, s]"
| "children (Call l f as ks) = f # as @ ks"
| "children (BinOp l x y) = [x, y]"
| "children (JoinedStr l vs) = vs"
| "children (FormattedValue l v f) = v # opt_list f"
| "children (ListE l es) = es"
| "children (DictE l ks vs) = cat_opts ks @ vs"
| "children (TupleE l es) = es"
| "children (Import l ns) = ns"
| "children (ImportFrom l m ns k) = ns"
| "children (Alias l n a) = []"
| "children (Node c l cs) = cs"

text \<open>\<open>node.lineno\<close>, for the classes that have it.\<close>

fun lineno :: "ast \<Rightarrow> nat option" where
  "lineno (Module b) = None"
| "lineno (FunctionDef a l n args b ds r) = Some l"
| "lineno (ClassDef l n bs ks b ds) = Some l"
| "lineno (Return l v) = Some l"
| "lineno (Assign l ts v) = Some l"
| "lineno (AnnAssign l t an v) = Some l"
| "lineno (AugAssign l t v) = Some l"
| "lineno (For l t i b e) = Some l"
| "lineno (While l t b e) = Some l"
| "lineno (If l t b e) = Some l"
| "lineno (Try l b hs e f) = Some l"
| "lineno (ExceptHandler l t b) = Some l"
| "lineno (Expr l v) = Some l"
| "lineno (Arguments po as va ko kd kw ds) = None"
| "lineno (Arg l n an) = Some l"
| "lineno (Keyword l n v) = Some l"
| "lineno (Name l i) = Some l"
| "lineno (Constant l c) = Some l"
| "lineno (Attribute l v a) = Some l"
| "lineno (Subscript l v s) = Some l"
| "lineno (Call l f as ks) = Some l"
| "lineno (BinOp l x y) = Some l"
| "lineno (JoinedStr l vs) = Some l"
| "lineno (FormattedValue l v f) = Some l"
| "lineno (ListE l es) = Some l"
| "lineno (DictE l ks vs) = Some l"
| "lineno (TupleE l es) = Some l"
| "lineno (Import l ns) = Some l"
| "lineno (ImportFrom l m ns k) = Some l"
| "lineno (Alias l n a) = Some l"
| "lineno (Node c l cs) = l"

section \<open>Walking a tree\<close>

abbreviation node_weight :: "ast \<Rightarrow> nat" where
  "node_weight n \<equiv> Suc (2 * size n)"

abbreviation weights :: "ast list \<Rightarrow> nat" where
  "weights ns \<equiv> sum_list (map node_weight ns)"

lemma weights_list: "weights xs \<le> 2 * size_list size xs"
  by (induction xs) auto

lemma weights_opt_list: "weights (opt_list y) \<le> 2 * size_option size y"
  by (auto simp: opt_list_def split: option.splits)

lemma weights_cat_opts: "weights (cat_opts xs) \<le> 2 * size_list (size_option size) xs"
proof (induction xs)
  case Nil
  then show ?case by (simp add: cat_opts_def)
next
  case (Cons x xs)
  then show ?case
    using weights_opt_list [of x] by (simp add: cat_opts_def)
qed

lemma children_lighter: "weights (children n) < node_weight n"
proof (cases n)
  case (FunctionDef a l f as b ds r)
  then show ?thesis
    using weights_list [of b] weights_list [of ds] weights_opt_list [of r] by simp
next
  case (ClassDef l c bs ks b ds)
  then show ?thesis
    using weights_list [of bs] weights_list [of ks] weights_list [of b] weights_list [of ds] by simp
next
  case (Arguments po as va ko kd kw ds)
  then show ?thesis
    using weights_list [of po] weights_list [of as] weights_list [of ko] weights_list [of ds]
      weights_opt_list [of va] weights_opt_list [of kw] weights_cat_opts [of kd] by simp
next
  case (Try l b hs e f)
  then show ?thesis
    using weights_list [of b] weights_list [of hs] weights_list [of e] weights_list [of f] by simp
next
  case (For l t i b e)
  then show ?thesis using weights_list [of b] weights_list [of e] by simp
next
  case (While l t b e)
  then show ?thesis using weights_list [of b] weights_list [of e] by simp
next
  case (If l t b e)
  then show ?thesis using weights_list [of b] weights_list [of e] by simp
next
  case (ExceptHandler l t b)
  then show ?thesis using weights_list [of b] weights_opt_list [of t] by simp
next
  case (Call l f as ks)
  then show ?thesis using weights_list [of as] weights_list [of ks] by simp
next
  case (DictE l ks vs)
  then show ?thesis using weights_list [of vs] weights_cat_opts [of ks] by simp
next
  case (Return l v)
  then show ?thesis using weights_opt_list [of v] by simp
next
  case (AnnAssign l t an v)
  then show ?thesis using weights_opt_list [of v] by simp
next
  case (Arg l a an)
  then show ?thesis using weights_opt_list [of an] by simp
next
  case (FormattedValue l v f)
  then show ?thesis using weights_opt_list [of f] by simp
qed (use weights_list in \<open>auto intro!: le_imp_less_Suc simp: le_SucI\<close>)

text \<open>\<open>ast.walk\<close>: breadth first, from a queue.\<close>

function walk_queue :: "ast list \<Rightarrow> ast list" where
  "walk_queue [] = []"
| "walk_queue (n # q) = n # walk_queue (q @ children n)"
  by pat_completeness auto
termination
  by (relation "measure weights") (use children_lighter in \<open>auto simp: less_Suc_eq_le\<close>)

definition ast_walk :: "ast \<Rightarrow> ast list" where
  "ast_walk n = walk_queue [n]"

text \<open>What a walk yields, without its order: the nodes below a node, itself included.\<close>

inductive below :: "ast \<Rightarrow> ast \<Rightarrow> bool" where
  below_refl: "below n n"
| below_child: "m \<in> set (children n) \<Longrightarrow> below m x \<Longrightarrow> below n x"

lemma below_unfold: "below n x \<longleftrightarrow> x = n \<or> (\<exists>m \<in> set (children n). below m x)"
proof
  assume "below n x"
  then show "x = n \<or> (\<exists>m \<in> set (children n). below m x)"
    by cases blast+
next
  assume "x = n \<or> (\<exists>m \<in> set (children n). below m x)"
  then show "below n x"
    by (blast intro: below.intros)
qed

lemma set_walk_queue: "x \<in> set (walk_queue q) \<longleftrightarrow> (\<exists>n \<in> set q. below n x)"
proof (induction q rule: walk_queue.induct)
  case 1
  then show ?case by simp
next
  case (2 n q)
  have "x \<in> set (walk_queue (n # q)) \<longleftrightarrow> x = n \<or> (\<exists>m \<in> set q \<union> set (children n). below m x)"
    using 2 by simp
  also have "\<dots> \<longleftrightarrow> (\<exists>m \<in> set q. below m x) \<or> below n x"
    using below_unfold [of n x] by blast
  finally show ?case by (auto simp del: walk_queue.simps)
qed

lemma set_ast_walk: "x \<in> set (ast_walk n) \<longleftrightarrow> below n x"
  by (simp add: ast_walk_def set_walk_queue del: walk_queue.simps)

section \<open>Recognisers\<close>

text \<open>\<open>isinstance(n, ast.Name)\<close> with \<open>n.id\<close>, and so on for the classes asked most often.\<close>

fun name_id :: "ast \<Rightarrow> string option" where
  "name_id (Name l i) = Some i"
| "name_id n = None"

fun tuple_elts :: "ast \<Rightarrow> ast list option" where
  "tuple_elts (TupleE l es) = Some es"
| "tuple_elts n = None"

fun call_parts :: "ast \<Rightarrow> (ast \<times> ast list \<times> ast list) option" where
  "call_parts (Call l f as ks) = Some (f, as, ks)"
| "call_parts n = None"

fun attr_parts :: "ast \<Rightarrow> (ast \<times> string) option" where
  "attr_parts (Attribute l v a) = Some (v, a)"
| "attr_parts n = None"

fun keyword_value :: "ast \<Rightarrow> ast option" where
  "keyword_value (Keyword l n v) = Some v"
| "keyword_value n = None"

fun arg_name :: "ast \<Rightarrow> string" where
  "arg_name (Arg l n an) = n"
| "arg_name n = []"

fun fun_parts :: "ast \<Rightarrow> (string \<times> ast \<times> ast list) option" where
  "fun_parts (FunctionDef a l n args b ds r) = Some (n, args, b)"
| "fun_parts n = None"

fun args_list :: "ast \<Rightarrow> ast list" where
  "args_list (Arguments po as va ko kd kw ds) = as"
| "args_list n = []"

definition fun_name :: "ast \<Rightarrow> string" where
  "fun_name f = (case fun_parts f of Some (n, args, b) \<Rightarrow> n | None \<Rightarrow> [])"

definition fun_args :: "ast \<Rightarrow> ast list" where
  "fun_args f = (case fun_parts f of Some (n, args, b) \<Rightarrow> args_list args | None \<Rightarrow> [])"

definition fun_body :: "ast \<Rightarrow> ast list" where
  "fun_body f = (case fun_parts f of Some (n, args, b) \<Rightarrow> b | None \<Rightarrow> [])"

lemma name_id_Some: "name_id n = Some i \<longleftrightarrow> (\<exists>l. n = Name l i)"
  by (cases n) auto

lemma call_parts_Some: "call_parts n = Some (f, as, ks) \<longleftrightarrow> (\<exists>l. n = Call l f as ks)"
  by (cases n) auto

section \<open>Dotted names\<close>

text \<open>
  The loop shared by every \<open>_get_call_name\<close>: attribute names are collected while the
  current node is an attribute; the name at the end closes the list.
\<close>

fun attr_loop :: "ast \<Rightarrow> string list \<Rightarrow> string list \<times> ast" where
  "attr_loop (Attribute l v a) parts = attr_loop v (parts @ [a])"
| "attr_loop n parts = (parts, n)"

fun chain_name :: "ast \<Rightarrow> string option" where
  "chain_name f =
     (case attr_loop f [] of
        (parts, Name l i) \<Rightarrow> Some (py_join ''.'' (rev (parts @ [i])))
      | _ \<Rightarrow> None)"

declare chain_name.simps [simp del]

text \<open>The dotted name by recursion on the attribute chain.\<close>

fun dotted :: "ast \<Rightarrow> string option" where
  "dotted (Name l i) = Some i"
| "dotted (Attribute l v a) = map_option (\<lambda>p. p @ ''.'' @ a) (dotted v)"
| "dotted n = None"

lemma dotted_closes:
  "(case attr_loop f ps of (qs, Name l i) \<Rightarrow> Some (py_join ''.'' (rev (qs @ [i]))) | _ \<Rightarrow> None)
   = map_option (\<lambda>p. py_join ''.'' (p # rev ps)) (dotted f)"
proof (induction f ps rule: attr_loop.induct)
  case (1 l v a ps)
  have "py_join ''.'' (p # a # rev ps) = py_join ''.'' ((p @ ''.'' @ a) # rev ps)" for p
    by (cases "rev ps") auto
  with 1 show ?case by (simp add: option.map_comp comp_def)
qed auto

lemma chain_name_dotted: "chain_name f = dotted f"
  using dotted_closes [of f "[]"]
  by (cases "attr_loop f []") (simp add: chain_name.simps option.map_ident del: rev_append)

end
