(* ===== verification/Def_Use.thy ===== *)
theory Def_Use
  imports Py_Ast
begin

text \<open>
  The intra-procedural def-use tracker (\<open>tcs/analysis/def_use.py\<close>): its tables, its
  state (\<open>LocalDefUseTracker\<close>) and its methods, in the order of the file. The tracker's
  fields \<open>tainted_vars\<close> and \<open>killed_vars\<close> are refined to one set of tainted variables
  over which the kill/gen equations of a taint analysis are stated.
  \<open>ast.unparse\<close>, whose text only labels an alias, is the argument \<open>up\<close>.
\<close>

section \<open>Tables and state\<close>

definition known_sanitizers :: "string list" where
  "known_sanitizers =
     [''int'', ''float'', ''bool'', ''shlex.quote'', ''html.escape'', ''urllib.parse.quote'',
      ''os.path.abspath'', ''os.path.realpath'', ''pathlib.Path.resolve'']"

record alias_info =
  ai_target :: string
  ai_source :: string
  ai_lineno :: nat
  ai_is_tainted :: bool
  ai_sanitizer :: "string option"

record tracker =
  alias_map :: "string \<rightharpoonup> alias_info"
  tainted_vars :: "string set"
  killed_vars :: "string set"
  function_name :: "string option"

definition reset_tracker :: tracker where
  "reset_tracker = \<lparr>alias_map = Map.empty, tainted_vars = {}, killed_vars = {}, function_name = None\<rparr>"

definition is_variable_tainted :: "tracker \<Rightarrow> string \<Rightarrow> bool" where
  "is_variable_tainted t x = (x \<in> tainted_vars t \<and> x \<notin> killed_vars t)"

section \<open>Expressions\<close>

fun is_safe_literal :: "ast \<Rightarrow> bool" where
  "is_safe_literal (Constant l c) = True"
| "is_safe_literal (ListE l es) = (es = [])"
| "is_safe_literal (DictE l ks vs) = (ks = [])"
| "is_safe_literal n = False"

text \<open>The name of a callee: a plain name or a chain of attributes that ends in one.\<close>

definition get_call_func_name :: "ast \<Rightarrow> string option" where
  "get_call_func_name f =
     (case name_id f of
        Some i \<Rightarrow> Some i
      | None \<Rightarrow> (case attr_parts f of Some (v, a) \<Rightarrow> chain_name f | None \<Rightarrow> None))"

definition extract_sanitizer_name :: "ast \<Rightarrow> string option" where
  "extract_sanitizer_name v =
     (case call_parts v of
        None \<Rightarrow> None
      | Some (f, as, ks) \<Rightarrow>
          (case get_call_func_name f of
             Some n \<Rightarrow> if n \<in> set known_sanitizers then Some n else None
           | None \<Rightarrow> None))"

definition get_source_name :: "ast \<Rightarrow> string" where
  "get_source_name v =
     (case call_parts v of
        Some (f, a # as, ks) \<Rightarrow> (case name_id a of Some i \<Rightarrow> i | None \<Rightarrow> ''<unknown>'')
      | _ \<Rightarrow> ''<unknown>'')"

fun is_node_tainted :: "tracker \<Rightarrow> ast \<Rightarrow> bool" where
  "is_node_tainted t (Name l i) = (i \<in> tainted_vars t \<and> i \<notin> killed_vars t)"
| "is_node_tainted t (BinOp l x y) = (is_node_tainted t x \<or> is_node_tainted t y)"
| "is_node_tainted t (JoinedStr l vs) = list_ex (is_node_tainted t) vs"
| "is_node_tainted t (Call l f as ks) =
     (is_node_tainted t f \<or> list_ex (is_node_tainted t) as
      \<or> list_ex (\<lambda>k. case k of Keyword l' n v \<Rightarrow> is_node_tainted t v | _ \<Rightarrow> False) ks)"
| "is_node_tainted t (Attribute l v a) = is_node_tainted t v"
| "is_node_tainted t (Subscript l v s) = (is_node_tainted t v \<or> is_node_tainted t s)"
| "is_node_tainted t (FormattedValue l v f) = is_node_tainted t v"
| "is_node_tainted t n = False"

section \<open>Assignments\<close>

definition set_alias :: "string \<Rightarrow> alias_info \<Rightarrow> tracker \<Rightarrow> tracker" where
  "set_alias x i t = t\<lparr>alias_map := (alias_map t)(x \<mapsto> i)\<rparr>"

text \<open>The two pairs of set updates the tracker performs: taint a name, kill a name.\<close>

definition gen_taint :: "string \<Rightarrow> tracker \<Rightarrow> tracker" where
  "gen_taint x t = t\<lparr>tainted_vars := insert x (tainted_vars t), killed_vars := killed_vars t - {x}\<rparr>"

definition kill_taint :: "string \<Rightarrow> tracker \<Rightarrow> tracker" where
  "kill_taint x t = t\<lparr>tainted_vars := tainted_vars t - {x}, killed_vars := insert x (killed_vars t)\<rparr>"

definition put_taint :: "bool \<Rightarrow> string \<Rightarrow> tracker \<Rightarrow> tracker" where
  "put_taint b x t = (if b then gen_taint x t else kill_taint x t)"

definition track_variable :: "(ast \<Rightarrow> string) \<Rightarrow> tracker \<Rightarrow> string \<Rightarrow> ast \<Rightarrow> nat \<Rightarrow> tracker" where
  "track_variable up t x v ln =
     (if is_safe_literal v then
        set_alias x \<lparr>ai_target = x, ai_source = ''<literal>'', ai_lineno = ln,
                     ai_is_tainted = False, ai_sanitizer = None\<rparr> (kill_taint x t)
      else case extract_sanitizer_name v of
        Some s \<Rightarrow>
          set_alias x \<lparr>ai_target = x, ai_source = get_source_name v, ai_lineno = ln,
                       ai_is_tainted = False, ai_sanitizer = Some s\<rparr> (kill_taint x t)
      | None \<Rightarrow>
         (case name_id v of
            Some src \<Rightarrow>
              (let b = (src \<in> tainted_vars t \<and> src \<notin> killed_vars t)
               in set_alias x \<lparr>ai_target = x, ai_source = src, ai_lineno = ln,
                               ai_is_tainted = b, ai_sanitizer = None\<rparr> (put_taint b x t))
          | None \<Rightarrow>
              (let b = is_node_tainted t v
               in set_alias x \<lparr>ai_target = x, ai_source = up v, ai_lineno = ln,
                               ai_is_tainted = b, ai_sanitizer = None\<rparr> (put_taint b x t))))"

text \<open>The element-wise loop over a tuple target and a tuple value of the same length.\<close>

fun track_pairs :: "(ast \<Rightarrow> string) \<Rightarrow> tracker \<Rightarrow> (ast \<times> ast) list \<Rightarrow> nat \<Rightarrow> tracker" where
  "track_pairs up t [] ln = t"
| "track_pairs up t ((x, v) # ps) ln =
     track_pairs up (case name_id x of Some i \<Rightarrow> track_variable up t i v ln | None \<Rightarrow> t) ps ln"

text \<open>\<open>targets\<close> is the target list of an \<open>Assign\<close>; Python never leaves it empty.\<close>

fun process_assignment :: "(ast \<Rightarrow> string) \<Rightarrow> tracker \<Rightarrow> ast list \<Rightarrow> ast \<Rightarrow> nat \<Rightarrow> tracker" where
  "process_assignment up t [] v ln = t"
| "process_assignment up t (x # rest) v ln =
     (case tuple_elts x of
        Some ts \<Rightarrow>
          (case tuple_elts v of
             Some vs \<Rightarrow> if length ts = length vs then track_pairs up t (zip ts vs) ln else t
           | None \<Rightarrow> t)
      | None \<Rightarrow> (case name_id x of Some i \<Rightarrow> track_variable up t i v ln | None \<Rightarrow> t))"

definition process_annotated_assignment :: "(ast \<Rightarrow> string) \<Rightarrow> tracker \<Rightarrow> ast \<Rightarrow> ast option \<Rightarrow> nat \<Rightarrow> tracker" where
  "process_annotated_assignment up t x v ln =
     (case (name_id x, v) of (Some i, Some w) \<Rightarrow> track_variable up t i w ln | _ \<Rightarrow> t)"

definition process_augmented_assignment :: "tracker \<Rightarrow> ast \<Rightarrow> ast \<Rightarrow> tracker" where
  "process_augmented_assignment t x v =
     (case name_id x of
        None \<Rightarrow> t
      | Some i \<Rightarrow>
          if i \<in> tainted_vars t \<and> i \<notin> killed_vars t then t
          else if is_node_tainted t v then gen_taint i t
          else t)"

section \<open>Statements\<close>

fun process_statement :: "(ast \<Rightarrow> string) \<Rightarrow> tracker \<Rightarrow> ast \<Rightarrow> tracker" where
  "process_statement up t (Assign l ts v) = process_assignment up t ts v l"
| "process_statement up t (AnnAssign l x an v) = process_annotated_assignment up t x v l"
| "process_statement up t (AugAssign l x v) = process_augmented_assignment t x v"
| "process_statement up t (For l x i b e) = foldl (process_statement up) t b"
| "process_statement up t (While l c b e) = foldl (process_statement up) t b"
| "process_statement up t (If l c b e) =
     foldl (process_statement up) (foldl (process_statement up) t b) e"
| "process_statement up t (Try l b hs e f) =
     foldl (process_statement up)
       (foldl (\<lambda>u h. case h of ExceptHandler l' ty hb \<Rightarrow> foldl (process_statement up) u hb | _ \<Rightarrow> u)
          (foldl (process_statement up) t b) hs) f"
| "process_statement up t n = t"

definition params_taint :: "ast \<Rightarrow> string set" where
  "params_taint f = set (filter (\<lambda>x. x \<noteq> ''self'') (map arg_name (fun_args f)))"

definition analyze_function :: "(ast \<Rightarrow> string) \<Rightarrow> ast \<Rightarrow> tracker" where
  "analyze_function up f =
     foldl (process_statement up)
       (reset_tracker\<lparr>function_name := Some (fun_name f), tainted_vars := params_taint f\<rparr>) (fun_body f)"

section \<open>Queries\<close>

text \<open>
  The loop of \<open>get_alias_chain\<close> and \<open>trace_taint_path\<close> stops at a name it has visited;
  the fuel is the number of names it can still visit.
\<close>

definition stop_source :: "string \<Rightarrow> bool" where
  "stop_source s = (s = [] \<or> s = ''<literal>'' \<or> s = ''<unknown>'' \<or> s = ''<complex_expr>'')"

fun chain_loop :: "nat \<Rightarrow> tracker \<Rightarrow> string \<Rightarrow> string list \<Rightarrow> (string \<times> nat) list \<Rightarrow> ((string \<times> nat) list \<times> string) option" where
  "chain_loop 0 t cur visited path = None"
| "chain_loop (Suc fuel) t cur visited path =
     (case alias_map t cur of
        None \<Rightarrow> Some (path, cur)
      | Some i \<Rightarrow>
          if cur \<in> set visited then Some (path, cur)
          else if stop_source (ai_source i) then Some (path @ [(cur, ai_lineno i)], cur)
          else chain_loop fuel t (ai_source i) (cur # visited) (path @ [(cur, ai_lineno i)]))"

definition get_alias_chain :: "nat \<Rightarrow> tracker \<Rightarrow> string \<Rightarrow> string list option" where
  "get_alias_chain fuel t x = map_option (\<lambda>(p, c). map fst p) (chain_loop fuel t x [] [])"

definition trace_taint_path :: "nat \<Rightarrow> tracker \<Rightarrow> string \<Rightarrow> (string \<times> nat) list option option" where
  "trace_taint_path fuel t x =
     (if \<not> is_variable_tainted t x then Some None
      else case chain_loop fuel t x [] [] of
        None \<Rightarrow> None
      | Some (p, c) \<Rightarrow>
          (let p' = (if c \<in> tainted_vars t \<and> alias_map t c = None then p @ [(c, 0)] else p)
           in Some (if p' = [] then None else Some (rev p'))))"

definition get_tainted_aliases :: "tracker \<Rightarrow> (string \<rightharpoonup> alias_info)" where
  "get_tainted_aliases t =
     (\<lambda>x. case alias_map t x of
        None \<Rightarrow> None
      | Some i \<Rightarrow> if ai_is_tainted i \<and> x \<notin> killed_vars t then Some i else None)"

section \<open>Specification: kill and gen over one set\<close>

text \<open>The names whose taint reaches the value of an expression.\<close>

fun carriers :: "ast \<Rightarrow> string set" where
  "carriers (Name l i) = {i}"
| "carriers (BinOp l x y) = carriers x \<union> carriers y"
| "carriers (JoinedStr l vs) = (\<Union>v \<in> set vs. carriers v)"
| "carriers (Call l f as ks) =
     carriers f \<union> (\<Union>a \<in> set as. carriers a)
     \<union> (\<Union>k \<in> set ks. case k of Keyword l' n v \<Rightarrow> carriers v | _ \<Rightarrow> {})"
| "carriers (Attribute l v a) = carriers v"
| "carriers (Subscript l v s) = carriers v \<union> carriers s"
| "carriers (FormattedValue l v f) = carriers v"
| "carriers n = {}"

text \<open>The same for an assigned value: a literal and a sanitizer call carry nothing.\<close>

definition value_carriers :: "ast \<Rightarrow> string set" where
  "value_carriers v =
     (if is_safe_literal v \<or> extract_sanitizer_name v \<noteq> None then {} else carriers v)"

datatype flow_step = Bind string ast | Augment string ast

fun step_flow :: "string set \<Rightarrow> flow_step \<Rightarrow> string set" where
  "step_flow T (Bind x v) = (if value_carriers v \<inter> T \<noteq> {} then insert x T else T - {x})"
| "step_flow T (Augment x v) = (if carriers v \<inter> T \<noteq> {} then insert x T else T)"

definition pair_steps :: "(ast \<times> ast) list \<Rightarrow> flow_step list" where
  "pair_steps ps = concat (map (\<lambda>(x, v). case name_id x of Some i \<Rightarrow> [Bind i v] | None \<Rightarrow> []) ps)"

fun assign_steps :: "ast list \<Rightarrow> ast \<Rightarrow> flow_step list" where
  "assign_steps [] v = []"
| "assign_steps (x # rest) v =
     (case (tuple_elts x, tuple_elts v) of
        (Some ts, Some vs) \<Rightarrow> if length ts = length vs then pair_steps (zip ts vs) else []
      | (Some ts, None) \<Rightarrow> []
      | (None, _) \<Rightarrow> pair_steps [(x, v)])"

text \<open>
  The assignments of a statement in the order the tracker applies them: the branches of a
  conditional, the handlers of a \<open>try\<close> and a loop body follow one another. The \<open>else\<close>
  part of a loop or of a \<open>try\<close>, \<open>with\<close> blocks and nested definitions have none.
\<close>

fun steps_of :: "ast \<Rightarrow> flow_step list" where
  "steps_of (Assign l ts v) = assign_steps ts v"
| "steps_of (AnnAssign l x an v) = (case v of Some w \<Rightarrow> pair_steps [(x, w)] | None \<Rightarrow> [])"
| "steps_of (AugAssign l x v) = (case name_id x of Some i \<Rightarrow> [Augment i v] | None \<Rightarrow> [])"
| "steps_of (For l x i b e) = concat (map steps_of b)"
| "steps_of (While l c b e) = concat (map steps_of b)"
| "steps_of (If l c b e) = concat (map steps_of b) @ concat (map steps_of e)"
| "steps_of (Try l b hs e f) =
     concat (map steps_of b)
     @ concat (map (\<lambda>h. case h of ExceptHandler l' ty hb \<Rightarrow> concat (map steps_of hb) | _ \<Rightarrow> []) hs)
     @ concat (map steps_of f)"
| "steps_of n = []"

definition taints :: "tracker \<Rightarrow> string set" where
  "taints t = tainted_vars t - killed_vars t"

section \<open>The tracker refines the specification\<close>

lemma mem_taints: "x \<in> tainted_vars t \<and> x \<notin> killed_vars t \<longleftrightarrow> x \<in> taints t"
  by (simp add: taints_def)

lemma taints_iff: "is_variable_tainted t x \<longleftrightarrow> x \<in> taints t"
  by (simp add: is_variable_tainted_def mem_taints)

lemma taints_set_alias [simp]: "taints (set_alias x i t) = taints t"
  by (simp add: taints_def set_alias_def)

lemma taints_gen [simp]: "taints (gen_taint x t) = insert x (taints t)"
  by (auto simp: taints_def gen_taint_def)

lemma taints_kill [simp]: "taints (kill_taint x t) = taints t - {x}"
  by (auto simp: taints_def kill_taint_def)

lemma taints_put [simp]: "taints (put_taint b x t) = (if b then insert x (taints t) else taints t - {x})"
  by (simp add: put_taint_def)

lemma is_node_tainted_carriers: "is_node_tainted t n \<longleftrightarrow> carriers n \<inter> taints t \<noteq> {}"
proof (induction t n rule: is_node_tainted.induct)
  case (4 t l f as ks)
  have "(case k of Keyword l' n v \<Rightarrow> is_node_tainted t v | _ \<Rightarrow> False)
      \<longleftrightarrow> (case k of Keyword l' n v \<Rightarrow> carriers v | _ \<Rightarrow> {}) \<inter> taints t \<noteq> {}" if "k \<in> set ks" for k
    using that 4(3) by (cases rule: ast.exhaust [of k]) simp_all
  with 4(1,2) show ?case by (auto simp: list_ex_iff)
qed (auto simp: mem_taints list_ex_iff)

lemma taints_track_variable: "taints (track_variable up t x v ln) = step_flow (taints t) (Bind x v)"
proof (cases "is_safe_literal v \<or> extract_sanitizer_name v \<noteq> None")
  case True
  then show ?thesis
    by (auto simp: track_variable_def value_carriers_def split: option.split)
next
  case False
  then have k: "\<not> is_safe_literal v" "extract_sanitizer_name v = None"
    by simp_all
  show ?thesis
  proof (cases "name_id v")
    case None
    with k show ?thesis
      by (simp add: track_variable_def value_carriers_def Let_def is_node_tainted_carriers)
  next
    case (Some i)
    then have "carriers v = {i}" by (auto simp: name_id_Some)
    with k Some show ?thesis
      by (simp add: track_variable_def value_carriers_def Let_def mem_taints)
  qed
qed

lemma taints_track_pairs: "taints (track_pairs up t ps ln) = foldl step_flow (taints t) (pair_steps ps)"
  by (induction ps arbitrary: t)
    (auto simp: pair_steps_def taints_track_variable simp del: step_flow.simps split: option.splits)

lemma taints_process_assignment:
  "taints (process_assignment up t ts v ln) = foldl step_flow (taints t) (assign_steps ts v)"
  by (cases ts)
    (auto simp: taints_track_pairs taints_track_variable pair_steps_def simp del: step_flow.simps
      split: option.splits)

lemma taints_process_annotated:
  "taints (process_annotated_assignment up t x v ln) =
   foldl step_flow (taints t) (case v of Some w \<Rightarrow> pair_steps [(x, w)] | None \<Rightarrow> [])"
  by (auto simp: process_annotated_assignment_def pair_steps_def taints_track_variable
      simp del: step_flow.simps split: option.splits)

lemma taints_process_augmented:
  "taints (process_augmented_assignment t x v) =
   foldl step_flow (taints t) (case name_id x of Some i \<Rightarrow> [Augment i v] | None \<Rightarrow> [])"
proof (cases "name_id x")
  case None
  then show ?thesis by (simp add: process_augmented_assignment_def)
next
  case (Some i)
  then show ?thesis
    by (simp add: process_augmented_assignment_def is_node_tainted_carriers mem_taints insert_absorb)
qed

lemma taints_block:
  assumes "\<And>u s. s \<in> set b \<Longrightarrow> taints (process_statement up u s) = foldl step_flow (taints u) (steps_of s)"
  shows "taints (foldl (process_statement up) t b) = foldl step_flow (taints t) (concat (map steps_of b))"
  unfolding foldl_concat_map by (rule foldl_simulation [where ab = taints]) (rule assms)

lemma taints_process_statement:
  "taints (process_statement up t s) = foldl step_flow (taints t) (steps_of s)"
proof (induction up t s rule: process_statement.induct)
  case (7 up t l b hs e f)
  let ?run = "\<lambda>u h. case h of ExceptHandler l' ty hb \<Rightarrow> foldl (process_statement up) u hb | _ \<Rightarrow> u"
  let ?steps = "\<lambda>h. case h of ExceptHandler l' ty hb \<Rightarrow> concat (map steps_of hb) | _ \<Rightarrow> []"
  have "taints (?run u h) = foldl step_flow (taints u) (?steps h)" if "h \<in> set hs" for h u
    using that 7(2) by (cases rule: ast.exhaust [of h]) (simp_all add: taints_block)
  then have "taints (foldl ?run u hs) = foldl step_flow (taints u) (concat (map ?steps hs))" for u
    unfolding foldl_concat_map by (rule foldl_simulation [where ab = taints])
  with 7(1,3) show ?case by (simp add: taints_block)
qed (simp_all add: taints_process_assignment taints_process_annotated taints_process_augmented taints_block)

lemma taints_analyze_function:
  "taints (analyze_function up f) = foldl step_flow (params_taint f) (concat (map steps_of (fun_body f)))"
  by (simp add: analyze_function_def taints_block taints_process_statement)
    (simp add: taints_def reset_tracker_def)

section \<open>The tracker's invariant\<close>

text \<open>
  No name is both tainted and killed; an alias is stored under its target; an alias marked
  tainted belongs to a name that is tainted now and went through no sanitizer.
\<close>

definition tracker_ok :: "tracker \<Rightarrow> bool" where
  "tracker_ok t \<longleftrightarrow>
     tainted_vars t \<inter> killed_vars t = {}
     \<and> finite (dom (alias_map t))
     \<and> (\<forall>x i. alias_map t x = Some i \<longrightarrow>
          ai_target i = x \<and> (ai_is_tainted i \<longrightarrow> x \<in> tainted_vars t \<and> ai_sanitizer i = None))"

lemma tracker_ok_gen: "tracker_ok t \<Longrightarrow> tracker_ok (gen_taint x t)"
  by (auto simp: tracker_ok_def gen_taint_def)

lemma tracker_ok_rebind:
  assumes "tracker_ok t" "ai_target i = x" "ai_is_tainted i = b" "b \<longrightarrow> ai_sanitizer i = None"
  shows "tracker_ok (set_alias x i (put_taint b x t))"
  using assms by (auto simp: tracker_ok_def set_alias_def put_taint_def gen_taint_def kill_taint_def)

lemma kill_put: "kill_taint x t = put_taint False x t"
  by (simp add: put_taint_def)

lemma tracker_ok_track_variable: "tracker_ok t \<Longrightarrow> tracker_ok (track_variable up t x v ln)"
  unfolding track_variable_def Let_def kill_put
  by (auto intro!: tracker_ok_rebind split: option.split)

lemma tracker_ok_track_pairs: "tracker_ok t \<Longrightarrow> tracker_ok (track_pairs up t ps ln)"
  by (induction ps arbitrary: t) (auto simp: tracker_ok_track_variable split: option.split)

lemma tracker_ok_process_assignment: "tracker_ok t \<Longrightarrow> tracker_ok (process_assignment up t ts v ln)"
  by (cases ts) (auto simp: tracker_ok_track_pairs tracker_ok_track_variable split: option.split)

lemma tracker_ok_block:
  assumes "\<And>u s. s \<in> set b \<Longrightarrow> tracker_ok u \<Longrightarrow> tracker_ok (process_statement up u s)" and "tracker_ok t"
  shows "tracker_ok (foldl (process_statement up) t b)"
  using assms(2,1) by (rule foldl_invariant)

lemma tracker_ok_process_statement: "tracker_ok t \<Longrightarrow> tracker_ok (process_statement up t s)"
proof (induction up t s rule: process_statement.induct)
  case (1 up t l ts v)
  then show ?case by (simp add: tracker_ok_process_assignment)
next
  case (2 up t l x an v)
  then show ?case
    by (auto simp: process_annotated_assignment_def tracker_ok_track_variable split: option.split)
next
  case (3 up t l x v)
  then show ?case
    by (auto simp: process_augmented_assignment_def tracker_ok_gen split: option.split)
next
  case (7 up t l b hs e f)
  let ?run = "\<lambda>u h. case h of ExceptHandler l' ty hb \<Rightarrow> foldl (process_statement up) u hb | _ \<Rightarrow> u"
  have "tracker_ok (?run u h)" if "h \<in> set hs" "tracker_ok u" for h u
    using that 7(2) by (cases rule: ast.exhaust [of h]) (simp_all add: tracker_ok_block)
  then have "tracker_ok u \<Longrightarrow> tracker_ok (foldl ?run u hs)" for u
    by (blast intro: foldl_invariant [where P = tracker_ok])
  with 7(1,3,4) show ?case by (simp add: tracker_ok_block)
qed (simp_all add: tracker_ok_block)

lemma tracker_ok_analyze_function: "tracker_ok (analyze_function up f)"
proof -
  have "tracker_ok (reset_tracker\<lparr>function_name := Some n, tainted_vars := T\<rparr>)" for n T
    by (simp add: tracker_ok_def reset_tracker_def)
  then show ?thesis
    unfolding analyze_function_def by (simp add: tracker_ok_block tracker_ok_process_statement)
qed

section \<open>The alias walk\<close>

lemma chain_loop_returns:
  assumes "finite (dom (alias_map t))" "card (dom (alias_map t) - set visited) < fuel"
  shows "\<exists>r. chain_loop fuel t cur visited path = Some r"
  using assms(2)
proof (induction fuel arbitrary: cur visited path)
  case 0
  then show ?case by simp
next
  case (Suc fuel)
  show ?case
  proof (cases "alias_map t cur")
    case (Some i)
    show ?thesis
    proof (cases "cur \<in> set visited")
      case False
      with Some have "dom (alias_map t) - set (cur # visited) \<subset> dom (alias_map t) - set visited"
        by auto
      with assms(1) have "card (dom (alias_map t) - set (cur # visited)) < card (dom (alias_map t) - set visited)"
        by (intro psubset_card_mono) auto
      with Suc.prems have "card (dom (alias_map t) - set (cur # visited)) < fuel"
        by simp
      with Some False show ?thesis using Suc.IH by simp
    qed (simp add: Some)
  qed simp
qed

text \<open>A chain from \<open>x\<close>: each name is the source of the alias before it, with the alias's line.\<close>

fun is_chain :: "tracker \<Rightarrow> string \<Rightarrow> (string \<times> nat) list \<Rightarrow> bool" where
  "is_chain t x [] = True"
| "is_chain t x ((n, l) # ps) =
     (n = x \<and> (case alias_map t x of
        None \<Rightarrow> False
      | Some i \<Rightarrow> l = ai_lineno i \<and> is_chain t (ai_source i) ps))"

lemma is_chain_names: "is_chain t x ps \<Longrightarrow> fst ` set ps \<subseteq> dom (alias_map t)"
  by (induction t x ps rule: is_chain.induct) (auto split: option.splits)

lemma chain_loop_chain:
  "chain_loop fuel t cur visited path = Some (p, c) \<Longrightarrow>
   \<exists>q. p = path @ q \<and> is_chain t cur q \<and> distinct (map fst q) \<and> fst ` set q \<inter> set visited = {}
       \<and> (q = [] \<longrightarrow> c = cur) \<and> (q = [] \<longleftrightarrow> alias_map t cur = None \<or> cur \<in> set visited)"
proof (induction fuel t cur visited path rule: chain_loop.induct)
  case (1 t cur visited path)
  then show ?case by simp
next
  case (2 fuel t cur visited path)
  show ?case
  proof (cases "alias_map t cur")
    case None
    with 2(2) show ?thesis by simp
  next
    case (Some i)
    show ?thesis
    proof (cases "cur \<in> set visited \<or> stop_source (ai_source i)")
      case True
      with 2(2) Some show ?thesis by (auto split: if_splits)
    next
      case False
      with Some 2 obtain q where q: "p = path @ (cur, ai_lineno i) # q" "is_chain t (ai_source i) q"
          "distinct (map fst q)" "fst ` set q \<inter> set (cur # visited) = {}"
        by auto
      with Some False show ?thesis
        by (intro exI [of _ "(cur, ai_lineno i) # q"]) auto
    qed
  qed
qed

lemma step_flow_mono: "T \<subseteq> U \<Longrightarrow> step_flow T st \<subseteq> step_flow U st"
  by (cases st) auto

lemma flow_mono: "T \<subseteq> U \<Longrightarrow> foldl step_flow T sts \<subseteq> foldl step_flow U sts"
  by (induction sts arbitrary: T U) (simp_all add: step_flow_mono)

section \<open>Properties\<close>


text \<open>
  After every analysis no variable is both tainted and killed, every alias is filed under
  its own target, and an alias marked tainted belongs to a variable that is tainted and was
  not produced by a sanitizer.
\<close>

theorem analyze_function_ok: "tracker_ok (analyze_function up f)"
  by (rule tracker_ok_analyze_function)

text \<open>
  The analysis is monotone: a state with more tainted variables never leads to fewer
  tainted variables after any statement, nested blocks included.
\<close>

theorem process_statement_mono:
  "{x. is_variable_tainted t x} \<subseteq> {x. is_variable_tainted u x} \<Longrightarrow>
   {x. is_variable_tainted (process_statement up t s) x} \<subseteq> {x. is_variable_tainted (process_statement up u s) x}"
  by (simp add: taints_iff taints_process_statement flow_mono)

theorem process_statement_mono_witness:
  "{x. is_variable_tainted (process_statement (\<lambda>n. []) reset_tracker (Assign 1 [Name 1 ''a''] (Name 1 ''b''))) x}
   \<subseteq> {x. is_variable_tainted (process_statement (\<lambda>n. []) (gen_taint ''b'' reset_tracker)
            (Assign 1 [Name 1 ''a''] (Name 1 ''b''))) x}
   \<and> is_variable_tainted (process_statement (\<lambda>n. []) (gen_taint ''b'' reset_tracker)
            (Assign 1 [Name 1 ''a''] (Name 1 ''b''))) ''a''"
proof -
  have h: "{x. is_variable_tainted reset_tracker x} \<subseteq> {x. is_variable_tainted (gen_taint ''b'' reset_tracker) x}"
    by (simp add: is_variable_tainted_def reset_tracker_def)
  show ?thesis
    using process_statement_mono [OF h, of "\<lambda>n. []" "Assign 1 [Name 1 ''a''] (Name 1 ''b'')"]
    by (simp only: taints_iff taints_process_statement)
      (simp add: pair_steps_def value_carriers_def extract_sanitizer_name_def)
qed

text \<open>
  C36: the taint trace of a tainted variable always exists (the walk over aliases ends, with
  fuel for each alias), names each variable once, follows the recorded aliases from the
  variable back to its source, and is closed by the tainted parameter it reaches, if any; it
  is returned source first.
\<close>

theorem trace_taint_path_total:
  assumes "is_variable_tainted (analyze_function up f) x"
    and "card (dom (alias_map (analyze_function up f))) < fuel"
  shows "\<exists>p q. trace_taint_path fuel (analyze_function up f) x = Some (Some p)
     \<and> is_chain (analyze_function up f) x q \<and> distinct (map fst p) \<and> fst (last p) = x
     \<and> (rev p = q \<or> (\<exists>c. rev p = q @ [(c, 0)] \<and> c \<in> tainted_vars (analyze_function up f)
                         \<and> alias_map (analyze_function up f) c = None))"
proof -
  let ?t = "analyze_function up f"
  have fin: "finite (dom (alias_map ?t))"
    using tracker_ok_analyze_function [of up f] by (simp add: tracker_ok_def)
  obtain q c where r: "chain_loop fuel ?t x [] [] = Some (q, c)"
    using chain_loop_returns [of ?t "[]" fuel x "[]"] fin assms(2) by auto
  from chain_loop_chain [OF r] have q: "is_chain ?t x q" "distinct (map fst q)"
      "q = [] \<longrightarrow> c = x" "q = [] \<longleftrightarrow> alias_map ?t x = None"
    by auto
  from is_chain_names [OF q(1)] have n: "fst ` set q \<subseteq> dom (alias_map ?t)" .
  have x: "x \<in> tainted_vars ?t"
    using assms(1) by (simp add: is_variable_tainted_def)
  have hd: "q \<noteq> [] \<Longrightarrow> fst (hd q) = x"
    using q(1) by (cases q) auto
  show ?thesis
  proof (cases "c \<in> tainted_vars ?t \<and> alias_map ?t c = None")
    case True
    with n have c: "c \<notin> fst ` set q" by auto
    have tr: "trace_taint_path fuel ?t x = Some (Some ((c, 0) # rev q))"
      using True assms(1) r by (simp add: trace_taint_path_def)
    have "fst (last ((c, 0) # rev q)) = x"
      using hd q(3) by (cases "q = []") (simp_all add: last_rev)
    with tr True q(1,2) c show ?thesis
      by (intro exI [of _ "(c, 0) # rev q"] exI [of _ q]) (simp flip: rev_map)
  next
    case False
    with q(3,4) x have "q \<noteq> []" by auto
    moreover have "trace_taint_path fuel ?t x = Some (Some (rev q))"
      using False assms(1) r \<open>q \<noteq> []\<close> by (simp add: trace_taint_path_def)
    ultimately show ?thesis
      using q(1,2) hd by (intro exI [of _ "rev q"] exI [of _ q]) (simp add: last_rev flip: rev_map)
  qed
qed

definition sample_function :: ast where
  "sample_function =
     FunctionDef False 1 ''f'' (Arguments [] [Arg 1 ''p'' None] None [] [] None [])
       [Assign 2 [Name 2 ''a''] (Name 2 ''p''),
        Assign 3 [Name 3 ''b''] (BinOp 3 (Constant 3 (CStr ''x'')) (Name 3 ''a''))] [] None"

lemma sample_function_runs:
  "is_variable_tainted (analyze_function (\<lambda>n. ''<complex_expr>'') sample_function) ''b''"
  "dom (alias_map (analyze_function (\<lambda>n. ''<complex_expr>'') sample_function)) = {''a'', ''b''}"
  by (auto simp: sample_function_def analyze_function_def fun_body_def fun_name_def params_taint_def fun_args_def
      track_variable_def put_taint_def gen_taint_def set_alias_def reset_tracker_def is_variable_tainted_def
      extract_sanitizer_name_def Let_def)

theorem trace_taint_path_total_witness:
  "\<exists>p q. trace_taint_path 3 (analyze_function (\<lambda>n. ''<complex_expr>'') sample_function) ''b'' = Some (Some p)
     \<and> is_chain (analyze_function (\<lambda>n. ''<complex_expr>'') sample_function) ''b'' q
     \<and> distinct (map fst p) \<and> fst (last p) = ''b''"
  using trace_taint_path_total [OF sample_function_runs(1), of 3] sample_function_runs(2) by auto

text \<open>
  Branches are not joined: whatever the first branch of a conditional does, a final
  literal assignment in its \<open>else\<close> branch leaves the variable clean, although the branch
  taken may have tainted it (the code calls this processing conservative).
\<close>

theorem else_branch_overwrites:
  "is_safe_literal v \<Longrightarrow>
   \<not> is_variable_tainted (process_statement up t (If l c b (e @ [Assign l' [Name l'' x] v]))) x"
  by (simp add: taints_iff taints_track_variable value_carriers_def)

theorem else_branch_overwrites_witness:
  "\<not> is_variable_tainted (process_statement (\<lambda>n. []) (gen_taint ''p'' reset_tracker)
        (If 1 (Name 1 ''c'') [Assign 2 [Name 2 ''x''] (Name 2 ''p'')]
           ([] @ [Assign 4 [Name 4 ''x''] (Constant 4 (CStr ''ok''))]))) ''x''
   \<and> is_variable_tainted (process_statement (\<lambda>n. []) (gen_taint ''p'' reset_tracker)
        (Assign 2 [Name 2 ''x''] (Name 2 ''p''))) ''x''"
proof -
  have h: "is_safe_literal (Constant 4 (CStr ''ok''))" by simp
  show ?thesis
    using else_branch_overwrites [OF h, of "\<lambda>n. []" "gen_taint ''p'' reset_tracker" 1 "Name 1 ''c''"
        "[Assign 2 [Name 2 ''x''] (Name 2 ''p'')]" "[]" 4 4 "''x''"]
    by (simp only: taints_iff taints_process_statement)
      (simp add: pair_steps_def value_carriers_def extract_sanitizer_name_def)
qed

end
