(* ===== verification/Contracts.thy ===== *)
theory Contracts
  imports Py_Ast
begin

text \<open>
  The extractor of function contracts (\<open>tcs/analysis/function_contracts.py\<close>): a wrapper
  whose parameter reaches a known sink unguarded becomes a contract. Its tables, the
  contract record, the search of one function, the filter \<open>_verify_clean_flow\<close> and the
  module pass, with the lemmas that say what a registered contract guarantees.
\<close>

section \<open>Tables\<close>

definition known_sinks :: "(string \<times> string) list" where
  "known_sinks =
     [(''execute'', ''CWE-89''), (''cursor.execute'', ''CWE-89''), (''conn.execute'', ''CWE-89''),
      (''db.execute'', ''CWE-89''),
      (''subprocess.run'', ''CWE-78''), (''subprocess.call'', ''CWE-78''),
      (''subprocess.Popen'', ''CWE-78''), (''os.system'', ''CWE-78''), (''os.popen'', ''CWE-78''),
      (''os.execvp'', ''CWE-78''), (''os.execl'', ''CWE-78''),
      (''open'', ''CWE-22''), (''os.open'', ''CWE-22''), (''pathlib.Path.open'', ''CWE-22''),
      (''eval'', ''CWE-95''), (''exec'', ''CWE-95''), (''compile'', ''CWE-95''),
      (''pickle.loads'', ''CWE-502''), (''yaml.load'', ''CWE-502''), (''marshal.loads'', ''CWE-502''),
      (''requests.get'', ''CWE-918''), (''requests.post'', ''CWE-918''),
      (''urllib.request.urlopen'', ''CWE-918''),
      (''flask.render_template_string'', ''CWE-79''), (''jinja2.Template.render'', ''CWE-79'')]"

definition contract_sanitizers :: "string list" where
  "contract_sanitizers =
     [''int'', ''float'', ''bool'', ''shlex.quote'', ''html.escape'', ''urllib.parse.quote'',
      ''os.path.abspath'', ''os.path.realpath'', ''pathlib.Path.resolve'']"

record contract =
  c_func_name :: string
  c_sink_arg_index :: nat
  c_cwe_id :: string
  c_target_sink :: string
  c_func_lineno :: nat
  c_sink_lineno :: nat

section \<open>Names and literals\<close>

definition contract_call_name :: "ast \<Rightarrow> string option" where
  "contract_call_name f =
     (case name_id f of
        Some i \<Rightarrow> Some i
      | None \<Rightarrow> (case attr_parts f of Some (v, a) \<Rightarrow> chain_name f | None \<Rightarrow> None))"

fun is_constant :: "ast \<Rightarrow> bool" where
  "is_constant (Constant l c) = True"
| "is_constant n = False"

text \<open>\<open>name.split(".")[-1]\<close>\<close>

definition short_name :: "string \<Rightarrow> string" where
  "short_name s = last (py_split CHR ''.'' s)"

definition sink_shortnames :: "string list" where
  "sink_shortnames = map (short_name \<circ> fst) known_sinks"

section \<open>The flow filter\<close>

text \<open>A value that makes an assignment to the parameter break the flow.\<close>

definition breaks_flow :: "ast \<Rightarrow> bool" where
  "breaks_flow v =
     (is_constant v
      \<or> (case call_parts v of
           Some (f, as, ks) \<Rightarrow>
             (case contract_call_name f of Some n \<Rightarrow> n \<in> set contract_sanitizers | None \<Rightarrow> False)
         | None \<Rightarrow> False))"

fun node_breaks :: "string \<Rightarrow> ast \<Rightarrow> bool" where
  "node_breaks p (If l c b e) = True"
| "node_breaks p (Assign l ts v) = (list_ex (\<lambda>t. name_id t = Some p) ts \<and> breaks_flow v)"
| "node_breaks p (AnnAssign l t an v) =
     (name_id t = Some p \<and> (case v of Some w \<Rightarrow> breaks_flow w | None \<Rightarrow> False))"
| "node_breaks p n = False"

definition verify_clean_flow :: "ast \<Rightarrow> string \<Rightarrow> nat \<Rightarrow> bool" where
  "verify_clean_flow f p sink_line =
     (\<not> list_ex (\<lambda>n. case lineno n of None \<Rightarrow> False | Some l \<Rightarrow> l < sink_line \<and> node_breaks p n) (ast_walk f))"

section \<open>One function\<close>

text \<open>\<open>xs.index(x)\<close> for an element of the list.\<close>

fun index_of :: "'a list \<Rightarrow> 'a \<Rightarrow> nat" where
  "index_of [] x = 0"
| "index_of (y # ys) x = (if x = y then 0 else Suc (index_of ys x))"

text \<open>The first argument of a sink call that is a parameter with a clean flow.\<close>

fun clean_param_arg :: "ast \<Rightarrow> string list \<Rightarrow> nat \<Rightarrow> ast list \<Rightarrow> string option" where
  "clean_param_arg f params line [] = None"
| "clean_param_arg f params line (a # as) =
     (case name_id a of
        Some p \<Rightarrow> if p \<in> set params \<and> verify_clean_flow f p line then Some p
                  else clean_param_arg f params line as
      | None \<Rightarrow> clean_param_arg f params line as)"

definition keyword_values :: "ast list \<Rightarrow> ast list" where
  "keyword_values ks = concat (map (\<lambda>k. opt_list (keyword_value k)) ks)"

definition node_line :: "ast \<Rightarrow> nat" where
  "node_line n = (case lineno n of Some l \<Rightarrow> l | None \<Rightarrow> 0)"

definition call_contract :: "ast \<Rightarrow> string list \<Rightarrow> ast \<Rightarrow> contract option" where
  "call_contract f params n =
     (case call_parts n of
        None \<Rightarrow> None
      | Some (g, as, ks) \<Rightarrow>
          (case contract_call_name g of
             None \<Rightarrow> None
           | Some sink \<Rightarrow>
               (if sink = [] then None
                else case map_of known_sinks sink of
                  None \<Rightarrow> None
                | Some cwe \<Rightarrow>
                    (case clean_param_arg f params (node_line n) (as @ keyword_values ks) of
                       None \<Rightarrow> None
                     | Some p \<Rightarrow>
                         Some \<lparr>c_func_name = fun_name f, c_sink_arg_index = index_of params p,
                               c_cwe_id = cwe, c_target_sink = sink,
                               c_func_lineno = node_line f, c_sink_lineno = node_line n\<rparr>))))"

fun first_some :: "('a \<Rightarrow> 'b option) \<Rightarrow> 'a list \<Rightarrow> 'b option" where
  "first_some g [] = None"
| "first_some g (x # xs) = (case g x of Some y \<Rightarrow> Some y | None \<Rightarrow> first_some g xs)"

definition contract_analyze_function :: "ast \<Rightarrow> contract option" where
  "contract_analyze_function f =
     (let params = map arg_name (fun_args f)
      in if params = [] then None
         else first_some (call_contract f params) (ast_walk f))"

section \<open>A module\<close>

definition is_known_sink_call :: "ast \<Rightarrow> bool" where
  "is_known_sink_call n =
     (case call_parts n of
        None \<Rightarrow> False
      | Some (g, as, ks) \<Rightarrow>
          (case contract_call_name g of
             None \<Rightarrow> False
           | Some nm \<Rightarrow>
               nm \<noteq> [] \<and> (map_of known_sinks nm \<noteq> None \<or> short_name nm \<in> set sink_shortnames)))"

definition is_function :: "ast \<Rightarrow> bool" where
  "is_function n = (fun_parts n \<noteq> None)"

text \<open>The first contract of a function name wins.\<close>

fun register_contracts :: "ast list \<Rightarrow> (string \<rightharpoonup> contract) \<Rightarrow> (string \<rightharpoonup> contract)" where
  "register_contracts [] m = m"
| "register_contracts (f # fs) m =
     register_contracts fs
       (case contract_analyze_function f of
          None \<Rightarrow> m
        | Some c \<Rightarrow> if m (c_func_name c) = None then m(c_func_name c \<mapsto> c) else m)"

definition extract_from_module :: "ast \<Rightarrow> (string \<rightharpoonup> contract)" where
  "extract_from_module tree =
     (if \<not> list_ex is_known_sink_call (ast_walk tree) then Map.empty
      else register_contracts (filter is_function (ast_walk tree)) Map.empty)"

definition get_contract_for_call :: "(string \<rightharpoonup> contract) \<Rightarrow> ast \<Rightarrow> contract option" where
  "get_contract_for_call m n =
     (case call_parts n of
        None \<Rightarrow> None
      | Some (g, as, ks) \<Rightarrow>
          (case contract_call_name g of Some nm \<Rightarrow> if nm = [] then None else m nm | None \<Rightarrow> None))"

section \<open>Lemmas\<close>

lemma first_some_Some: "first_some g xs = Some y \<Longrightarrow> \<exists>x \<in> set xs. g x = Some y"
  by (induction xs) (auto split: option.splits)

lemma first_some_None: "first_some g xs = None \<longleftrightarrow> (\<forall>x \<in> set xs. g x = None)"
  by (induction xs) (auto split: option.splits)

lemma clean_param_arg_Some:
  "clean_param_arg f params line as = Some p \<Longrightarrow>
   (\<exists>a \<in> set as. name_id a = Some p) \<and> p \<in> set params \<and> verify_clean_flow f p line"
  by (induction f params line as rule: clean_param_arg.induct) (auto split: option.splits if_splits)

lemma index_of_nth: "x \<in> set xs \<Longrightarrow> index_of xs x < length xs \<and> xs ! index_of xs x = x"
  by (induction xs) auto

lemma call_contract_Some:
  assumes "call_contract f params n = Some c"
  obtains l g as ks p where "n = Call l g as ks" "contract_call_name g = Some (c_target_sink c)"
    "c_target_sink c \<noteq> []" "map_of known_sinks (c_target_sink c) = Some (c_cwe_id c)"
    "clean_param_arg f params l (as @ keyword_values ks) = Some p"
    "c = \<lparr>c_func_name = fun_name f, c_sink_arg_index = index_of params p, c_cwe_id = c_cwe_id c,
          c_target_sink = c_target_sink c, c_func_lineno = node_line f, c_sink_lineno = l\<rparr>"
  using assms unfolding call_contract_def
  by (auto simp: call_parts_Some node_line_def split: option.splits if_splits)

lemma call_contract_sink: "call_contract f params n = Some c \<Longrightarrow> is_known_sink_call n"
  by (erule call_contract_Some) (simp add: is_known_sink_call_def)

lemma analyze_function_Some:
  assumes "contract_analyze_function f = Some c"
  shows "\<exists>n. below f n \<and> call_contract f (map arg_name (fun_args f)) n = Some c"
proof -
  from assms have "first_some (call_contract f (map arg_name (fun_args f))) (ast_walk f) = Some c"
    by (simp add: contract_analyze_function_def Let_def split: if_splits)
  from first_some_Some [OF this] show ?thesis by (auto simp: set_ast_walk)
qed

lemma analyze_function_name: "contract_analyze_function f = Some c \<Longrightarrow> c_func_name c = fun_name f"
  by (drule analyze_function_Some) (auto elim!: call_contract_Some dest: arg_cong [where f = c_func_name])

definition contract_named :: "string \<Rightarrow> ast \<Rightarrow> contract option" where
  "contract_named n f =
     (case contract_analyze_function f of
        Some c \<Rightarrow> if c_func_name c = n then Some c else None
      | None \<Rightarrow> None)"

lemma register_contracts_lookup:
  "register_contracts fs m n = (case m n of Some c \<Rightarrow> Some c | None \<Rightarrow> first_some (contract_named n) fs)"
  by (induction fs arbitrary: m) (auto simp: contract_named_def split: option.splits)

lemma below_trans: "below a b \<Longrightarrow> below b c \<Longrightarrow> below a c"
  by (induction rule: below.induct) (auto intro: below.intros)

lemma no_sink_no_contract:
  assumes "\<not> list_ex is_known_sink_call (ast_walk tree)" "below tree f"
  shows "contract_analyze_function f = None"
proof (rule ccontr)
  assume "contract_analyze_function f \<noteq> None"
  then obtain c n where "below f n" "call_contract f (map arg_name (fun_args f)) n = Some c"
    using analyze_function_Some by blast
  with assms(2) have "is_known_sink_call n" "below tree n"
    by (auto intro: call_contract_sink below_trans)
  with assms(1) show False by (simp add: list_ex_iff set_ast_walk)
qed

lemma verify_clean_flow_iff:
  "verify_clean_flow f p k \<longleftrightarrow>
   (\<forall>n. below f n \<and> node_breaks p n \<longrightarrow> (\<forall>l. lineno n = Some l \<longrightarrow> k \<le> l))"
  by (auto simp: verify_clean_flow_def list_ex_iff set_ast_walk not_less split: option.splits)

section \<open>Properties\<close>

text \<open>
  Rejecting a module that calls no known sink before any function is analysed loses
  nothing: the extraction with the early exit and the extraction of every function agree on
  every module.
\<close>

theorem sink_prefilter_lossless:
  "extract_from_module tree = register_contracts (filter is_function (ast_walk tree)) Map.empty"
proof (cases "list_ex is_known_sink_call (ast_walk tree)")
  case False
  have "register_contracts (filter is_function (ast_walk tree)) Map.empty n = None" for n
    using no_sink_no_contract [OF False]
    by (auto simp: register_contracts_lookup first_some_None contract_named_def set_ast_walk)
  then show ?thesis using False by (auto simp: extract_from_module_def)
qed (simp add: extract_from_module_def)

text \<open>
  A contract is only registered for a real flow: its function is in the module under its
  name, its index is a parameter of that function, that parameter is passed as it is to a
  call of the named sink at the recorded line, the sink has the recorded CWE, and no node on
  an earlier line of the function is a conditional, or assigns the parameter a constant or
  the result of a sanitizer.
\<close>

theorem contract_sound:
  assumes "extract_from_module tree name = Some c"
  shows "\<exists>f g as ks. below tree f \<and> is_function f \<and> fun_name f = name \<and> c_func_name c = name
     \<and> c_sink_arg_index c < length (fun_args f)
     \<and> below f (Call (c_sink_lineno c) g as ks) \<and> contract_call_name g = Some (c_target_sink c)
     \<and> map_of known_sinks (c_target_sink c) = Some (c_cwe_id c)
     \<and> (\<exists>a \<in> set (as @ keyword_values ks).
          name_id a = Some (arg_name (fun_args f ! c_sink_arg_index c)))
     \<and> (\<forall>n. below f n \<and> node_breaks (arg_name (fun_args f ! c_sink_arg_index c)) n
            \<longrightarrow> (\<forall>l. lineno n = Some l \<longrightarrow> c_sink_lineno c \<le> l))"
proof -
  from assms obtain f where f: "below tree f" "is_function f" "contract_analyze_function f = Some c"
      "c_func_name c = name"
    by (auto simp: sink_prefilter_lossless register_contracts_lookup contract_named_def set_ast_walk
        dest!: first_some_Some split: option.splits if_splits)
  let ?ps = "map arg_name (fun_args f)"
  from analyze_function_Some [OF f(3)] obtain n where n: "below f n" "call_contract f ?ps n = Some c"
    by blast
  from n(2) obtain l g as ks p where c: "n = Call l g as ks" "contract_call_name g = Some (c_target_sink c)"
      "map_of known_sinks (c_target_sink c) = Some (c_cwe_id c)"
      "clean_param_arg f ?ps l (as @ keyword_values ks) = Some p"
      "c_sink_arg_index c = index_of ?ps p" "c_sink_lineno c = l"
    by (rule call_contract_Some) (metis contract.select_convs)
  from clean_param_arg_Some [OF c(4)] have p: "\<exists>a \<in> set (as @ keyword_values ks). name_id a = Some p"
      "p \<in> set ?ps" "verify_clean_flow f p l" by auto
  from index_of_nth [OF p(2)] have i: "index_of ?ps p < length (fun_args f)"
      "arg_name (fun_args f ! index_of ?ps p) = p" by auto
  have clean: "\<forall>n. below f n \<and> node_breaks p n \<longrightarrow> (\<forall>l'. lineno n = Some l' \<longrightarrow> l \<le> l')"
    using p(3) by (auto simp: verify_clean_flow_iff)
  show ?thesis
    using f n c p(1) i clean analyze_function_name [OF f(3)]
    by (intro exI [of _ f] exI [of _ g] exI [of _ as] exI [of _ ks]) auto
qed

definition run_cmd :: "ast list \<Rightarrow> ast" where
  "run_cmd pre =
     Module [FunctionDef False 1 ''run_cmd'' (Arguments [] [Arg 1 ''c'' None] None [] [] None [])
       (pre @ [Expr 3 (Call 3 (Attribute 3 (Name 3 ''os'') ''system'') [Name 3 ''c''] [])]) [] None]"

definition run_cmd_contract :: contract where
  "run_cmd_contract =
     \<lparr>c_func_name = ''run_cmd'', c_sink_arg_index = 0, c_cwe_id = ''CWE-78'',
      c_target_sink = ''os.system'', c_func_lineno = 1, c_sink_lineno = 3\<rparr>"

lemmas contract_eval =
  run_cmd_def run_cmd_contract_def contract_named_def contract_analyze_function_def call_contract_def
  ast_walk_def opt_list_def cat_opts_def fun_args_def fun_parts.simps fun_name_def contract_call_name_def
  chain_name_dotted known_sinks_def node_line_def verify_clean_flow_def keyword_values_def
  register_contracts_lookup is_function_def breaks_flow_def

lemma run_cmd_has_contract: "extract_from_module (run_cmd []) ''run_cmd'' = Some run_cmd_contract"
  by (simp add: sink_prefilter_lossless contract_eval)

theorem contract_sound_witness:
  "\<exists>f g as ks. below (run_cmd []) f \<and> fun_name f = ''run_cmd'' \<and> below f (Call 3 g as ks)
     \<and> contract_call_name g = Some ''os.system''"
  using contract_sound [OF run_cmd_has_contract] by (auto simp: run_cmd_contract_def)

text \<open>
  The filter overlooks a constant that reaches the parameter through a tuple target: for
  \<open>def run_cmd(c): c, d = "ls", 0; os.system(c)\<close> a contract is registered, while the same
  function with the plain assignment \<open>c = "ls"\<close> has none.
\<close>

theorem tuple_constant_keeps_contract:
  "extract_from_module
     (run_cmd [Assign 2 [TupleE 2 [Name 2 ''c'', Name 2 ''d'']]
                 (TupleE 2 [Constant 2 (CStr ''ls''), Constant 2 (CInt 0)])]) ''run_cmd''
   = Some run_cmd_contract
   \<and> extract_from_module (run_cmd [Assign 2 [Name 2 ''c''] (Constant 2 (CStr ''ls''))]) ''run_cmd'' = None"
  by (simp add: sink_prefilter_lossless contract_eval)

end
