(* ===== verification/Summaries.thy ===== *)
theory Summaries
  imports Py_Ast
begin

text \<open>
  The function summarizer (\<open>function_summarizer.py\<close>): per function, which parameters
  reach its \<open>return\<close> and which reach a sink. Tables, records, the slots of a
  \<open>**kwargs\<close> parameter, the single sweep over the body and the sanitizer evidence; then
  the lemmas that tie each reported flow to assignments of the body.

  Parameter indices are a set in the code; where the code iterates such a set to append
  edges the model goes through it in ascending order.
\<close>

section \<open>Tables and records\<close>

definition summary_sinks :: "(string \<times> string) list" where
  "summary_sinks =
     [(''execute'', ''CWE-89''), (''executemany'', ''CWE-89''), (''raw'', ''CWE-89''),
      (''system'', ''CWE-78''), (''popen'', ''CWE-78''), (''check_output'', ''CWE-78''),
      (''call'', ''CWE-78''), (''run'', ''CWE-78''),
      (''eval'', ''CWE-95''), (''exec'', ''CWE-94''),
      (''loads'', ''CWE-502''), (''load'', ''CWE-502''),
      (''open'', ''CWE-22'')]"

definition summary_sanitizers :: "string list" where
  "summary_sanitizers =
     [''int'', ''float'', ''bool'', ''len'', ''escape'', ''quote'', ''sha256'', ''md5'']"

record param_sink_edge =
  e_param_idx :: nat
  e_param_name :: string
  e_sink_cwe :: string
  e_sink_name :: string
  e_lineno :: nat

record function_summary =
  s_qualname :: string
  s_file_path :: string
  s_lineno :: nat
  s_params :: "string list"
  s_tainted_returns :: "nat set"
  s_param_sinks :: "param_sink_edge list"
  s_is_sanitizer :: bool
  s_takes_receiver :: bool

section \<open>Helpers\<close>

fun decorators :: "ast \<Rightarrow> ast list" where
  "decorators (FunctionDef a l n args b ds r) = ds"
| "decorators n = []"

definition has_static_decorator :: "ast \<Rightarrow> bool" where
  "has_static_decorator f =
     list_ex (\<lambda>d. name_id d = Some ''staticmethod''
                 \<or> (case attr_parts d of Some (v, a) \<Rightarrow> a = ''staticmethod'' | None \<Rightarrow> False)) (decorators f)"

fun const_str :: "ast \<Rightarrow> string option" where
  "const_str (Constant l (CStr s)) = Some s"
| "const_str n = None"

definition callee_name :: "ast \<Rightarrow> string option" where
  "callee_name f =
     (case name_id f of Some i \<Rightarrow> Some i | None \<Rightarrow> map_option snd (attr_parts f))"

fun subscript_parts :: "ast \<Rightarrow> (ast \<times> ast) option" where
  "subscript_parts (Subscript l v s) = Some (v, s)"
| "subscript_parts n = None"

text \<open>\<open>kwargs["k"]\<close>, \<open>kwargs.get("k")\<close> and \<open>kwargs.pop("k")\<close> for a tracked container.\<close>

definition kwarg_slot :: "ast \<Rightarrow> string list \<Rightarrow> (string \<times> string) option" where
  "kwarg_slot n containers =
     (case subscript_parts n of
        Some (v, sl) \<Rightarrow>
          (case name_id v of
             Some c \<Rightarrow> if c \<in> set containers then map_option (\<lambda>k. (c, k)) (const_str sl) else None
           | None \<Rightarrow> None)
      | None \<Rightarrow>
          (case call_parts n of
             Some (g, a # as, ks) \<Rightarrow>
               (case attr_parts g of
                  Some (v, m) \<Rightarrow>
                    (case name_id v of
                       Some c \<Rightarrow>
                         if (m = ''get'' \<or> m = ''pop'') \<and> c \<in> set containers
                         then map_option (\<lambda>k. (c, k)) (const_str a) else None
                     | None \<Rightarrow> None)
                | None \<Rightarrow> None)
           | _ \<Rightarrow> None))"

definition slot_name :: "string \<times> string \<Rightarrow> string" where
  "slot_name s = fst s @ ''['' @ snd s @ '']''"

fun collect_slots :: "string list \<Rightarrow> ast list \<Rightarrow> string list \<Rightarrow> string list" where
  "collect_slots containers [] slots = slots"
| "collect_slots containers (n # ns) slots =
     collect_slots containers ns
       (case kwarg_slot n containers of
          None \<Rightarrow> slots
        | Some s \<Rightarrow> (let v = slot_name s in
                     if v \<in> set containers \<or> v \<in> set slots then slots else slots @ [v]))"

fun kwarg_param :: "ast \<Rightarrow> string option" where
  "kwarg_param (FunctionDef a l n (Arguments po as va ko kd (Some kw) ds) b de r) = Some (arg_name kw)"
| "kwarg_param n = None"

definition kwarg_slots :: "ast \<Rightarrow> string list \<Rightarrow> string list \<times> string list" where
  "kwarg_slots f params =
     (case kwarg_param f of
        None \<Rightarrow> ([], [])
      | Some c \<Rightarrow> if c \<in> set params then ([], []) else ([c], collect_slots [c] (ast_walk f) []))"

section \<open>References to parameters\<close>

type_synonym alias_sets = "string \<rightharpoonup> nat set"

definition node_params :: "alias_sets \<Rightarrow> string list \<Rightarrow> ast \<Rightarrow> nat set" where
  "node_params m containers n =
     (case name_id n of
        Some i \<Rightarrow> (case m i of Some ps \<Rightarrow> ps | None \<Rightarrow> {})
      | None \<Rightarrow>
          (case kwarg_slot n containers of
             Some s \<Rightarrow> (case m (slot_name s) of Some ps \<Rightarrow> ps | None \<Rightarrow> {})
           | None \<Rightarrow> {}))"

definition referenced_params :: "alias_sets \<Rightarrow> string list \<Rightarrow> ast \<Rightarrow> nat set" where
  "referenced_params m containers e = (\<Union>n \<in> set (ast_walk e). node_params m containers n)"

section \<open>The sweep over the body\<close>

record sweep =
  sw_alias :: alias_sets
  sw_sanitized :: "string set"
  sw_returns :: "ast list"  \<comment> \<open>the values returned\<close>
  sw_tainted :: "nat set"
  sw_sinks :: "param_sink_edge list"

definition target_names :: "ast list \<Rightarrow> string list" where
  "target_names ts = concat (map (opt_list \<circ> name_id) ts)"

fun add_aliases :: "string list \<Rightarrow> nat set \<Rightarrow> alias_sets \<Rightarrow> alias_sets" where
  "add_aliases [] ps m = m"
| "add_aliases (x # xs) ps m =
     add_aliases xs ps (m(x \<mapsto> (case m x of Some qs \<Rightarrow> qs \<union> ps | None \<Rightarrow> ps)))"

definition sanitizer_call :: "ast \<Rightarrow> bool" where
  "sanitizer_call v =
     (case call_parts v of
        Some (g, as, ks) \<Rightarrow> (case callee_name g of Some n \<Rightarrow> n \<in> set summary_sanitizers | None \<Rightarrow> False)
      | None \<Rightarrow> False)"

definition sweep_assign :: "string list \<Rightarrow> ast list \<Rightarrow> ast \<Rightarrow> sweep \<Rightarrow> sweep" where
  "sweep_assign containers ts v w =
     (let xs = target_names ts;
          ps = referenced_params (sw_alias w) containers v;
          w1 = w\<lparr>sw_sanitized := (if sanitizer_call v then sw_sanitized w \<union> set xs
                                  else sw_sanitized w - set xs)\<rparr>
      in if ps = {} then w1 else w1\<lparr>sw_alias := add_aliases xs ps (sw_alias w)\<rparr>)"

definition sweep_return :: "string list \<Rightarrow> ast \<Rightarrow> sweep \<Rightarrow> sweep" where
  "sweep_return containers v w =
     w\<lparr>sw_returns := sw_returns w @ [v],
       sw_tainted := sw_tainted w \<union> referenced_params (sw_alias w) containers v\<rparr>"

text \<open>The edges of one sink call: for a CWE-89 sink only the operation slot counts.\<close>

definition arg_edges :: "string list \<Rightarrow> string list \<Rightarrow> alias_sets \<Rightarrow> string \<Rightarrow> string \<Rightarrow> nat
    \<Rightarrow> nat \<times> ast \<Rightarrow> param_sink_edge list" where
  "arg_edges params containers m cwe name line pa =
     (if cwe = ''CWE-89'' \<and> 0 < fst pa then []
      else map (\<lambda>i. \<lparr>e_param_idx = i, e_param_name = params ! i, e_sink_cwe = cwe,
                    e_sink_name = name, e_lineno = line\<rparr>)
             (sorted_list_of_set (referenced_params m containers (snd pa))))"

definition sweep_call :: "string list \<Rightarrow> string list \<Rightarrow> nat \<Rightarrow> ast \<Rightarrow> ast list \<Rightarrow> sweep \<Rightarrow> sweep" where
  "sweep_call params containers line g as w =
     (case callee_name g of
        None \<Rightarrow> w
      | Some name \<Rightarrow>
          (case map_of summary_sinks name of
             None \<Rightarrow> w
           | Some cwe \<Rightarrow>
               w\<lparr>sw_sinks := sw_sinks w @
                   concat (map (arg_edges params containers (sw_alias w) cwe name line)
                               (zip [0..<length as] as))\<rparr>))"

fun sweep_node :: "string list \<Rightarrow> string list \<Rightarrow> sweep \<Rightarrow> ast \<Rightarrow> sweep" where
  "sweep_node params containers w (Assign l ts v) = sweep_assign containers ts v w"
| "sweep_node params containers w (Return l (Some v)) = sweep_return containers v w"
| "sweep_node params containers w (Call l g as ks) = sweep_call params containers l g as w"
| "sweep_node params containers w n = w"

definition param_aliases :: "string list \<Rightarrow> alias_sets" where
  "param_aliases params = map_of (rev (zip params (map (\<lambda>i. {i}) [0..<length params])))"

definition sweep_body :: "string list \<Rightarrow> string list \<Rightarrow> ast list \<Rightarrow> sweep" where
  "sweep_body params containers body =
     foldl (sweep_node params containers)
       \<lparr>sw_alias = param_aliases params, sw_sanitized = {}, sw_returns = [], sw_tainted = {}, sw_sinks = []\<rparr>
       (concat (map ast_walk body))"

section \<open>The summary of a function\<close>

definition is_sanitized_expr :: "ast \<Rightarrow> string set \<Rightarrow> bool" where
  "is_sanitized_expr e sanitized =
     (case call_parts e of
        Some c \<Rightarrow> sanitizer_call e
      | None \<Rightarrow> (case name_id e of Some i \<Rightarrow> i \<in> sanitized | None \<Rightarrow> False))"

definition takes_receiver :: "ast \<Rightarrow> bool \<Rightarrow> bool" where
  "takes_receiver f is_method =
     (is_method \<and> \<not> has_static_decorator f
      \<and> (case fun_args f of [] \<Rightarrow> False | a # as \<Rightarrow> arg_name a = ''self'' \<or> arg_name a = ''cls''))"

definition summarize_function :: "ast \<Rightarrow> string \<Rightarrow> string \<Rightarrow> bool \<Rightarrow> nat \<Rightarrow> function_summary" where
  "summarize_function f file_path name is_method line =
     (let recv = takes_receiver f is_method;
          params0 = map arg_name (if recv then drop 1 (fun_args f) else fun_args f);
          containers = fst (kwarg_slots f params0);
          params = params0 @ snd (kwarg_slots f params0);
          w = sweep_body params containers (fun_body f);
          by_name = list_ex (py_contains (py_lower name)) summary_sanitizers;
          propagating = filter (\<lambda>v. referenced_params (sw_alias w) containers v \<noteq> {}) (sw_returns w);
          by_body = (params \<noteq> [] \<and> sw_sinks w = [] \<and> propagating \<noteq> []
                     \<and> list_all (\<lambda>v. is_sanitized_expr v (sw_sanitized w)) propagating)
      in \<lparr>s_qualname = name, s_file_path = file_path, s_lineno = line, s_params = params,
          s_tainted_returns = sw_tainted w, s_param_sinks = sw_sinks w,
          s_is_sanitizer = (by_name \<or> by_body), s_takes_receiver = recv\<rparr>)"

text \<open>
  \<open>summarize_module\<close>: top-level functions and the methods of top-level classes, each
  stored under its module and qualified name; a later definition replaces an earlier one.
\<close>

fun class_parts :: "ast \<Rightarrow> (string \<times> ast list) option" where
  "class_parts (ClassDef l n bs ks b ds) = Some (n, b)"
| "class_parts n = None"

definition line_of :: "ast \<Rightarrow> nat" where
  "line_of n = (case lineno n of Some l \<Rightarrow> l | None \<Rightarrow> 0)"

definition method_summaries :: "string \<Rightarrow> string \<Rightarrow> ast list \<Rightarrow> function_summary list" where
  "method_summaries path cls body =
     map (\<lambda>f. summarize_function f path (cls @ ''.'' @ fun_name f) True (line_of f))
       (filter (\<lambda>f. fun_parts f \<noteq> None) body)"

definition stmt_summaries :: "string \<Rightarrow> ast \<Rightarrow> function_summary list" where
  "stmt_summaries path s =
     (if fun_parts s \<noteq> None then [summarize_function s path (fun_name s) False (line_of s)]
      else case class_parts s of Some (cls, body) \<Rightarrow> method_summaries path cls body | None \<Rightarrow> [])"

fun module_body :: "ast \<Rightarrow> ast list" where
  "module_body (Module b) = b"
| "module_body n = []"

definition module_summaries :: "string \<Rightarrow> ast \<Rightarrow> function_summary list" where
  "module_summaries path tree = concat (map (stmt_summaries path) (module_body tree))"

definition summarize_module :: "string \<Rightarrow> string \<Rightarrow> ast \<Rightarrow> (string \<times> string \<rightharpoonup> function_summary)
    \<Rightarrow> (string \<times> string \<rightharpoonup> function_summary)" where
  "summarize_module md path tree m =
     foldl (\<lambda>m s. m((md, s_qualname s) \<mapsto> s)) m (module_summaries path tree)"

definition build_all_summaries :: "(string \<times> string \<times> ast) list \<Rightarrow> (string \<times> string \<rightharpoonup> function_summary)" where
  "build_all_summaries mods = foldl (\<lambda>m (md, path, tree). summarize_module md path tree m) Map.empty mods"

section \<open>Where flows come from\<close>

text \<open>A name that an expression mentions: itself, or the slot of a tracked container.\<close>

definition mentions :: "string list \<Rightarrow> ast \<Rightarrow> string \<Rightarrow> bool" where
  "mentions containers e y \<longleftrightarrow>
     (\<exists>n. below e n \<and> (name_id n = Some y
        \<or> (name_id n = None \<and> (\<exists>s. kwarg_slot n containers = Some s \<and> slot_name s = y))))"

text \<open>Parameter \<open>i\<close> flows into \<open>x\<close>: it is \<open>x\<close>, or assignments of the body lead there.\<close>

inductive param_flow :: "string list \<Rightarrow> string list \<Rightarrow> ast list \<Rightarrow> nat \<Rightarrow> string \<Rightarrow> bool"
  for params containers ns where
  flow_param: "i < length params \<Longrightarrow> params ! i = x \<Longrightarrow> param_flow params containers ns i x"
| flow_assign: "Assign l ts v \<in> set ns \<Longrightarrow> x \<in> set (target_names ts) \<Longrightarrow> mentions containers v y
    \<Longrightarrow> param_flow params containers ns i y \<Longrightarrow> param_flow params containers ns i x"

lemma param_flow_index: "param_flow params containers ns i x \<Longrightarrow> i < length params"
  by (induction rule: param_flow.induct)

definition flow_into :: "string list \<Rightarrow> string list \<Rightarrow> ast list \<Rightarrow> nat \<Rightarrow> ast \<Rightarrow> bool" where
  "flow_into params containers ns i e \<longleftrightarrow> (\<exists>y. mentions containers e y \<and> param_flow params containers ns i y)"

definition alias_justified :: "string list \<Rightarrow> string list \<Rightarrow> ast list \<Rightarrow> alias_sets \<Rightarrow> bool" where
  "alias_justified params containers ns m \<longleftrightarrow>
     (\<forall>x qs i. m x = Some qs \<and> i \<in> qs \<longrightarrow> param_flow params containers ns i x) \<and> (\<forall>x qs. m x = Some qs \<longrightarrow> finite qs)"

definition edge_justified :: "string list \<Rightarrow> string list \<Rightarrow> ast list \<Rightarrow> param_sink_edge \<Rightarrow> bool" where
  "edge_justified params containers ns e \<longleftrightarrow>
     e_param_idx e < length params \<and> e_param_name e = params ! e_param_idx e \<and>
     (\<exists>g as ks pos. Call (e_lineno e) g as ks \<in> set ns \<and> callee_name g = Some (e_sink_name e)
        \<and> map_of summary_sinks (e_sink_name e) = Some (e_sink_cwe e)
        \<and> pos < length as \<and> (e_sink_cwe e = ''CWE-89'' \<longrightarrow> pos = 0)
        \<and> flow_into params containers ns (e_param_idx e) (as ! pos))"

definition sweep_justified :: "string list \<Rightarrow> string list \<Rightarrow> ast list \<Rightarrow> sweep \<Rightarrow> bool" where
  "sweep_justified params containers ns w \<longleftrightarrow>
     alias_justified params containers ns (sw_alias w)
     \<and> (\<forall>i \<in> sw_tainted w. \<exists>l v. Return l (Some v) \<in> set ns \<and> flow_into params containers ns i v)
     \<and> (\<forall>e \<in> set (sw_sinks w). edge_justified params containers ns e)"

lemma node_params_mem:
  "i \<in> node_params m containers n \<Longrightarrow>
   \<exists>y qs. m y = Some qs \<and> i \<in> qs \<and> (name_id n = Some y
      \<or> (name_id n = None \<and> (\<exists>s. kwarg_slot n containers = Some s \<and> slot_name s = y)))"
  by (auto simp: node_params_def split: option.splits)

lemma referenced_params_flow:
  assumes "alias_justified params containers ns m" "i \<in> referenced_params m containers e"
  shows "flow_into params containers ns i e"
  using assms node_params_mem [of i m containers]
  by (fastforce simp: referenced_params_def flow_into_def mentions_def alias_justified_def set_ast_walk)

lemma finite_referenced_params:
  "alias_justified params containers ns m \<Longrightarrow> finite (referenced_params m containers e)"
  by (auto simp: referenced_params_def node_params_def alias_justified_def split: option.splits)

lemma add_aliases_lookup:
  "add_aliases xs ps m x =
   (if x \<in> set xs then Some ((case m x of Some qs \<Rightarrow> qs | None \<Rightarrow> {}) \<union> ps) else m x)"
  by (induction xs arbitrary: m) (auto split: option.splits)

lemma alias_justified_add:
  assumes "alias_justified params containers ns m" "finite ps"
    and "\<And>i x. i \<in> ps \<Longrightarrow> x \<in> set xs \<Longrightarrow> param_flow params containers ns i x"
  shows "alias_justified params containers ns (add_aliases xs ps m)"
  using assms by (auto simp: alias_justified_def add_aliases_lookup split: option.splits if_splits)

lemma sweep_justified_node:
  assumes w: "sweep_justified params containers ns w" and n: "n \<in> set ns"
  shows "sweep_justified params containers ns (sweep_node params containers w n)"
proof -
  have m: "alias_justified params containers ns (sw_alias w)"
    using w by (simp add: sweep_justified_def)
  note flow = referenced_params_flow [OF m] and fin = finite_referenced_params [OF m]
  show ?thesis
  proof (cases n)
    case (Assign l ts v)
    have "param_flow params containers ns i x"
      if "i \<in> referenced_params (sw_alias w) containers v" "x \<in> set (target_names ts)" for i x
      using flow [OF that(1)] that(2) n Assign by (auto simp: flow_into_def intro: flow_assign)
    with w m fin show ?thesis
      by (auto simp: Assign sweep_assign_def sweep_justified_def Let_def alias_justified_add)
  next
    case (Return l v)
    with w n flow show ?thesis
      by (cases v) (fastforce simp: sweep_justified_def sweep_return_def)+
  next
    case (Call l g as ks)
    have "edge_justified params containers ns e"
      if "callee_name g = Some name" "map_of summary_sinks name = Some cwe" "p < length as"
        "e \<in> set (arg_edges params containers (sw_alias w) cwe name l (p, as ! p))" for name cwe p e
    proof -
      from that(4) fin flow obtain i where "e = \<lparr>e_param_idx = i, e_param_name = params ! i, e_sink_cwe = cwe,
          e_sink_name = name, e_lineno = l\<rparr>" "flow_into params containers ns i (as ! p)"
          "cwe = ''CWE-89'' \<longrightarrow> p = 0"
        by (auto simp: arg_edges_def split: if_splits)
      with that n Call show ?thesis
        by (auto simp: edge_justified_def flow_into_def dest: param_flow_index)
    qed
    with w Call show ?thesis
      by (auto simp: sweep_justified_def sweep_call_def set_zip split: option.split)
  qed (use w in simp_all)
qed

lemma flow_self: "i < length params \<Longrightarrow> param_flow params containers ns i (params ! i)"
  by (rule flow_param) simp_all

lemma alias_justified_params: "alias_justified params containers ns (param_aliases params)"
proof -
  have "\<exists>i. i < length params \<and> x = params ! i \<and> qs = {i}" if "param_aliases params x = Some qs" for x qs
    using that by (auto simp: param_aliases_def set_zip dest!: map_of_SomeD)
  then show ?thesis
    by (fastforce simp: alias_justified_def flow_self)
qed

abbreviation sweep_init :: "string list \<Rightarrow> sweep" where
  "sweep_init params \<equiv> \<lparr>sw_alias = param_aliases params, sw_sanitized = {}, sw_returns = [],
     sw_tainted = {}, sw_sinks = []\<rparr>"

lemma sweep_justified_run:
  assumes "set ns' \<subseteq> set ns"
  shows "sweep_justified params containers ns (foldl (sweep_node params containers) (sweep_init params) ns')"
proof (rule foldl_invariant [where P = "sweep_justified params containers ns"])
  show "sweep_justified params containers ns (sweep_init params)"
    by (simp add: sweep_justified_def alias_justified_params)
qed (use assms in \<open>auto intro: sweep_justified_node\<close>)

lemma sweep_justified_body:
  "sweep_justified params containers (concat (map ast_walk body)) (sweep_body params containers body)"
  unfolding sweep_body_def by (rule sweep_justified_run) simp

section \<open>Direct flows are never missed\<close>

definition alias_le :: "alias_sets \<Rightarrow> alias_sets \<Rightarrow> bool" where
  "alias_le m m' \<longleftrightarrow> (\<forall>x qs. m x = Some qs \<longrightarrow> (\<exists>qs'. m' x = Some qs' \<and> qs \<subseteq> qs'))"

lemma alias_le_refl [simp]: "alias_le m m"
  by (simp add: alias_le_def)

lemma alias_le_trans: "alias_le m m' \<Longrightarrow> alias_le m' m'' \<Longrightarrow> alias_le m m''"
  by (simp add: alias_le_def) (meson subset_trans)

lemma alias_le_add: "alias_le m (add_aliases xs ps m)"
  by (auto simp: alias_le_def add_aliases_lookup)

lemma sweep_node_grows:
  "alias_le (sw_alias w) (sw_alias (sweep_node params containers w n))
   \<and> set (sw_sinks w) \<subseteq> set (sw_sinks (sweep_node params containers w n))"
proof (cases n)
  case (Return l v)
  then show ?thesis by (cases v) (auto simp: sweep_return_def)
qed (auto simp: sweep_assign_def sweep_call_def Let_def alias_le_add split: option.split)

lemma sweep_grows:
  "alias_le (sw_alias w) (sw_alias (foldl (sweep_node params containers) w ns))
   \<and> set (sw_sinks w) \<subseteq> set (sw_sinks (foldl (sweep_node params containers) w ns))"
proof (induction ns arbitrary: w)
  case (Cons n ns)
  with sweep_node_grows [of w params containers n] show ?case
    by (auto intro: alias_le_trans)
qed simp

lemma param_aliases_lookup:
  "distinct params \<Longrightarrow> i < length params \<Longrightarrow> param_aliases params (params ! i) = Some {i}"
  unfolding param_aliases_def
  by (rule map_of_is_SomeI) (auto simp: set_zip simp flip: rev_map)

lemma direct_edge:
  assumes d: "distinct params" "i < length params"
    and call: "Call l g as ks \<in> set ns" "callee_name g = Some name" "map_of summary_sinks name = Some cwe"
    and pos: "pos < length as" "cwe = ''CWE-89'' \<longrightarrow> pos = 0" "below (as ! pos) (Name l' (params ! i))"
  shows "\<lparr>e_param_idx = i, e_param_name = params ! i, e_sink_cwe = cwe, e_sink_name = name, e_lineno = l\<rparr>
    \<in> set (sw_sinks (foldl (sweep_node params containers) (sweep_init params) ns))" (is "?e \<in> _")
proof -
  let ?run = "foldl (sweep_node params containers) (sweep_init params)"
  obtain ns1 ns2 where ns: "ns = ns1 @ Call l g as ks # ns2"
    using call(1) by (auto dest: split_list)
  have j: "alias_justified params containers ns (sw_alias (?run ns1))"
    using sweep_justified_run [of ns1 ns params containers] by (auto simp: ns sweep_justified_def)
  have "alias_le (param_aliases params) (sw_alias (?run ns1))"
    using sweep_grows [of "sweep_init params" params containers ns1] by simp
  then obtain qs where qs: "sw_alias (?run ns1) (params ! i) = Some qs" "i \<in> qs"
    using param_aliases_lookup [OF d] unfolding alias_le_def by (metis insert_subset)
  have "i \<in> referenced_params (sw_alias (?run ns1)) containers (as ! pos)"
    using pos(3) qs by (auto simp: referenced_params_def node_params_def set_ast_walk intro!: bexI)
  with finite_referenced_params [OF j] pos
  have "?e \<in> set (arg_edges params containers (sw_alias (?run ns1)) cwe name l (pos, as ! pos))"
    by (auto simp: arg_edges_def)
  with pos(1) call have "?e \<in> set (sw_sinks (sweep_node params containers (?run ns1) (Call l g as ks)))"
    by (fastforce simp: sweep_call_def set_zip)
  then show ?thesis
    using sweep_grows [of "sweep_node params containers (?run ns1) (Call l g as ks)" params containers ns2]
    by (auto simp: ns)
qed

section \<open>Properties\<close>

definition summary_containers :: "ast \<Rightarrow> bool \<Rightarrow> string list" where
  "summary_containers f is_method =
     fst (kwarg_slots f (map arg_name (if takes_receiver f is_method then drop 1 (fun_args f) else fun_args f)))"

lemma summary_fields:
  "s_param_sinks (summarize_function f path name is_method line) =
     sw_sinks (sweep_body (s_params (summarize_function f path name is_method line))
                 (summary_containers f is_method) (fun_body f))"
  "s_tainted_returns (summarize_function f path name is_method line) =
     sw_tainted (sweep_body (s_params (summarize_function f path name is_method line))
                 (summary_containers f is_method) (fun_body f))"
  by (simp_all add: summarize_function_def summary_containers_def Let_def)

text \<open>
  Every parameter-to-sink edge of a summary is justified by the body: its index is a
  parameter of that name, the body has a call of that sink (with its CWE) on the recorded
  line, and that parameter reaches an argument of the call through assignments of the body;
  for a CWE-89 sink the argument is the first one, the statement slot.
\<close>

theorem summary_sinks_justified:
  assumes "e \<in> set (s_param_sinks (summarize_function f path name is_method line))"
  shows "edge_justified (s_params (summarize_function f path name is_method line))
           (summary_containers f is_method) (concat (map ast_walk (fun_body f))) e"
  using assms sweep_justified_body unfolding summary_fields by (auto simp: sweep_justified_def)

text \<open>
  A parameter that the body names inside an argument of a sink call is always reported
  (parameter names are distinct; for a CWE-89 sink the argument is the statement slot).
\<close>

theorem direct_sink_reported:
  assumes "distinct (s_params (summarize_function f path name is_method line))"
    and "i < length (s_params (summarize_function f path name is_method line))"
    and "Call l g as ks \<in> set (concat (map ast_walk (fun_body f)))"
    and "callee_name g = Some sink" "map_of summary_sinks sink = Some cwe"
    and "pos < length as" "cwe = ''CWE-89'' \<longrightarrow> pos = 0"
    and "below (as ! pos) (Name l' (s_params (summarize_function f path name is_method line) ! i))"
  shows "\<lparr>e_param_idx = i, e_param_name = s_params (summarize_function f path name is_method line) ! i,
          e_sink_cwe = cwe, e_sink_name = sink, e_lineno = l\<rparr>
         \<in> set (s_param_sinks (summarize_function f path name is_method line))"
  unfolding summary_fields sweep_body_def by (rule direct_edge) (use assms in simp_all)

text \<open>
  A parameter index in \<open>tainted_returns\<close> is a parameter whose value reaches the value
  of a \<open>return\<close> of the body through its assignments.
\<close>

theorem summary_returns_justified:
  assumes "i \<in> s_tainted_returns (summarize_function f path name is_method line)"
  shows "i < length (s_params (summarize_function f path name is_method line)) \<and>
    (\<exists>l v. Return l (Some v) \<in> set (concat (map ast_walk (fun_body f)))
       \<and> flow_into (s_params (summarize_function f path name is_method line))
           (summary_containers f is_method) (concat (map ast_walk (fun_body f))) i v)"
  using assms sweep_justified_body unfolding summary_fields
  by (fastforce simp: sweep_justified_def flow_into_def dest: param_flow_index)

definition find_user :: ast where
  "find_user =
     FunctionDef False 1 ''find_user'' (Arguments [] [Arg 1 ''cur'' None, Arg 1 ''uid'' None] None [] [] None [])
       [Assign 2 [Name 2 ''q''] (BinOp 2 (Constant 2 (CStr ''id='')) (Name 2 ''uid'')),
        Return 3 (Some (Call 3 (Attribute 3 (Name 3 ''cur'') ''execute'') [Name 3 ''q''] []))] [] None"

lemmas summary_eval =
  find_user_def summarize_function_def Let_def takes_receiver_def has_static_decorator_def fun_args_def
  fun_body_def fun_name_def kwarg_slots_def sweep_body_def ast_walk_def opt_list_def sweep_assign_def
  sweep_return_def sweep_call_def target_names_def referenced_params_def node_params_def kwarg_slot_def
  callee_name_def sanitizer_call_def param_aliases_def arg_edges_def summary_sinks_def cat_opts_def

lemma find_user_params: "s_params (summarize_function find_user path name False line) = [''cur'', ''uid'']"
  by (simp add: find_user_def summarize_function_def Let_def takes_receiver_def fun_args_def kwarg_slots_def)

lemma find_user_sweep:
  "sw_sinks (sweep_body [''cur'', ''uid''] (summary_containers find_user False) (fun_body find_user)) =
     [\<lparr>e_param_idx = 1, e_param_name = ''uid'', e_sink_cwe = ''CWE-89'', e_sink_name = ''execute'', e_lineno = 3\<rparr>]"
  "sw_tainted (sweep_body [''cur'', ''uid''] (summary_containers find_user False) (fun_body find_user)) = {0, 1}"
  by (simp_all add: summary_eval summary_containers_def insert_commute)

lemmas find_user_summary =
  find_user_params find_user_sweep summary_fields [of find_user, unfolded find_user_params find_user_sweep]

theorem summary_sinks_justified_witness:
  "edge_justified [''cur'', ''uid''] (summary_containers find_user False)
     (concat (map ast_walk (fun_body find_user)))
     \<lparr>e_param_idx = 1, e_param_name = ''uid'', e_sink_cwe = ''CWE-89'', e_sink_name = ''execute'', e_lineno = 3\<rparr>"
  using summary_sinks_justified [of _ find_user "''a.py''" "''find_user''" False 1]
  unfolding find_user_summary by simp

theorem summary_returns_justified_witness:
  "(0::nat) < 2 \<and> (\<exists>l v. Return l (Some v) \<in> set (concat (map ast_walk (fun_body find_user)))
     \<and> flow_into [''cur'', ''uid''] (summary_containers find_user False)
         (concat (map ast_walk (fun_body find_user))) 0 v)"
  using summary_returns_justified [of 0 find_user "''a.py''" "''find_user''" False 1]
  unfolding find_user_summary by simp

theorem direct_sink_reported_witness:
  "\<lparr>e_param_idx = 0, e_param_name = ''c'', e_sink_cwe = ''CWE-78'', e_sink_name = ''system'', e_lineno = 2\<rparr>
   \<in> set (s_param_sinks (summarize_function
        (FunctionDef False 1 ''run_it'' (Arguments [] [Arg 1 ''c'' None] None [] [] None [])
          [Expr 2 (Call 2 (Attribute 2 (Name 2 ''os'') ''system'') [Name 2 ''c''] [])] [] None)
        ''a.py'' ''run_it'' False 1))"
proof -
  let ?f = "FunctionDef False 1 ''run_it'' (Arguments [] [Arg 1 ''c'' None] None [] [] None [])
          [Expr 2 (Call 2 (Attribute 2 (Name 2 ''os'') ''system'') [Name 2 ''c''] [])] [] None"
  have ps: "s_params (summarize_function ?f ''a.py'' ''run_it'' False 1) = [''c'']"
    by (simp add: summarize_function_def Let_def takes_receiver_def fun_args_def kwarg_slots_def)
  show ?thesis
    using direct_sink_reported [of ?f "''a.py''" "''run_it''" False 1 0 2 "Attribute 2 (Name 2 ''os'') ''system''"
        "[Name 2 ''c'']" "[]" "''system''" "''CWE-78''" 0 2]
    unfolding ps by (simp add: callee_name_def summary_sinks_def ast_walk_def fun_body_def below_refl)
qed

end
