(* ===== verification/Rx.thy ===== *)
theory Rx
  imports Prelude
begin

text \<open>
  The part of Python's regular expressions the program uses: character sets, sequence,
  ordered choice, greedy repetition, groups, word boundaries and the two anchors, with the
  backtracking order of Python's \<open>re\<close>. A matcher lists the ends (and the groups) of all
  matches at a position in the order Python tries them, so the first element is the match
  that \<open>re\<close> reports and a non-empty list is what \<open>search\<close> tests.
\<close>

section \<open>Expressions\<close>

datatype rx =
    Eps
  | CSet bool "(char \<times> char) list"  \<comment> \<open>negated?, ranges\<close>
  | Seq rx rx
  | Alt rx rx
  | Star rx
  | Grp nat rx
  | WordB
  | Bos
  | Eos
  | Lazy rx  \<comment> \<open>\<open>*?\<close>\<close>

type_synonym groups = "(nat \<times> nat \<times> nat) list"

definition in_set :: "bool \<Rightarrow> (char \<times> char) list \<Rightarrow> char \<Rightarrow> bool" where
  "in_set neg rs c = (neg \<noteq> list_ex (\<lambda>(a, b). code_of a \<le> code_of c \<and> code_of c \<le> code_of b) rs)"

lemma in_set_code [code]: "in_set neg rs c = (neg \<noteq> list_ex (\<lambda>(a, b). a \<le> c \<and> c \<le> b) rs)"
  by (simp add: in_set_def code_of_def less_eq_char_def)

text \<open>Literals, classes, \<open>{n}\<close>, \<open>{n,}\<close>, \<open>?\<close>, \<open>+\<close>.\<close>

definition lit1 :: "char \<Rightarrow> rx" where
  "lit1 c = CSet False [(c, c)]"

fun lit :: "string \<Rightarrow> rx" where
  "lit [] = Eps"
| "lit [c] = lit1 c"
| "lit (c # cs) = Seq (lit1 c) (lit cs)"

text \<open>A literal under \<open>re.IGNORECASE\<close>.\<close>

definition lit1_i :: "char \<Rightarrow> rx" where
  "lit1_i c = CSet False [(lower_char c, lower_char c), (upper_char c, upper_char c)]"

fun lit_i :: "string \<Rightarrow> rx" where
  "lit_i [] = Eps"
| "lit_i [c] = lit1_i c"
| "lit_i (c # cs) = Seq (lit1_i c) (lit_i cs)"

fun alts :: "rx list \<Rightarrow> rx" where
  "alts [] = CSet False []"
| "alts [r] = r"
| "alts (r # rs) = Alt r (alts rs)"

fun seqs :: "rx list \<Rightarrow> rx" where
  "seqs [] = Eps"
| "seqs [r] = r"
| "seqs (r # rs) = Seq r (seqs rs)"

fun rep :: "nat \<Rightarrow> rx \<Rightarrow> rx" where
  "rep 0 r = Eps"
| "rep (Suc n) r = Seq r (rep n r)"

definition at_least :: "nat \<Rightarrow> rx \<Rightarrow> rx" where
  "at_least n r = Seq (rep n r) (Star r)"

definition opt :: "rx \<Rightarrow> rx" where
  "opt r = Alt r Eps"

text \<open>\<open>{m,n}\<close>.\<close>

fun at_most :: "nat \<Rightarrow> rx \<Rightarrow> rx" where
  "at_most 0 r = Eps"
| "at_most (Suc n) r = Alt (Seq r (at_most n r)) Eps"

definition rep_range :: "nat \<Rightarrow> nat \<Rightarrow> rx \<Rightarrow> rx" where
  "rep_range m n r = Seq (rep m r) (at_most (n - m) r)"

definition rx_word :: rx where
  "rx_word = CSet False [(CHR ''a'', CHR ''z''), (CHR ''A'', CHR ''Z''), (CHR ''0'', CHR ''9''), (CHR ''_'', CHR ''_'')]"

definition rx_digit :: rx where
  "rx_digit = CSet False [(CHR ''0'', CHR ''9'')]"

definition rx_space :: rx where
  "rx_space = CSet False [(CHR 0x09, CHR 0x0D), (CHR 0x1C, CHR 0x20)]"

definition rx_dot :: rx where
  "rx_dot = CSet True [(CHR 0x0A, CHR 0x0A)]"

section \<open>Matching\<close>

definition is_word :: "char \<Rightarrow> bool" where
  "is_word c = in_set False
     [(CHR ''a'', CHR ''z''), (CHR ''A'', CHR ''Z''), (CHR ''0'', CHR ''9''), (CHR ''_'', CHR ''_'')] c"

definition word_at :: "string \<Rightarrow> nat \<Rightarrow> bool" where
  "word_at s i = (i < length s \<and> is_word (s ! i))"

text \<open>\<open>\\b\<close>: exactly one of the characters around position \<open>i\<close> is a word character.\<close>

definition boundary_at :: "string \<Rightarrow> nat \<Rightarrow> bool" where
  "boundary_at s i = ((0 < i \<and> word_at s (i - 1)) \<noteq> word_at s i)"

function ends :: "rx \<Rightarrow> string \<Rightarrow> nat \<Rightarrow> groups \<Rightarrow> (nat \<times> groups) list" where
  "ends Eps s i g = [(i, g)]"
| "ends (CSet neg rs) s i g = (if i < length s \<and> in_set neg rs (s ! i) then [(Suc i, g)] else [])"
| "ends (Seq p q) s i g = concat (map (\<lambda>(j, g'). ends q s j g') (ends p s i g))"
| "ends (Alt p q) s i g = ends p s i g @ ends q s i g"
| "ends (Star p) s i g =
     concat (map (\<lambda>(j, g'). if i < j \<and> j \<le> length s then ends (Star p) s j g' else []) (ends p s i g))
     @ [(i, g)]"
| "ends (Grp n p) s i g = map (\<lambda>(j, g'). (j, (n, i, j) # g')) (ends p s i g)"
| "ends WordB s i g = (if boundary_at s i then [(i, g)] else [])"
| "ends Bos s i g = (if i = 0 then [(i, g)] else [])"
| "ends Eos s i g = (if i = length s \<or> (Suc i = length s \<and> s ! i = CHR 0x0A) then [(i, g)] else [])"
| "ends (Lazy p) s i g =
     (i, g) # concat (map (\<lambda>(j, g'). if i < j \<and> j \<le> length s then ends (Lazy p) s j g' else []) (ends p s i g))"
  by pat_completeness auto
termination
  by (relation "measures [\<lambda>(p, s, i, g). size p, \<lambda>(p, s, i, g). length s - i]") auto

declare ends.simps(5) [simp del]
declare ends.simps(10) [simp del]

text \<open>\<open>re.match\<close>, \<open>re.search\<close>: the first match at a position, the leftmost position that has one.\<close>

definition match_at :: "rx \<Rightarrow> string \<Rightarrow> nat \<Rightarrow> (nat \<times> groups) option" where
  "match_at r s i = (case ends r s i [] of [] \<Rightarrow> None | m # _ \<Rightarrow> Some m)"

fun search_from :: "rx \<Rightarrow> string \<Rightarrow> nat list \<Rightarrow> (nat \<times> nat \<times> groups) option" where
  "search_from r s [] = None"
| "search_from r s (i # js) =
     (case match_at r s i of Some (j, g) \<Rightarrow> Some (i, j, g) | None \<Rightarrow> search_from r s js)"

definition rx_search :: "rx \<Rightarrow> string \<Rightarrow> (nat \<times> nat \<times> groups) option" where
  "rx_search r s = search_from r s [0..<Suc (length s)]"

definition rx_found :: "rx \<Rightarrow> string \<Rightarrow> bool" where
  "rx_found r s = (rx_search r s \<noteq> None)"

text \<open>\<open>m.group(n)\<close> of a match.\<close>

definition group_text :: "nat \<Rightarrow> string \<Rightarrow> groups \<Rightarrow> string option" where
  "group_text n s g =
     (case find (\<lambda>(k, i, j). k = n) g of None \<Rightarrow> None | Some (k, i, j) \<Rightarrow> Some (take (j - i) (drop i s)))"

text \<open>
  \<open>re.sub(r, by, s)\<close> for an expression that never matches the empty string: the leftmost
  match is replaced and the search goes on behind it.
\<close>

function rx_sub :: "rx \<Rightarrow> string \<Rightarrow> string \<Rightarrow> nat \<Rightarrow> string" where
  "rx_sub r by_text s i =
     (if length s < i then []
      else (case search_from r s [i..<Suc (length s)] of
              None \<Rightarrow> drop i s
            | Some (a, b, g) \<Rightarrow>
                if i \<le> a \<and> a < b \<and> b \<le> length s
                then take (a - i) (drop i s) @ by_text @ rx_sub r by_text s b
                else drop i s))"
  by pat_completeness auto
termination
  by (relation "measure (\<lambda>(r, b, s, i). Suc (length s) - i)") auto

declare rx_sub.simps [simp del]

text \<open>\<open>re.finditer\<close> for such an expression: the matches from left to right, each behind the one before.\<close>

function finditer_from :: "rx \<Rightarrow> string \<Rightarrow> nat \<Rightarrow> (nat \<times> nat \<times> groups) list" where
  "finditer_from r s i =
     (if length s < i then []
      else (case search_from r s [i..<Suc (length s)] of
              None \<Rightarrow> []
            | Some (a, b, g) \<Rightarrow> if i \<le> a \<and> a < b \<and> b \<le> length s then (a, b, g) # finditer_from r s b else []))"
  by pat_completeness auto
termination
  by (relation "measure (\<lambda>(r, s, i). Suc (length s) - i)") auto

declare finditer_from.simps [simp del]

definition rx_finditer :: "rx \<Rightarrow> string \<Rightarrow> (nat \<times> nat \<times> groups) list" where
  "rx_finditer r s = finditer_from r s 0"

definition text_cut :: "nat \<Rightarrow> nat \<Rightarrow> 'a list \<Rightarrow> 'a list" where
  "text_cut i j s = take (j - i) (drop i s)"

definition rx_findall :: "rx \<Rightarrow> string \<Rightarrow> string list" where
  "rx_findall r s = map (\<lambda>(a, b, g). text_cut a b s) (rx_finditer r s)"

section \<open>Facts about matching\<close>

lemma ends_bounds: "(j, g') \<in> set (ends r s i g) \<Longrightarrow> i \<le> length s \<Longrightarrow> i \<le> j \<and> j \<le> length s"
proof (induction r s i g arbitrary: j g' rule: ends.induct)
  case (3 p q s i g)
  then show ?case by fastforce
next
  case (5 p s i g)
  from "5.prems"(1) consider "j = i"
    | k gk where "(k, gk) \<in> set (ends p s i g)" "i < k" "k \<le> length s" "(j, g') \<in> set (ends (Star p) s k gk)"
    by (subst (asm) ends.simps) (auto split: if_splits)
  then show ?case
  proof cases
    case 1
    with "5.prems" show ?thesis by simp
  next
    case 2
    with "5.IH"(2)[of "(k, gk)" k gk j g'] show ?thesis by auto
  qed
next
  case (10 p s i g)
  from "10.prems"(1) consider "j = i"
    | k gk where "(k, gk) \<in> set (ends p s i g)" "i < k" "k \<le> length s" "(j, g') \<in> set (ends (Lazy p) s k gk)"
    by (subst (asm) ends.simps) (auto split: if_splits)
  then show ?case
  proof cases
    case 1
    with "10.prems" show ?thesis by simp
  next
    case 2
    with "10.IH"(2)[of "(k, gk)" k gk j g'] show ?thesis by auto
  qed
qed (auto split: if_splits)

lemma search_from_Some:
  "search_from r s is = Some (i, j, g) \<Longrightarrow> i \<in> set is \<and> match_at r s i = Some (j, g)"
  by (induction r s "is" rule: search_from.induct) (auto split: option.splits)

lemma search_from_None: "search_from r s is = None \<longleftrightarrow> (\<forall>i \<in> set is. ends r s i [] = [])"
  by (induction r s "is" rule: search_from.induct) (auto simp: match_at_def split: option.splits list.splits)

lemma rx_found_iff: "rx_found r s \<longleftrightarrow> (\<exists>i \<le> length s. ends r s i [] \<noteq> [])"
  by (auto simp: rx_found_def rx_search_def search_from_None less_Suc_eq_le simp del: upt_Suc)

section \<open>A match is at least as long as its expression\<close>

fun min_len :: "rx \<Rightarrow> nat" where
  "min_len (CSet neg rs) = 1"
| "min_len (Seq p q) = min_len p + min_len q"
| "min_len (Alt p q) = min (min_len p) (min_len q)"
| "min_len (Grp n p) = min_len p"
| "min_len r = 0"

lemma ends_min_len: "(j, g') \<in> set (ends r s i g) \<Longrightarrow> i \<le> length s \<Longrightarrow> i + min_len r \<le> j"
proof (induction r s i g arbitrary: j g' rule: ends.induct)
  case (3 p q s i g)
  from "3.prems"(1) obtain k gk where k: "(k, gk) \<in> set (ends p s i g)" "(j, g') \<in> set (ends q s k gk)"
    by auto
  from "3.IH"(1) [OF k(1) "3.prems"(2)] "3.IH"(2) [OF k(1) refl k(2)] ends_bounds [OF k(1) "3.prems"(2)]
  show ?case by simp
next
  case (5 p s i g)
  then show ?case using ends_bounds [of j g' "Star p" s i g] by simp
next
  case (10 p s i g)
  then show ?case using ends_bounds [of j g' "Lazy p" s i g] by simp
next
  case (4 p q s i g)
  from "4.prems"(1) consider "(j, g') \<in> set (ends p s i g)" | "(j, g') \<in> set (ends q s i g)" by auto
  then show ?case using "4.IH" "4.prems"(2) by cases fastforce+
qed (auto split: if_splits)

lemma rx_found_length: "rx_found r s \<Longrightarrow> min_len r \<le> length s"
proof -
  assume "rx_found r s"
  then obtain i where i: "i \<le> length s" "ends r s i [] \<noteq> []" by (auto simp: rx_found_iff)
  then obtain j g where "(j, g) \<in> set (ends r s i [])" by (cases "ends r s i []") auto
  from ends_min_len [OF this i(1)] ends_bounds [OF this i(1)] show ?thesis by simp
qed

end
