(* ===== verification/Py_Values.thy ===== *)
theory Py_Values
  imports Prelude
begin

text \<open>
  The dynamic Python values that travel through events, scan results and rows: primitives,
  containers (mutable and frozen) and objects of any other type, with the built-ins the
  program applies to them: truth, \<open>str\<close>, \<open>repr\<close>, \<open>int\<close>, \<open>dict.get\<close> and \<open>json.dumps\<close>.

  A dictionary is the list of its items in insertion order; its keys are text, as in every
  dictionary the program builds. A float is given by its integral part and its \<open>repr\<close>.
\<close>

section \<open>Values and errors\<close>

datatype pyval =
    PNone
  | PBool bool
  | PInt int
  | PFloat int string
  | PStr string
  | PBytes string
  | PDict "(string \<times> pyval) list"
  | PProxy "(string \<times> pyval) list"  \<comment> \<open>\<open>MappingProxyType\<close>\<close>
  | PList "pyval list"
  | PTuple "pyval list"
  | PSet "pyval list"
  | PFrozenset "pyval list"
  | PObj string string  \<comment> \<open>type name, text\<close>

type_synonym dict = "(string \<times> pyval) list"

datatype error =
    ValueError string
  | TypeError string
  | KeyError string
  | RawSecret string  \<comment> \<open>the path of the offending value\<close>
  | StoreError string

section \<open>Dictionaries\<close>

definition dict_get :: "string \<Rightarrow> pyval \<Rightarrow> dict \<Rightarrow> pyval" where
  "dict_get k d m = (case map_of m k of Some v \<Rightarrow> v | None \<Rightarrow> d)"

fun dict_put :: "string \<Rightarrow> pyval \<Rightarrow> dict \<Rightarrow> dict" where
  "dict_put k v [] = [(k, v)]"
| "dict_put k v ((k', v') # m) = (if k = k' then (k, v) # m else (k', v') # dict_put k v m)"

definition dict_update :: "dict \<Rightarrow> dict \<Rightarrow> dict" where
  "dict_update m m' = foldl (\<lambda>d (k, v). dict_put k v d) m m'"

lemma map_of_dict_put: "map_of (dict_put k v m) = (map_of m)(k \<mapsto> v)"
  by (induction k v m rule: dict_put.induct) auto

lemma dict_get_put: "dict_get k d (dict_put k' v m) = (if k = k' then v else dict_get k d m)"
  by (simp add: dict_get_def map_of_dict_put)

lemma set_dict_put: "set (dict_put k v m) \<subseteq> insert (k, v) (set m)"
  by (induction k v m rule: dict_put.induct) auto

lemma set_dict_update: "set (dict_update m m') \<subseteq> set m \<union> set m'"
  unfolding dict_update_def
proof (induction m' arbitrary: m)
  case (Cons a m')
  then show ?case
    using set_dict_put [of "fst a" "snd a" m] by (fastforce simp: case_prod_beta)
qed simp

section \<open>Truth, text and integers\<close>

fun py_truthy :: "pyval \<Rightarrow> bool" where
  "py_truthy PNone = False"
| "py_truthy (PBool b) = b"
| "py_truthy (PInt i) = (i \<noteq> 0)"
| "py_truthy (PFloat i s) = (s \<noteq> ''0.0'' \<and> s \<noteq> ''-0.0'')"
| "py_truthy (PStr s) = (s \<noteq> [])"
| "py_truthy (PBytes s) = (s \<noteq> [])"
| "py_truthy (PDict m) = (m \<noteq> [])"
| "py_truthy (PProxy m) = (m \<noteq> [])"
| "py_truthy (PList vs) = (vs \<noteq> [])"
| "py_truthy (PTuple vs) = (vs \<noteq> [])"
| "py_truthy (PSet vs) = (vs \<noteq> [])"
| "py_truthy (PFrozenset vs) = (vs \<noteq> [])"
| "py_truthy (PObj t s) = True"

definition hex_digit :: "nat \<Rightarrow> char" where
  "hex_digit n = (if n < 10 then char_of (48 + n) else char_of (87 + n))"

definition hex2 :: "nat \<Rightarrow> string" where
  "hex2 n = [hex_digit (n div 16), hex_digit (n mod 16)]"

text \<open>\<open>repr\<close> of text: double quotes only when it has a single quote and no double one.\<close>

definition repr_char :: "char \<Rightarrow> char \<Rightarrow> string" where
  "repr_char q c =
     (if c = q \<or> c = CHR 0x5C then [CHR 0x5C, c]
      else if c = CHR 0x0A then [CHR 0x5C, CHR ''n'']
      else if c = CHR 0x0D then [CHR 0x5C, CHR ''r'']
      else if c = CHR 0x09 then [CHR 0x5C, CHR ''t'']
      else if code_of c < 32 \<or> 126 < code_of c then [CHR 0x5C, CHR ''x''] @ hex2 (code_of c)
      else [c])"

definition repr_str :: "string \<Rightarrow> string" where
  "repr_str s =
     (let q = (if CHR 0x27 \<in> set s \<and> CHR 0x22 \<notin> set s then CHR 0x22 else CHR 0x27)
      in q # concat (map (repr_char q) s) @ [q])"

fun repr_val :: "pyval \<Rightarrow> string" where
  "repr_val PNone = ''None''"
| "repr_val (PBool b) = (if b then ''True'' else ''False'')"
| "repr_val (PInt i) = int_str i"
| "repr_val (PFloat i s) = s"
| "repr_val (PStr s) = repr_str s"
| "repr_val (PBytes s) = CHR ''b'' # repr_str s"
| "repr_val (PDict m) = ''{'' @ py_join '', '' (map (\<lambda>(k, v). repr_str k @ '': '' @ repr_val v) m) @ ''}''"
| "repr_val (PProxy m) =
     ''mappingproxy({'' @ py_join '', '' (map (\<lambda>(k, v). repr_str k @ '': '' @ repr_val v) m) @ ''})''"
| "repr_val (PList vs) = ''['' @ py_join '', '' (map repr_val vs) @ '']''"
| "repr_val (PTuple vs) =
     (case vs of [v] \<Rightarrow> ''('' @ repr_val v @ '',)'' | _ \<Rightarrow> ''('' @ py_join '', '' (map repr_val vs) @ '')'')"
| "repr_val (PSet vs) =
     (if vs = [] then ''set()'' else ''{'' @ py_join '', '' (map repr_val vs) @ ''}'')"
| "repr_val (PFrozenset vs) =
     (if vs = [] then ''frozenset()'' else ''frozenset({'' @ py_join '', '' (map repr_val vs) @ ''})'')"
| "repr_val (PObj t s) = s"

definition py_str :: "pyval \<Rightarrow> string" where
  "py_str v = (case v of PStr s \<Rightarrow> s | _ \<Rightarrow> repr_val v)"

lemma py_str_simps [simp]:
  "py_str (PStr s) = s"
  "py_str (PInt i) = int_str i"
  "py_str PNone = ''None''"
  by (simp_all add: py_str_def)

fun py_int :: "pyval \<Rightarrow> error + int" where
  "py_int (PBool b) = Inr (if b then 1 else 0)"
| "py_int (PInt i) = Inr i"
| "py_int (PFloat i s) = Inr i"
| "py_int (PStr s) = (case py_int_of_str s of Some i \<Rightarrow> Inr i | None \<Rightarrow> Inl (ValueError ''int''))"
| "py_int (PBytes s) = (case py_int_of_str s of Some i \<Rightarrow> Inr i | None \<Rightarrow> Inl (ValueError ''int''))"
| "py_int v = Inl (TypeError ''int'')"

section \<open>Canonical JSON\<close>

text \<open>
  \<open>json.dumps(v, sort_keys=True, separators=(",", ":"), ensure_ascii=True)\<close>: keys sorted, no
  blanks, everything outside the printable ASCII range escaped; a value that is not
  serializable raises.
\<close>

definition json_char :: "char \<Rightarrow> string" where
  "json_char c =
     (if c = CHR 0x22 \<or> c = CHR 0x5C then [CHR 0x5C, c]
      else if c = CHR 0x0A then [CHR 0x5C, CHR ''n'']
      else if c = CHR 0x0D then [CHR 0x5C, CHR ''r'']
      else if c = CHR 0x09 then [CHR 0x5C, CHR ''t'']
      else if c = CHR 0x0C then [CHR 0x5C, CHR ''f'']
      else if c = CHR 0x08 then [CHR 0x5C, CHR ''b'']
      else if code_of c < 32 \<or> 126 < code_of c then [CHR 0x5C, CHR ''u'', CHR ''0'', CHR ''0''] @ hex2 (code_of c)
      else [c])"

definition json_str :: "string \<Rightarrow> string" where
  "json_str s = CHR 0x22 # concat (map json_char s) @ [CHR 0x22]"

definition json_member :: "string \<times> string \<Rightarrow> string" where
  "json_member kv = json_str (fst kv) @ '':'' @ snd kv"

definition json_object :: "(string \<times> string) list \<Rightarrow> string" where
  "json_object kvs = ''{'' @ py_join '','' (map json_member (sort_key fst kvs)) @ ''}''"

fun seq_results :: "('e + 'a) list \<Rightarrow> 'e + 'a list" where
  "seq_results [] = Inr []"
| "seq_results (r # rs) = res_bind r (\<lambda>a. res_bind (seq_results rs) (\<lambda>as. Inr (a # as)))"

fun json_dumps :: "pyval \<Rightarrow> error + string" where
  "json_dumps PNone = Inr ''null''"
| "json_dumps (PBool b) = Inr (if b then ''true'' else ''false'')"
| "json_dumps (PInt i) = Inr (int_str i)"
| "json_dumps (PFloat i s) = Inr s"
| "json_dumps (PStr s) = Inr (json_str s)"
| "json_dumps (PDict m) =
     res_bind (seq_results (map (\<lambda>(k, v). res_bind (json_dumps v) (\<lambda>t. Inr (k, t))) m))
       (\<lambda>kvs. Inr (json_object kvs))"
| "json_dumps (PList vs) =
     res_bind (seq_results (map json_dumps vs)) (\<lambda>ts. Inr (''['' @ py_join '','' ts @ '']''))"
| "json_dumps (PTuple vs) =
     res_bind (seq_results (map json_dumps vs)) (\<lambda>ts. Inr (''['' @ py_join '','' ts @ '']''))"
| "json_dumps v = Inl (TypeError ''not JSON serializable'')"

lemma seq_results_Inr: "seq_results rs = Inr as \<longleftrightarrow> rs = map Inr as"
  by (induction rs arbitrary: "as") (auto simp: res_bind_Inr_iff)

lemma seq_map_Inr: "seq_results (map f xs) = Inr ys \<longleftrightarrow> list_all2 (\<lambda>x y. f x = Inr y) xs ys"
  by (induction xs arbitrary: ys) (auto simp: res_bind_Inr_iff list_all2_Cons1)

lemma seq_map_ok: "(\<exists>ys. seq_results (map f xs) = Inr ys) \<longleftrightarrow> (\<forall>x \<in> set xs. \<exists>y. f x = Inr y)"
  by (induction xs) (auto simp: res_bind_Inr_iff)

lemma seq_map_mem:
  "seq_results (map f xs) = Inr ys \<Longrightarrow> y \<in> set ys \<Longrightarrow> \<exists>x \<in> set xs. f x = Inr y"
  by (auto simp: seq_map_Inr list_all2_conv_all_nth in_set_conv_nth) force

text \<open>The items of a dictionary mapped over their values.\<close>

lemma seq_items_Inr:
  "seq_results (map (\<lambda>(k, v). res_bind (f v) (\<lambda>w. Inr (k, w))) m) = Inr m'
   \<longleftrightarrow> list_all2 (\<lambda>kv kw. fst kw = fst kv \<and> f (snd kv) = Inr (snd kw)) m m'"
proof -
  have "(case kv of (k, v) \<Rightarrow> res_bind (f v) (\<lambda>w. Inr (k, w))) = Inr kw
      \<longleftrightarrow> fst kw = fst kv \<and> f (snd kv) = Inr (snd kw)" for kv kw
    by (cases kv; cases kw) (auto simp: res_bind_Inr_iff)
  then show ?thesis unfolding seq_map_Inr by (intro list.rel_cong refl)
qed

lemma seq_items_ok:
  "(\<exists>m'. seq_results (map (\<lambda>(k, v). res_bind (f v) (\<lambda>w. Inr (k, w))) m) = Inr m')
   \<longleftrightarrow> (\<forall>kv \<in> set m. \<exists>w. f (snd kv) = Inr w)"
  by (auto simp: seq_map_ok res_bind_Inr_iff)

section \<open>Text is encoded without ambiguity\<close>

text \<open>A decoder of one encoded character: what it returns shows that no code is a prefix of another.\<close>

definition hex_val :: "char \<Rightarrow> nat" where
  "hex_val c = (if code_of c < 58 then code_of c - 48 else code_of c - 87)"

definition json_escapes :: "(char \<times> char) list" where
  "json_escapes = [(CHR 0x22, CHR 0x22), (CHR 0x5C, CHR 0x5C), (CHR ''n'', CHR 0x0A), (CHR ''r'', CHR 0x0D),
     (CHR ''t'', CHR 0x09), (CHR ''f'', CHR 0x0C), (CHR ''b'', CHR 0x08)]"

definition json_decode :: "string \<Rightarrow> char \<times> string" where
  "json_decode s =
     (if hd s \<noteq> CHR 0x5C then (hd s, tl s)
      else if hd (tl s) = CHR ''u'' then (char_of (16 * hex_val (s ! 4) + hex_val (s ! 5)), drop 6 s)
      else (case map_of json_escapes (hd (tl s)) of Some c \<Rightarrow> (c, drop 2 s) | None \<Rightarrow> (hd s, tl s)))"

lemma hex_val_digit: "n < 16 \<Longrightarrow> hex_val (hex_digit n) = n"
  by (auto simp: hex_val_def hex_digit_def code_of_def take_bit_eq_mod)

lemma code_of_less: "code_of c < 256"
  unfolding code_of_def by (cases c) (simp add: of_char_def horner_sum_simps)

lemma json_decode_char: "json_decode (json_char c @ u) = (c, u)"
proof -
  have "code_of c div 16 < 16" "code_of c mod 16 < 16"
    using code_of_less [of c] by simp_all
  then have "char_of (16 * hex_val (hex_digit (code_of c div 16)) + hex_val (hex_digit (code_of c mod 16))) = c"
    by (simp add: hex_val_digit code_of_def)
  then show ?thesis
    by (simp add: json_decode_def json_char_def json_escapes_def hex2_def)
qed

lemma json_char_not_quote: "json_char c @ u \<noteq> CHR 0x22 # v"
  by (simp add: json_char_def)

lemma json_chars_prefix_free:
  "concat (map json_char s) @ CHR 0x22 # u = concat (map json_char t) @ CHR 0x22 # v \<Longrightarrow> s = t \<and> u = v"
proof (induction s arbitrary: t)
  case Nil
  then show ?case
    using json_char_not_quote [of _ _ u, symmetric] by (cases t) auto
next
  case (Cons c s)
  show ?case
  proof (cases t)
    case Nil
    with Cons.prems show ?thesis
      by (simp add: json_char_not_quote)
  next
    case (Cons d t')
    let ?f = "\<lambda>s u. concat (map json_char s) @ CHR 0x22 # u"
    from Cons Cons.prems have "json_char c @ ?f s u = json_char d @ ?f t' v" by simp
    then have "json_decode (json_char c @ ?f s u) = json_decode (json_char d @ ?f t' v)"
      by (rule arg_cong)
    then have "c = d \<and> ?f s u = ?f t' v"
      unfolding json_decode_char by (rule Pair_inject) (rule conjI)
    with Cons Cons.IH [of t'] show ?thesis by simp
  qed
qed

lemma json_str_prefix_free: "json_str s @ u = json_str t @ v \<Longrightarrow> s = t \<and> u = v"
  using json_chars_prefix_free [of s u t v] by (simp add: json_str_def)

lemma json_member_prefix_free:
  "json_member (k, json_str s) @ u = json_member (k, json_str t) @ v \<Longrightarrow> s = t \<and> u = v"
  using json_str_prefix_free [of s u t v] by (simp add: json_member_def)

end
