(* ===== verification/Publisher.thy ===== *)
theory Publisher
  imports Events
begin

text \<open>
  The publisher (\<open>event_publisher.py\<close>): it turns the dictionary a scan returns into
  security domain events and sends them to the bus. The keys of the scan result that the
  publisher reads are the fields of \<open>scan_result\<close>, absent ones with the default the code
  gives \<open>dict.get\<close>. The factories of event ids and time stamps are sequences: \<open>ids k\<close> and
  \<open>clk k\<close> are the results of their calls for the event number \<open>k\<close> of a scan.
\<close>

section \<open>Input\<close>

record scan_result =
  sr_status :: pyval
  sr_syntax_errors :: "pyval list"
  sr_summary :: dict
  sr_findings :: "dict list"
  sr_secret_findings :: "dict list"
  sr_sca_findings :: "dict list"

text \<open>Policy thresholds; \<open>PNone\<close> for one that is not given.\<close>

record thresholds =
  th_min_score :: pyval
  th_max_critical :: pyval
  th_max_high :: pyval
  th_forbidden_cwes :: "string list"

definition active_findings :: "scan_result \<Rightarrow> dict list" where
  "active_findings sr = filter (\<lambda>f. \<not> py_truthy (dict_get ''suppressed'' (PBool False) f)) (sr_findings sr)"

definition of_severity :: "string \<Rightarrow> dict list \<Rightarrow> dict list" where
  "of_severity sev fs = filter (\<lambda>f. dict_get ''severity'' PNone f = PStr sev) fs"

section \<open>The summary\<close>

definition determine_scan_status :: "scan_result \<Rightarrow> scan_status" where
  "determine_scan_status sr =
     (let raw = py_lower (py_str (sr_status sr))
      in if raw = ''failed'' \<or> raw = ''error'' then FAILED
         else if sr_syntax_errors sr \<noteq> [] then PARTIAL
         else SUCCESS)"

definition count_of :: "string \<Rightarrow> nat \<Rightarrow> dict \<Rightarrow> error + int" where
  "count_of k n m = py_int (dict_get k (PInt (int n)) m)"

definition build_event_summary :: "scan_result \<Rightarrow> error + event_summary" where
  "build_event_summary sr =
     (let raw = sr_summary sr; act = active_findings sr in
      res_bind (count_of ''active_vulnerabilities'' (length act) raw) (\<lambda>sast.
      res_bind (count_of ''sca_vulnerabilities'' (length (sr_sca_findings sr)) raw) (\<lambda>sca.
      res_bind (count_of ''secrets_detected'' (length (sr_secret_findings sr)) raw) (\<lambda>sec.
      res_bind (count_of ''critical_count'' (length (of_severity ''CRITICAL'' act)) raw) (\<lambda>crit.
      res_bind (count_of ''high_count'' (length (of_severity ''HIGH'' act)) raw) (\<lambda>high.
      res_bind (count_of ''medium_count'' 0 raw) (\<lambda>med.
      res_bind (count_of ''low_count'' 0 raw) (\<lambda>low.
      res_bind (count_of ''security_score'' 100 raw) (\<lambda>score.
        Inr \<lparr>sast_findings = sast, sca_findings = sca, secret_findings = sec,
             total_findings = sast + sca + sec, critical_count = crit, high_count = high,
             medium_count = med, low_count = low, security_score = score,
             risk_level = py_str (dict_get ''risk_level'' (PStr ''CLEAN'') raw),
             scan_status_of_summary = determine_scan_status sr,
             summary_message = py_str (dict_get ''risk_message'' (PStr []) raw)\<rparr>)))))))))"

section \<open>Metadata, fingerprints and contexts\<close>

definition base_metadata :: "scan_result \<Rightarrow> event_summary \<Rightarrow> dict \<Rightarrow> dict" where
  "base_metadata sr s extra =
     dict_update
       [(''files_scanned'', dict_get ''total_files'' (PInt 0) (sr_summary sr)),
        (''lines_scanned'', dict_get ''lines_scanned'' (PInt 0) (sr_summary sr)),
        (''active_vulnerabilities'', PInt (sast_findings s)),
        (''suppressed_vulnerabilities'', dict_get ''suppressed_vulnerabilities'' (PInt 0) (sr_summary sr)),
        (''scan_status'', PStr (scan_status_value (scan_status_of_summary s)))] extra"

definition fingerprint :: "string list \<Rightarrow> dict \<Rightarrow> string" where
  "fingerprint ks f = py_join '':'' (map (\<lambda>k. py_str (dict_get k PNone f)) ks)"

definition critical_fingerprints :: "dict list \<Rightarrow> string list" where
  "critical_fingerprints fs = sort (map (fingerprint [''cwe'', ''file'', ''line_number'', ''sink_symbol'']) fs)"

definition secret_fingerprints :: "dict list \<Rightarrow> string list" where
  "secret_fingerprints fs =
     sort (map (fingerprint [''secret_type'', ''file'', ''line_number'', ''detector'', ''masked_value'']) fs)"

definition completed_context :: "event_summary \<Rightarrow> dict" where
  "completed_context s =
     [(''sast'', PInt (sast_findings s)), (''sca'', PInt (sca_findings s)), (''secrets'', PInt (secret_findings s)),
      (''score'', PInt (security_score s)), (''risk_level'', PStr (risk_level s)),
      (''status'', PStr (scan_status_value (scan_status_of_summary s)))]"

definition critical_context :: "dict list \<Rightarrow> dict" where
  "critical_context fs =
     [(''critical_count'', PInt (int (length fs))), (''findings'', PList (map PStr (critical_fingerprints fs)))]"

definition secrets_context :: "dict list \<Rightarrow> dict" where
  "secrets_context fs =
     [(''secrets_count'', PInt (int (length fs))), (''secrets'', PList (map PStr (secret_fingerprints fs)))]"

definition policy_context :: "string list \<Rightarrow> dict" where
  "policy_context vs =
     [(''violations'', PList (map PStr (sort vs))), (''violation_count'', PInt (int (length vs)))]"

section \<open>Policy thresholds\<close>

definition limit_violation :: "pyval \<Rightarrow> (int \<Rightarrow> bool) \<Rightarrow> (string \<Rightarrow> string) \<Rightarrow> error + string list" where
  "limit_violation lim breached msg =
     (if lim = PNone then Inr []
      else res_bind (py_int lim) (\<lambda>n. Inr (if breached n then [msg (py_str lim)] else [])))"

definition breached_cwes :: "string list \<Rightarrow> dict list \<Rightarrow> string list" where
  "breached_cwes forbidden act =
     (let cwes = filter py_truthy (map (dict_get ''cwe'' PNone) act)
      in sort (remdups (filter (\<lambda>c. PStr c \<in> set cwes) forbidden)))"

definition policy_violations :: "thresholds \<Rightarrow> event_summary \<Rightarrow> dict list \<Rightarrow> error + string list" where
  "policy_violations th s act =
     res_bind (limit_violation (th_min_score th) (\<lambda>n. security_score s < n)
       (\<lambda>t. ''Security score '' @ int_str (security_score s) @ '' below minimum allowable '' @ t)) (\<lambda>v1.
     res_bind (limit_violation (th_max_critical th) (\<lambda>n. n < critical_count s)
       (\<lambda>t. ''Critical count '' @ int_str (critical_count s) @ '' exceeds maximum allowable '' @ t)) (\<lambda>v2.
     res_bind (limit_violation (th_max_high th) (\<lambda>n. n < high_count s)
       (\<lambda>t. ''High count '' @ int_str (high_count s) @ '' exceeds maximum allowable '' @ t)) (\<lambda>v3.
       let b = breached_cwes (th_forbidden_cwes th) act
       in Inr (v1 @ v2 @ v3 @ (if b = [] then [] else [''Forbidden CWE classes detected: '' @ py_join '', '' b])))))"

definition scan_violations :: "thresholds option \<Rightarrow> event_summary \<Rightarrow> scan_result \<Rightarrow> error + string list" where
  "scan_violations policy s sr =
     (case policy of None \<Rightarrow> Inr [] | Some th \<Rightarrow> policy_violations th s (active_findings sr))"

section \<open>The events of a scan\<close>

definition new_event :: "(string \<Rightarrow> string) \<Rightarrow> string \<Rightarrow> string \<Rightarrow> event_type \<Rightarrow> string \<Rightarrow> string \<Rightarrow> event_summary
    \<Rightarrow> nat \<Rightarrow> dict \<Rightarrow> dict \<Rightarrow> error + event" where
  "new_event sha eid stamp t repository scan_id s high_risk md ctx =
     res_bind (compute_dedupe_key sha 1 t repository scan_id ctx) (\<lambda>key.
       mk_event (PInt 1) (PStr eid) (TypeEnum t) (PStr stamp) (PStr repository) (PStr scan_id) (SummaryObj s)
         (PInt (int high_risk)) (PDict md) (PStr key))"

definition emit_if :: "bool \<Rightarrow> error + event \<Rightarrow> error + event list" where
  "emit_if c e = (if c then res_bind e (\<lambda>ev. Inr [ev]) else Inr [])"

definition build_events :: "(string \<Rightarrow> string) \<Rightarrow> (nat \<Rightarrow> string) \<Rightarrow> (nat \<Rightarrow> string) \<Rightarrow> scan_result \<Rightarrow> string \<Rightarrow> string
    \<Rightarrow> dict \<Rightarrow> thresholds option \<Rightarrow> error + event list" where
  "build_events sha ids clk sr repository scan_id metadata policy =
     (if py_strip scan_id = [] then Inl (ValueError ''scan_id'')
      else let sid = py_strip scan_id; act = active_findings sr;
               crit = of_severity ''CRITICAL'' act; high = of_severity ''HIGH'' act;
               secrets = sr_secret_findings sr; risk = length crit + length high
           in res_bind (build_event_summary sr) (\<lambda>s.
              let base = base_metadata sr s metadata;
                  make = (\<lambda>k t md ctx. new_event sha (ids k) (clk k) t repository sid s risk md ctx)
              in res_bind (emit_if True (make 0 SCAN_COMPLETED base (completed_context s))) (\<lambda>e1.
                 res_bind (emit_if (crit \<noteq> []) (make (length e1) CRITICAL_FINDING_DETECTED
                     (dict_put ''critical_fingerprints'' (PList (map PStr (critical_fingerprints crit))) base)
                     (critical_context crit))) (\<lambda>e2.
                 res_bind (emit_if (secrets \<noteq> []) (make (length (e1 @ e2)) SECRETS_LEAK_DETECTED
                     (dict_put ''secret_fingerprints'' (PList (map PStr (secret_fingerprints secrets))) base)
                     (secrets_context secrets))) (\<lambda>e3.
                 res_bind (scan_violations policy s sr) (\<lambda>vs.
                 res_bind (emit_if (vs \<noteq> []) (make (length (e1 @ e2 @ e3)) POLICY_VIOLATION
                     (dict_put ''violations'' (PList (map PStr vs)) base) (policy_context vs))) (\<lambda>e4.
                   Inr (e1 @ e2 @ e3 @ e4))))))))"

fun publish_each :: "('h, 'w) run \<Rightarrow> (('h, 'w) bus_state \<Rightarrow> ('h, 'w) bus_state \<Rightarrow> nat) \<Rightarrow> event list
    \<Rightarrow> ('h, 'w) bus_state \<Rightarrow> (event \<times> dispatch_result list) list \<times> ('h, 'w) bus_state" where
  "publish_each run elapsed [] st = ([], st)"
| "publish_each run elapsed (e # es) st =
     (let out = publish run elapsed e st; rest = publish_each run elapsed es (snd out)
      in ((e, fst out) # fst rest, snd rest))"

definition publish_scan_events :: "('h, 'w) run \<Rightarrow> (('h, 'w) bus_state \<Rightarrow> ('h, 'w) bus_state \<Rightarrow> nat)
    \<Rightarrow> (string \<Rightarrow> string) \<Rightarrow> (nat \<Rightarrow> string) \<Rightarrow> (nat \<Rightarrow> string) \<Rightarrow> scan_result \<Rightarrow> string \<Rightarrow> string
    \<Rightarrow> dict \<Rightarrow> thresholds option \<Rightarrow> ('h, 'w) bus_state
    \<Rightarrow> error + (event \<times> dispatch_result list) list \<times> ('h, 'w) bus_state" where
  "publish_scan_events run elapsed sha ids clk sr repository scan_id metadata policy st =
     res_bind (build_events sha ids clk sr repository scan_id metadata policy)
       (\<lambda>es. Inr (publish_each run elapsed es st))"

section \<open>What a scan publishes\<close>

text \<open>The events a scan calls for: their types and the contexts of their keys, in order.\<close>

definition planned_events :: "scan_result \<Rightarrow> event_summary \<Rightarrow> string list \<Rightarrow> (event_type \<times> dict) list" where
  "planned_events sr s vs =
     (let crit = of_severity ''CRITICAL'' (active_findings sr); secrets = sr_secret_findings sr
      in [(SCAN_COMPLETED, completed_context s)]
         @ (if crit = [] then [] else [(CRITICAL_FINDING_DETECTED, critical_context crit)])
         @ (if secrets = [] then [] else [(SECRETS_LEAK_DETECTED, secrets_context secrets)])
         @ (if vs = [] then [] else [(POLICY_VIOLATION, policy_context vs)]))"

definition realizes :: "(string \<Rightarrow> string) \<Rightarrow> string \<Rightarrow> string \<Rightarrow> event_summary \<Rightarrow> event_type \<times> dict \<Rightarrow> event \<Rightarrow> bool" where
  "realizes sha repository sid s plan e \<longleftrightarrow>
     ev_type e = fst plan \<and> ev_repository e = repository \<and> ev_scan_id e = sid \<and> ev_summary e = s \<and> event_wf e
     \<and> (\<exists>p. canonical_payload 1 (fst plan) repository sid (snd plan) = Inr p \<and> ev_dedupe_key e = sha p)"

lemma new_event_realizes:
  assumes "new_event sha eid stamp t repository sid s n md ctx = Inr e"
  shows "realizes sha repository sid s (t, ctx) e"
proof -
  from assms obtain p where p: "canonical_payload 1 t repository sid ctx = Inr p"
    and e: "mk_event (PInt 1) (PStr eid) (TypeEnum t) (PStr stamp) (PStr repository) (PStr sid) (SummaryObj s)
              (PInt (int n)) (PDict md) (PStr (sha p)) = Inr e"
    by (auto simp: new_event_def compute_dedupe_key_def res_bind_Inr_iff)
  from mk_event_wf [OF e] p e show ?thesis
    by (auto simp: realizes_def mk_event_Inr check_type_def check_summary_def)
qed

lemma emit_if_Inr: "emit_if c e = Inr es \<longleftrightarrow> (if c then \<exists>ev. e = Inr ev \<and> es = [ev] else es = [])"
  by (auto simp: emit_if_def res_bind_Inr_iff)

lemma emit_realizes:
  "emit_if c (new_event sha eid stamp t repository sid s n md ctx) = Inr es \<Longrightarrow>
   list_all2 (realizes sha repository sid s) (if c then [(t, ctx)] else []) es"
  by (auto simp: emit_if_Inr new_event_realizes split: if_splits)

lemma build_events_realize:
  assumes "build_events sha ids clk sr repository scan_id metadata policy = Inr es"
  shows "\<exists>s vs. build_event_summary sr = Inr s \<and> scan_violations policy s sr = Inr vs
     \<and> py_strip scan_id \<noteq> [] \<and> list_all2 (realizes sha repository (py_strip scan_id) s) (planned_events sr s vs) es"
proof -
  from assms obtain s vs e1 e2 e3 e4 where s: "build_event_summary sr = Inr s" "py_strip scan_id \<noteq> []"
      "scan_violations policy s sr = Inr vs" and es: "es = e1 @ e2 @ e3 @ e4"
    and e: "list_all2 (realizes sha repository (py_strip scan_id) s) [(SCAN_COMPLETED, completed_context s)] e1"
      "list_all2 (realizes sha repository (py_strip scan_id) s)
         (if of_severity ''CRITICAL'' (active_findings sr) \<noteq> []
          then [(CRITICAL_FINDING_DETECTED, critical_context (of_severity ''CRITICAL'' (active_findings sr)))] else []) e2"
      "list_all2 (realizes sha repository (py_strip scan_id) s)
         (if sr_secret_findings sr \<noteq> [] then [(SECRETS_LEAK_DETECTED, secrets_context (sr_secret_findings sr))] else []) e3"
      "list_all2 (realizes sha repository (py_strip scan_id) s)
         (if vs \<noteq> [] then [(POLICY_VIOLATION, policy_context vs)] else []) e4"
    by (clarsimp simp: build_events_def Let_def res_bind_Inr_iff split: if_splits dest!: emit_realizes)
  have "list_all2 (realizes sha repository (py_strip scan_id) s) (planned_events sr s vs) es"
    unfolding planned_events_def Let_def es
    by (intro list_all2_appendI; use e in \<open>simp split: if_splits\<close>)
  with s show ?thesis by blast
qed

lemma planned_types_distinct: "distinct (map fst (planned_events sr s vs))"
  by (simp add: planned_events_def Let_def)

lemma realizes_types: "list_all2 (realizes sha r sid s) plan es \<Longrightarrow> map ev_type es = map fst plan"
  by (induction rule: list_all2_induct) (auto simp: realizes_def)

lemma realizes_key: "realizes sha r sid s pl e \<Longrightarrow> realizes sha r sid s pl e' \<Longrightarrow> ev_dedupe_key e = ev_dedupe_key e'"
  unfolding realizes_def by (elim conjE exE) simp

lemma realizes_keys:
  "list_all2 (realizes sha r sid s) plan es \<Longrightarrow> list_all2 (realizes sha r sid s) plan es' \<Longrightarrow>
   map ev_dedupe_key es = map ev_dedupe_key es'"
proof (induction plan es arbitrary: es' rule: list_all2_induct)
  case (Cons pl plan e es)
  from Cons.prems obtain e' es'' where es': "es' = e' # es''" "realizes sha r sid s pl e'" "list_all2 (realizes sha r sid s) plan es''"
    by (auto simp: list_all2_Cons1)
  with Cons.IH Cons.hyps(1) realizes_key [of sha r sid s pl e e'] show ?case by simp
qed simp

text \<open>The canonical texts under the keys of a scan's events.\<close>

definition payload_list :: "string \<Rightarrow> string \<Rightarrow> event_type \<times> dict \<Rightarrow> string list" where
  "payload_list repository sid plan =
     (case canonical_payload 1 (fst plan) repository sid (snd plan) of Inr p \<Rightarrow> [p] | Inl e \<Rightarrow> [])"

definition scan_payloads :: "scan_result \<Rightarrow> string \<Rightarrow> string \<Rightarrow> thresholds option \<Rightarrow> string list" where
  "scan_payloads sr repository scan_id policy =
     (case build_event_summary sr of
        Inl e \<Rightarrow> []
      | Inr s \<Rightarrow> (case scan_violations policy s sr of
          Inl e \<Rightarrow> []
        | Inr vs \<Rightarrow> concat (map (payload_list repository (py_strip scan_id)) (planned_events sr s vs))))"

lemma distinct_via: "list_all2 (\<lambda>x y. \<exists>p. g p = fst x \<and> p \<in> P \<and> k y = h p) xs ys \<Longrightarrow> distinct (map fst xs) \<Longrightarrow>
   inj_on h P \<Longrightarrow> distinct (map k ys)"
proof (induction rule: list_all2_induct)
  case (Cons x xs y ys)
  from Cons.hyps(1) obtain p where p: "g p = fst x" "p \<in> P" "k y = h p" by blast
  have "k y \<noteq> k z" if "z \<in> set ys" for z
  proof -
    from that Cons.hyps(2) obtain x' p' where x': "x' \<in> set xs" "g p' = fst x'" "p' \<in> P" "k z = h p'"
      by (blast dest: list_all2_right)
    from x'(1) Cons.prems(1) have "fst x \<noteq> fst x'" by auto
    with p(1) x'(2) have "p \<noteq> p'" by auto
    with p x' Cons.prems(2) show ?thesis by (simp add: inj_on_eq_iff)
  qed
  with Cons show ?case by auto
qed simp

lemma payload_type:
  assumes p: "canonical_payload 1 t r sid ctx = Inr p"
  shows "(THE u. \<exists>c. canonical_payload 1 u r sid c = Inr p) = t"
proof (rule the_equality)
  show "\<exists>c. canonical_payload 1 t r sid c = Inr p" using p by (rule exI)
  show "u = t" if "\<exists>c. canonical_payload 1 u r sid c = Inr p" for u
    using that payload_unambiguous [OF _ p] by blast
qed

text \<open>
  The events of a scan: one SCAN_COMPLETED, then a CRITICAL_FINDING_DETECTED exactly when
  an active finding is critical, a SECRETS_LEAK_DETECTED exactly when there is a secret
  finding and a POLICY_VIOLATION exactly when a threshold is violated, each with the
  repository and the trimmed scan id of the call, the same summary, and well formed.
\<close>

theorem build_events_planned:
  assumes "build_events sha ids clk sr repository scan_id metadata policy = Inr es"
  shows "\<exists>s vs. build_event_summary sr = Inr s \<and> scan_violations policy s sr = Inr vs
     \<and> map ev_type es = map fst (planned_events sr s vs)
     \<and> (\<forall>e \<in> set es. ev_repository e = repository \<and> ev_scan_id e = py_strip scan_id \<and> ev_summary e = s \<and> event_wf e)"
proof -
  obtain s vs where sv: "build_event_summary sr = Inr s" "scan_violations policy s sr = Inr vs"
      "list_all2 (realizes sha repository (py_strip scan_id) s) (planned_events sr s vs) es"
    using build_events_realize [OF assms] by blast
  have "list_all (\<lambda>e. ev_repository e = repository \<and> ev_scan_id e = py_strip scan_id \<and> ev_summary e = s \<and> event_wf e) es"
    using sv(3) by (rule list_all2_dest) (simp add: realizes_def)
  with sv realizes_types [OF sv(3)] show ?thesis by (auto simp: list_all_iff)
qed

text \<open>
  C34: retrying a scan is idempotent for subscribers that deduplicate: with the same scan id
  (up to blanks around it) and other event ids, time stamps and extra metadata, the events
  have the same types and the same deduplication keys.
\<close>

theorem retry_keeps_keys:
  assumes "build_events sha ids clk sr repository scan_id metadata policy = Inr es"
    and "build_events sha ids' clk' sr repository scan_id' metadata' policy = Inr es'"
    and "py_strip scan_id = py_strip scan_id'"
  shows "map ev_type es = map ev_type es' \<and> map ev_dedupe_key es = map ev_dedupe_key es'"
proof -
  obtain s vs where sv: "build_event_summary sr = Inr s" "scan_violations policy s sr = Inr vs"
      "list_all2 (realizes sha repository (py_strip scan_id) s) (planned_events sr s vs) es"
    using build_events_realize [OF assms(1)] by blast
  with build_events_realize [OF assms(2)] assms(3)
  have es': "list_all2 (realizes sha repository (py_strip scan_id) s) (planned_events sr s vs) es'" by auto
  from realizes_types [OF sv(3)] realizes_types [OF es'] realizes_keys [OF sv(3) es'] show ?thesis by simp
qed

text \<open>
  The events of one scan have pairwise distinct deduplication keys, provided the hash
  has no collision on the canonical texts of these events.
\<close>

theorem scan_keys_distinct:
  assumes "build_events sha ids clk sr repository scan_id metadata policy = Inr es"
    and "inj_on sha (set (scan_payloads sr repository scan_id policy))"
  shows "distinct (map ev_dedupe_key es)"
proof -
  obtain s vs where sv: "build_event_summary sr = Inr s" "scan_violations policy s sr = Inr vs"
      "list_all2 (realizes sha repository (py_strip scan_id) s) (planned_events sr s vs) es"
    using build_events_realize [OF assms(1)] by blast
  let ?g = "\<lambda>p. THE u. \<exists>c. canonical_payload 1 u repository (py_strip scan_id) c = Inr p"
  have "list_all2 (\<lambda>x y. \<exists>p. ?g p = fst x \<and> p \<in> set (scan_payloads sr repository scan_id policy)
      \<and> ev_dedupe_key y = sha p) (planned_events sr s vs) es"
  proof (rule list.rel_mono_strong [OF sv(3)])
    fix x y
    assume xy: "x \<in> set (planned_events sr s vs)" "realizes sha repository (py_strip scan_id) s x y"
    obtain t ctx where x: "x = (t, ctx)" by (cases x)
    with xy(2) obtain p where p: "canonical_payload 1 t repository (py_strip scan_id) ctx = Inr p"
        "ev_dedupe_key y = sha p"
      by (auto simp: realizes_def)
    from p(1) xy(1) sv(1,2) have "p \<in> set (scan_payloads sr repository scan_id policy)"
      by (auto simp: x scan_payloads_def payload_list_def intro!: bexI [of _ x])
    with p payload_type [OF p(1)]
    show "\<exists>p. ?g p = fst x \<and> p \<in> set (scan_payloads sr repository scan_id policy) \<and> ev_dedupe_key y = sha p"
      by (auto simp: x)
  qed
  from distinct_via [OF this planned_types_distinct assms(2)] show ?thesis .
qed

lemma limit_violation_Inr:
  "limit_violation lim b msg = Inr vs \<Longrightarrow> vs \<noteq> [] \<longleftrightarrow> lim \<noteq> PNone \<and> (\<exists>n. py_int lim = Inr n \<and> b n)"
  by (auto simp: limit_violation_def res_bind_Inr_iff split: if_splits)

lemma breached_cwes_iff:
  "breached_cwes fs act \<noteq> [] \<longleftrightarrow> (\<exists>c \<in> set fs. c \<noteq> [] \<and> (\<exists>f \<in> set act. dict_get ''cwe'' PNone f = PStr c))"
proof -
  have "breached_cwes fs act \<noteq> [] \<longleftrightarrow> set (breached_cwes fs act) \<noteq> {}" by simp
  also have "\<dots> \<longleftrightarrow> (\<exists>c \<in> set fs. c \<noteq> [] \<and> (\<exists>f \<in> set act. dict_get ''cwe'' PNone f = PStr c))"
    by (force simp: breached_cwes_def Let_def)
  finally show ?thesis .
qed

text \<open>
  A policy is violated exactly when the score is below the given minimum, a count of
  critical or high findings is above its given maximum, or an active finding has a forbidden
  CWE.
\<close>

theorem policy_violated_iff:
  assumes "policy_violations th s act = Inr vs"
  shows "vs \<noteq> [] \<longleftrightarrow>
     (th_min_score th \<noteq> PNone \<and> (\<exists>n. py_int (th_min_score th) = Inr n \<and> security_score s < n))
   \<or> (th_max_critical th \<noteq> PNone \<and> (\<exists>n. py_int (th_max_critical th) = Inr n \<and> n < critical_count s))
   \<or> (th_max_high th \<noteq> PNone \<and> (\<exists>n. py_int (th_max_high th) = Inr n \<and> n < high_count s))
   \<or> (\<exists>c \<in> set (th_forbidden_cwes th). c \<noteq> [] \<and> (\<exists>f \<in> set act. dict_get ''cwe'' PNone f = PStr c))"
proof -
  obtain v1 v2 v3 where v:
    "limit_violation (th_min_score th) (\<lambda>n. security_score s < n)
       (\<lambda>t. ''Security score '' @ int_str (security_score s) @ '' below minimum allowable '' @ t) = Inr v1"
    "limit_violation (th_max_critical th) (\<lambda>n. n < critical_count s)
       (\<lambda>t. ''Critical count '' @ int_str (critical_count s) @ '' exceeds maximum allowable '' @ t) = Inr v2"
    "limit_violation (th_max_high th) (\<lambda>n. n < high_count s)
       (\<lambda>t. ''High count '' @ int_str (high_count s) @ '' exceeds maximum allowable '' @ t) = Inr v3"
    "vs = v1 @ v2 @ v3 @ (if breached_cwes (th_forbidden_cwes th) act = [] then []
       else [''Forbidden CWE classes detected: '' @ py_join '', '' (breached_cwes (th_forbidden_cwes th) act)])"
    using assms unfolding policy_violations_def res_bind_Inr_iff Let_def by blast
  have "vs \<noteq> [] \<longleftrightarrow> v1 \<noteq> [] \<or> v2 \<noteq> [] \<or> v3 \<noteq> [] \<or> breached_cwes (th_forbidden_cwes th) act \<noteq> []"
    by (simp add: v(4))
  then show ?thesis
    unfolding limit_violation_Inr [OF v(1)] limit_violation_Inr [OF v(2)] limit_violation_Inr [OF v(3)]
      breached_cwes_iff by blast
qed

section \<open>A sample scan\<close>

text \<open>For evaluation, a stand-in for SHA-256 that keeps the first 64 characters.\<close>

definition sample_hash :: "string \<Rightarrow> string" where
  "sample_hash p = take 64 (p @ replicate 64 CHR ''0'')"

definition sample_scan :: scan_result where
  "sample_scan =
     \<lparr>sr_status = PStr ''success'', sr_syntax_errors = [],
      sr_summary = [(''security_score'', PInt 60), (''risk_level'', PStr ''HIGH'')],
      sr_findings = [[(''severity'', PStr ''CRITICAL''), (''cwe'', PStr ''CWE-89''), (''file'', PStr ''a.py''),
                      (''line_number'', PInt 3)]],
      sr_secret_findings = [],
      sr_sca_findings = []\<rparr>"

definition sample_policy :: thresholds where
  "sample_policy = \<lparr>th_min_score = PNone, th_max_critical = PNone, th_max_high = PNone, th_forbidden_cwes = [''CWE-1'']\<rparr>"

definition sample_summary :: event_summary where
  "sample_summary =
     \<lparr>sast_findings = 1, sca_findings = 0, secret_findings = 0, total_findings = 1, critical_count = 1,
      high_count = 0, medium_count = 0, low_count = 0, security_score = 60, risk_level = ''HIGH'',
      scan_status_of_summary = SUCCESS, summary_message = []\<rparr>"

abbreviation sample_critical :: "dict list" where
  "sample_critical \<equiv> sr_findings sample_scan"

definition result_of :: "error + event \<Rightarrow> event" where
  "result_of r = (case r of Inr e \<Rightarrow> e | Inl x \<Rightarrow> sample_event)"

definition sample_first :: "string \<Rightarrow> error + event" where
  "sample_first eid =
     new_event sample_hash eid ''now'' SCAN_COMPLETED ''shop'' ''42'' sample_summary (Suc 0)
       (base_metadata sample_scan sample_summary []) (completed_context sample_summary)"

definition sample_second :: "string \<Rightarrow> error + event" where
  "sample_second eid =
     new_event sample_hash eid ''now'' CRITICAL_FINDING_DETECTED ''shop'' ''42'' sample_summary (Suc 0)
       (dict_put ''critical_fingerprints'' (PList (map PStr (critical_fingerprints sample_critical)))
          (base_metadata sample_scan sample_summary []))
       (critical_context sample_critical)"

definition sample_events :: "string \<Rightarrow> event list" where
  "sample_events pre = [result_of (sample_first (pre @ ''0'')), result_of (sample_second (pre @ ''1''))]"

lemma is_ok_result: "is_ok r \<Longrightarrow> r = Inr (result_of r)"
  by (cases r) (simp_all add: result_of_def)

lemma sample_new_ok:
  "is_ok (sample_first ''a0'')" "is_ok (sample_first ''b0'')" "is_ok (sample_second ''a1'')" "is_ok (sample_second ''b1'')"
  by code_simp+

lemma sample_summary_built: "build_event_summary sample_scan = Inr sample_summary"
  by code_simp

lemma sample_active:
  "of_severity ''CRITICAL'' (active_findings sample_scan) = sample_critical"
  "of_severity ''HIGH'' (active_findings sample_scan) = []" "length sample_critical = 1" "sample_critical \<noteq> []"
  "sr_secret_findings sample_scan = []" "scan_violations (Some sample_policy) sample_summary sample_scan = Inr []"
  "py_strip ''42'' = ''42''" "nat_str 0 = ''0''" "nat_str (Suc 0) = ''1''"
  by code_simp+

lemma sample_build_ids:
  assumes "is_ok (sample_first (pre @ ''0''))" "is_ok (sample_second (pre @ ''1''))"
  shows "build_events sample_hash (\<lambda>k. pre @ nat_str k) (\<lambda>k. ''now'') sample_scan ''shop'' ''42'' [] (Some sample_policy)
     = Inr (sample_events pre)"
proof -
  obtain a b where "sample_first (pre @ ''0'') = Inr a" "sample_second (pre @ ''1'') = Inr b"
    using assms [THEN is_ok_result] by blast
  then show ?thesis
    by (simp add: build_events_def Let_def sample_active sample_summary_built emit_if_def sample_events_def
        sample_first_def [symmetric] sample_second_def [symmetric] result_of_def)
qed

lemma sample_build:
  "build_events sample_hash (\<lambda>k. ''a'' @ nat_str k) (\<lambda>k. ''now'') sample_scan ''shop'' ''42'' [] (Some sample_policy)
     = Inr (sample_events ''a'')"
  "build_events sample_hash (\<lambda>k. ''b'' @ nat_str k) (\<lambda>k. ''now'') sample_scan ''shop'' ''42'' [] (Some sample_policy)
     = Inr (sample_events ''b'')"
  by (rule sample_build_ids; use sample_new_ok in simp)+

theorem build_events_planned_witness:
  "\<exists>s vs. build_event_summary sample_scan = Inr s \<and> scan_violations (Some sample_policy) s sample_scan = Inr vs
     \<and> map ev_type (sample_events ''a'') = map fst (planned_events sample_scan s vs)
     \<and> (\<forall>e \<in> set (sample_events ''a''). ev_repository e = ''shop'' \<and> ev_scan_id e = py_strip ''42''
          \<and> ev_summary e = s \<and> event_wf e)"
  by (rule build_events_planned [OF sample_build(1)])

theorem retry_keeps_keys_witness:
  "map ev_type (sample_events ''a'') = map ev_type (sample_events ''b'')
   \<and> map ev_dedupe_key (sample_events ''a'') = map ev_dedupe_key (sample_events ''b'')"
  by (rule retry_keeps_keys [OF sample_build refl])

theorem scan_keys_distinct_witness: "distinct (map ev_dedupe_key (sample_events ''a''))"
proof (rule scan_keys_distinct [OF sample_build(1)])
  have "distinct (map sample_hash (scan_payloads sample_scan ''shop'' ''42'' (Some sample_policy)))" by code_simp
  then show "inj_on sample_hash (set (scan_payloads sample_scan ''shop'' ''42'' (Some sample_policy)))"
    by (simp add: distinct_map)
qed

theorem policy_violated_iff_witness:
  "policy_violations (sample_policy\<lparr>th_forbidden_cwes := [''CWE-89'']\<rparr>) (ev_summary sample_event)
     (active_findings sample_scan) = Inr [''Forbidden CWE classes detected: CWE-89'']
   \<and> (\<exists>c \<in> {''CWE-89''}. c \<noteq> [] \<and> (\<exists>f \<in> set (active_findings sample_scan). dict_get ''cwe'' PNone f = PStr c))"
proof
  show v: "policy_violations (sample_policy\<lparr>th_forbidden_cwes := [''CWE-89'']\<rparr>) (ev_summary sample_event)
     (active_findings sample_scan) = Inr [''Forbidden CWE classes detected: CWE-89'']" by code_simp
  show "\<exists>c \<in> {''CWE-89''}. c \<noteq> [] \<and> (\<exists>f \<in> set (active_findings sample_scan). dict_get ''cwe'' PNone f = PStr c)"
    using policy_violated_iff [OF v] by (simp add: sample_policy_def)
qed

end
