(* ===== verification/Notif_Models.thy ===== *)
theory Notif_Models
  imports Events
begin

text \<open>
  Notification data (\<open>notification_models.py\<close>): severities with their order, recipient
  scopes, the validators of text and links, the persisted row, and the validated request to
  create one (\<open>NotificationCreate\<close>). A pydantic model raises one error for all failing
  fields; the model reports the first of them in field order. Time stamps are integers.
\<close>

section \<open>Severities\<close>

datatype severity = INFO | LOW | MEDIUM | HIGH | CRITICAL

text \<open>\<open>SEVERITY_ORDER\<close> of the policy, which makes severities a linear order.\<close>

fun severity_order :: "severity \<Rightarrow> nat" where
  "severity_order CRITICAL = 5"
| "severity_order HIGH = 4"
| "severity_order MEDIUM = 3"
| "severity_order LOW = 2"
| "severity_order INFO = 1"

fun severity_value :: "severity \<Rightarrow> string" where
  "severity_value CRITICAL = ''CRITICAL''"
| "severity_value HIGH = ''HIGH''"
| "severity_value MEDIUM = ''MEDIUM''"
| "severity_value LOW = ''LOW''"
| "severity_value INFO = ''INFO''"

definition severity_of :: "string \<Rightarrow> severity option" where
  "severity_of s =
     map_of [(''CRITICAL'', CRITICAL), (''HIGH'', HIGH), (''MEDIUM'', MEDIUM), (''LOW'', LOW), (''INFO'', INFO)] s"

instantiation severity :: linorder
begin

definition less_eq_severity :: "severity \<Rightarrow> severity \<Rightarrow> bool" where
  "less_eq_severity a b = (severity_order a \<le> severity_order b)"

definition less_severity :: "severity \<Rightarrow> severity \<Rightarrow> bool" where
  "less_severity a b = (severity_order a < severity_order b)"

instance
proof
  fix a b :: severity
  show "a \<le> b \<Longrightarrow> b \<le> a \<Longrightarrow> a = b"
    by (cases a; cases b) (simp_all add: less_eq_severity_def)
qed (auto simp: less_eq_severity_def less_severity_def)

end

lemma severity_of_value [simp]: "severity_of (severity_value s) = Some s"
  by (cases s) (simp_all add: severity_of_def)

section \<open>Recipients\<close>

datatype recipient_scope = USER | ORGANIZATION

fun scope_value :: "recipient_scope \<Rightarrow> string" where
  "scope_value USER = ''USER''"
| "scope_value ORGANIZATION = ''ORGANIZATION''"

definition scope_of :: "string \<Rightarrow> recipient_scope option" where
  "scope_of s = map_of [(''USER'', USER), (''ORGANIZATION'', ORGANIZATION)] s"

lemma scope_of_value [simp]: "scope_of (scope_value s) = Some s"
  by (cases s) (simp_all add: scope_of_def)

lemma not_user_scope [simp]: "sc \<noteq> USER \<longleftrightarrow> sc = ORGANIZATION"
  by (cases sc) simp_all

section \<open>Text without secrets, relative links\<close>

definition rx_token_char :: rx where
  "rx_token_char = CSet False [(CHR ''a'', CHR ''z''), (CHR ''A'', CHR ''Z''), (CHR ''0'', CHR ''9''),
     (CHR ''_'', CHR ''_''), (CHR ''-'', CHR ''-'')]"

definition rx_github_any :: rx where
  "rx_github_any = Alt rx_github_token
     (seqs [WordB, lit ''github_pat_'', at_least 80 (CSet False [(CHR ''0'', CHR ''9''), (CHR ''a'', CHR ''z''),
        (CHR ''A'', CHR ''Z''), (CHR ''_'', CHR ''_'')]), WordB])"

definition rx_openai_key :: rx where
  "rx_openai_key = seqs [WordB, lit ''sk-'', at_least 20 rx_token_char, WordB]"

definition rx_quote :: rx where
  "rx_quote = CSet False [(CHR 0x27, CHR 0x27), (CHR 0x22, CHR 0x22)]"

definition rx_credential :: rx where
  "rx_credential = Seq WordB (alts
     [seqs [lit_i ''bearer'', at_least 1 rx_space,
            at_least 20 (CSet False [(CHR ''a'', CHR ''z''), (CHR ''A'', CHR ''Z''), (CHR ''0'', CHR ''9''),
              (CHR ''.'', CHR ''.''), (CHR ''_'', CHR ''_''), (CHR ''-'', CHR ''-'')])],
      seqs [lit_i ''password'', Star rx_space, lit1 CHR ''='', Star rx_space, rx_quote,
            at_least 6 (CSet True [(CHR 0x27, CHR 0x27), (CHR 0x22, CHR 0x22)]), rx_quote]])"

definition notification_secret_patterns :: "rx list" where
  "notification_secret_patterns =
     [rx_aws_key, rx_stripe_key, rx_github_any, rx_openai_key, rx_private_key, rx_credential]"

definition has_secret :: "string \<Rightarrow> bool" where
  "has_secret s = list_ex (\<lambda>p. rx_found p s) notification_secret_patterns"

lemma notification_secret_length: "p \<in> set notification_secret_patterns \<Longrightarrow> 17 \<le> min_len p"
  by (auto simp: notification_secret_patterns_def rx_aws_key_def rx_stripe_key_def rx_github_any_def
      rx_github_token_def rx_openai_key_def rx_private_key_def rx_credential_def rx_quote_def rx_token_char_def
      at_least_def opt_def lit1_def lit1_i_def rx_upper_digit_def rx_alnum_def rx_space_def eval_nat_numeral)

lemma has_secret_code [code]:
  "has_secret s = (if length s < 17 then False else list_ex (\<lambda>p. rx_found p s) notification_secret_patterns)"
proof -
  have "17 \<le> length s" if "has_secret s"
    using that notification_secret_length rx_found_length by (fastforce simp: has_secret_def list_ex_iff)
  then show ?thesis by (auto simp: has_secret_def)
qed

definition validate_no_secrets :: "string \<Rightarrow> string \<Rightarrow> error + unit" where
  "validate_no_secrets content field = ensure (content = [] \<or> \<not> has_secret content) (ValueError field)"

definition forbidden_in_link :: "string list" where
  "forbidden_in_link = [''javascript:'', ''data:'', ''vbscript:'', ''file:'', ''http:'', ''https:'', ''ftp:'']"

definition validate_relative_link :: "string option \<Rightarrow> error + string option" where
  "validate_relative_link link =
     (case link of
        None \<Rightarrow> Inr None
      | Some l \<Rightarrow>
          (let t = py_strip l in
           if t = [] then Inr None
           else case first_failure
             [(length t \<le> 512, ValueError ''link too long''),
              (\<not> list_ex (\<lambda>c. is_space c \<or> code_of c < 32 \<or> code_of c = 127) t, ValueError ''link has blanks''),
              (py_startswith t ''/'', ValueError ''link is not relative''),
              (\<not> py_startswith t ''//'', ValueError ''link is protocol-relative''),
              (\<not> list_ex (py_contains (py_lower t)) forbidden_in_link, ValueError ''link has a scheme'')]
            of Some e \<Rightarrow> Inl e | None \<Rightarrow> Inr (Some t)))"

section \<open>Rows\<close>

record notification =
  n_id :: nat
  n_org :: int
  n_scope :: recipient_scope
  n_user :: "int option"
  n_scope_target :: int
  n_event_id :: string
  n_scan_id :: string
  n_dedupe :: string
  n_type :: string
  n_severity :: severity
  n_title :: string
  n_message :: string
  n_link :: "string option"
  n_is_read :: bool
  n_read_at :: "int option"
  n_created_at :: int

text \<open>\<open>_enforce_notification_scope_invariants\<close>: what the listener makes of a row before it is written.\<close>

definition enforce_scope :: "notification \<Rightarrow> error + notification" where
  "enforce_scope n =
     (case n_scope n of
        USER \<Rightarrow> (case n_user n of
            Some u \<Rightarrow> if 0 < u then Inr (n\<lparr>n_scope_target := u\<rparr>) else Inl (ValueError ''user_id'')
          | None \<Rightarrow> Inl (ValueError ''user_id''))
      | ORGANIZATION \<Rightarrow> if n_user n = None then Inr (n\<lparr>n_scope_target := 0\<rparr>) else Inl (ValueError ''user_id''))"

section \<open>Requests\<close>

record create_request =
  cr_org :: int
  cr_scope :: recipient_scope
  cr_user :: "int option"
  cr_event_id :: string
  cr_scan_id :: string
  cr_dedupe :: string
  cr_type :: string
  cr_severity :: string
  cr_title :: string
  cr_message :: string
  cr_link :: "string option"

record create_dto =
  dto_org :: int
  dto_scope :: recipient_scope
  dto_user :: "int option"
  dto_scope_target :: int
  dto_event_id :: string
  dto_scan_id :: string
  dto_dedupe :: string
  dto_type :: string
  dto_severity :: severity
  dto_title :: string
  dto_message :: string
  dto_link :: "string option"

definition validate_short :: "nat \<Rightarrow> string \<Rightarrow> string \<Rightarrow> error + string" where
  "validate_short n field v = res_bind (ensure (py_strip v \<noteq> [] \<and> length v \<le> n) (ValueError field)) (\<lambda>_. Inr (py_strip v))"

definition validate_content :: "nat \<Rightarrow> string \<Rightarrow> string \<Rightarrow> error + string" where
  "validate_content n field v =
     res_bind (ensure (py_strip v \<noteq> [] \<and> length v \<le> n) (ValueError field)) (\<lambda>_.
     res_bind (validate_no_secrets v field) (\<lambda>_. Inr (py_strip v)))"

definition validate_severity :: "string \<Rightarrow> error + severity" where
  "validate_severity v = (case severity_of (py_upper v) of Some s \<Rightarrow> Inr s | None \<Rightarrow> Inl (ValueError ''severity''))"

definition derive_target :: "recipient_scope \<Rightarrow> int option \<Rightarrow> error + int" where
  "derive_target scope user =
     (case scope of
        USER \<Rightarrow> (case user of Some u \<Rightarrow> if 0 < u then Inr u else Inl (ValueError ''user_id'') | None \<Rightarrow> Inl (ValueError ''user_id''))
      | ORGANIZATION \<Rightarrow> if user = None then Inr 0 else Inl (ValueError ''user_id''))"

definition notification_create :: "create_request \<Rightarrow> error + create_dto" where
  "notification_create c =
     res_bind (ensure (0 < cr_org c) (ValueError ''organization_id'')) (\<lambda>_.
     res_bind (validate_short 64 ''event_id'' (cr_event_id c)) (\<lambda>eid.
     res_bind (validate_short 64 ''scan_id'' (cr_scan_id c)) (\<lambda>sid.
     res_bind (validate_short 64 ''dedupe_key'' (cr_dedupe c)) (\<lambda>key.
     res_bind (validate_short 32 ''type'' (cr_type c)) (\<lambda>type.
     res_bind (validate_severity (cr_severity c)) (\<lambda>sev.
     res_bind (validate_content 255 ''title'' (cr_title c)) (\<lambda>title.
     res_bind (validate_content 2000 ''message'' (cr_message c)) (\<lambda>msg.
     res_bind (validate_relative_link (cr_link c)) (\<lambda>link.
     res_bind (derive_target (cr_scope c) (cr_user c)) (\<lambda>target.
       Inr \<lparr>dto_org = cr_org c, dto_scope = cr_scope c, dto_user = cr_user c, dto_scope_target = target,
            dto_event_id = eid, dto_scan_id = sid, dto_dedupe = key, dto_type = type, dto_severity = sev,
            dto_title = title, dto_message = msg, dto_link = link\<rparr>))))))))))"

section \<open>What validation establishes\<close>

definition scope_consistent :: "recipient_scope \<Rightarrow> int option \<Rightarrow> int \<Rightarrow> bool" where
  "scope_consistent scope user target \<longleftrightarrow>
     (scope = USER \<and> 0 < target \<and> user = Some target) \<or> (scope = ORGANIZATION \<and> user = None \<and> target = 0)"

definition internal_link :: "string \<Rightarrow> bool" where
  "internal_link l \<longleftrightarrow> length l \<le> 512 \<and> (\<exists>r. l = CHR ''/'' # r \<and> (r = [] \<or> hd r \<noteq> CHR ''/''))
     \<and> (\<forall>c \<in> set l. \<not> is_space c \<and> 32 \<le> code_of c \<and> code_of c \<noteq> 127)
     \<and> (\<forall>k \<in> set forbidden_in_link. \<not> py_contains (py_lower l) k)"

lemma validate_short_Inr: "validate_short n f v = Inr w \<longleftrightarrow> w = py_strip v \<and> w \<noteq> [] \<and> length v \<le> n"
  by (auto simp: validate_short_def res_bind_Inr_iff)

lemma validate_content_Inr:
  "validate_content n f v = Inr w \<longleftrightarrow> w = py_strip v \<and> w \<noteq> [] \<and> length v \<le> n \<and> \<not> has_secret v"
proof -
  have "v \<noteq> []" if "py_strip v \<noteq> []" using that by (auto simp: py_strip_def py_lstrip_def py_rstrip_def)
  then show ?thesis by (auto simp: validate_content_def validate_no_secrets_def res_bind_Inr_iff)
qed

lemma derive_target_Inr: "derive_target scope user = Inr t \<longleftrightarrow> scope_consistent scope user t"
  by (cases scope) (auto simp: derive_target_def scope_consistent_def split: option.splits if_splits)

lemma startswith_Cons: "py_startswith t (c # p) \<longleftrightarrow> (\<exists>r. t = c # r \<and> py_startswith r p)"
  by (cases t) auto

lemma validate_link_Inr: "validate_relative_link l = Inr (Some t) \<Longrightarrow> internal_link t"
  by (auto simp: validate_relative_link_def internal_link_def Let_def first_failure_None startswith_Cons
      list_ex_iff not_less neq_Nil_conv split: option.splits if_splits)

lemmas notification_create_Inr =
  notification_create_def res_bind_Inr_iff validate_short_Inr validate_content_Inr derive_target_Inr ensure_Inr

definition dto_wf :: "create_dto \<Rightarrow> bool" where
  "dto_wf d \<longleftrightarrow> 0 < dto_org d \<and> scope_consistent (dto_scope d) (dto_user d) (dto_scope_target d)
     \<and> dto_event_id d \<noteq> [] \<and> length (dto_event_id d) \<le> 64 \<and> dto_scan_id d \<noteq> [] \<and> length (dto_scan_id d) \<le> 64
     \<and> dto_dedupe d \<noteq> [] \<and> length (dto_dedupe d) \<le> 64 \<and> dto_type d \<noteq> [] \<and> length (dto_type d) \<le> 32
     \<and> dto_title d \<noteq> [] \<and> length (dto_title d) \<le> 255 \<and> dto_message d \<noteq> [] \<and> length (dto_message d) \<le> 2000
     \<and> (\<forall>l. dto_link d = Some l \<longrightarrow> internal_link l)"

lemma notification_create_wf: "notification_create c = Inr d \<Longrightarrow> dto_wf d"
  by (auto simp: notification_create_Inr dto_wf_def validate_link_Inr intro: py_strip_within)

text \<open>
  A request that passes validation has a positive organization, a scope target that is
  the user of a USER request and 0 for an organization-wide one, identifiers, title and
  message that are not blank and within their column widths, title and message without known
  secrets, and a link that, if any, is an internal path without scheme, host or blanks.
\<close>

theorem notification_create_valid:
  "notification_create c = Inr d \<Longrightarrow> dto_wf d \<and> \<not> has_secret (cr_title c) \<and> \<not> has_secret (cr_message c)
     \<and> dto_title d = py_strip (cr_title c) \<and> dto_message d = py_strip (cr_message c)"
  using notification_create_wf [of c d] by (auto simp: notification_create_Inr)

definition sample_request :: "int option \<Rightarrow> string \<Rightarrow> create_request" where
  "sample_request user key =
     \<lparr>cr_org = 7, cr_scope = (if user = None then ORGANIZATION else USER), cr_user = user, cr_event_id = ''evt_1'',
      cr_scan_id = ''42'', cr_dedupe = key, cr_type = ''SECURITY_ALERT'', cr_severity = ''high'',
      cr_title = '' Alert '', cr_message = ''2 findings'', cr_link = Some ''/scans/42''\<rparr>"

definition sample_dto :: "int option \<Rightarrow> string \<Rightarrow> create_dto" where
  "sample_dto user key =
     \<lparr>dto_org = 7, dto_scope = (if user = None then ORGANIZATION else USER), dto_user = user,
      dto_scope_target = (case user of None \<Rightarrow> 0 | Some u \<Rightarrow> u), dto_event_id = ''evt_1'', dto_scan_id = ''42'',
      dto_dedupe = key, dto_type = ''SECURITY_ALERT'', dto_severity = HIGH, dto_title = ''Alert'',
      dto_message = ''2 findings'', dto_link = Some ''/scans/42''\<rparr>"

lemma sample_dto_created:
  "notification_create (sample_request None ''k1'') = Inr (sample_dto None ''k1'')"
  "notification_create (sample_request (Some 3) ''k1'') = Inr (sample_dto (Some 3) ''k1'')"
  by code_simp+

theorem notification_create_valid_witness:
  "dto_wf (sample_dto (Some 3) ''k1'') \<and> \<not> has_secret '' Alert '' \<and> dto_title (sample_dto (Some 3) ''k1'') = py_strip '' Alert ''"
  using notification_create_valid [OF sample_dto_created(2)] by (simp add: sample_request_def)

end
