(* ===== verification/Policy.thy ===== *)
theory Policy
  imports Notif_Models "HOL-Library.Multiset"
begin

text \<open>
  The notification policy (\<open>notification_policy.py\<close>): tenant configuration, masked and
  bounded finding summaries, and the pure evaluation of an event into notification intents.
  SHA-256 and the clock are the arguments \<open>sha\<close> and \<open>now\<close>.
\<close>

section \<open>Masking\<close>

definition policy_secret_patterns :: "rx list" where
  "policy_secret_patterns = [rx_aws_key, rx_stripe_key, rx_github_any, rx_openai_key, rx_private_key]"

definition mask_secrets_in_text :: "string \<Rightarrow> string" where
  "mask_secrets_in_text text =
     (if text = [] then [] else foldl (\<lambda>t p. rx_sub p (replicate 16 CHR ''*'') t 0) text policy_secret_patterns)"

section \<open>Configuration\<close>

record policy_config =
  pc_org :: int
  pc_min_in_app :: severity
  pc_min_webhook :: severity
  pc_notify_clean :: bool
  pc_max_findings :: int
  pc_in_app :: bool
  pc_webhook :: bool

text \<open>\<open>PolicyConfig\<close> keeps the texts of its severities; every use reads them in upper case.\<close>

definition mk_policy_config :: "int \<Rightarrow> string \<Rightarrow> string \<Rightarrow> bool \<Rightarrow> int \<Rightarrow> bool \<Rightarrow> bool \<Rightarrow> error + policy_config" where
  "mk_policy_config org in_app webhook clean maxf app_on hook_on =
     res_bind (ensure (0 < org) (ValueError ''organization_id'')) (\<lambda>_.
       (case (severity_of (py_upper in_app), severity_of (py_upper webhook)) of
          (None, _) \<Rightarrow> Inl (ValueError ''min_severity_in_app'')
        | (Some a, None) \<Rightarrow> Inl (ValueError ''min_severity_webhook'')
        | (Some a, Some b) \<Rightarrow>
            Inr \<lparr>pc_org = org, pc_min_in_app = a, pc_min_webhook = b, pc_notify_clean = clean,
                 pc_max_findings = maxf, pc_in_app = app_on, pc_webhook = hook_on\<rparr>))"

section \<open>Finding summaries\<close>

record safe_finding =
  sf_rule_id :: string
  sf_cwe :: string
  sf_severity :: severity
  sf_file_path :: string
  sf_line :: "int option"
  sf_message :: string

definition safe_line :: "pyval \<Rightarrow> int option" where
  "safe_line v =
     (if v = PNone then None
      else case int_instance v of Some i \<Rightarrow> Some i
        | None \<Rightarrow> (case py_int v of Inr i \<Rightarrow> Some i | Inl e \<Rightarrow> None))"

definition mk_safe_finding :: "string \<Rightarrow> string \<Rightarrow> string \<Rightarrow> string \<Rightarrow> pyval \<Rightarrow> string \<Rightarrow> safe_finding" where
  "mk_safe_finding rule cwe sev path line msg =
     \<lparr>sf_rule_id = take 64 (py_strip rule), sf_cwe = take 32 (py_strip cwe),
      sf_severity = (case severity_of (py_strip (py_upper sev)) of Some s \<Rightarrow> s | None \<Rightarrow> INFO),
      sf_file_path = take 255 (py_strip (py_replace_char CHR 0x5C ''/'' path)),
      sf_line = safe_line line, sf_message = take 255 (mask_secrets_in_text (py_strip msg))\<rparr>"

text \<open>Python's \<open>xs[:n]\<close>, also for a negative bound.\<close>

definition py_take :: "int \<Rightarrow> 'a list \<Rightarrow> 'a list" where
  "py_take n xs = (if 0 \<le> n then take (nat n) xs else take (length xs - nat (- n)) xs)"

text \<open>\<open>isinstance(item, dict)\<close>: a mapping proxy is not a dictionary.\<close>

fun finding_of :: "pyval \<Rightarrow> safe_finding option" where
  "finding_of (PDict d) = Some (mk_safe_finding
     (py_str (dict_get ''rule_id'' (PStr ''UNKNOWN'') d)) (py_str (dict_get ''cwe'' (PStr ''CWE-UNKNOWN'') d))
     (py_str (dict_get ''severity'' (PStr ''INFO'') d)) (py_str (dict_get ''file_path'' (PStr []) d))
     (dict_get ''line'' PNone d) (py_str (dict_get ''message'' (PStr []) d)))"
| "finding_of v = None"

definition finding_key :: "safe_finding \<Rightarrow> int \<times> string \<times> string \<times> int" where
  "finding_key f =
     (- int (severity_order (sf_severity f)), sf_rule_id f, sf_file_path f, case sf_line f of Some l \<Rightarrow> l | None \<Rightarrow> 0)"

definition extract_and_sort_findings :: "dict \<Rightarrow> int \<Rightarrow> safe_finding list \<times> bool \<times> nat" where
  "extract_and_sort_findings metadata max_findings =
     (case (case dict_get ''findings'' (PTuple []) metadata of
              PList vs \<Rightarrow> Some vs | PTuple vs \<Rightarrow> Some vs | _ \<Rightarrow> None) of
        None \<Rightarrow> ([], False, 0)
      | Some vs \<Rightarrow>
          (let extracted = sort_key finding_key (List.map_filter finding_of vs);
               total = length extracted
           in (py_take max_findings extracted, max_findings < int total, total)))"

section \<open>Intents\<close>

datatype channel = IN_APP | WEBHOOK

fun channel_value :: "channel \<Rightarrow> string" where
  "channel_value IN_APP = ''IN_APP''"
| "channel_value WEBHOOK = ''WEBHOOK''"

record intent =
  i_id :: string
  i_event_id :: string
  i_scan_id :: string
  i_dedupe :: string
  i_type :: string
  i_severity :: severity
  i_scope :: recipient_scope
  i_org :: int
  i_user :: "int option"
  i_title :: string
  i_message :: string
  i_link :: "string option"
  i_channel :: channel
  i_created_at :: string
  i_findings :: "safe_finding list"
  i_truncated :: bool
  i_total :: nat

text \<open>\<open>NotificationIntent.__post_init__\<close>.\<close>

definition mk_intent :: "intent \<Rightarrow> error + intent" where
  "mk_intent i =
     res_bind (ensure (i_id i \<noteq> []) (ValueError ''intent_id'')) (\<lambda>_.
     res_bind (ensure (i_event_id i \<noteq> []) (ValueError ''event_id'')) (\<lambda>_.
     res_bind (ensure (i_scan_id i \<noteq> []) (ValueError ''scan_id'')) (\<lambda>_.
     res_bind (ensure (i_dedupe i \<noteq> []) (ValueError ''dedupe_key'')) (\<lambda>_.
     res_bind (ensure (0 < i_org i) (ValueError ''organization_id'')) (\<lambda>_.
       Inr (i\<lparr>i_title := take 255 (i_title i), i_message := take 2000 (i_message i)\<rparr>))))))"

section \<open>Evaluation\<close>

definition event_severity :: "event_summary \<Rightarrow> severity" where
  "event_severity s =
     (if 0 < critical_count s then CRITICAL else if 0 < high_count s then HIGH
      else if 0 < medium_count s then MEDIUM else if 0 < low_count s then LOW else INFO)"

definition intent_texts :: "event \<Rightarrow> string \<times> string \<times> string" where
  "intent_texts ev =
     (let s = ev_summary ev; repo = (if ev_repository ev = [] then ''repository'' else ev_repository ev)
      in if total_findings s = 0
         then (''SCAN_SUMMARY'', ''TimeCodeSecurity Scan Passed: '' @ repo,
               ''Security scan completed with 0 findings for '' @ repo @ ''.'')
         else (''SECURITY_ALERT'',
               ''TimeCodeSecurity Alert: '' @ int_str (total_findings s) @ '' findings in '' @ repo,
               ''Security scan detected '' @ int_str (critical_count s) @ '' critical, '' @ int_str (high_count s)
                 @ '' high, and '' @ int_str (medium_count s) @ '' medium findings in '' @ repo @ ''.''))"

definition channel_intent :: "(string \<Rightarrow> string) \<Rightarrow> string \<Rightarrow> event \<Rightarrow> policy_config \<Rightarrow> channel \<Rightarrow> error + intent" where
  "channel_intent sha now ev cfg ch =
     (let (fs, truncated, total) = extract_and_sort_findings (ev_metadata ev) (pc_max_findings cfg);
          (kind, title, msg) = intent_texts ev
      in mk_intent
           \<lparr>i_id = take 32 (sha (ev_id ev @ '':'' @ channel_value ch @ '':'' @ int_str (pc_org cfg))),
            i_event_id = ev_id ev, i_scan_id = ev_scan_id ev, i_dedupe = ev_dedupe_key ev, i_type = kind,
            i_severity = event_severity (ev_summary ev), i_scope = ORGANIZATION, i_org = pc_org cfg, i_user = None,
            i_title = title, i_message = msg,
            i_link = Some (if ev_scan_id ev = [] then ''/scans'' else ''/scans/'' @ ev_scan_id ev),
            i_channel = ch, i_created_at = now, i_findings = fs, i_truncated = truncated, i_total = total\<rparr>)"

definition wants_channel :: "policy_config \<Rightarrow> severity \<Rightarrow> channel \<Rightarrow> bool" where
  "wants_channel cfg sev ch =
     (case ch of IN_APP \<Rightarrow> pc_in_app cfg \<and> pc_min_in_app cfg \<le> sev
      | WEBHOOK \<Rightarrow> pc_webhook cfg \<and> pc_min_webhook cfg \<le> sev)"

definition emit_intent :: "(string \<Rightarrow> string) \<Rightarrow> string \<Rightarrow> event \<Rightarrow> policy_config \<Rightarrow> channel \<Rightarrow> error + intent list" where
  "emit_intent sha now ev cfg ch =
     (if wants_channel cfg (event_severity (ev_summary ev)) ch
      then res_bind (channel_intent sha now ev cfg ch) (\<lambda>i. Inr [i]) else Inr [])"

definition evaluate :: "(string \<Rightarrow> string) \<Rightarrow> string \<Rightarrow> event \<Rightarrow> policy_config \<Rightarrow> error + intent list" where
  "evaluate sha now ev cfg =
     (if total_findings (ev_summary ev) = 0 \<and> \<not> pc_notify_clean cfg then Inr []
      else res_bind (emit_intent sha now ev cfg IN_APP) (\<lambda>a.
           res_bind (emit_intent sha now ev cfg WEBHOOK) (\<lambda>b. Inr (a @ b))))"

section \<open>Properties\<close>

lemma frozen_no_findings:
  assumes "frozen (PProxy md)"
  shows "extract_and_sort_findings md n = ([], n < 0, 0)
      \<or> extract_and_sort_findings md n = ([], False, 0)"
proof -
  let ?v = "dict_get ''findings'' (PTuple []) md"
  have v: "frozen ?v"
    using assms map_of_SomeD [of md "''findings''"] by (fastforce simp: dict_get_def list_all_iff split: option.split)
  have "List.map_filter finding_of vs = []" if "list_all frozen vs" for vs
  proof -
    have "finding_of w = None" if "frozen w" for w
      using that by (cases w rule: finding_of.cases) simp_all
    with that show ?thesis by (simp add: List.map_filter_def filter_empty_conv list_all_iff)
  qed
  with v show ?thesis by (cases ?v) (auto simp: extract_and_sort_findings_def Let_def py_take_def)
qed

text \<open>What every intent for an event has, on either channel.\<close>

definition intent_for :: "event \<Rightarrow> policy_config \<Rightarrow> channel \<Rightarrow> intent \<Rightarrow> bool" where
  "intent_for ev cfg ch i \<longleftrightarrow>
     i_channel i = ch \<and> i_org i = pc_org cfg \<and> 0 < i_org i \<and> i_scope i = ORGANIZATION \<and> i_user i = None
     \<and> i_severity i = event_severity (ev_summary ev) \<and> i_dedupe i = ev_dedupe_key ev
     \<and> i_event_id i = ev_id ev \<and> i_scan_id i = ev_scan_id ev
     \<and> length (i_title i) \<le> 255 \<and> length (i_message i) \<le> 2000
     \<and> i_link i = Some (if ev_scan_id ev = [] then ''/scans'' else ''/scans/'' @ ev_scan_id ev)
     \<and> (i_findings i, i_truncated i, i_total i) = extract_and_sort_findings (ev_metadata ev) (pc_max_findings cfg)"

lemma channel_intent_for: "channel_intent sha now ev cfg ch = Inr i \<Longrightarrow> intent_for ev cfg ch i"
  by (cases "extract_and_sort_findings (ev_metadata ev) (pc_max_findings cfg)"; cases "intent_texts ev")
     (auto simp: channel_intent_def mk_intent_def res_bind_Inr_iff intent_for_def Let_def)

lemma emit_intent_Inr:
  "emit_intent sha now ev cfg ch = Inr is \<Longrightarrow>
   list_all2 (intent_for ev cfg) (if wants_channel cfg (event_severity (ev_summary ev)) ch then [ch] else []) is"
  by (auto simp: emit_intent_def res_bind_Inr_iff channel_intent_for split: if_splits)

definition intended_channels :: "event_summary \<Rightarrow> policy_config \<Rightarrow> channel list" where
  "intended_channels s cfg =
     (if total_findings s = 0 \<and> \<not> pc_notify_clean cfg then []
      else filter (wants_channel cfg (event_severity s)) [IN_APP, WEBHOOK])"

lemma evaluate_Inr:
  assumes "evaluate sha now ev cfg = Inr is"
  shows "list_all2 (intent_for ev cfg) (intended_channels (ev_summary ev) cfg) is"
proof (cases "total_findings (ev_summary ev) = 0 \<and> \<not> pc_notify_clean cfg")
  case True
  with assms show ?thesis by (simp add: evaluate_def intended_channels_def)
next
  case False
  with assms obtain a b where "emit_intent sha now ev cfg IN_APP = Inr a" "emit_intent sha now ev cfg WEBHOOK = Inr b"
      "is = a @ b"
    unfolding evaluate_def by (auto simp: res_bind_Inr_iff)
  moreover have "intended_channels (ev_summary ev) cfg =
      (if wants_channel cfg (event_severity (ev_summary ev)) IN_APP then [IN_APP] else [])
      @ (if wants_channel cfg (event_severity (ev_summary ev)) WEBHOOK then [WEBHOOK] else [])"
    using False by (simp add: intended_channels_def)
  ultimately show ?thesis
    by (simp only: list_all2_appendI [OF emit_intent_Inr emit_intent_Inr])
qed

lemma evaluate_link:
  "evaluate sha now ev cfg = Inr is \<Longrightarrow> i \<in> set is \<Longrightarrow>
   i_link i = Some (if ev_scan_id ev = [] then ''/scans'' else ''/scans/'' @ ev_scan_id ev)"
  by (auto dest!: evaluate_Inr list_all2_right simp: intent_for_def)

text \<open>
  An event is turned into at most one intent per channel, in-app first: none for a clean
  scan unless the tenant asks for it, otherwise one for each enabled channel whose minimum
  severity the event reaches; each intent is for the whole organization of the configuration,
  has the severity and the identity of the event, and bounded texts.
\<close>

theorem evaluate_intents:
  assumes "evaluate sha now ev cfg = Inr is"
  shows "map i_channel is = intended_channels (ev_summary ev) cfg \<and> (\<forall>i \<in> set is. intent_for ev cfg (i_channel i) i)"
proof -
  note e = evaluate_Inr [OF assms]
  have "map i_channel is = intended_channels (ev_summary ev) cfg"
    using e by (induction rule: list_all2_induct) (auto simp: intent_for_def)
  moreover have "list_all (\<lambda>i. intent_for ev cfg (i_channel i) i) is"
    using e by (rule list_all2_dest) (auto simp: intent_for_def)
  ultimately show ?thesis by (simp add: list_all_iff)
qed

text \<open>
  Evaluating an event that satisfies the event invariants never raises: for a valid
  configuration and a hash that is never empty the result is a list of intents.
\<close>

theorem evaluate_total:
  assumes "event_wf ev" "0 < pc_org cfg" "\<And>t. sha t \<noteq> []"
  shows "\<exists>is. evaluate sha now ev cfg = Inr is"
proof -
  have ne: "ev_id ev \<noteq> []" "ev_scan_id ev \<noteq> []" "ev_dedupe_key ev \<noteq> []"
    using assms(1) by (auto simp: event_wf_def py_strip_def py_lstrip_def py_rstrip_def)
  have "\<exists>i. channel_intent sha now ev cfg ch = Inr i" for ch
    by (cases "extract_and_sort_findings (ev_metadata ev) (pc_max_findings cfg)"; cases "intent_texts ev")
       (simp add: channel_intent_def mk_intent_def res_bind_Inr_iff assms ne)
  then have "\<exists>is. emit_intent sha now ev cfg ch = Inr is" for ch
    by (simp add: emit_intent_def res_bind_Inr_iff)
  then show ?thesis
    unfolding evaluate_def by (simp add: res_bind_Inr_iff) (metis (no_types))
qed

text \<open>
  No intent for a constructed event ever carries a finding: the metadata of an event is
  frozen, so its findings are mapping proxies, which the extraction does not take for
  dictionaries; whatever findings the metadata holds, the list is empty and the total is 0.
\<close>

theorem intents_carry_no_findings:
  assumes "mk_event v eid t st r sc su c md k = Inr ev" "evaluate sha now ev cfg = Inr is" "i \<in> set is"
  shows "i_findings i = [] \<and> i_total i = 0"
proof -
  have "frozen (PProxy (ev_metadata ev))"
    using mk_event_wf [OF assms(1)] by (simp add: event_wf_def)
  from frozen_no_findings [OF this, of "pc_max_findings cfg"] assms(3) evaluate_Inr [OF assms(2)] show ?thesis
    by (auto simp: intent_for_def dest: list_all2_right)
qed

lemma extraction_sorted: "sorted_wrt (\<lambda>f g. sf_severity g \<le> sf_severity f) (sort_key finding_key xs)"
proof (rule sorted_wrt_mono_rel)
  show "sorted_wrt (\<lambda>f g. finding_key f \<le> finding_key g) (sort_key finding_key xs)"
    using sorted_sort_key [of finding_key xs] by (simp add: sorted_map)
qed (auto simp: finding_key_def less_eq_severity_def less_eq_prod_def)

definition finding_bounded :: "safe_finding \<Rightarrow> bool" where
  "finding_bounded f \<longleftrightarrow> length (sf_rule_id f) \<le> 64 \<and> length (sf_cwe f) \<le> 32 \<and> length (sf_file_path f) \<le> 255
     \<and> length (sf_message f) \<le> 255"

lemma finding_of_bounded: "finding_of v = Some f \<Longrightarrow> finding_bounded f"
  by (cases v rule: finding_of.cases) (auto simp: finding_bounded_def mk_safe_finding_def)

text \<open>The findings that metadata holds, before sorting.\<close>

definition metadata_findings :: "dict \<Rightarrow> safe_finding list" where
  "metadata_findings md =
     (case dict_get ''findings'' (PTuple []) md of
        PList vs \<Rightarrow> List.map_filter finding_of vs | PTuple vs \<Rightarrow> List.map_filter finding_of vs | _ \<Rightarrow> [])"

lemma metadata_findings_bounded: "f \<in> set (metadata_findings md) \<Longrightarrow> finding_bounded f"
  by (auto simp: metadata_findings_def List.map_filter_def finding_of_bounded split: pyval.splits)

lemma extract_eq:
  "0 \<le> n \<Longrightarrow> extract_and_sort_findings md n =
     (let s = sort_key finding_key (metadata_findings md)
      in (take (nat n) s, n < int (length s), length s))"
  by (cases "dict_get ''findings'' (PTuple []) md")
     (auto simp: extract_and_sort_findings_def metadata_findings_def Let_def py_take_def)

text \<open>
  On a plain list of finding dictionaries the extraction sorts by severity, most severe
  first, keeps at most the bound, reports truncation exactly when findings were dropped and
  drops no finding more severe than one it keeps; every field is within its bound.
\<close>

theorem extraction_keeps_most_severe:
  assumes "extract_and_sort_findings md n = (fs, truncated, n_all)" "0 \<le> n"
  shows "length fs = min (nat n) n_all \<and> (truncated \<longleftrightarrow> length fs < n_all) \<and> (\<forall>f \<in> set fs. finding_bounded f)
    \<and> (\<exists>dropped. mset (fs @ dropped) = mset (metadata_findings md)
          \<and> sorted_wrt (\<lambda>f g. sf_severity g \<le> sf_severity f) (fs @ dropped))"
proof -
  let ?s = "sort_key finding_key (metadata_findings md)"
  have e: "fs = take (nat n) ?s" "truncated = (n < int (length ?s))" "n_all = length ?s"
    using trans [OF assms(1) [symmetric] extract_eq [OF assms(2)]] by (simp_all add: Let_def)
  have "mset (fs @ drop (nat n) ?s) = mset (metadata_findings md)"
    "sorted_wrt (\<lambda>f g. sf_severity g \<le> sf_severity f) (fs @ drop (nat n) ?s)"
    unfolding e(1) append_take_drop_id by (rule mset_sort, rule extraction_sorted)
  then have "\<exists>dropped. mset (fs @ dropped) = mset (metadata_findings md)
      \<and> sorted_wrt (\<lambda>f g. sf_severity g \<le> sf_severity f) (fs @ dropped)" by blast
  moreover have "\<forall>f \<in> set fs. finding_bounded f"
    using metadata_findings_bounded e(1) by (auto dest: in_set_takeD)
  moreover have "length fs = min (nat n) n_all" "truncated \<longleftrightarrow> length fs < n_all"
    using assms(2) by (auto simp: e)
  ultimately show ?thesis by blast
qed

definition sample_config :: policy_config where
  "sample_config = \<lparr>pc_org = 7, pc_min_in_app = LOW, pc_min_webhook = HIGH, pc_notify_clean = False,
     pc_max_findings = 1, pc_in_app = True, pc_webhook = True\<rparr>"

definition sample_intent :: "channel \<Rightarrow> intent" where
  "sample_intent ch =
     \<lparr>i_id = take 32 (sample_key @ []), i_event_id = ''evt_1'', i_scan_id = ''42'', i_dedupe = sample_key,
      i_type = ''SECURITY_ALERT'', i_severity = CRITICAL, i_scope = ORGANIZATION, i_org = 7, i_user = None,
      i_title = ''TimeCodeSecurity Alert: 2 findings in shop'',
      i_message = ''Security scan detected 1 critical, 1 high, and 0 medium findings in shop.'',
      i_link = Some ''/scans/42'', i_channel = ch, i_created_at = ''now'', i_findings = [], i_truncated = False, i_total = 0\<rparr>"

lemma sample_evaluated:
  "evaluate (\<lambda>t. sample_key) ''now'' sample_event sample_config = Inr [sample_intent IN_APP, sample_intent WEBHOOK]"
  by code_simp

theorem evaluate_intents_witness:
  "intended_channels (ev_summary sample_event) sample_config = [IN_APP, WEBHOOK]
   \<and> intent_for sample_event sample_config WEBHOOK (sample_intent WEBHOOK)"
  using evaluate_intents [OF sample_evaluated] by (simp add: sample_intent_def)

theorem evaluate_total_witness: "\<exists>is. evaluate (\<lambda>t. sample_key) ''now'' sample_event sample_config = Inr is"
proof (rule evaluate_total)
  show "event_wf sample_event" by (rule mk_event_wf [OF sample_event_built])
qed (simp_all add: sample_config_def sample_key_def)

theorem intents_carry_no_findings_witness:
  "i_findings (sample_intent WEBHOOK) = [] \<and> i_total (sample_intent WEBHOOK) = 0"
  by (rule intents_carry_no_findings [OF sample_event_built sample_evaluated]) simp

theorem extraction_keeps_most_severe_witness:
  "(\<exists>dropped. mset ([mk_safe_finding ''r2'' ''c'' ''HIGH'' ''f'' PNone ''m''] @ dropped) =
      mset (metadata_findings [(''findings'', PList
        [PDict [(''rule_id'', PStr ''r1''), (''cwe'', PStr ''c''), (''severity'', PStr ''LOW''), (''file_path'', PStr ''f''), (''message'', PStr ''m'')],
         PDict [(''rule_id'', PStr ''r2''), (''cwe'', PStr ''c''), (''severity'', PStr ''HIGH''), (''file_path'', PStr ''f''), (''message'', PStr ''m'')]])]))"
proof -
  have "extract_and_sort_findings [(''findings'', PList
        [PDict [(''rule_id'', PStr ''r1''), (''cwe'', PStr ''c''), (''severity'', PStr ''LOW''), (''file_path'', PStr ''f''), (''message'', PStr ''m'')],
         PDict [(''rule_id'', PStr ''r2''), (''cwe'', PStr ''c''), (''severity'', PStr ''HIGH''), (''file_path'', PStr ''f''), (''message'', PStr ''m'')]])] 1
      = ([mk_safe_finding ''r2'' ''c'' ''HIGH'' ''f'' PNone ''m''], True, 2)"
    by code_simp
  from extraction_keeps_most_severe [OF this] show ?thesis by auto
qed

end
