(* ===== verification/Notif_Store.thy ===== *)
theory Notif_Store
  imports Notif_Models
begin

text \<open>
  The notification repository (\<open>notification_repository.py\<close>, \<open>sqlite_notification_repository.py\<close>):
  the table with its unique and foreign-key constraints, idempotent creation that survives a
  race with other sessions, queries under the tenant and user boundary, and read state. The
  interface of the abstract class is the locale \<open>notification_repository\<close>, interpreted here on
  the SQLite operations.

  The table is the list of its rows in insertion order. A constraint error of the database is
  \<open>StoreError\<close>; a transaction that fails leaves the table as it was.
\<close>

section \<open>The table\<close>

record store =
  st_rows :: "notification list"
  st_next :: nat
  st_orgs :: "int list"  \<comment> \<open>ids in the organization table\<close>
  st_users :: "int list"  \<comment> \<open>ids in the users table\<close>

type_synonym identity = "int \<times> int \<times> string \<times> string"

definition row_identity :: "notification \<Rightarrow> identity" where
  "row_identity n = (n_org n, n_scope_target n, n_dedupe n, n_type n)"

definition dto_identity :: "create_dto \<Rightarrow> identity" where
  "dto_identity d = (dto_org d, dto_scope_target d, dto_dedupe d, dto_type d)"

definition find_existing :: "store \<Rightarrow> identity \<Rightarrow> notification option" where
  "find_existing s k = find (\<lambda>n. row_identity n = k) (st_rows s)"

definition new_row :: "int \<Rightarrow> create_dto \<Rightarrow> nat \<Rightarrow> notification" where
  "new_row now d i =
     \<lparr>n_id = i, n_org = dto_org d, n_scope = dto_scope d, n_user = dto_user d, n_scope_target = dto_scope_target d,
      n_event_id = dto_event_id d, n_scan_id = dto_scan_id d, n_dedupe = dto_dedupe d, n_type = dto_type d,
      n_severity = dto_severity d, n_title = dto_title d, n_message = dto_message d, n_link = dto_link d,
      n_is_read = False, n_read_at = None, n_created_at = now\<rparr>"

text \<open>What the database does with a row on commit: the listener, foreign keys, uniqueness.\<close>

definition insert_row :: "notification \<Rightarrow> store \<Rightarrow> error + notification \<times> store" where
  "insert_row n s =
     res_bind (enforce_scope n) (\<lambda>n'.
     res_bind (ensure (n_org n' \<in> set (st_orgs s) \<and> (case n_user n' of None \<Rightarrow> True | Some u \<Rightarrow> u \<in> set (st_users s)))
       (StoreError ''FOREIGN KEY'')) (\<lambda>_.
     res_bind (ensure (find_existing s (row_identity n') = None) (StoreError ''UNIQUE'')) (\<lambda>_.
       Inr (n', s\<lparr>st_rows := st_rows s @ [n'], st_next := Suc (st_next s)\<rparr>))))"

definition commit_row :: "int \<Rightarrow> create_dto \<Rightarrow> store \<Rightarrow> (error + notification) \<times> store" where
  "commit_row now d s =
     (case insert_row (new_row now d (st_next s)) s of
        Inr (n, s') \<Rightarrow> (Inr n, s')
      | Inl (StoreError e) \<Rightarrow>
          (case find_existing s (dto_identity d) of Some w \<Rightarrow> (Inr w, s) | None \<Rightarrow> (Inl (StoreError e), s))
      | Inl e \<Rightarrow> (Inl e, s))"

text \<open>\<open>create\<close>; \<open>mid\<close> is what other sessions commit between its check and its own commit.\<close>

definition create_racing :: "(store \<Rightarrow> store) \<Rightarrow> int \<Rightarrow> create_dto \<Rightarrow> store \<Rightarrow> (error + notification) \<times> store" where
  "create_racing mid now d s =
     (case find_existing s (dto_identity d) of Some n \<Rightarrow> (Inr n, s) | None \<Rightarrow> commit_row now d (mid s))"

definition create :: "int \<Rightarrow> create_dto \<Rightarrow> store \<Rightarrow> (error + notification) \<times> store" where
  "create now d s = create_racing (\<lambda>t. t) now d s"

section \<open>Queries\<close>

definition in_reach :: "int option \<Rightarrow> notification \<Rightarrow> bool" where
  "in_reach user n =
     (case user of
        Some u \<Rightarrow> (n_scope n = USER \<and> n_user n = Some u) \<or> n_scope n = ORGANIZATION
      | None \<Rightarrow> n_scope n = ORGANIZATION)"

definition check_org :: "int \<Rightarrow> error + unit" where
  "check_org org = ensure (0 < org) (ValueError ''organization_id'')"

definition check_user :: "int option \<Rightarrow> error + unit" where
  "check_user user = ensure (case user of None \<Rightarrow> True | Some u \<Rightarrow> 0 < u) (ValueError ''user_id'')"

definition get_by_id :: "store \<Rightarrow> nat \<Rightarrow> int \<Rightarrow> int option \<Rightarrow> error + notification option" where
  "get_by_id s i org user =
     res_bind (check_org org) (\<lambda>_.
     res_bind (check_user user) (\<lambda>_.
       Inr (find (\<lambda>n. n_id n = i \<and> n_org n = org \<and> in_reach user n) (st_rows s))))"

text \<open>The recipient filter shared by listing and counting.\<close>

definition scope_filter :: "int option \<Rightarrow> string option \<Rightarrow> error + (notification \<Rightarrow> bool)" where
  "scope_filter user scope =
     (case scope of
        None \<Rightarrow> Inr (in_reach user)
      | Some t \<Rightarrow>
          (case scope_of t of
             None \<Rightarrow> Inl (ValueError ''recipient_scope'')
           | Some sc \<Rightarrow> Inr (\<lambda>n. n_scope n = sc \<and> (sc = USER \<and> user \<noteq> None \<longrightarrow> n_user n = user))))"

definition newest_first :: "notification list \<Rightarrow> notification list" where
  "newest_first ns = sort_key (\<lambda>n. (- n_created_at n, - int (n_id n))) ns"

definition list_notifications :: "store \<Rightarrow> int \<Rightarrow> int option \<Rightarrow> string option \<Rightarrow> bool \<Rightarrow> int \<Rightarrow> int
    \<Rightarrow> error + notification list" where
  "list_notifications s org user scope unread_only limit offset =
     res_bind (check_org org) (\<lambda>_.
     res_bind (check_user user) (\<lambda>_.
     res_bind (ensure (0 \<le> limit \<and> 0 \<le> offset) (ValueError ''limit and offset'')) (\<lambda>_.
     res_bind (scope_filter user scope) (\<lambda>f.
       let q = newest_first (filter (\<lambda>n. n_org n = org \<and> (unread_only \<longrightarrow> \<not> n_is_read n) \<and> f n) (st_rows s));
           page = drop (nat offset) q
       in Inr (if limit = 0 then page else take (nat limit) page)))))"

definition count_unread :: "store \<Rightarrow> int \<Rightarrow> int option \<Rightarrow> string option \<Rightarrow> error + nat" where
  "count_unread s org user scope =
     res_bind (check_org org) (\<lambda>_.
     res_bind (check_user user) (\<lambda>_.
     res_bind (scope_filter user scope) (\<lambda>f.
       Inr (length (filter (\<lambda>n. n_org n = org \<and> \<not> n_is_read n \<and> f n) (st_rows s))))))"

definition exists_by_dedupe_key :: "store \<Rightarrow> string \<Rightarrow> int \<Rightarrow> int option \<Rightarrow> string option \<Rightarrow> error + bool" where
  "exists_by_dedupe_key s key org user type =
     res_bind (check_org org) (\<lambda>_.
     res_bind (ensure (key \<noteq> []) (ValueError ''dedupe_key'')) (\<lambda>_.
       Inr (list_ex (\<lambda>n. n_org n = org \<and> n_scope_target n = (case user of Some u \<Rightarrow> u | None \<Rightarrow> 0)
              \<and> n_dedupe n = key \<and> (case type of None \<Rightarrow> True | Some t \<Rightarrow> n_type n = t)) (st_rows s))))"

section \<open>Read state\<close>

definition set_read :: "int \<Rightarrow> notification \<Rightarrow> notification" where
  "set_read ts n = n\<lparr>n_is_read := True, n_read_at := Some ts\<rparr>"

definition mark_read :: "int \<Rightarrow> nat \<Rightarrow> int \<Rightarrow> int option \<Rightarrow> int option \<Rightarrow> store \<Rightarrow> (error + bool) \<times> store" where
  "mark_read now i org user read_at s =
     (if org \<le> 0 then (Inl (ValueError ''organization_id''), s)
      else case find (\<lambda>n. n_id n = i \<and> n_org n = org \<and> in_reach user n) (st_rows s) of
        None \<Rightarrow> (Inr False, s)
      | Some r \<Rightarrow>
          if n_is_read r then (Inr True, s)
          else (Inr True, s\<lparr>st_rows := map (\<lambda>n. if n_id n = n_id r
                  then set_read (case read_at of Some t \<Rightarrow> t | None \<Rightarrow> now) n else n) (st_rows s)\<rparr>))"

definition mark_all_read :: "int \<Rightarrow> int \<Rightarrow> int option \<Rightarrow> int option \<Rightarrow> store \<Rightarrow> (error + nat) \<times> store" where
  "mark_all_read now org user read_at s =
     (if org \<le> 0 then (Inl (ValueError ''organization_id''), s)
      else let hit = (\<lambda>n. n_org n = org \<and> \<not> n_is_read n \<and> in_reach user n);
               ts = (case read_at of Some t \<Rightarrow> t | None \<Rightarrow> now)
           in (Inr (length (filter hit (st_rows s))),
               s\<lparr>st_rows := map (\<lambda>n. if hit n then set_read ts n else n) (st_rows s)\<rparr>))"

section \<open>The invariant of the table\<close>

definition row_ok :: "notification \<Rightarrow> bool" where
  "row_ok n \<longleftrightarrow> scope_consistent (n_scope n) (n_user n) (n_scope_target n) \<and> (n_is_read n \<longleftrightarrow> n_read_at n \<noteq> None)"

definition store_ok :: "store \<Rightarrow> bool" where
  "store_ok s \<longleftrightarrow>
     list_all row_ok (st_rows s) \<and> distinct (map row_identity (st_rows s)) \<and> distinct (map n_id (st_rows s))
     \<and> (\<forall>n \<in> set (st_rows s). n_id n < st_next s)
     \<and> (\<forall>n \<in> set (st_rows s). n_org n \<in> set (st_orgs s) \<and> (\<forall>u. n_user n = Some u \<longrightarrow> u \<in> set (st_users s)))"

text \<open>The operations that write, and the states they lead to from an empty table.\<close>

datatype store_op =
    OpCreate int create_dto
  | OpRead int nat int "int option" "int option"
  | OpReadAll int int "int option" "int option"

fun exec_op :: "store_op \<Rightarrow> store \<Rightarrow> store" where
  "exec_op (OpCreate now d) s = snd (create now d s)"
| "exec_op (OpRead now i org user ts) s = snd (mark_read now i org user ts s)"
| "exec_op (OpReadAll now org user ts) s = snd (mark_all_read now org user ts s)"

inductive reachable :: "store \<Rightarrow> bool" where
  start: "st_rows s = [] \<Longrightarrow> reachable s"
| step: "reachable s \<Longrightarrow> reachable (exec_op op s)"

lemma find_existing_None: "find_existing s k = None \<longleftrightarrow> k \<notin> row_identity ` set (st_rows s)"
  by (auto simp: find_existing_def find_None_iff)

lemma find_existing_Some: "find_existing s k = Some n \<Longrightarrow> n \<in> set (st_rows s) \<and> row_identity n = k"
  by (auto simp: find_existing_def find_Some_iff)

lemma find_existing_unique:
  "store_ok s \<Longrightarrow> n \<in> set (st_rows s) \<Longrightarrow> find_existing s (row_identity n) = Some n"
proof -
  assume ok: "store_ok s" and n: "n \<in> set (st_rows s)"
  then obtain w where w: "find_existing s (row_identity n) = Some w"
    by (cases "find_existing s (row_identity n)") (auto simp: find_existing_None)
  with find_existing_Some [OF w] ok n show ?thesis
    by (auto simp: store_ok_def distinct_map inj_on_def)
qed

lemma enforce_scope_Inr:
  "enforce_scope n = Inr n' \<longleftrightarrow> (\<exists>t. scope_consistent (n_scope n) (n_user n) t \<and> n' = n\<lparr>n_scope_target := t\<rparr>)"
  by (cases "n_scope n") (auto simp: enforce_scope_def scope_consistent_def split: option.splits if_splits)

lemma scope_consistent_unique:
  "scope_consistent scope user t \<Longrightarrow> scope_consistent scope user t' \<Longrightarrow> t = t'"
  by (auto simp: scope_consistent_def)

lemma insert_row_Inr:
  assumes "insert_row (new_row now d (st_next s)) s = Inr (n, s')"
  shows "\<exists>t. scope_consistent (dto_scope d) (dto_user d) t \<and> n = (new_row now d (st_next s))\<lparr>n_scope_target := t\<rparr>
     \<and> dto_org d \<in> set (st_orgs s) \<and> (\<forall>u. dto_user d = Some u \<longrightarrow> u \<in> set (st_users s))
     \<and> find_existing s (row_identity n) = None \<and> s' = s\<lparr>st_rows := st_rows s @ [n], st_next := Suc (st_next s)\<rparr>"
  using assms
  by (auto simp: insert_row_def res_bind_Inr_iff enforce_scope_Inr new_row_def split: option.splits)

lemma insert_row_ok:
  assumes "store_ok s" "insert_row (new_row now d (st_next s)) s = Inr (n, s')"
  shows "store_ok s' \<and> st_rows s' = st_rows s @ [n] \<and> n_org n = dto_org d"
proof -
  from assms(1) have fresh: "st_next s \<notin> n_id ` set (st_rows s)"
    by (auto simp: store_ok_def)
  from insert_row_Inr [OF assms(2)] assms(1) fresh show ?thesis
    by (auto simp: store_ok_def row_ok_def find_existing_None new_row_def less_SucI simp del: image_iff)
qed

lemma commit_row_cases:
  assumes "store_ok s"
  obtains n where "commit_row now d s = (Inr n, s)" "n \<in> set (st_rows s)" "row_identity n = dto_identity d"
  | n s' where "commit_row now d s = (Inr n, s')" "insert_row (new_row now d (st_next s)) s = Inr (n, s')"
  | e where "commit_row now d s = (Inl e, s)"
proof (cases "insert_row (new_row now d (st_next s)) s")
  case (Inr r)
  then show ?thesis using that(2) [of "fst r" "snd r"] by (cases r) (simp add: commit_row_def)
next
  case (Inl e)
  then show ?thesis
    using that(1,3) find_existing_Some [of s "dto_identity d"]
    by (cases e; cases "find_existing s (dto_identity d)") (auto simp: commit_row_def)
qed

lemma create_racing_ok:
  assumes "store_ok s" "store_ok (mid s)"
  shows "store_ok (snd (create_racing mid now d s))"
proof (cases "find_existing s (dto_identity d)")
  case None
  from commit_row_cases [OF assms(2), of now d] show ?thesis
    by cases (use None assms insert_row_ok [OF assms(2)] in \<open>auto simp: create_racing_def\<close>)
qed (use assms in \<open>simp add: create_racing_def\<close>)

lemma create_ok: "store_ok s \<Longrightarrow> store_ok (snd (create now d s))"
  by (simp add: create_def create_racing_ok)

text \<open>An update of read state leaves everything else of the table alone.\<close>

lemma set_read_simps [simp]:
  "n_id (set_read ts n) = n_id n" "n_org (set_read ts n) = n_org n" "n_user (set_read ts n) = n_user n"
  "n_scope (set_read ts n) = n_scope n" "row_identity (set_read ts n) = row_identity n"
  "n_is_read (set_read ts n)" "row_ok n \<Longrightarrow> row_ok (set_read ts n)" "in_reach user (set_read ts n) = in_reach user n"
  by (simp_all add: set_read_def row_identity_def row_ok_def in_reach_def split: option.split)

lemma map_read_ok:
  assumes "store_ok s"
  shows "store_ok (s\<lparr>st_rows := map (\<lambda>n. if P n then set_read ts n else n) (st_rows s)\<rparr>)"
proof -
  let ?f = "\<lambda>n. if P n then set_read ts n else n"
  have "map row_identity (map ?f ns) = map row_identity ns" "map n_id (map ?f ns) = map n_id ns" for ns
    by simp_all
  with assms show ?thesis unfolding store_ok_def by (auto simp: list_all_iff simp del: map_map)
qed

lemma mark_read_shape:
  "snd (mark_read now i org user ts s) = s
   \<or> (\<exists>r t. r \<in> set (st_rows s) \<and> n_org r = org \<and> in_reach user r \<and> n_id r = i \<and> \<not> n_is_read r
        \<and> snd (mark_read now i org user ts s) =
            s\<lparr>st_rows := map (\<lambda>n. if n_id n = n_id r then set_read t n else n) (st_rows s)\<rparr>)"
  by (auto simp: mark_read_def find_Some_iff dest: nth_mem split: option.split)

lemma mark_read_ok: "store_ok s \<Longrightarrow> store_ok (snd (mark_read now i org user ts s))"
  using mark_read_shape [of now i org user ts s] by (auto intro!: map_read_ok)

lemma mark_all_read_ok: "store_ok s \<Longrightarrow> store_ok (snd (mark_all_read now org user ts s))"
  by (auto simp: mark_all_read_def Let_def intro!: map_read_ok)

lemma exec_op_ok: "store_ok s \<Longrightarrow> store_ok (exec_op op s)"
  by (cases op) (simp_all add: create_ok mark_read_ok mark_all_read_ok)

lemma reachable_ok: "reachable s \<Longrightarrow> store_ok s"
  by (induction rule: reachable.induct) (auto simp: exec_op_ok, simp add: store_ok_def)

inductive_cases reachable_cases: "reachable s"

section \<open>The interface of the repository\<close>

locale notification_repository =
  fixes make :: "int \<Rightarrow> create_dto \<Rightarrow> 'db \<Rightarrow> (error + notification) \<times> 'db"
    and rows :: "'db \<Rightarrow> notification list"
    and ok :: "'db \<Rightarrow> bool"
  assumes make_ok: "ok s \<Longrightarrow> ok (snd (make now d s))"
    and make_returns: "ok s \<Longrightarrow> dto_wf d \<Longrightarrow> make now d s = (Inr n, s') \<Longrightarrow> n \<in> set (rows s') \<and> row_identity n = dto_identity d"
    and make_appends: "ok s \<Longrightarrow> \<exists>new. rows (snd (make now d s)) = rows s @ new \<and> (\<forall>n \<in> set new. n_org n = dto_org d)"
    and make_again: "ok s \<Longrightarrow> n \<in> set (rows s) \<Longrightarrow> row_identity n = dto_identity d \<Longrightarrow> make now d s = (Inr n, s)"
begin

lemma make_keeps: "ok s \<Longrightarrow> set (rows s) \<subseteq> set (rows (snd (make now d s)))"
  using make_appends [of s now d] by auto

lemma make_idempotent:
  "ok s \<Longrightarrow> dto_wf d \<Longrightarrow> make now d s = (Inr n, s') \<Longrightarrow> make now' d s' = (Inr n, s')"
  using make_ok [of s now d] make_returns [of s d now n s'] make_again [of s' n d now'] by simp

lemma make_other_tenants:
  "ok s \<Longrightarrow> filter (\<lambda>n. n_org n \<noteq> dto_org d) (rows (snd (make now d s))) = filter (\<lambda>n. n_org n \<noteq> dto_org d) (rows s)"
  using make_appends [of s now d] by (auto simp: filter_empty_conv)

end

lemma dto_row_identity:
  "dto_wf d \<Longrightarrow> scope_consistent (dto_scope d) (dto_user d) t \<Longrightarrow>
   row_identity ((new_row now d i)\<lparr>n_scope_target := t\<rparr>) = dto_identity d"
  using scope_consistent_unique [of "dto_scope d" "dto_user d" t "dto_scope_target d"]
  by (simp add: dto_wf_def row_identity_def dto_identity_def new_row_def)

lemma insert_row_identity:
  "dto_wf d \<Longrightarrow> insert_row (new_row now d (st_next s)) s = Inr (n, s') \<Longrightarrow>
   n \<in> set (st_rows s') \<and> row_identity n = dto_identity d"
  using insert_row_Inr [of now d s n s'] by (auto simp: dto_row_identity)

lemma create_racing_returns:
  assumes "store_ok s" "store_ok (mid s)" "dto_wf d" "create_racing mid now d s = (Inr n, s')"
  shows "n \<in> set (st_rows s') \<and> row_identity n = dto_identity d"
proof (cases "find_existing s (dto_identity d)")
  case None
  with assms(4) have c: "commit_row now d (mid s) = (Inr n, s')" by (simp add: create_racing_def)
  from commit_row_cases [OF assms(2), of now d] show ?thesis
    by cases (use c insert_row_identity [OF assms(3)] in auto)
next
  case (Some m)
  with assms(4) find_existing_Some [OF Some] show ?thesis by (simp add: create_racing_def)
qed

interpretation notifs: notification_repository create st_rows store_ok
proof unfold_locales
  fix s :: store and now d
  assume ok: "store_ok s"
  then show "store_ok (snd (create now d s))" by (rule create_ok)
  show "\<exists>new. st_rows (snd (create now d s)) = st_rows s @ new \<and> (\<forall>n \<in> set new. n_org n = dto_org d)"
  proof (cases "find_existing s (dto_identity d)")
    case None
    from commit_row_cases [OF ok, of now d] show ?thesis
      by cases (use None insert_row_ok [OF ok] in \<open>auto simp: create_def create_racing_def\<close>)
  qed (simp add: create_def create_racing_def)
next
  fix s :: store and now d n s'
  assume "store_ok s" "dto_wf d" "create now d s = (Inr n, s')"
  then show "n \<in> set (st_rows s') \<and> row_identity n = dto_identity d"
    unfolding create_def by (intro create_racing_returns [of s "\<lambda>t. t" d now n s'])
next
  fix s :: store and now d n
  assume "store_ok s" "n \<in> set (st_rows s)" "row_identity n = dto_identity d"
  then show "create now d s = (Inr n, s)"
    using find_existing_unique [of s n] by (simp add: create_def create_racing_def)
qed

section \<open>Properties\<close>

lemma unique_row:
  assumes "store_ok s" "n \<in> set (st_rows s)"
  shows "filter (\<lambda>m. row_identity m = row_identity n) (st_rows s) = [n]"
proof -
  obtain xs ys where s: "st_rows s = xs @ n # ys" using assms(2) by (auto dest: split_list)
  with assms(1) have "row_identity n \<notin> row_identity ` set (xs @ ys)"
    by (auto simp: store_ok_def)
  then have "filter (\<lambda>m. row_identity m = row_identity n) xs = []" "filter (\<lambda>m. row_identity m = row_identity n) ys = []"
    by (auto simp: filter_empty_conv intro: rev_image_eqI)
  with s show ?thesis by simp
qed

text \<open>
  C12: in every state that creating and marking notifications can reach, no two rows share a
  deduplication identity or an id, a row is read exactly when it has a read time, its scope
  target is derived from its scope and user, and its organization and user exist.
\<close>

theorem table_invariant: "reachable s \<Longrightarrow> store_ok s"
  by (rule reachable_ok)

text \<open>
  Creating is idempotent: after a creation that succeeds, the same request returns the
  same row and changes nothing, at any later time.
\<close>

theorem create_idempotent:
  assumes "reachable s" "dto_wf d" "create now d s = (Inr n, s')"
  shows "create now' d s' = (Inr n, s') \<and> row_identity n = dto_identity d"
  using notifs.make_idempotent [OF reachable_ok [OF assms(1)] assms(2,3), of now'] 
    notifs.make_returns [OF reachable_ok [OF assms(1)] assms(2,3)] by simp


fun op_org :: "store_op \<Rightarrow> int" where
  "op_org (OpCreate now d) = dto_org d"
| "op_org (OpRead now i org user ts) = org"
| "op_org (OpReadAll now org user ts) = org"

text \<open>
  Tenants are isolated on writes: no operation changes, adds or removes a row of another
  organization.
\<close>

theorem writes_stay_in_tenant:
  assumes "reachable s"
  shows "filter (\<lambda>n. n_org n \<noteq> op_org op) (st_rows (exec_op op s)) = filter (\<lambda>n. n_org n \<noteq> op_org op) (st_rows s)"
proof -
  have ok: "store_ok s" using assms by (rule reachable_ok)
  have filter_map: "filter Q (map f ns) = filter Q ns" if "\<And>n. n \<in> set ns \<Longrightarrow> Q (f n) = Q n \<and> (Q n \<longrightarrow> f n = n)"
    for Q and f :: "notification \<Rightarrow> notification" and ns
    using that by (induction ns) auto
  show ?thesis
  proof (cases op)
    case (OpCreate now d)
    with notifs.make_other_tenants [OF ok] show ?thesis by simp
  next
    case (OpRead now i org user ts)
    from mark_read_shape [of now i org user ts s] show ?thesis
    proof
      assume "\<exists>r t. r \<in> set (st_rows s) \<and> n_org r = org \<and> in_reach user r \<and> n_id r = i \<and> \<not> n_is_read r
        \<and> snd (mark_read now i org user ts s) =
            s\<lparr>st_rows := map (\<lambda>n. if n_id n = n_id r then set_read t n else n) (st_rows s)\<rparr>"
      then obtain r t where r: "r \<in> set (st_rows s)" "n_org r = org"
          "snd (mark_read now i org user ts s) =
            s\<lparr>st_rows := map (\<lambda>n. if n_id n = n_id r then set_read t n else n) (st_rows s)\<rparr>" by blast
      have same: "n = r" if "n \<in> set (st_rows s)" "n_id n = n_id r" for n
        using that r(1) ok by (auto simp: store_ok_def distinct_map inj_on_def)
      have "filter (\<lambda>n. n_org n \<noteq> org) (map (\<lambda>n. if n_id n = n_id r then set_read t n else n) (st_rows s))
          = filter (\<lambda>n. n_org n \<noteq> org) (st_rows s)"
        by (rule filter_map) (use r(2) same in auto)
      with r(3) OpRead show ?thesis by simp
    qed (simp add: OpRead)
  next
    case (OpReadAll now org user ts)
    have "filter (\<lambda>n. n_org n \<noteq> org) (map (\<lambda>n. if n_org n = org \<and> \<not> n_is_read n \<and> in_reach user n then set_read t n else n)
        (st_rows s)) = filter (\<lambda>n. n_org n \<noteq> org) (st_rows s)" for t
      by (rule filter_map) simp
    with OpReadAll show ?thesis by (simp add: mark_all_read_def Let_def)
  qed
qed

text \<open>
  Tenants and users are isolated on reads: a listed row is a row of the table that
  belongs to the organization asked for and, unless a scope is asked for explicitly, is
  organization-wide or addressed to the user asked for; the same holds of a row fetched by
  its id.
\<close>

theorem reads_stay_in_reach:
  "(\<forall>ns n. list_notifications s org user scope unread limit offset = Inr ns \<longrightarrow> n \<in> set ns \<longrightarrow>
       n \<in> set (st_rows s) \<and> n_org n = org \<and> (unread \<longrightarrow> \<not> n_is_read n) \<and> (scope = None \<longrightarrow> in_reach user n)
       \<and> (user \<noteq> None \<longrightarrow> n_scope n = ORGANIZATION \<or> n_user n = user))
   \<and> (\<forall>n. get_by_id s i org user = Inr (Some n) \<longrightarrow>
       n \<in> set (st_rows s) \<and> n_id n = i \<and> n_org n = org \<and> in_reach user n)"
  by (auto simp: list_notifications_def get_by_id_def find_Some_iff res_bind_Inr_iff scope_filter_def newest_first_def
      Let_def in_reach_def dest!: in_set_takeD in_set_dropD split: if_splits option.splits)

text \<open>
  The exception to user isolation: listing the USER scope without a user returns the
  private notifications of every user of the organization.
\<close>

theorem user_scope_without_user_shows_all:
  assumes "0 < org" "n \<in> set (st_rows s)" "n_org n = org" "n_scope n = USER"
  shows "\<exists>ns. list_notifications s org None (Some ''USER'') False 0 0 = Inr ns \<and> n \<in> set ns"
  using assms
  by (simp add: list_notifications_def check_org_def check_user_def scope_filter_def scope_of_def newest_first_def ensure_def)

lemma filter_none_after: "filter (\<lambda>n. hit n \<and> \<not> n_is_read n) (map (\<lambda>n. if hit n \<and> \<not> n_is_read n then set_read ts n else n) ns) = []"
  if "\<And>n t. hit (set_read t n) = hit n"
  using that by (induction ns) auto

text \<open>
  Marking everything read reports exactly the unread notifications in reach, and
  afterwards the unread count of that reach is zero.
\<close>

theorem mark_all_read_counts:
  assumes "mark_all_read now org user ts s = (Inr k, s')" "count_unread s org user None = Inr c"
  shows "k = c \<and> count_unread s' org user None = Inr 0"
proof -
  have org: "0 < org" "check_user user = Inr ()"
    using assms(2) by (auto simp: count_unread_def check_org_def res_bind_Inr_iff)
  let ?hit = "\<lambda>n. n_org n = org \<and> in_reach user n"
  have swap: "(n_org n = org \<and> \<not> n_is_read n \<and> in_reach user n) = (?hit n \<and> \<not> n_is_read n)" for n by blast
  have "k = length (filter (\<lambda>n. ?hit n \<and> \<not> n_is_read n) (st_rows s))"
    "st_rows s' = map (\<lambda>n. if ?hit n \<and> \<not> n_is_read n then set_read (case ts of Some t \<Rightarrow> t | None \<Rightarrow> now) n else n) (st_rows s)"
    using assms(1) org by (auto simp: mark_all_read_def Let_def swap)
  then show ?thesis
    using assms(2) org filter_none_after [of ?hit]
    by (simp add: count_unread_def check_org_def scope_filter_def swap ensure_def)
qed

section \<open>Witnesses\<close>

definition sample_store :: store where
  "sample_store = \<lparr>st_rows = [], st_next = 1, st_orgs = [7, 8], st_users = [3]\<rparr>"

definition sample_row :: "int option \<Rightarrow> string \<Rightarrow> nat \<Rightarrow> int \<Rightarrow> notification" where
  "sample_row user key i now = (new_row now (sample_dto user key) i)"

definition sample_full :: store where
  "sample_full = sample_store\<lparr>st_rows := [sample_row (Some 3) ''k1'' 1 100], st_next := 2\<rparr>"

lemma sample_create: "create 100 (sample_dto (Some 3) ''k1'') sample_store = (Inr (sample_row (Some 3) ''k1'' 1 100), sample_full)"
  by code_simp

lemma sample_reachable: "reachable sample_store" "reachable sample_full"
proof -
  show s: "reachable sample_store" by (rule start) (simp add: sample_store_def)
  from step [OF s, of "OpCreate 100 (sample_dto (Some 3) ''k1'')"] show "reachable sample_full"
    by (simp add: sample_create)
qed

lemma sample_dto_wf: "dto_wf (sample_dto (Some 3) ''k1'')"
  by (rule notification_create_wf [OF sample_dto_created(2)])

theorem table_invariant_witness: "store_ok sample_full"
  by (rule table_invariant [OF sample_reachable(2)])

theorem create_idempotent_witness:
  "create 200 (sample_dto (Some 3) ''k1'') sample_full = (Inr (sample_row (Some 3) ''k1'' 1 100), sample_full)"
  using create_idempotent [OF sample_reachable(1) sample_dto_wf sample_create, of 200] by simp


theorem writes_stay_in_tenant_witness:
  "filter (\<lambda>n. n_org n \<noteq> 8) (st_rows (exec_op (OpReadAll 5 8 None None) sample_full))
   = filter (\<lambda>n. n_org n \<noteq> 8) (st_rows sample_full)"
  using writes_stay_in_tenant [OF sample_reachable(2), of "OpReadAll 5 8 None None"] by simp

theorem reads_stay_in_reach_witness:
  "n_org (sample_row (Some 3) ''k1'' 1 100) = 7 \<and> in_reach (Some 3) (sample_row (Some 3) ''k1'' 1 100)"
proof -
  have "list_notifications sample_full 7 (Some 3) None False 0 0 = Inr [sample_row (Some 3) ''k1'' 1 100]" by code_simp
  then show ?thesis
    using reads_stay_in_reach [of sample_full 7 "Some 3" None False 0 0] by simp
qed

theorem user_scope_without_user_shows_all_witness:
  "\<exists>ns. list_notifications sample_full 7 None (Some ''USER'') False 0 0 = Inr ns \<and> sample_row (Some 3) ''k1'' 1 100 \<in> set ns"
  by (rule user_scope_without_user_shows_all)
     (simp_all add: sample_full_def sample_row_def new_row_def sample_dto_def)

theorem mark_all_read_counts_witness:
  "count_unread (snd (mark_all_read 9 7 (Some 3) None sample_full)) 7 (Some 3) None = Inr 0"
proof -
  have "mark_all_read 9 7 (Some 3) None sample_full = (Inr 1, snd (mark_all_read 9 7 (Some 3) None sample_full))"
    "count_unread sample_full 7 (Some 3) None = Inr 1" by code_simp+
  from mark_all_read_counts [OF this] show ?thesis by simp
qed

end
