(* ===== verification/In_App.thy ===== *)
theory In_App
  imports Policy Notif_Store
begin

text \<open>
  The in-app adapter (\<open>in_app_adapter.py\<close>): intents of the in-app channel become creation
  requests for the notification repository, each attempted on its own. The adapter works
  with any repository; its lemmas are proved in the locale of the repository interface and
  used here for the SQLite repository.
\<close>

section \<open>The adapter\<close>

definition intent_request :: "intent \<Rightarrow> create_request" where
  "intent_request i =
     \<lparr>cr_org = i_org i, cr_scope = i_scope i, cr_user = i_user i, cr_event_id = i_event_id i, cr_scan_id = i_scan_id i,
      cr_dedupe = i_dedupe i, cr_type = i_type i, cr_severity = severity_value (i_severity i), cr_title = i_title i,
      cr_message = i_message i, cr_link = i_link i\<rparr>"

type_synonym 'db maker = "int \<Rightarrow> create_dto \<Rightarrow> 'db \<Rightarrow> (error + notification) \<times> 'db"

definition handle_intent :: "'db maker \<Rightarrow> int \<Rightarrow> intent \<Rightarrow> 'db \<Rightarrow> (error + notification) \<times> 'db" where
  "handle_intent mk now i db =
     (case notification_create (intent_request i) of Inl e \<Rightarrow> (Inl e, db) | Inr d \<Rightarrow> mk now d db)"

text \<open>The loop: failures and persisted notifications so far.\<close>

fun attempt_intents :: "'db maker \<Rightarrow> int \<Rightarrow> intent list \<Rightarrow> (intent \<times> error) list \<Rightarrow> notification list \<Rightarrow> 'db
    \<Rightarrow> (intent \<times> error) list \<times> notification list \<times> 'db" where
  "attempt_intents mk now [] failures persisted db = (failures, persisted, db)"
| "attempt_intents mk now (i # is) failures persisted db =
     (if i_channel i \<noteq> IN_APP then attempt_intents mk now is failures persisted db
      else case handle_intent mk now i db of
        (Inr n, db') \<Rightarrow> attempt_intents mk now is failures (persisted @ [n]) db'
      | (Inl e, db') \<Rightarrow> attempt_intents mk now is (failures @ [(i, e)]) persisted db')"

text \<open>\<open>handle_intents\<close>; \<open>Inl\<close> is the \<open>AggregatePersistenceError\<close> with both lists.\<close>

definition handle_intents :: "'db maker \<Rightarrow> int \<Rightarrow> intent list \<Rightarrow> 'db
    \<Rightarrow> ((intent \<times> error) list \<times> notification list + notification list) \<times> 'db" where
  "handle_intents mk now is db =
     (let (failures, persisted, db') = attempt_intents mk now is [] [] db
      in (if failures \<noteq> [] then Inl (failures, persisted) else Inr persisted, db'))"

definition in_app_intents :: "intent list \<Rightarrow> intent list" where
  "in_app_intents is = filter (\<lambda>i. i_channel i = IN_APP) is"

section \<open>The adapter on any repository\<close>

context notification_repository
begin

lemma handle_intent_ok: "ok db \<Longrightarrow> ok (snd (handle_intent make now i db))"
  by (auto simp: handle_intent_def make_ok split: sum.split)

lemma handle_intent_keeps: "ok db \<Longrightarrow> set (rows db) \<subseteq> set (rows (snd (handle_intent make now i db)))"
  using make_keeps by (auto simp: handle_intent_def split: sum.split)

lemma handle_intent_row:
  assumes "ok db" "handle_intent make now i db = (Inr n, db')"
  shows "n \<in> set (rows db') \<and> (\<exists>d. notification_create (intent_request i) = Inr d \<and> row_identity n = dto_identity d)"
proof -
  obtain d where d: "notification_create (intent_request i) = Inr d" "make now d db = (Inr n, db')"
    using assms(2) by (auto simp: handle_intent_def split: sum.splits)
  with make_returns [OF assms(1) notification_create_wf [OF d(1)] d(2)] show ?thesis by blast
qed

lemma attempt_intents_sound:
  assumes "ok db" "set persisted \<subseteq> set (rows db)" "attempt_intents make now is failures persisted db = (fs, ns, db')"
  shows "ok db' \<and> set (rows db) \<subseteq> set (rows db') \<and> set ns \<subseteq> set (rows db')
     \<and> length fs + length ns = length failures + length persisted + length (in_app_intents is)"
  using assms
proof (induction "is" arbitrary: failures persisted db)
  case Nil
  then show ?case by (simp add: in_app_intents_def)
next
  case (Cons i "is")
  show ?case
  proof (cases "i_channel i = IN_APP")
    case False
    with Cons show ?thesis by (simp add: in_app_intents_def)
  next
    case True
    obtain r db1 where h: "handle_intent make now i db = (r, db1)" by fastforce
    have db1: "ok db1" "set (rows db) \<subseteq> set (rows db1)"
      using handle_intent_ok [OF Cons.prems(1), of now i] handle_intent_keeps [OF Cons.prems(1), of now i] h by simp_all
    show ?thesis
    proof (cases r)
      case (Inl e)
      have "attempt_intents make now is (failures @ [(i, e)]) persisted db1 = (fs, ns, db')"
        using Cons.prems(3) h Inl True by simp
      from Cons.IH [OF db1(1) _ this] Cons.prems(2) db1(2) True show ?thesis by (auto simp: in_app_intents_def)
    next
      case (Inr n)
      have a: "attempt_intents make now is failures (persisted @ [n]) db1 = (fs, ns, db')"
        using Cons.prems(3) h Inr True by simp
      have "n \<in> set (rows db1)" using handle_intent_row [OF Cons.prems(1)] h Inr by blast
      with Cons.IH [OF db1(1) _ a] Cons.prems(2) db1(2) True show ?thesis by (auto simp: in_app_intents_def)
    qed
  qed
qed

text \<open>A second run finds every row: it changes nothing and returns the same rows.\<close>

lemma handle_intent_again:
  assumes "ok db" "handle_intent make now i db = (Inr n, db1)" "ok db'" "set (rows db1) \<subseteq> set (rows db')"
  shows "handle_intent make now' i db' = (Inr n, db')"
proof -
  obtain d where d: "notification_create (intent_request i) = Inr d" "make now d db = (Inr n, db1)"
    using assms(2) by (auto simp: handle_intent_def split: sum.splits)
  with make_returns [OF assms(1) notification_create_wf [OF d(1)] d(2)] make_again [OF assms(3)] assms(4) show ?thesis
    by (auto simp: handle_intent_def)
qed

lemma attempt_intents_again:
  assumes "ok db" "set persisted \<subseteq> set (rows db)" "attempt_intents make now is [] persisted db = ([], ns, db')"
    and "ok db2" "set (rows db') \<subseteq> set (rows db2)"
  shows "attempt_intents make now' is [] persisted db2 = ([], ns, db2)"
  using assms
proof (induction "is" arbitrary: persisted db)
  case (Cons i "is")
  have grows: "fs \<noteq> [] \<Longrightarrow> attempt_intents make now js fs ps d \<noteq> ([], qs, d')" for fs js ps d qs d'
    by (induction make now js fs ps d rule: attempt_intents.induct) (auto split: sum.splits prod.splits)
  show ?case
  proof (cases "i_channel i = IN_APP")
    case False
    with Cons show ?thesis by simp
  next
    case True
    obtain r db1 where h: "handle_intent make now i db = (r, db1)" by fastforce
    with True Cons.prems(3) grows obtain n where r: "r = Inr n" by (cases r) auto
    have a: "attempt_intents make now is [] (persisted @ [n]) db1 = ([], ns, db')"
      using Cons.prems(3) h r True by simp
    have db1: "ok db1" "set (rows db) \<subseteq> set (rows db1)" "n \<in> set (rows db1)"
      using handle_intent_ok [OF Cons.prems(1), of now i] handle_intent_keeps [OF Cons.prems(1), of now i]
        handle_intent_row [OF Cons.prems(1)] h r by auto
    with Cons.prems(2) have ps: "set (persisted @ [n]) \<subseteq> set (rows db1)" by auto
    from attempt_intents_sound [OF db1(1) ps a] Cons.prems(5) have "set (rows db1) \<subseteq> set (rows db2)" by auto
    with handle_intent_again [OF Cons.prems(1) h [unfolded r] Cons.prems(4)]
    have "handle_intent make now' i db2 = (Inr n, db2)" by blast
    with Cons.IH [OF db1(1) ps a Cons.prems(4,5)] True show ?thesis by simp
  qed
qed simp

lemma handle_intents_sound:
  assumes "ok db" "handle_intents make now is db = (r, db')"
  shows "ok db' \<and> set (rows db) \<subseteq> set (rows db') \<and>
    (case r of Inr ns \<Rightarrow> length ns = length (in_app_intents is) \<and> set ns \<subseteq> set (rows db')
     | Inl (fs, ns) \<Rightarrow> fs \<noteq> [] \<and> length fs + length ns = length (in_app_intents is) \<and> set ns \<subseteq> set (rows db'))"
proof -
  obtain fs ns db1 where a: "attempt_intents make now is [] [] db = (fs, ns, db1)" by (metis prod_cases3)
  with assms(2) have "db' = db1" "r = (if fs \<noteq> [] then Inl (fs, ns) else Inr ns)"
    by (auto simp: handle_intents_def)
  with attempt_intents_sound [OF assms(1) _ a] show ?thesis by auto
qed

lemma handle_intents_again:
  assumes "ok db" "handle_intents make now is db = (Inr ns, db')"
  shows "handle_intents make now' is db' = (Inr ns, db')"
proof -
  have a: "attempt_intents make now is [] [] db = ([], ns, db')"
    using assms(2) by (auto simp: handle_intents_def split: if_splits prod.splits)
  from attempt_intents_sound [OF assms(1) _ a] attempt_intents_again [OF assms(1) _ a, of db'] show ?thesis
    by (simp add: handle_intents_def)
qed

end

section \<open>The adapter on the SQLite repository\<close>

text \<open>
  Every in-app intent is attempted, whatever the others do: failed plus persisted are all
  the in-app intents, persisted notifications and everything stored before stay in the table
  even when other intents fail, and the aggregate error is raised exactly when one failed.
\<close>

theorem all_intents_attempted:
  assumes "reachable db" "handle_intents create now is db = (r, db')"
  shows "store_ok db' \<and> set (st_rows db) \<subseteq> set (st_rows db') \<and>
    (case r of Inr ns \<Rightarrow> length ns = length (in_app_intents is) \<and> set ns \<subseteq> set (st_rows db')
     | Inl (fs, ns) \<Rightarrow> fs \<noteq> [] \<and> length fs + length ns = length (in_app_intents is) \<and> set ns \<subseteq> set (st_rows db'))"
  by (rule notifs.handle_intents_sound [OF reachable_ok [OF assms(1)] assms(2)])

text \<open>
  Delivering the same intents twice stores them once: after a delivery without failures
  a second one returns the same notifications and leaves the table unchanged.
\<close>

theorem redelivery_stores_once:
  assumes "reachable db" "handle_intents create now is db = (Inr ns, db')"
  shows "handle_intents create now' is db' = (Inr ns, db')"
  by (rule notifs.handle_intents_again [OF reachable_ok [OF assms(1)] assms(2)])

lemma blank_link_rejected:
  assumes "c \<in> set (py_strip l)" "is_space c"
  shows "validate_relative_link (Some l) \<noteq> Inr x"
proof
  assume r: "validate_relative_link (Some l) = Inr x"
  show False
  proof (cases x)
    case None
    with r assms(1) show False by (auto simp: validate_relative_link_def Let_def split: if_splits option.splits)
  next
    case (Some t)
    with r assms(1) have "t = py_strip l" by (auto simp: validate_relative_link_def Let_def split: if_splits option.splits)
    with validate_link_Inr [of "Some l" t] r Some assms show False by (auto simp: internal_link_def)
  qed
qed

lemma strip_keeps_middle:
  assumes "l = a # u @ c # v @ [b]" "\<not> is_space a" "\<not> is_space b"
  shows "py_strip l = l"
  using assms by (simp add: py_strip_def py_lstrip_def py_rstrip_def)

text \<open>
  A scan id with a blank inside is valid for an event but not for the link of its
  notification: the in-app notification of every such event is lost with an error, whatever
  the repository holds.
\<close>

theorem blank_in_scan_id_loses_notification:
  assumes "evaluate sha now ev cfg = Inr is" "i \<in> set is" "i_channel i = IN_APP"
    and "ev_scan_id ev = u @ c # v @ [b]" "is_space c" "\<not> is_space b"
  shows "\<exists>e. handle_intent create now' i db = (Inl e, db)"
proof -
  have link: "i_link i = Some (''/scans/'' @ u @ c # v @ [b])"
    using evaluate_link [OF assms(1,2)] assms(4) by simp
  have "py_strip (''/scans/'' @ u @ c # v @ [b]) = ''/scans/'' @ u @ c # v @ [b]"
    using strip_keeps_middle [of "''/scans/'' @ u @ c # v @ [b]" "CHR ''/''" "''scans/'' @ u" c v b] assms(6)
    by (simp add: is_space_def code_of_def)
  with blank_link_rejected [of c "''/scans/'' @ u @ c # v @ [b]"] assms(5) link
  have "notification_create (intent_request i) \<noteq> Inr d" for d
    by (auto simp: notification_create_Inr intent_request_def)
  then show ?thesis by (cases "notification_create (intent_request i)") (auto simp: handle_intent_def)
qed

definition short_intent :: intent where
  "short_intent = (sample_intent IN_APP)\<lparr>i_title := ''Alert'', i_message := ''2 findings''\<rparr>"

definition bad_intent :: intent where
  "bad_intent = short_intent\<lparr>i_title := []\<rparr>"

definition short_dto :: create_dto where
  "short_dto = (sample_dto None sample_key)\<lparr>dto_severity := CRITICAL\<rparr>"

definition short_store :: store where
  "short_store = sample_store\<lparr>st_rows := [new_row 100 short_dto 1], st_next := 2\<rparr>"

lemma short_created: "notification_create (intent_request short_intent) = Inr short_dto"
  by code_simp

lemma bad_rejected: "notification_create (intent_request bad_intent) = Inl (ValueError ''title'')"
  by code_simp

lemma short_stored: "create 100 short_dto sample_store = (Inr (new_row 100 short_dto 1), short_store)"
  by code_simp

lemma sample_channels: "i_channel short_intent = IN_APP" "i_channel bad_intent = IN_APP" "i_channel (sample_intent WEBHOOK) = WEBHOOK"
  by (simp_all add: short_intent_def bad_intent_def sample_intent_def)

lemmas sample_delivery_simps =
  handle_intents_def handle_intent_def short_created bad_rejected short_stored sample_channels

lemma sample_delivery:
  "handle_intents create 100 [short_intent, sample_intent WEBHOOK] sample_store = (Inr [new_row 100 short_dto 1], short_store)"
  "handle_intents create 100 [bad_intent, short_intent] sample_store
     = (Inl ([(bad_intent, ValueError ''title'')], [new_row 100 short_dto 1]), short_store)"
  by (simp_all add: sample_delivery_simps)

theorem all_intents_attempted_witness:
  "store_ok short_store \<and> set [new_row 100 short_dto 1] \<subseteq> set (st_rows short_store)
   \<and> length [(bad_intent, ValueError ''title'')] + length [new_row 100 short_dto 1] = length (in_app_intents [bad_intent, short_intent])"
  using all_intents_attempted [OF sample_reachable(1) sample_delivery(2)] by simp

theorem redelivery_stores_once_witness:
  "handle_intents create 999 [short_intent, sample_intent WEBHOOK] short_store = (Inr [new_row 100 short_dto 1], short_store)"
  by (rule redelivery_stores_once [OF sample_reachable(1) sample_delivery(1)])

definition spaced_event :: event where
  "spaced_event = sample_event\<lparr>ev_scan_id := ''scan 1''\<rparr>"

theorem blank_in_scan_id_loses_notification_witness:
  "event_wf spaced_event \<and> (\<exists>i e. evaluate (\<lambda>t. sample_key) ''now'' spaced_event (sample_config\<lparr>pc_webhook := False\<rparr>) = Inr [i]
     \<and> handle_intent create 100 i sample_store = (Inl e, sample_store))"
proof
  show "event_wf spaced_event"
    using mk_event_wf [OF sample_event_built] by (simp add: event_wf_def spaced_event_def) code_simp
  let ?cfg = "sample_config\<lparr>pc_webhook := False\<rparr>"
  obtain i where i: "evaluate (\<lambda>t. sample_key) ''now'' spaced_event ?cfg = Inr [i]" "i_channel i = IN_APP"
  proof -
    have "(case evaluate (\<lambda>t. sample_key) ''now'' spaced_event ?cfg of Inr [i] \<Rightarrow> i_channel i = IN_APP | _ \<Rightarrow> False)"
      by code_simp
    then show thesis using that by (auto split: sum.splits list.splits)
  qed
  from blank_in_scan_id_loses_notification [OF i(1) _ i(2), of "''scan''" "CHR '' ''" "[]" "CHR ''1''"]
  have "\<exists>e. handle_intent create 100 i sample_store = (Inl e, sample_store)"
    by (simp add: spaced_event_def is_space_def code_of_def)
  with i(1) show "\<exists>i e. evaluate (\<lambda>t. sample_key) ''now'' spaced_event ?cfg = Inr [i]
     \<and> handle_intent create 100 i sample_store = (Inl e, sample_store)" by blast
qed

end
