(* ===== verification/Delivery.thy ===== *)
theory Delivery
  imports Prelude Complex_Main
begin

text \<open>
  Delivery results and where they are recorded: the result type of \<open>webhook_adapter.py\<close> and
  \<open>webhook_client.py\<close>, the bounded in-memory sink, the append-only audit log
  (\<open>delivery_models.py\<close>, \<open>delivery_repository.py\<close>, \<open>sqlite_delivery_repository.py\<close>) and the
  durable sink that feeds both (\<open>durable_delivery_sink.py\<close>). The contract of a sink is the
  locale \<open>delivery_sink\<close>. Times are integers: instants in UTC, durations in milliseconds.
\<close>

section \<open>Results\<close>

datatype delivery_status =
    DELIVERY_SUCCESS | SSRF_BLOCKED | DNS_RESOLUTION_FAILED | CONNECTION_TIMEOUT | READ_TIMEOUT | TLS_ERROR
  | CONNECTION_REFUSED | HTTP_CLIENT_ERROR | HTTP_RATE_LIMITED | HTTP_SERVER_ERROR | REDIRECT_BLOCKED
  | PAYLOAD_TOO_LARGE | QUEUE_OVERFLOW | PAYLOAD_INVALID | SHUTDOWN_ABORTED | INTERNAL_ERROR

definition delivery_status_values :: "(delivery_status \<times> string) list" where
  "delivery_status_values =
     [(DELIVERY_SUCCESS, ''SUCCESS''), (SSRF_BLOCKED, ''SSRF_BLOCKED''),
      (DNS_RESOLUTION_FAILED, ''DNS_RESOLUTION_FAILED''), (CONNECTION_TIMEOUT, ''CONNECTION_TIMEOUT''),
      (READ_TIMEOUT, ''READ_TIMEOUT''), (TLS_ERROR, ''TLS_ERROR''), (CONNECTION_REFUSED, ''CONNECTION_REFUSED''),
      (HTTP_CLIENT_ERROR, ''HTTP_CLIENT_ERROR''), (HTTP_RATE_LIMITED, ''HTTP_RATE_LIMITED''),
      (HTTP_SERVER_ERROR, ''HTTP_SERVER_ERROR''), (REDIRECT_BLOCKED, ''REDIRECT_BLOCKED''),
      (PAYLOAD_TOO_LARGE, ''PAYLOAD_TOO_LARGE''), (QUEUE_OVERFLOW, ''QUEUE_OVERFLOW''),
      (PAYLOAD_INVALID, ''PAYLOAD_INVALID''), (SHUTDOWN_ABORTED, ''SHUTDOWN_ABORTED''),
      (INTERNAL_ERROR, ''INTERNAL_ERROR'')]"

definition delivery_status_value :: "delivery_status \<Rightarrow> string" where
  "delivery_status_value s = (case map_of delivery_status_values s of Some t \<Rightarrow> t | None \<Rightarrow> [])"

definition max_error_message_length :: nat where
  "max_error_message_length = 512"

record delivery_result =
  r_success :: bool
  r_status :: delivery_status
  r_status_code :: "int option"
  r_error :: "string option"
  r_duration :: int
  r_attempts :: nat
  r_key :: string
  r_org :: int
  r_event_id :: string
  r_scan_id :: "string option"
  r_channel :: string
  r_target_ip :: "string option"

text \<open>\<open>DeliveryResult.__post_init__\<close>\<close>

definition bound_error :: "string option \<Rightarrow> string option" where
  "bound_error e = map_option (take max_error_message_length) e"

definition mk_result :: "delivery_result \<Rightarrow> delivery_result" where
  "mk_result r = r\<lparr>r_error := bound_error (r_error r)\<rparr>"

section \<open>Sinks\<close>

text \<open>The last \<open>n\<close> elements, which a \<open>deque(maxlen=n)\<close> keeps.\<close>

definition last_n :: "nat \<Rightarrow> 'a list \<Rightarrow> 'a list" where
  "last_n n xs = drop (length xs - n) xs"

lemma last_n_all [simp]: "length xs \<le> n \<Longrightarrow> last_n n xs = xs"
  by (simp add: last_n_def)

lemma last_n_glue: "last_n n (last_n n xs @ ys) = last_n n (xs @ ys)"
proof (cases "length xs \<le> n")
  case False
  then obtain k where "length xs = n + k" using le_Suc_ex [of n "length xs"] by auto
  then show ?thesis by (simp add: last_n_def add.commute)
qed simp

locale delivery_sink =
  fixes put :: "delivery_result \<Rightarrow> 's \<Rightarrow> 's"
    and recent :: "'s \<Rightarrow> delivery_result list"
    and ok :: "'s \<Rightarrow> bool"
    and capacity :: nat
  assumes ok_put: "ok s \<Longrightarrow> ok (put r s)"
    and recent_put: "ok s \<Longrightarrow> recent (put r s) = last_n capacity (recent s @ [r])"
    and capacity_pos: "0 < capacity"
begin

text \<open>After any number of results the sink shows the latest ones, in order.\<close>

lemma recent_puts: "ok s \<Longrightarrow> rs \<noteq> [] \<Longrightarrow> recent (fold put rs s) = last_n capacity (recent s @ rs)"
proof (induction rs arbitrary: s)
  case (Cons r rs)
  then show ?case
    by (cases rs) (simp_all add: recent_put ok_put last_n_glue)
qed simp

lemma ok_puts: "ok s \<Longrightarrow> ok (fold put rs s)"
  by (induction rs arbitrary: s) (simp_all add: ok_put)

lemma newest_visible: "ok s \<Longrightarrow> recent (put r s) \<noteq> [] \<and> last (recent (put r s)) = r"
  using capacity_pos by (auto simp: recent_put last_n_def)

lemma recent_bounded: "ok s \<Longrightarrow> length (recent (put r s)) \<le> capacity"
  by (simp add: recent_put last_n_def)

end

record memory_sink =
  ms_maxlen :: nat
  ms_results :: "delivery_result list"

definition memory_record :: "delivery_result \<Rightarrow> memory_sink \<Rightarrow> memory_sink" where
  "memory_record r m = m\<lparr>ms_results := last_n (ms_maxlen m) (ms_results m @ [r])\<rparr>"

definition memory_clear :: "memory_sink \<Rightarrow> memory_sink" where
  "memory_clear m = m\<lparr>ms_results := []\<rparr>"

section \<open>The audit log\<close>

record audit_row =
  a_id :: string
  a_org :: int
  a_event_id :: string
  a_scan_id :: "string option"
  a_key :: string
  a_channel :: string
  a_status :: string
  a_status_code :: "int option"
  a_attempts :: nat
  a_duration :: int
  a_error :: "string option"
  a_created_at :: int

text \<open>What \<open>create\<close> reads of a result or of a creation request; absent fields are \<open>None\<close>.\<close>

record audit_request =
  q_id :: "string option"
  q_org :: int
  q_event_id :: string
  q_scan_id :: "string option"
  q_key :: string
  q_channel :: string
  q_status :: string
  q_status_code :: "int option"
  q_attempts :: nat
  q_duration :: int
  q_error :: "string option"
  q_created_at :: "int option"

definition request_of_result :: "delivery_result \<Rightarrow> audit_request" where
  "request_of_result r =
     \<lparr>q_id = None, q_org = r_org r, q_event_id = r_event_id r, q_scan_id = r_scan_id r, q_key = r_key r,
      q_channel = r_channel r, q_status = delivery_status_value (r_status r), q_status_code = r_status_code r,
      q_attempts = r_attempts r, q_duration = r_duration r, q_error = r_error r, q_created_at = None\<rparr>"

definition audit_row_of :: "string \<Rightarrow> int \<Rightarrow> audit_request \<Rightarrow> audit_row" where
  "audit_row_of uuid now q =
     \<lparr>a_id = (case q_id q of Some i \<Rightarrow> if i = [] then ''deliv_'' @ uuid else i | None \<Rightarrow> ''deliv_'' @ uuid),
      a_org = q_org q, a_event_id = q_event_id q, a_scan_id = q_scan_id q, a_key = q_key q, a_channel = q_channel q,
      a_status = q_status q, a_status_code = q_status_code q, a_attempts = q_attempts q, a_duration = q_duration q,
      a_error = bound_error (q_error q),
      a_created_at = (case q_created_at q of Some t \<Rightarrow> t | None \<Rightarrow> now)\<rparr>"

text \<open>Appending a row: the primary key is unique; \<open>None\<close> is the constraint error.\<close>

definition audit_create :: "string \<Rightarrow> int \<Rightarrow> audit_request \<Rightarrow> audit_row list \<Rightarrow> (audit_row \<times> audit_row list) option" where
  "audit_create uuid now q rows =
     (let row = audit_row_of uuid now q
      in if list_ex (\<lambda>r. a_id r = a_id row) rows then None else Some (row, rows @ [row]))"

definition audit_get_by_id :: "audit_row list \<Rightarrow> string \<Rightarrow> int \<Rightarrow> audit_row option" where
  "audit_get_by_id rows i org = find (\<lambda>r. a_id r = i \<and> a_org r = org) rows"

definition audit_matches :: "audit_row list \<Rightarrow> int \<Rightarrow> string option \<Rightarrow> audit_row list" where
  "audit_matches rows org status =
     filter (\<lambda>r. a_org r = org \<and> (case status of Some s \<Rightarrow> s \<noteq> [] \<longrightarrow> a_status r = s | None \<Rightarrow> True)) rows"

text \<open>\<open>ORDER BY created_at DESC, id DESC\<close>\<close>

definition audit_newest_first :: "audit_row list \<Rightarrow> audit_row list" where
  "audit_newest_first rows = rev (sort_key (\<lambda>r. (a_created_at r, a_id r)) rows)"

definition audit_list :: "audit_row list \<Rightarrow> int \<Rightarrow> string option \<Rightarrow> int \<Rightarrow> int \<Rightarrow> audit_row list \<times> nat" where
  "audit_list rows org status limit offset =
     (let clamped_limit = max 1 (min 100 limit); clamped_offset = max 0 offset; q = audit_matches rows org status
      in (take (nat clamped_limit) (drop (nat clamped_offset) (audit_newest_first q)), length q))"

record delivery_stats =
  ds_org :: int
  ds_total :: nat
  ds_success :: nat
  ds_failure :: nat
  ds_average :: rat

definition average :: "int list \<Rightarrow> rat" where
  "average xs = (if xs = [] then 0 else of_int (sum_list xs) / of_nat (length xs))"

definition audit_get_stats :: "audit_row list \<Rightarrow> int \<Rightarrow> int option \<Rightarrow> delivery_stats" where
  "audit_get_stats rows org since =
     (let q = filter (\<lambda>r. a_org r = org \<and> (case since of Some t \<Rightarrow> t \<le> a_created_at r | None \<Rightarrow> True)) rows;
          total = length q;
          good = length (filter (\<lambda>r. a_status r = ''SUCCESS'') q)
      in \<lparr>ds_org = org, ds_total = total, ds_success = good, ds_failure = total - good,
          ds_average = average (map a_duration (filter (\<lambda>r. a_org r = org) rows))\<rparr>)"

section \<open>The durable sink\<close>

text \<open>
  Memory first, then the database in a session of its own. \<open>fails\<close> tells whether the
  database fails for a result (no connection, a failing commit); the log is then unchanged.
\<close>

record durable_sink =
  du_memory :: memory_sink
  du_has_session :: bool
  du_log :: "audit_row list"
  du_uuids :: "string list"
  du_now :: int
  du_fails :: "delivery_result \<Rightarrow> bool"

definition durable_record :: "delivery_result \<Rightarrow> durable_sink \<Rightarrow> durable_sink" where
  "durable_record r d =
     (let d1 = d\<lparr>du_memory := memory_record r (du_memory d)\<rparr>
      in if \<not> du_has_session d \<or> du_fails d r then d1
         else case audit_create (case du_uuids d of u # us \<Rightarrow> u | [] \<Rightarrow> []) (du_now d) (request_of_result r) (du_log d) of
           None \<Rightarrow> d1\<lparr>du_uuids := tl (du_uuids d)\<rparr>
         | Some (row, rows') \<Rightarrow> d1\<lparr>du_log := rows', du_uuids := tl (du_uuids d)\<rparr>)"

definition durable_recent :: "durable_sink \<Rightarrow> delivery_result list" where
  "durable_recent d = ms_results (du_memory d)"

definition durable_clear :: "durable_sink \<Rightarrow> durable_sink" where
  "durable_clear d = d\<lparr>du_memory := memory_clear (du_memory d)\<rparr>"

definition memory_ok :: "memory_sink \<Rightarrow> bool" where
  "memory_ok m \<longleftrightarrow> ms_maxlen m = 1000"

definition durable_ok :: "durable_sink \<Rightarrow> bool" where
  "durable_ok d \<longleftrightarrow> memory_ok (du_memory d)"

interpretation memory: delivery_sink memory_record ms_results memory_ok 1000
  by unfold_locales (simp_all add: memory_record_def memory_ok_def)

lemma durable_memory: "du_memory (durable_record r d) = memory_record r (du_memory d)"
  by (simp add: durable_record_def Let_def split: option.split)

interpretation durable: delivery_sink durable_record durable_recent durable_ok 1000
  by unfold_locales (simp_all add: durable_ok_def durable_recent_def durable_memory memory.ok_put memory.recent_put)

section \<open>Properties\<close>

lemma durable_log_cases:
  "du_log (durable_record r d) = du_log d
   \<or> (\<exists>u. du_log (durable_record r d) = du_log d @ [audit_row_of u (du_now d) (request_of_result r)])"
  by (auto simp: durable_record_def audit_create_def Let_def split: option.split if_splits)

text \<open>
  A failing audit database never touches delivery: whatever it does, the durable sink
  shows the result unchanged as the newest of at most 1000, and the audit log only ever grows
  by the one row of this result, which belongs to its organization and has a bounded error.
\<close>

theorem durable_sink_isolated:
  assumes "durable_ok d"
  shows "last (durable_recent (durable_record r d)) = r \<and> length (durable_recent (durable_record r d)) \<le> 1000
    \<and> durable_ok (durable_record r d)
    \<and> (\<exists>new. du_log (durable_record r d) = du_log d @ new \<and> length new \<le> 1
          \<and> (\<forall>a \<in> set new. a_org a = r_org r \<and> a_key a = r_key r
                \<and> (\<forall>e. a_error a = Some e \<longrightarrow> length e \<le> 512)))"
proof -
  have row: "a_org a = r_org r \<and> a_key a = r_key r \<and> (\<forall>e. a_error a = Some e \<longrightarrow> length e \<le> 512)"
    if "a = audit_row_of u (du_now d) (request_of_result r)" for a u
    using that by (auto simp: audit_row_of_def request_of_result_def bound_error_def max_error_message_length_def)
  have "\<exists>new. du_log (durable_record r d) = du_log d @ new \<and> length new \<le> 1
          \<and> (\<forall>a \<in> set new. a_org a = r_org r \<and> a_key a = r_key r
                \<and> (\<forall>e. a_error a = Some e \<longrightarrow> length e \<le> 512))"
    using durable_log_cases [of r d]
  proof
    assume "\<exists>u. du_log (durable_record r d) = du_log d @ [audit_row_of u (du_now d) (request_of_result r)]"
    then obtain u where "du_log (durable_record r d) = du_log d @ [audit_row_of u (du_now d) (request_of_result r)]" ..
    with row [OF refl, of u] show ?thesis by (intro exI [of _ "[audit_row_of u (du_now d) (request_of_result r)]"]) simp
  qed simp
  with durable.newest_visible [OF assms] durable.recent_bounded [OF assms] durable.ok_put [OF assms] show ?thesis
    by blast
qed

lemma audit_newest_first_sorted:
  "sorted_wrt (\<lambda>r s. (a_created_at s, a_id s) \<le> (a_created_at r, a_id r)) (audit_newest_first rows)"
  using sorted_sort_key [of "\<lambda>r. (a_created_at r, a_id r)" rows]
  by (simp add: audit_newest_first_def sorted_wrt_rev sorted_map)

lemma set_audit_newest_first [simp]: "set (audit_newest_first rows) = set rows"
  by (simp add: audit_newest_first_def)

text \<open>
  A page of the audit log has between 0 and 100 rows however large the limit asked for,
  all of the organization asked for and newest first; walking the offsets in steps of the
  page size visits every matching row, in order and without repetition.
\<close>

theorem audit_pages:
  assumes "1 \<le> limit" "limit \<le> 100" "0 \<le> offset"
  shows "length (fst (audit_list log_rows org status l off)) \<le> 100
    \<and> (\<forall>r \<in> set (fst (audit_list log_rows org status l off)). a_org r = org \<and> r \<in> set log_rows)
    \<and> sorted_wrt (\<lambda>r s. (a_created_at s, a_id s) \<le> (a_created_at r, a_id r)) (fst (audit_list log_rows org status l off))
    \<and> fst (audit_list log_rows org status limit offset)
        @ drop (nat (offset + limit)) (audit_newest_first (audit_matches log_rows org status))
      = drop (nat offset) (audit_newest_first (audit_matches log_rows org status))"
proof -
  have "length (fst (audit_list log_rows org status l off)) \<le> 100"
    by (simp add: audit_list_def Let_def)
  moreover have "a_org r = org \<and> r \<in> set log_rows" if "r \<in> set (fst (audit_list log_rows org status l off))" for r
    using that by (auto simp: audit_list_def Let_def audit_matches_def dest!: in_set_takeD in_set_dropD)
  moreover have "sorted_wrt (\<lambda>r s. (a_created_at s, a_id s) \<le> (a_created_at r, a_id r)) (fst (audit_list log_rows org status l off))"
    using audit_newest_first_sorted by (auto simp: audit_list_def Let_def intro!: sorted_wrt_take sorted_wrt_drop)
  moreover have "fst (audit_list log_rows org status limit offset)
        @ drop (nat (offset + limit)) (audit_newest_first (audit_matches log_rows org status))
      = drop (nat offset) (audit_newest_first (audit_matches log_rows org status))"
  proof -
    have "nat (offset + limit) = nat limit + nat offset" using assms by simp
    then have "drop (nat (offset + limit)) xs = drop (nat limit) (drop (nat offset) xs)" for xs :: "audit_row list" by simp
    with assms show ?thesis by (simp add: audit_list_def Let_def max_def min_def del: drop_drop)
  qed
  ultimately show ?thesis by blast
qed

text \<open>
  The counts of the statistics are exact for the window asked for, but the average
  duration is not: it is the average over all rows of the organization, whatever the window.
\<close>

theorem stats_average_ignores_window:
  "ds_success (audit_get_stats rows org since) + ds_failure (audit_get_stats rows org since)
     = ds_total (audit_get_stats rows org since)
   \<and> ds_total (audit_get_stats rows org (Some t)) = length (filter (\<lambda>r. a_org r = org \<and> t \<le> a_created_at r) rows)
   \<and> ds_average (audit_get_stats rows org since) = ds_average (audit_get_stats rows org None)"
  by (simp add: audit_get_stats_def Let_def length_filter_le [THEN le_add_diff_inverse] del: filter_filter)

definition sample_result :: delivery_result where
  "sample_result =
     \<lparr>r_success = False, r_status = HTTP_SERVER_ERROR, r_status_code = Some 503, r_error = Some ''HTTP 503'', r_duration = 20,
      r_attempts = 2, r_key = ''k'', r_org = 7, r_event_id = ''evt_1'', r_scan_id = Some ''42'', r_channel = ''WEBHOOK'',
      r_target_ip = None\<rparr>"

definition sample_durable :: durable_sink where
  "sample_durable = \<lparr>du_memory = \<lparr>ms_maxlen = 1000, ms_results = []\<rparr>, du_has_session = True, du_log = [],
     du_uuids = [''u1''], du_now = 5, du_fails = (\<lambda>r. r_org r = 8)\<rparr>"

theorem durable_sink_isolated_witness:
  "last (durable_recent (durable_record sample_result sample_durable)) = sample_result"
  using durable_sink_isolated [of sample_durable sample_result] by (simp add: sample_durable_def durable_ok_def memory_ok_def)

theorem audit_pages_witness:
  "fst (audit_list [audit_row_of ''u'' 5 (request_of_result sample_result)] 7 None 10 0)
     @ drop 10 (audit_newest_first (audit_matches [audit_row_of ''u'' 5 (request_of_result sample_result)] 7 None))
   = audit_newest_first (audit_matches [audit_row_of ''u'' 5 (request_of_result sample_result)] 7 None)"
  using audit_pages [of 10 0] by simp

end
