(* ===== verification/Ssrf.thy ===== *)
theory Ssrf
  imports Prelude "HOL-Library.Word"
begin

text \<open>
  The SSRF guard (\<open>ssrf_guard.py\<close>): the address blocklists on 32-bit and 128-bit words, the
  deterministic choice of an address, and the nine-stage validation of a webhook URL, with
  the parts of \<open>urllib.parse.urlsplit\<close> it reads. The resolver, the text form of addresses
  (\<open>ipaddress\<close>), the IDNA codec and the check of bracketed hosts are the fields of \<open>net_env\<close>.
  The address properties of \<open>ipaddress\<close> are those of CPython 3.12.
\<close>

unbundle bit_operations_syntax

section \<open>Addresses and networks\<close>

datatype ip = IPv4 "32 word" | IPv6 "128 word"

text \<open>The sort key \<open>(0 if ip.version == 4 else 1, int(ip))\<close> as the order of addresses.\<close>

fun ip_key :: "ip \<Rightarrow> nat \<times> nat" where
  "ip_key (IPv4 a) = (0, unat a)"
| "ip_key (IPv6 a) = (1, unat a)"

lemma ip_key_inj: "ip_key a = ip_key b \<Longrightarrow> a = b"
  by (cases a; cases b) (auto simp: word_unat_eq_iff)

instantiation ip :: linorder
begin

definition less_eq_ip :: "ip \<Rightarrow> ip \<Rightarrow> bool" where
  "less_eq_ip a b = (ip_key a \<le> ip_key b)"

definition less_ip :: "ip \<Rightarrow> ip \<Rightarrow> bool" where
  "less_ip a b = (ip_key a < ip_key b)"

instance
  by standard (auto simp: less_eq_ip_def less_ip_def less_le_not_le intro: ip_key_inj order_trans)

end

text \<open>A network is a base and a prefix length; a member shares the prefix.\<close>

definition in_net :: "'a::len word \<Rightarrow> 'a word \<times> nat \<Rightarrow> bool" where
  "in_net a net = (drop_bit (LENGTH('a) - snd net) a = drop_bit (LENGTH('a) - snd net) (fst net))"

definition v4 :: "nat \<Rightarrow> nat \<Rightarrow> nat \<Rightarrow> nat \<Rightarrow> 32 word" where
  "v4 a b c d = of_nat (((a * 256 + b) * 256 + c) * 256 + d)"

definition ipv4_blocked_networks :: "(32 word \<times> nat) list" where
  "ipv4_blocked_networks =
     [(v4 127 0 0 0, 8), (v4 10 0 0 0, 8), (v4 172 16 0 0, 12), (v4 192 168 0 0, 16), (v4 169 254 0 0, 16),
      (v4 0 0 0 0, 8), (v4 100 64 0 0, 10), (v4 192 0 0 0, 24), (v4 192 0 2 0, 24), (v4 198 51 100 0, 24),
      (v4 203 0 113 0, 24), (v4 198 18 0 0, 15), (v4 224 0 0 0, 4), (v4 240 0 0 0, 4), (v4 255 255 255 255, 32)]"

text \<open>The 128-bit address with the leading 32 bits \<open>w\<close>.\<close>

definition v6_top :: "128 word \<Rightarrow> 128 word" where
  "v6_top w = push_bit 96 w"

definition ipv6_blocked_networks :: "(128 word \<times> nat) list" where
  "ipv6_blocked_networks =
     [(1, 128), (0, 128), (v6_top 0xFC000000, 7), (v6_top 0xFE800000, 10), (v6_top 0xFF000000, 8),
      (0xFFFF00000000, 96), (0, 96), (v6_top 0x20010DB8, 32), (v6_top 0x01000000, 64)]"

definition ipv4_mapped :: "128 word \<Rightarrow> 32 word option" where
  "ipv4_mapped a = (if drop_bit 32 a = 0xFFFF then Some (ucast a) else None)"

text \<open>\<open>is_private\<close>, \<open>is_loopback\<close>, \<open>is_link_local\<close>, \<open>is_multicast\<close>, \<open>is_reserved\<close>, \<open>is_unspecified\<close>.\<close>

definition v4_private_networks :: "(32 word \<times> nat) list" where
  "v4_private_networks =
     [(v4 0 0 0 0, 8), (v4 10 0 0 0, 8), (v4 127 0 0 0, 8), (v4 169 254 0 0, 16), (v4 172 16 0 0, 12),
      (v4 192 0 0 0, 24), (v4 192 0 0 170, 31), (v4 192 0 2 0, 24), (v4 192 168 0 0, 16), (v4 198 18 0 0, 15),
      (v4 198 51 100 0, 24), (v4 203 0 113 0, 24), (v4 240 0 0 0, 4), (v4 255 255 255 255, 32)]"

definition v4_private_exceptions :: "(32 word \<times> nat) list" where
  "v4_private_exceptions = [(v4 192 0 0 9, 32), (v4 192 0 0 10, 32)]"

definition v4_is_private :: "32 word \<Rightarrow> bool" where
  "v4_is_private a = (list_ex (in_net a) v4_private_networks \<and> \<not> list_ex (in_net a) v4_private_exceptions)"

definition v4_special :: "32 word \<Rightarrow> bool" where
  "v4_special a =
     (in_net a (v4 127 0 0 0, 8) \<or> v4_is_private a \<or> in_net a (v4 169 254 0 0, 16) \<or> in_net a (v4 224 0 0 0, 4)
      \<or> in_net a (v4 240 0 0 0, 4) \<or> a = 0)"

definition v6_private_networks :: "(128 word \<times> nat) list" where
  "v6_private_networks =
     [(1, 128), (0, 128), (0xFFFF00000000, 96), (push_bit 80 0x0064FF9B0001, 48), (v6_top 0x01000000, 64),
      (v6_top 0x20010000, 23), (v6_top 0x20010DB8, 32), (v6_top 0x20020000, 16), (v6_top 0xFC000000, 7),
      (v6_top 0xFE800000, 10)]"

definition v6_private_exceptions :: "(128 word \<times> nat) list" where
  "v6_private_exceptions =
     [(v6_top 0x20010001 OR 1, 128), (v6_top 0x20010001 OR 2, 128), (v6_top 0x20010003, 32),
      (push_bit 80 0x200100040112, 48), (v6_top 0x20010020, 28), (v6_top 0x20010030, 28)]"

definition v6_is_private :: "128 word \<Rightarrow> bool" where
  "v6_is_private a =
     (case ipv4_mapped a of
        Some w \<Rightarrow> v4_is_private w
      | None \<Rightarrow> list_ex (in_net a) v6_private_networks \<and> \<not> list_ex (in_net a) v6_private_exceptions)"

definition v6_special :: "128 word \<Rightarrow> bool" where
  "v6_special a =
     (a = 1 \<or> v6_is_private a \<or> in_net a (v6_top 0xFE800000, 10) \<or> in_net a (v6_top 0xFF000000, 8) \<or> a = 0)"

fun is_ip_blocked :: "ip \<Rightarrow> bool" where
  "is_ip_blocked (IPv6 a) =
     ((case ipv4_mapped a of
         Some w \<Rightarrow> list_ex (in_net w) ipv4_blocked_networks
                  \<or> in_net w (v4 127 0 0 0, 8) \<or> v4_is_private w \<or> in_net w (v4 169 254 0 0, 16)
       | None \<Rightarrow> False)
      \<or> list_ex (in_net a) ipv6_blocked_networks \<or> v6_special a)"
| "is_ip_blocked (IPv4 a) = (list_ex (in_net a) ipv4_blocked_networks \<or> v4_special a)"

definition select_deterministic_ip :: "(ip \<Rightarrow> string) \<Rightarrow> ip list \<Rightarrow> string option" where
  "select_deterministic_ip show ips = (case sort ips of [] \<Rightarrow> None | a # as \<Rightarrow> Some (show a))"

section \<open>Splitting a URL\<close>

record split_url =
  u_scheme :: string
  u_netloc :: string
  u_path :: string
  u_query :: string

text \<open>\<open>s.partition(c)\<close> as the text before the first \<open>c\<close> and the text after it, if there is one.\<close>

definition partition_at :: "char \<Rightarrow> string \<Rightarrow> string \<times> string option" where
  "partition_at c s =
     (if c \<in> set s then (fst (split_once c s), Some (snd (split_once c s))) else (s, None))"

definition scheme_char :: "char \<Rightarrow> bool" where
  "scheme_char c = (let n = code_of c in (48 \<le> n \<and> n \<le> 57) \<or> (65 \<le> n \<and> n \<le> 90) \<or> (97 \<le> n \<and> n \<le> 122)
     \<or> c = CHR ''+'' \<or> c = CHR ''-'' \<or> c = CHR ''.'')"

definition is_alpha :: "char \<Rightarrow> bool" where
  "is_alpha c = (let n = code_of c in (65 \<le> n \<and> n \<le> 90) \<or> (97 \<le> n \<and> n \<le> 122))"

definition split_scheme :: "string \<Rightarrow> string \<times> string" where
  "split_scheme url =
     (case partition_at CHR '':'' url of
        (pre, Some post) \<Rightarrow>
          if pre \<noteq> [] \<and> is_alpha (hd pre) \<and> list_all scheme_char pre then (py_lower pre, post) else ([], url)
      | (pre, None) \<Rightarrow> ([], url))"

definition netloc_end :: "char \<Rightarrow> bool" where
  "netloc_end c = (c = CHR ''/'' \<or> c = CHR ''?'' \<or> c = CHR ''#'')"

definition split_netloc :: "string \<Rightarrow> string \<times> string" where
  "split_netloc rest =
     (if py_startswith rest ''//''
      then (takeWhile (\<lambda>c. \<not> netloc_end c) (drop 2 rest), dropWhile (\<lambda>c. \<not> netloc_end c) (drop 2 rest))
      else ([], rest))"

datatype ssrf_error = SsrfBlocked string | DnsFailed string | OtherError string

definition urlsplit :: "(string \<Rightarrow> bool) \<Rightarrow> string \<Rightarrow> ssrf_error + split_url" where
  "urlsplit bracket_ok url =
     (let u = filter (\<lambda>c. code_of c \<noteq> 9 \<and> code_of c \<noteq> 10 \<and> code_of c \<noteq> 13) (dropWhile (\<lambda>c. code_of c \<le> 32) url);
          (scheme, rest) = split_scheme u;
          (netloc, tail) = split_netloc rest;
          nofrag = fst (partition_at CHR ''#'' tail);
          (path, query) = partition_at CHR ''?'' nofrag
      in if (CHR ''['' \<in> set netloc) \<noteq> (CHR '']'' \<in> set netloc) then Inl (OtherError ''Invalid IPv6 URL'')
         else if CHR ''['' \<in> set netloc \<and> \<not> bracket_ok netloc then Inl (OtherError ''Invalid IPv6 URL'')
         else Inr \<lparr>u_scheme = scheme, u_netloc = netloc, u_path = path,
                   u_query = (case query of Some q \<Rightarrow> q | None \<Rightarrow> [])\<rparr>)"

text \<open>\<open>hostname\<close> and \<open>port\<close>; the second raises for a port that is not a number up to 65535.\<close>

definition host_info :: "string \<Rightarrow> string \<times> string option" where
  "host_info netloc =
     (let hostinfo = (if CHR ''@'' \<in> set netloc then snd (rsplit_once CHR ''@'' netloc) else netloc);
          (host, port) =
            (case partition_at CHR ''['' hostinfo of
               (_, Some bracketed) \<Rightarrow>
                 (let (h, after) = partition_at CHR '']'' bracketed
                  in (h, case after of Some a \<Rightarrow> snd (partition_at CHR '':'' a) | None \<Rightarrow> None))
             | (_, None) \<Rightarrow> partition_at CHR '':'' hostinfo)
      in (host, case port of Some p \<Rightarrow> if p = [] then None else Some p | None \<Rightarrow> None))"

definition url_hostname :: "split_url \<Rightarrow> string option" where
  "url_hostname u =
     (let h = fst (host_info (u_netloc u))
      in if h = [] then None
         else (case partition_at CHR ''%'' h of
                 (a, Some zone) \<Rightarrow> Some (py_lower a @ ''%'' @ zone) | (a, None) \<Rightarrow> Some (py_lower a)))"

definition url_port :: "split_url \<Rightarrow> ssrf_error + int option" where
  "url_port u =
     (case snd (host_info (u_netloc u)) of
        None \<Rightarrow> Inr None
      | Some p \<Rightarrow> if py_isdigit p \<and> digits_val p \<le> 65535 then Inr (Some (int (digits_val p)))
                  else Inl (OtherError ''port''))"

section \<open>Validation\<close>

record net_env =
  ne_resolve :: "string \<Rightarrow> int \<Rightarrow> string list option"  \<comment> \<open>\<open>None\<close>: the resolver raised\<close>
  ne_parse :: "string \<Rightarrow> ip option"
  ne_show :: "ip \<Rightarrow> string"
  ne_idna :: "string \<Rightarrow> bool"
  ne_bracket :: "string \<Rightarrow> bool"

record ssrf_result =
  sr_target :: string
  sr_hostname :: string
  sr_port :: int
  sr_endpoint :: string
  sr_all :: "string list"

definition drop_trailing_dot :: "string \<Rightarrow> string" where
  "drop_trailing_dot h = (if py_endswith h ''.'' then butlast h else h)"

text \<open>The inspection of every distinct resolved address, in order; the first failure ends it.\<close>

fun inspect_all :: "net_env \<Rightarrow> string list \<Rightarrow> string set \<Rightarrow> ip list \<Rightarrow> ssrf_error + ip list" where
  "inspect_all env [] seen ips = Inr ips"
| "inspect_all env (t # ts) seen ips =
     (if t \<in> seen then inspect_all env ts seen ips
      else case ne_parse env t of
        None \<Rightarrow> Inl (SsrfBlocked ''unparseable address'')
      | Some a \<Rightarrow> if is_ip_blocked a then Inl (SsrfBlocked ''forbidden address'')
                  else inspect_all env ts (insert t seen) (ips @ [a]))"

definition check_host :: "net_env \<Rightarrow> string option \<Rightarrow> ssrf_error + string" where
  "check_host env raw =
     (case raw of
        None \<Rightarrow> Inl (SsrfBlocked ''Missing hostname'')
      | Some r \<Rightarrow>
          (let h = drop_trailing_dot (py_lower r)
           in if list_ex (\<lambda>c. is_space c \<or> code_of c < 32) r then Inl (SsrfBlocked ''Hostname contains whitespace'')
              else if h = [] then Inl (SsrfBlocked ''empty hostname'')
              else if \<not> ne_idna env h then Inl (SsrfBlocked ''Invalid IDNA hostname'')
              else Inr h))"

definition resolve_host :: "net_env \<Rightarrow> string \<Rightarrow> int \<Rightarrow> ssrf_error + string list" where
  "resolve_host env host port =
     (case ne_parse env host of
        Some a \<Rightarrow> Inr [ne_show env a]
      | None \<Rightarrow> (case ne_resolve env host port of
            None \<Rightarrow> Inl (DnsFailed ''resolution failed'')
          | Some ts \<Rightarrow> if ts = [] then Inl (DnsFailed ''zero records'') else Inr ts))"

definition check_port :: "int option \<Rightarrow> ssrf_error + int" where
  "check_port p =
     (case p of None \<Rightarrow> Inr 443
      | Some n \<Rightarrow> if 1 \<le> n \<and> n \<le> 65535 then Inr n else Inl (SsrfBlocked ''Invalid port number''))"

definition validate_url :: "net_env \<Rightarrow> string \<Rightarrow> ssrf_error + ssrf_result" where
  "validate_url env url =
     (if url = [] then Inl (SsrfBlocked ''empty URL'')
      else res_bind (case urlsplit (ne_bracket env) (py_strip url) of
                       Inl e \<Rightarrow> Inl (SsrfBlocked ''Malformed URL'') | Inr u \<Rightarrow> Inr u) (\<lambda>u.
           res_bind (ensure (py_lower (u_scheme u) = ''https'') (SsrfBlocked ''Invalid URL scheme'')) (\<lambda>_.
           res_bind (ensure (CHR ''@'' \<notin> set (u_netloc u)) (SsrfBlocked ''Embedded user credentials'')) (\<lambda>_.
           res_bind (url_port u) (\<lambda>p.
           res_bind (check_port p) (\<lambda>port.
           res_bind (check_host env (url_hostname u)) (\<lambda>host.
           res_bind (resolve_host env host port) (\<lambda>ts.
           res_bind (inspect_all env ts {} []) (\<lambda>ips.
             case select_deterministic_ip (ne_show env) ips of
               None \<Rightarrow> Inl (DnsFailed ''No valid IP addresses'')
             | Some target \<Rightarrow>
                 Inr \<lparr>sr_target = target, sr_hostname = host, sr_port = port,
                      sr_endpoint = ''https://'' @ host @ (if port = 443 then [] else '':'' @ int_str port) @ u_path u
                        @ (if u_query u = [] then [] else ''?'' @ u_query u),
                      sr_all = map (ne_show env) ips\<rparr>)))))))))"

section \<open>Networks inside networks\<close>

lemma in_net_sub:
  fixes a b c :: "'a::len word"
  assumes "in_net a (b, n)" "in_net b (c, m)" "m \<le> n" "n \<le> LENGTH('a)"
  shows "in_net a (c, m)"
proof -
  have "drop_bit (LENGTH('a) - m) w = drop_bit (n - m) (drop_bit (LENGTH('a) - n) w)" for w :: "'a word"
    using assms(3,4) by (simp add: drop_bit_drop_bit)
  then have "drop_bit (LENGTH('a) - m) a = drop_bit (LENGTH('a) - m) b"
    using assms(1) by (metis fst_conv in_net_def snd_conv)
  with assms(2) show ?thesis by (simp add: in_net_def)
qed

definition covers :: "('a::len word \<times> nat) list \<Rightarrow> 'a word \<times> nat \<Rightarrow> bool" where
  "covers nets p = list_ex (\<lambda>q. snd q \<le> snd p \<and> snd p \<le> LENGTH('a) \<and> in_net (fst p) q) nets"

lemma covers_member: "covers nets p \<Longrightarrow> in_net a p \<Longrightarrow> list_ex (in_net a) nets"
  using in_net_sub by (cases p) (fastforce simp: covers_def list_ex_iff)

lemma v4_private_covered: "list_all (covers ipv4_blocked_networks) v4_private_networks"
  by (simp add: covers_def ipv4_blocked_networks_def v4_private_networks_def in_net_def v4_def)

lemma v4_other_covered:
  "covers ipv4_blocked_networks (v4 127 0 0 0, 8)" "covers ipv4_blocked_networks (v4 169 254 0 0, 16)"
  "covers ipv4_blocked_networks (v4 224 0 0 0, 4)" "covers ipv4_blocked_networks (v4 240 0 0 0, 4)"
  "covers ipv4_blocked_networks (0, 32)"
  by (simp_all add: covers_def ipv4_blocked_networks_def in_net_def v4_def)

lemma v4_special_covered: "v4_special a \<Longrightarrow> list_ex (in_net a) ipv4_blocked_networks"
proof -
  have zero: "in_net a (0, 32)" if "a = 0" using that by (simp add: in_net_def)
  have "list_ex (in_net a) ipv4_blocked_networks" if "v4_is_private a"
    using that v4_private_covered covers_member by (fastforce simp: v4_is_private_def list_ex_iff [of _ v4_private_networks] list_all_iff)
  moreover assume "v4_special a"
  ultimately show ?thesis
    using zero v4_other_covered [THEN covers_member, of a] by (auto simp: v4_special_def)
qed

text \<open>
  An IPv4 address is refused exactly when it lies in one of the listed networks: the
  further tests of its properties add nothing to the list. An IPv6 address that maps an IPv4
  address is always refused.
\<close>

theorem ipv4_blocked_iff:
  "(is_ip_blocked (IPv4 a) \<longleftrightarrow> (\<exists>net \<in> set ipv4_blocked_networks. in_net a net))
   \<and> is_ip_blocked (IPv6 (push_bit 32 0xFFFF OR ucast a))"
proof
  show "is_ip_blocked (IPv4 a) \<longleftrightarrow> (\<exists>net \<in> set ipv4_blocked_networks. in_net a net)"
    using v4_special_covered [of a] by (auto simp: list_ex_iff)
  have low: "drop_bit 32 (ucast a :: 128 word) = 0"
    by (rule bit_word_eqI) (auto simp: bit_simps dest: bit_imp_le_length)
  have "drop_bit 32 (push_bit 32 0xFFFF OR ucast a :: 128 word) = drop_bit 32 (push_bit 32 0xFFFF)"
    by (simp only: drop_bit_or low or.right_neutral)
  then have "in_net (push_bit 32 0xFFFF OR ucast a :: 128 word) (0xFFFF00000000, 96)"
    by (simp add: in_net_def)
  then show "is_ip_blocked (IPv6 (push_bit 32 0xFFFF OR ucast a))"
    by (simp add: ipv6_blocked_networks_def)
qed

text \<open>
  The IPv6 list does not cover the NAT64 prefix 64:ff9b::/96: the translation of every
  IPv4 address, loopback and cloud metadata included, passes the check.
\<close>

theorem nat64_not_blocked: "\<not> is_ip_blocked (IPv6 (v6_top 0x0064FF9B OR ucast (w :: 32 word)))"
proof -
  let ?a = "v6_top 0x0064FF9B OR ucast w :: 128 word"
  have low: "drop_bit k (ucast w :: 128 word) = 0" if "32 \<le> k" for k
    using that by (intro bit_word_eqI) (auto simp: bit_simps dest: bit_imp_le_length)
  have top: "drop_bit k ?a = drop_bit k (v6_top 0x0064FF9B)" if "32 \<le> k" for k
    using low [OF that] by (simp only: drop_bit_or or.right_neutral)
  have "drop_bit 96 ?a = drop_bit 96 (v6_top 0x0064FF9B)" by (rule top) simp
  then have differs: "?a \<noteq> b" if "drop_bit 96 b \<noteq> drop_bit 96 (v6_top 0x0064FF9B)" for b
    using that by (metis (no_types))
  have small: "?a \<noteq> 1" "?a \<noteq> 0"
    by (rule differs, simp add: v6_top_def)+
  have nets: "in_net ?a (b, n) \<longleftrightarrow> in_net (v6_top 0x0064FF9B) (b, n)" if "n \<le> 96" for b n
    using top [of "128 - n"] that by (simp add: in_net_def)
  have single: "in_net ?a (b, 128) \<longleftrightarrow> ?a = b" for b
    by (simp add: in_net_def)
  have no: "\<not> in_net (v6_top 0x0064FF9B) (b, n)" if "(b, n) \<in> set [(v6_top 0xFC000000, 7), (v6_top 0xFE800000, 10),
      (v6_top 0xFF000000, 8), (0xFFFF00000000, 96), (0, 96), (v6_top 0x20010DB8, 32), (v6_top 0x01000000, 64),
      (push_bit 80 0x0064FF9B0001, 48), (v6_top 0x20010000, 23), (v6_top 0x20020000, 16)]" for b n
  proof -
    have "list_all (\<lambda>net. \<not> in_net (v6_top 0x0064FF9B) net) [(v6_top 0xFC000000, 7), (v6_top 0xFE800000, 10),
      (v6_top 0xFF000000, 8), (0xFFFF00000000, 96), (0, 96), (v6_top 0x20010DB8, 32), (v6_top 0x01000000, 64),
      (push_bit 80 0x0064FF9B0001, 48), (v6_top 0x20010000, 23), (v6_top 0x20020000, 16)]" by code_simp
    with that show ?thesis unfolding list_all_iff by blast
  qed
  have "ipv4_mapped ?a = None"
    using top [of 32] by (simp add: ipv4_mapped_def v6_top_def)
  then show ?thesis
    using no small by (simp add: ipv6_blocked_networks_def v6_special_def v6_is_private_def v6_private_networks_def nets single)
qed

section \<open>Validated URLs\<close>

lemma inspect_all_Inr:
  "inspect_all env ts seen ips = Inr out \<Longrightarrow>
   (\<forall>t \<in> set ts - seen. \<exists>a \<in> set out. ne_parse env t = Some a) \<and> set ips \<subseteq> set out
   \<and> (\<forall>a \<in> set out - set ips. \<not> is_ip_blocked a)"
  by (induction env ts seen ips rule: inspect_all.induct) (fastforce split: if_splits option.splits)+

lemma inspect_all_from:
  "inspect_all env ts seen ips = Inr out \<Longrightarrow> a \<in> set out \<Longrightarrow> a \<in> set ips \<or> (\<exists>t \<in> set ts. ne_parse env t = Some a)"
  by (induction env ts seen ips rule: inspect_all.induct)
    (auto split: if_splits option.splits simp del: is_ip_blocked.simps)

lemma select_Min: "select_deterministic_ip show ips = (if ips = [] then None else Some (show (Min (set ips))))"
proof (cases "sort ips")
  case Nil
  then have "ips = []" by (metis set_empty set_sort)
  then show ?thesis by (simp add: select_deterministic_ip_def)
next
  case (Cons a as)
  then have "set ips = set (a # as)" "sorted (a # as)" by (metis set_sort, metis sorted_sort)
  then have "Min (set ips) = a" by (auto intro!: Min_eqI)
  moreover have "ips \<noteq> []" using Cons by auto
  ultimately show ?thesis using Cons by (simp add: select_deterministic_ip_def)
qed

text \<open>
  The pinned address depends only on the set of addresses a host resolves to, not on the
  order or the repetitions of the answer.
\<close>

theorem selection_order_irrelevant:
  "set ips = set ips' \<Longrightarrow> select_deterministic_ip show ips = select_deterministic_ip show ips'"
  by (cases "ips = []"; cases "ips' = []") (auto simp: select_Min)

text \<open>
  C15: a URL that passes has the scheme https and no user information. The host of the result is the host of
  the URL in lower case without a trailing dot, not empty and free of blanks and control
  characters, and the port is the one of the URL, 443 without one, from 1 to 65535. The addresses
  inspected are those the resolver gives for that host and port, or the host itself when it is
  an address: every one of them, and no other one. None of them is forbidden, the
  pinned address is the least of them, and the endpoint is made of that host, port, path and query.
\<close>

theorem validated_url_safe:
  assumes "validate_url env url = Inr r"
  shows "\<exists>u raw p ts ips. urlsplit (ne_bracket env) (py_strip url) = Inr u \<and> py_lower (u_scheme u) = ''https''
     \<and> CHR ''@'' \<notin> set (u_netloc u)
     \<and> url_hostname u = Some raw \<and> sr_hostname r = drop_trailing_dot (py_lower raw) \<and> sr_hostname r \<noteq> []
     \<and> \<not> list_ex (\<lambda>c. is_space c \<or> code_of c < 32) raw
     \<and> url_port u = Inr p \<and> sr_port r = (case p of None \<Rightarrow> 443 | Some n \<Rightarrow> n) \<and> 1 \<le> sr_port r \<and> sr_port r \<le> 65535
     \<and> (case ne_parse env (sr_hostname r) of
           Some a \<Rightarrow> ts = [ne_show env a]
         | None \<Rightarrow> ne_resolve env (sr_hostname r) (sr_port r) = Some ts)
     \<and> ts \<noteq> [] \<and> ne_parse env ` set ts = Some ` set ips \<and> (\<forall>a \<in> set ips. \<not> is_ip_blocked a)
     \<and> sr_target r = ne_show env (Min (set ips)) \<and> sr_all r = map (ne_show env) ips
     \<and> sr_endpoint r = ''https://'' @ sr_hostname r @ (if sr_port r = 443 then [] else '':'' @ int_str (sr_port r))
          @ u_path u @ (if u_query u = [] then [] else ''?'' @ u_query u)"
proof -
  obtain u p port host ts ips where u: "urlsplit (ne_bracket env) (py_strip url) = Inr u"
      "py_lower (u_scheme u) = ''https''" "CHR ''@'' \<notin> set (u_netloc u)"
    and v: "url_port u = Inr p" "check_port p = Inr port" "check_host env (url_hostname u) = Inr host"
      "resolve_host env host port = Inr ts" "inspect_all env ts {} [] = Inr ips"
    and r: "(case select_deterministic_ip (ne_show env) ips of
               None \<Rightarrow> Inl (DnsFailed ''No valid IP addresses'')
             | Some target \<Rightarrow>
                 Inr \<lparr>sr_target = target, sr_hostname = host, sr_port = port,
                      sr_endpoint = ''https://'' @ host @ (if port = 443 then [] else '':'' @ int_str port) @ u_path u
                        @ (if u_query u = [] then [] else ''?'' @ u_query u),
                      sr_all = map (ne_show env) ips\<rparr>) = Inr r"
    using assms by (auto simp: validate_url_def res_bind_Inr_iff split: if_splits sum.splits)
  have "port = (case p of None \<Rightarrow> 443 | Some n \<Rightarrow> n) \<and> 1 \<le> port \<and> port \<le> 65535"
    using v(2) by (auto simp: check_port_def split: option.splits if_splits)
  moreover obtain raw where "url_hostname u = Some raw" "host = drop_trailing_dot (py_lower raw)" "host \<noteq> []"
      "\<not> list_ex (\<lambda>c. is_space c \<or> code_of c < 32) raw"
    using v(3) by (auto simp: check_host_def Let_def split: option.splits if_splits)
  moreover have "(case ne_parse env host of Some a \<Rightarrow> ts = [ne_show env a] | None \<Rightarrow> ne_resolve env host port = Some ts) \<and> ts \<noteq> []"
    using v(4) by (auto simp: resolve_host_def split: option.splits if_splits)
  moreover have "ne_parse env ` set ts = Some ` set ips \<and> (\<forall>a \<in> set ips. \<not> is_ip_blocked a)"
  proof
    show "ne_parse env ` set ts = Some ` set ips"
    proof (intro set_eqI iffI)
      fix x assume "x \<in> ne_parse env ` set ts"
      then show "x \<in> Some ` set ips" using inspect_all_Inr [OF v(5)] by auto
    next
      fix x assume "x \<in> Some ` set ips"
      then show "x \<in> ne_parse env ` set ts" using inspect_all_from [OF v(5)] by (fastforce intro: rev_image_eqI [OF _ sym])
    qed
    show "\<forall>a \<in> set ips. \<not> is_ip_blocked a" using inspect_all_Inr [OF v(5)] by simp
  qed
  moreover have "sr_target r = ne_show env (Min (set ips)) \<and> sr_hostname r = host \<and> sr_port r = port
      \<and> sr_all r = map (ne_show env) ips
      \<and> sr_endpoint r = ''https://'' @ host @ (if port = 443 then [] else '':'' @ int_str port) @ u_path u
                        @ (if u_query u = [] then [] else ''?'' @ u_query u)"
    using r by (auto simp: select_Min split: if_splits)
  ultimately show ?thesis
    using u v(1)
    by (intro exI [of _ u] exI [of _ raw] exI [of _ p] exI [of _ ts] exI [of _ ips] conjI)
      (simp_all del: is_ip_blocked.simps split: option.splits)
qed

definition sample_env :: net_env where
  "sample_env =
     \<lparr>ne_resolve = (\<lambda>h p. if h = ''hooks.dev'' then Some [''a'', ''b'', ''a''] else None),
      ne_parse = (\<lambda>t. if t = ''a'' then Some (IPv4 (v4 93 184 216 34)) else if t = ''b'' then Some (IPv4 (v4 8 8 8 8)) else None),
      ne_show = (\<lambda>a. if a = IPv4 (v4 8 8 8 8) then ''b'' else ''a''), ne_idna = (\<lambda>h. True), ne_bracket = (\<lambda>h. False)\<rparr>"

lemma sample_public: "\<not> is_ip_blocked (IPv4 (v4 93 184 216 34))" "\<not> is_ip_blocked (IPv4 (v4 8 8 8 8))"
  using ipv4_blocked_iff [of "v4 93 184 216 34"] ipv4_blocked_iff [of "v4 8 8 8 8"]
  by (simp_all add: ipv4_blocked_networks_def in_net_def v4_def)

definition sample_url :: string where
  "sample_url = ''https://hooks.dev:84/x?k=1''"

definition sample_validated :: ssrf_result where
  "sample_validated = \<lparr>sr_target = ''b'', sr_hostname = ''hooks.dev'', sr_port = 84,
     sr_endpoint = ''https://hooks.dev:84/x?k=1'', sr_all = [''a'', ''b'']\<rparr>"

definition sample_parts :: split_url where
  "sample_parts = \<lparr>u_scheme = ''https'', u_netloc = ''hooks.dev:84'', u_path = ''/x'', u_query = ''k=1''\<rparr>"

lemma sample_strip: "py_strip ''https://hooks.dev:84/x?k=1'' = ''https://hooks.dev:84/x?k=1''"
  by (simp add: code_of_def is_space_def py_strip_def py_lstrip_def py_rstrip_def)

lemma sample_scheme: "split_scheme ''https://hooks.dev:84/x?k=1'' = (''https'', ''//hooks.dev:84/x?k=1'')"
  by (simp add: split_scheme_def partition_at_def split_once_def scheme_char_def is_alpha_def code_of_def
      py_lower_def lower_char_def)

lemma sample_netloc: "split_netloc ''//hooks.dev:84/x?k=1'' = (''hooks.dev:84'', ''/x?k=1'')"
  by (simp add: split_netloc_def netloc_end_def)

lemma sample_filter: "filter (\<lambda>c. code_of c \<noteq> 9 \<and> code_of c \<noteq> 10 \<and> code_of c \<noteq> 13)
    (dropWhile (\<lambda>c. code_of c \<le> 32) ''https://hooks.dev:84/x?k=1'') = ''https://hooks.dev:84/x?k=1''"
  by (simp add: code_of_def)

lemma sample_urlsplit: "urlsplit (\<lambda>h. False) (py_strip ''https://hooks.dev:84/x?k=1'') = Inr sample_parts"
  unfolding urlsplit_def sample_strip sample_filter sample_scheme Let_def prod.case sample_netloc
  by (simp add: partition_at_def split_once_def sample_parts_def)

lemma sample_port: "url_port sample_parts = Inr (Some 84)"
  by (simp add: url_port_def host_info_def sample_parts_def partition_at_def split_once_def py_isdigit_def is_digit_def
      code_of_def digits_val_def)

lemma sample_text: "int_str 84 = ''84''" "py_lower ''https'' = ''https''"
  by (simp_all add: int_str_def nat_str.simps digit_char_def char_of_def bit_simps py_lower_def lower_char_def code_of_def)

lemma sample_host: "check_host sample_env (url_hostname sample_parts) = Inr ''hooks.dev''"
  by (simp add: check_host_def url_hostname_def host_info_def sample_parts_def partition_at_def split_once_def
      py_lower_def lower_char_def code_of_def is_space_def drop_trailing_dot_def py_endswith_def sample_env_def)

lemma sample_bracket: "ne_bracket sample_env = (\<lambda>h. False)"
  by (simp add: sample_env_def)

lemmas sample_split = sample_urlsplit sample_port sample_text sample_host sample_bracket

lemma sample_order: "v4 93 184 216 34 \<noteq> v4 8 8 8 8" "v4 8 8 8 8 \<noteq> v4 93 184 216 34"
    "IPv4 (v4 8 8 8 8) \<le> IPv4 (v4 93 184 216 34)" "\<not> IPv4 (v4 93 184 216 34) \<le> IPv4 (v4 8 8 8 8)"
  by (simp_all add: less_eq_ip_def v4_def)

lemma sample_inspected:
  "resolve_host sample_env ''hooks.dev'' 84 = Inr [''a'', ''b'', ''a'']"
  "inspect_all sample_env [''a'', ''b'', ''a''] {} [] = Inr [IPv4 (v4 93 184 216 34), IPv4 (v4 8 8 8 8)]"
  "select_deterministic_ip (ne_show sample_env) [IPv4 (v4 93 184 216 34), IPv4 (v4 8 8 8 8)] = Some ''b''"
  by (simp_all add: resolve_host_def sample_env_def sample_public select_deterministic_ip_def sample_order
      del: is_ip_blocked.simps)

lemma sample_validation: "validate_url sample_env sample_url = Inr sample_validated"
  unfolding validate_url_def sample_url_def sample_bracket sample_urlsplit sum.case res_bind.simps sample_port
  by (simp add: sample_parts_def sample_text sample_host [unfolded sample_parts_def] check_port_def sample_inspected
      ensure_def sample_validated_def del: is_ip_blocked.simps inspect_all.simps)
    (simp add: sample_env_def sample_order)

theorem validated_url_safe_witness:
  "\<exists>ips. Some ` set ips = {ne_parse sample_env ''a'', ne_parse sample_env ''b''} \<and> (\<forall>a \<in> set ips. \<not> is_ip_blocked a)
     \<and> sr_target sample_validated = ne_show sample_env (Min (set ips))"
proof -
  have host: "sr_hostname sample_validated = ''hooks.dev''" "ne_parse sample_env ''hooks.dev'' = None"
      "ne_resolve sample_env ''hooks.dev'' p = Some [''a'', ''b'', ''a'']" for p
    by (simp_all add: sample_validated_def sample_env_def)
  obtain ts ips where "ne_resolve sample_env ''hooks.dev'' (sr_port sample_validated) = Some ts"
      "ne_parse sample_env ` set ts = Some ` set ips" "\<forall>a \<in> set ips. \<not> is_ip_blocked a"
      "sr_target sample_validated = ne_show sample_env (Min (set ips))"
    using validated_url_safe [OF sample_validation, unfolded host option.case] host(3) by (elim exE conjE) (rule that, simp_all only:)
  moreover from this have "ts = [''a'', ''b'', ''a'']" using host(3) by simp
  ultimately show ?thesis by (intro exI [of _ ips]) (simp del: is_ip_blocked.simps, blast)
qed

theorem selection_order_irrelevant_witness:
  "select_deterministic_ip (ne_show sample_env) [IPv4 1, IPv4 2] = select_deterministic_ip (ne_show sample_env) [IPv4 2, IPv4 1, IPv4 2]"
  by (rule selection_order_irrelevant) auto

end
