(* ===== verification/Webhook_Client.thy ===== *)
theory Webhook_Client
  imports Delivery Ssrf
begin

text \<open>
  The outbound transport (\<open>webhook_client.py\<close>): one validated and pinned HTTPS delivery with a
  deadline of ten seconds, at most two attempts and a retry policy by outcome. Sockets, TLS, HTTP,
  the clock and the resolver are an argument, a record of operations on a world, as the
  constructor of the class injects them; times are integers in milliseconds. What a delivery
  does is read from the log that the record \<open>logged\<close> keeps of these operations.
\<close>

section \<open>The injected operations\<close>

datatype conn_error = TimedOut | TlsFailed | Refused | OtherConn string

record http_response =
  h_status :: int
  h_retry_after :: "string option"

record http_request =
  q_path :: string
  q_headers :: "(string \<times> string) list"
  q_body :: string

record tls_context =
  tls_cert_none :: bool  \<comment> \<open>\<open>verify_mode\<close> is \<open>CERT_NONE\<close>\<close>
  tls_check_hostname :: bool

text \<open>A connection that stands: a socket wrapped by TLS, or one that an injected factory made.\<close>

datatype channel = Wire nat | Made nat

record 'w transport =
  t_clock :: "'w \<Rightarrow> int \<times> 'w"
  t_guard :: "string \<Rightarrow> 'w \<Rightarrow> (ssrf_error + ssrf_result) \<times> 'w"
  t_context :: "tls_context option"
  t_socket :: "string \<Rightarrow> int \<Rightarrow> int \<Rightarrow> 'w \<Rightarrow> (conn_error + nat) \<times> 'w"  \<comment> \<open>\<open>socket_factory((ip, port), timeout)\<close>\<close>
  t_wrap :: "tls_context \<Rightarrow> nat \<Rightarrow> string \<Rightarrow> 'w \<Rightarrow> (conn_error + nat) \<times> 'w"  \<comment> \<open>\<open>wrap_socket(sock, server_hostname)\<close>\<close>
  t_factory :: "(string \<Rightarrow> string \<Rightarrow> int \<Rightarrow> int \<Rightarrow> 'w \<Rightarrow> (conn_error + nat) \<times> 'w) option"
  t_join :: "nat \<Rightarrow> 'w \<Rightarrow> (conn_error + unit) \<times> 'w"  \<comment> \<open>\<open>connect()\<close> of a connection from the factory\<close>
  t_exchange :: "channel \<Rightarrow> http_request \<Rightarrow> int \<Rightarrow> 'w \<Rightarrow> (conn_error + http_response) \<times> 'w"
  t_sleep :: "int \<Rightarrow> 'w \<Rightarrow> 'w"
  t_close :: "'w \<Rightarrow> 'w"
  t_bracket :: "string \<Rightarrow> bool"
  t_hmac :: "string \<Rightarrow> string \<Rightarrow> string"

record client_result =
  c_success :: bool
  c_status :: delivery_status
  c_status_code :: "int option"
  c_error :: "string option"
  c_duration :: int
  c_attempts :: nat
  c_target_ip :: "string option"

definition max_delivery_attempts :: nat where
  "max_delivery_attempts = 2"

definition retry_backoff :: int where
  "retry_backoff = 1000"

definition overall_budget :: int where
  "overall_budget = 10000"

section \<open>The pinned connection\<close>

text \<open>\<open>PinnedIPHTTPSConnection.__init__\<close>: the default context verifies; an insecure one is refused.\<close>

definition pinned_context :: "tls_context option \<Rightarrow> conn_error + tls_context" where
  "pinned_context ctx =
     (case ctx of
        None \<Rightarrow> Inr \<lparr>tls_cert_none = False, tls_check_hostname = True\<rparr>
      | Some c \<Rightarrow>
          if tls_cert_none c then Inl (OtherConn ''Insecure TLS configuration: CERT_NONE is strictly forbidden.'')
          else if \<not> tls_check_hostname c
          then Inl (OtherConn ''Insecure TLS configuration: check_hostname=False is strictly forbidden.'')
          else Inr c)"

text \<open>
  \<open>PinnedIPHTTPSConnection.connect\<close>: a socket to the address, without another name resolution,
  wrapped by TLS for the host name.
\<close>

definition pinned_connect :: "'w transport \<Rightarrow> tls_context \<Rightarrow> string \<Rightarrow> string \<Rightarrow> int \<Rightarrow> int \<Rightarrow> 'w \<Rightarrow> (conn_error + nat) \<times> 'w" where
  "pinned_connect ops ctx ip host port timeout w =
     (case t_socket ops ip port timeout w of
        (Inl e, w1) \<Rightarrow> (Inl e, w1)
      | (Inr sock, w1) \<Rightarrow> t_wrap ops ctx sock host w1)"

section \<open>The request\<close>

definition request_path :: "split_url \<Rightarrow> string" where
  "request_path u =
     (let p = (if u_path u = [] then ''/'' else u_path u) in if u_query u = [] then p else p @ ''?'' @ u_query u)"

definition request_headers :: "(string \<Rightarrow> string \<Rightarrow> string) \<Rightarrow> string option \<Rightarrow> string \<Rightarrow> string \<Rightarrow> (string \<times> string) list" where
  "request_headers hmac secret key body =
     [(''Content-Type'', ''application/json; charset=utf-8''),
      (''User-Agent'', ''TimeCodeSecurity-Webhook-Delivery/1.0''),
      (''Content-Length'', nat_str (length body))]
     @ (if key = [] then [] else [(''Idempotency-Key'', key)])
     @ (case secret of
          Some s \<Rightarrow> if s = [] then [] else [(''X-TIMECODESECURITY-Signature'', ''sha256='' @ hmac s body)]
        | None \<Rightarrow> [])"

section \<open>Outcomes\<close>

definition client_failure :: "delivery_status \<Rightarrow> int option \<Rightarrow> string \<Rightarrow> nat \<Rightarrow> string option \<Rightarrow> int \<Rightarrow> client_result" where
  "client_failure st code msg attempts ip d =
     \<lparr>c_success = False, c_status = st, c_status_code = code, c_error = Some msg, c_duration = d,
      c_attempts = attempts, c_target_ip = ip\<rparr>"

text \<open>A failure timed now: the duration is read from the clock when the result is built.\<close>

definition fail_now :: "'w transport \<Rightarrow> int \<Rightarrow> (int \<Rightarrow> client_result) \<Rightarrow> 'w \<Rightarrow> client_result \<times> 'w" where
  "fail_now ops start mk w = (case t_clock ops w of (t, w') \<Rightarrow> (mk (t - start), w'))"

text \<open>\<open>remaining_deadline()\<close>\<close>

definition remaining :: "'w transport \<Rightarrow> int \<Rightarrow> 'w \<Rightarrow> int \<times> 'w" where
  "remaining ops start w = (case t_clock ops w of (t, w') \<Rightarrow> (start + overall_budget - t, w'))"

definition redirect_codes :: "int list" where
  "redirect_codes = [301, 302, 303, 307, 308]"

text \<open>The delay a \<open>Retry-After\<close> header allows, in milliseconds.\<close>

definition retry_delay :: "string option \<Rightarrow> int option" where
  "retry_delay hdr =
     (case hdr of
        None \<Rightarrow> None
      | Some h \<Rightarrow> (case py_int_of_str (py_strip h) of
            Some n \<Rightarrow> if 0 < n \<and> n \<le> 2 then Some (1000 * n) else None
          | None \<Rightarrow> None))"

text \<open>What an answer means: final with a status, or a retry after a delay if the time left exceeds a bound.\<close>

datatype verdict = Final delivery_status string | Success | RetryIf int int delivery_status string

definition judge :: "http_response \<Rightarrow> verdict" where
  "judge r =
     (let s = h_status r in
      if s \<in> set redirect_codes then Final REDIRECT_BLOCKED ''HTTP redirect blocked''
      else if 200 \<le> s \<and> s < 300 then Success
      else if s = 429 then
        (case retry_delay (h_retry_after r) of
           Some d \<Rightarrow> RetryIf d (d + 500) HTTP_RATE_LIMITED ''HTTP 429''
         | None \<Rightarrow> Final HTTP_RATE_LIMITED ''HTTP 429'')
      else if 400 \<le> s \<and> s < 500 then Final HTTP_CLIENT_ERROR (''HTTP '' @ int_str s)
      else if 500 \<le> s \<and> s < 600 then RetryIf retry_backoff retry_backoff HTTP_SERVER_ERROR (''HTTP '' @ int_str s)
      else Final HTTP_SERVER_ERROR (''HTTP '' @ int_str s))"

text \<open>The result of an attempt, \<open>None\<close> for \<open>continue\<close>.\<close>

type_synonym attempt_end = "client_result option"

definition retry_or :: "'w transport \<Rightarrow> int \<Rightarrow> nat \<Rightarrow> int \<Rightarrow> int \<Rightarrow> (int \<Rightarrow> client_result) \<Rightarrow> 'w \<Rightarrow> attempt_end \<times> 'w" where
  "retry_or ops start attempts delay bound mk w =
     (if attempts < max_delivery_attempts then
        (case remaining ops start w of
           (rem, w1) \<Rightarrow> if bound < rem then (None, t_sleep ops delay w1) else apfst Some (fail_now ops start mk w1))
      else apfst Some (fail_now ops start mk w))"

fun on_error :: "'w transport \<Rightarrow> int \<Rightarrow> string \<Rightarrow> nat \<Rightarrow> conn_error \<Rightarrow> 'w \<Rightarrow> attempt_end \<times> 'w" where
  "on_error ops start ip attempts TimedOut w =
     retry_or ops start attempts retry_backoff retry_backoff
       (client_failure CONNECTION_TIMEOUT None ''connect timeout'' attempts (Some ip)) w"
| "on_error ops start ip attempts TlsFailed w =
     apfst Some (fail_now ops start (client_failure TLS_ERROR None ''TLS verification failed'' attempts (Some ip)) w)"
| "on_error ops start ip attempts Refused w =
     apfst Some (fail_now ops start (client_failure CONNECTION_REFUSED None ''connection refused'' attempts (Some ip)) w)"
| "on_error ops start ip attempts (OtherConn e) w =
     apfst Some (fail_now ops start (client_failure INTERNAL_ERROR None
       (take max_error_message_length (''Delivery error: '' @ e)) attempts (Some ip)) w)"

definition on_response :: "'w transport \<Rightarrow> int \<Rightarrow> string \<Rightarrow> nat \<Rightarrow> http_response \<Rightarrow> 'w \<Rightarrow> attempt_end \<times> 'w" where
  "on_response ops start ip attempts r w =
     (let failed = (\<lambda>st msg. client_failure st (Some (h_status r)) msg attempts (Some ip)) in
      case judge r of
        Final st msg \<Rightarrow> apfst Some (fail_now ops start (failed st msg) w)
      | RetryIf delay bound st msg \<Rightarrow> retry_or ops start attempts delay bound (failed st msg) w
      | Success \<Rightarrow> apfst Some (fail_now ops start (\<lambda>d.
            \<lparr>c_success = True, c_status = DELIVERY_SUCCESS, c_status_code = Some (h_status r), c_error = None,
             c_duration = d, c_attempts = attempts, c_target_ip = Some ip\<rparr>) w))"

section \<open>The delivery\<close>

text \<open>The body of the \<open>try\<close> once the connection stands: read deadline, exchange, answer.\<close>

definition after_connect :: "'w transport \<Rightarrow> int \<Rightarrow> http_request \<Rightarrow> channel \<Rightarrow> string \<Rightarrow> nat \<Rightarrow> 'w \<Rightarrow> attempt_end \<times> 'w" where
  "after_connect ops start rq ch ip attempts w =
     (case remaining ops start w of
        (rem, w1) \<Rightarrow>
          if rem \<le> 0
          then apfst Some (fail_now ops start
                 (client_failure READ_TIMEOUT None ''overall deadline exceeded before read'' attempts (Some ip)) w1)
          else (case t_exchange ops ch rq (min 5000 rem) w1 of
                  (Inl e, w2) \<Rightarrow> on_error ops start ip attempts e w2
                | (Inr r, w2) \<Rightarrow> on_response ops start ip attempts r w2))"

definition one_attempt :: "'w transport \<Rightarrow> int \<Rightarrow> ssrf_result \<Rightarrow> http_request \<Rightarrow> nat \<Rightarrow> 'w \<Rightarrow> attempt_end \<times> 'w" where
  "one_attempt ops start sr rq attempts w =
     (case remaining ops start w of
        (rem, w1) \<Rightarrow>
          if rem \<le> 0
          then apfst Some (fail_now ops start (client_failure CONNECTION_TIMEOUT None
                 ''overall deadline exceeded before connect'' attempts (Some (sr_target sr))) w1)
          else (case t_factory ops of
                  Some mk \<Rightarrow>
                    (case mk (sr_target sr) (sr_hostname sr) (sr_port sr) (min 3000 rem) w1 of
                       (Inl e, w2) \<Rightarrow> on_error ops start (sr_target sr) attempts e w2
                     | (Inr c, w2) \<Rightarrow>
                         apsnd (t_close ops)
                           (case t_join ops c w2 of
                              (Inl e, w3) \<Rightarrow> on_error ops start (sr_target sr) attempts e w3
                            | (Inr _, w3) \<Rightarrow> after_connect ops start rq (Made c) (sr_target sr) attempts w3))
                | None \<Rightarrow>
                    (case pinned_context (t_context ops) of
                       Inl e \<Rightarrow> on_error ops start (sr_target sr) attempts e w1
                     | Inr ctx \<Rightarrow>
                         apsnd (t_close ops)
                           (case pinned_connect ops ctx (sr_target sr) (sr_hostname sr) (sr_port sr) (min 3000 rem) w1 of
                              (Inl e, w2) \<Rightarrow> on_error ops start (sr_target sr) attempts e w2
                            | (Inr sock, w2) \<Rightarrow> after_connect ops start rq (Wire sock) (sr_target sr) attempts w2))))"

text \<open>The loop, with the attempts left; the first equation is the code after the loop.\<close>

fun attempt_loop :: "'w transport \<Rightarrow> int \<Rightarrow> ssrf_result \<Rightarrow> http_request \<Rightarrow> nat \<Rightarrow> nat \<Rightarrow> 'w \<Rightarrow> client_result \<times> 'w" where
  "attempt_loop ops start sr rq 0 attempts w =
     fail_now ops start (client_failure HTTP_SERVER_ERROR None ''Maximum delivery attempts exceeded'' attempts
       (Some (sr_target sr))) w"
| "attempt_loop ops start sr rq (Suc left) attempts w =
     (case one_attempt ops start sr rq (Suc attempts) w of
        (Some r, w1) \<Rightarrow> (r, w1)
      | (None, w1) \<Rightarrow> attempt_loop ops start sr rq left (Suc attempts) w1)"

definition guard_failure :: "ssrf_error \<Rightarrow> int \<Rightarrow> client_result" where
  "guard_failure e =
     (case e of
        DnsFailed m \<Rightarrow> client_failure DNS_RESOLUTION_FAILED None (take max_error_message_length m) 0 None
      | SsrfBlocked m \<Rightarrow> client_failure SSRF_BLOCKED None (take max_error_message_length m) 0 None
      | OtherError m \<Rightarrow> client_failure SSRF_BLOCKED None
          (take max_error_message_length (''SSRF validation exception: '' @ m)) 0 None)"

text \<open>\<open>send\<close>; \<open>Inl\<close> is the exception of splitting the URL, which no handler catches.\<close>

definition send :: "'w transport \<Rightarrow> string \<Rightarrow> string \<Rightarrow> string option \<Rightarrow> string \<Rightarrow> 'w \<Rightarrow> (ssrf_error + client_result) \<times> 'w" where
  "send ops url body secret key w0 =
     (case t_clock ops w0 of
        (start, w1) \<Rightarrow>
          (case remaining ops start w1 of
             (rem, w2) \<Rightarrow>
               if rem \<le> 0
               then (Inr (client_failure CONNECTION_TIMEOUT None ''overall deadline exceeded before DNS resolution'' 0 None 0), w2)
               else (case t_guard ops url w2 of
                  (Inl e, w3) \<Rightarrow> apfst Inr (fail_now ops start (guard_failure e) w3)
                | (Inr sr, w3) \<Rightarrow>
                    (case remaining ops start w3 of
                       (rem', w4) \<Rightarrow>
                         if rem' \<le> 0
                         then apfst Inr (fail_now ops start (client_failure CONNECTION_TIMEOUT None
                                ''overall deadline exceeded after DNS resolution'' 0 (Some (sr_target sr))) w4)
                         else (case urlsplit (t_bracket ops) url of
                                 Inl e \<Rightarrow> (Inl e, w4)
                               | Inr u \<Rightarrow> apfst Inr (attempt_loop ops start sr
                                   \<lparr>q_path = request_path u, q_headers = request_headers (t_hmac ops) secret key body,
                                    q_body = body\<rparr> max_delivery_attempts 0 w4))))))"

section \<open>What a result says\<close>

definition status_of_code :: "int \<Rightarrow> delivery_status" where
  "status_of_code s =
     (if s \<in> set redirect_codes then REDIRECT_BLOCKED
      else if 200 \<le> s \<and> s < 300 then DELIVERY_SUCCESS
      else if s = 429 then HTTP_RATE_LIMITED
      else if 400 \<le> s \<and> s < 500 then HTTP_CLIENT_ERROR
      else HTTP_SERVER_ERROR)"

definition client_result_ok :: "client_result \<Rightarrow> bool" where
  "client_result_ok r \<longleftrightarrow>
     (c_success r \<longleftrightarrow> c_status r = DELIVERY_SUCCESS) \<and> (c_success r \<longleftrightarrow> c_error r = None)
     \<and> (case c_status_code r of
          Some s \<Rightarrow> c_status r = status_of_code s
        | None \<Rightarrow> \<not> c_success r \<and> c_status r \<noteq> HTTP_SERVER_ERROR
            \<and> (case c_error r of Some e \<Rightarrow> length e \<le> max_error_message_length | None \<Rightarrow> False))"

named_theorems outcome_defs \<open>the definitions that build the result of an attempt\<close>

lemmas [outcome_defs] = fail_now_def client_failure_def retry_or_def client_result_ok_def apfst_def map_prod_def

lemma judge_Final: "judge r = Final st msg \<Longrightarrow> st = status_of_code (h_status r) \<and> st \<noteq> DELIVERY_SUCCESS"
  by (auto simp: judge_def status_of_code_def Let_def redirect_codes_def split: if_splits option.splits)

lemma judge_Retry: "judge r = RetryIf d b st msg \<Longrightarrow> st = status_of_code (h_status r) \<and> st \<noteq> DELIVERY_SUCCESS"
  by (auto simp: judge_def status_of_code_def Let_def redirect_codes_def split: if_splits option.splits)

lemma judge_Success: "judge r = Success \<Longrightarrow> status_of_code (h_status r) = DELIVERY_SUCCESS"
  by (auto simp: judge_def status_of_code_def Let_def redirect_codes_def split: if_splits option.splits)

text \<open>An attempt that ends names its number and a consistent result; the last one always ends.\<close>

definition ends_ok :: "nat \<Rightarrow> attempt_end \<Rightarrow> bool" where
  "ends_ok n e \<longleftrightarrow> (case e of None \<Rightarrow> n < max_delivery_attempts | Some r \<Rightarrow> client_result_ok r \<and> c_attempts r = n)"

lemma on_error_ends: "on_error ops start ip n e w = (a, w') \<Longrightarrow> ends_ok n a"
  by (cases e) (auto simp: ends_ok_def outcome_defs max_error_message_length_def split: prod.splits if_splits)

lemma on_response_ends: "on_response ops start ip n r w = (a, w') \<Longrightarrow> ends_ok n a"
  by (auto simp: on_response_def ends_ok_def outcome_defs Let_def dest: judge_Final judge_Retry judge_Success
      split: verdict.splits prod.splits if_splits)

lemma after_connect_ends: "after_connect ops start rq ch ip n w = (a, w') \<Longrightarrow> ends_ok n a"
  by (auto simp: after_connect_def dest: on_error_ends on_response_ends split: prod.splits sum.splits if_splits)
    (auto simp: ends_ok_def outcome_defs max_error_message_length_def split: prod.splits)

lemma one_attempt_ends: "one_attempt ops start sr rq n w = (a, w') \<Longrightarrow> ends_ok n a"
  by (auto simp: one_attempt_def apsnd_def split: prod.splits sum.splits if_splits option.splits dest: on_error_ends)
    (auto simp: ends_ok_def outcome_defs max_error_message_length_def split: prod.splits
      dest!: on_error_ends after_connect_ends)

lemma attempt_loop_ok:
  "attempts + left = max_delivery_attempts \<Longrightarrow> 0 < left \<Longrightarrow> attempt_loop ops start sr rq left attempts w = (r, w')
   \<Longrightarrow> client_result_ok r \<and> c_attempts r \<le> max_delivery_attempts"
proof (induction left arbitrary: attempts w)
  case (Suc left)
  obtain e w1 where at: "one_attempt ops start sr rq (Suc attempts) w = (e, w1)" by fastforce
  have ends: "ends_ok (Suc attempts) e"
    using one_attempt_ends [OF at] .
  show ?case
  proof (cases e)
    case None
    with ends Suc.prems(1) have "0 < left" by (simp add: ends_ok_def)
    with Suc.IH [of "Suc attempts" w1] Suc.prems at None show ?thesis by simp
  next
    case (Some r')
    with ends Suc.prems at show ?thesis by (simp add: ends_ok_def)
  qed
qed simp

text \<open>
  What a delivery reports is consistent: success, the status SUCCESS and the absence of an
  error message coincide; a status code fixes the status; without one the delivery failed,
  with a bounded message. At most two attempts are made, and the failure after the loop,
  a server error without a status code, is never reported.
\<close>

theorem send_result_consistent:
  assumes "send ops url body secret key w = (Inr r, w')"
  shows "client_result_ok r \<and> c_attempts r \<le> max_delivery_attempts"
proof -
  have early: "client_result_ok (client_failure CONNECTION_TIMEOUT None ''overall deadline exceeded before DNS resolution'' 0 None 0)"
    "client_result_ok (client_failure CONNECTION_TIMEOUT None ''overall deadline exceeded after DNS resolution'' 0 ip d)"
    "client_result_ok (guard_failure e d)" for ip d e
    by (simp_all add: outcome_defs guard_failure_def max_error_message_length_def split: ssrf_error.split)
  have loop: "attempt_loop ops st sr rq max_delivery_attempts 0 v = (r', v') \<Longrightarrow>
      client_result_ok r' \<and> c_attempts r' \<le> max_delivery_attempts" for st sr rq v r' v'
    by (rule attempt_loop_ok) (simp_all add: max_delivery_attempts_def)
  have zero: "c_attempts (guard_failure e d) = 0" for e d
    by (simp add: guard_failure_def client_failure_def split: ssrf_error.split)
  show ?thesis
    using assms early zero loop
    by (auto simp: send_def apfst_def map_prod_def fail_now_def split: prod.splits sum.splits if_splits)
      (auto simp: client_failure_def)
qed

section \<open>The log of a delivery\<close>

text \<open>
  The operations on the network, the clock and the sleep, each with its result: the readings of
  the clock; sockets opened, wrapped; connections made by a factory and joined; exchanges.
\<close>

datatype net_event =
    Told int
  | Slept int
  | Opened string int int "nat option"
  | Wrapped tls_context nat string "nat option"
  | Requested string string int int "nat option"
  | Joined nat bool
  | Exchanged channel http_request int

definition answered :: "'e + 'a \<Rightarrow> 'a option" where
  "answered r = (case r of Inl e \<Rightarrow> None | Inr a \<Rightarrow> Some a)"

definition logged :: "'w transport \<Rightarrow> ('w \<times> net_event list) transport" where
  "logged ops =
     \<lparr>t_clock = (\<lambda>(w, l). case t_clock ops w of (t, w') \<Rightarrow> (t, w', l @ [Told t])),
      t_guard = (\<lambda>u (w, l). case t_guard ops u w of (r, w') \<Rightarrow> (r, w', l)),
      t_context = t_context ops,
      t_socket = (\<lambda>ip port timeout (w, l). case t_socket ops ip port timeout w of (r, w') \<Rightarrow>
        (r, w', l @ [Opened ip port timeout (answered r)])),
      t_wrap = (\<lambda>c sock host (w, l). case t_wrap ops c sock host w of (r, w') \<Rightarrow>
        (r, w', l @ [Wrapped c sock host (answered r)])),
      t_factory = map_option (\<lambda>mk ip host port timeout (w, l). case mk ip host port timeout w of (r, w') \<Rightarrow>
        (r, w', l @ [Requested ip host port timeout (answered r)])) (t_factory ops),
      t_join = (\<lambda>c (w, l). case t_join ops c w of (r, w') \<Rightarrow> (r, w', l @ [Joined c (answered r \<noteq> None)])),
      t_exchange = (\<lambda>ch rq timeout (w, l). case t_exchange ops ch rq timeout w of (r, w') \<Rightarrow>
        (r, w', l @ [Exchanged ch rq timeout])),
      t_sleep = (\<lambda>d (w, l). (t_sleep ops d w, l @ [Slept d])),
      t_close = (\<lambda>(w, l). (t_close ops w, l)),
      t_bracket = t_bracket ops,
      t_hmac = t_hmac ops\<rparr>"

text \<open>
  The connections of a log against the answer of the guard. A socket is opened only to the
  address and the port of the answer; only a socket that was just opened is wrapped, for the
  host name of the answer and under a context that verifies certificates and host names; a factory
  is asked only for the address, host name and port of the answer, and the connection it
  makes is joined; an exchange runs only on what was just wrapped or joined. None: a violation.
\<close>

datatype stage = Idle | Raw nat | Asked nat | Secure channel

definition pin_step :: "ssrf_result \<Rightarrow> stage option \<Rightarrow> net_event \<Rightarrow> stage option" where
  "pin_step sr st e =
     (case st of
        None \<Rightarrow> None
      | Some stage \<Rightarrow>
          (case e of
             Told t \<Rightarrow> Some stage
           | Slept d \<Rightarrow> Some Idle
           | Opened ip port timeout r \<Rightarrow>
               if ip = sr_target sr \<and> port = sr_port sr then Some (case r of Some s \<Rightarrow> Raw s | None \<Rightarrow> Idle) else None
           | Wrapped c s host r \<Rightarrow>
               if stage = Raw s \<and> host = sr_hostname sr \<and> \<not> tls_cert_none c \<and> tls_check_hostname c
               then Some (case r of Some w \<Rightarrow> Secure (Wire w) | None \<Rightarrow> Idle) else None
           | Requested ip host port timeout r \<Rightarrow>
               if ip = sr_target sr \<and> host = sr_hostname sr \<and> port = sr_port sr
               then Some (case r of Some c \<Rightarrow> Asked c | None \<Rightarrow> Idle) else None
           | Joined c ok \<Rightarrow> if stage = Asked c then Some (if ok then Secure (Made c) else Idle) else None
           | Exchanged ch rq timeout \<Rightarrow> if stage = Secure ch then Some Idle else None))"

definition pinned_log :: "ssrf_result \<Rightarrow> net_event list \<Rightarrow> bool" where
  "pinned_log sr l = (foldl (pin_step sr) (Some Idle) l \<noteq> None)"

text \<open>
  The times of a log against the deadline, ten seconds after the start: every timeout for a
  connection or an exchange and every sleep directly follows a reading of the clock, is positive
  and reaches no farther than the time that this reading leaves; connections get three seconds
  at most, exchanges five. The state is the reading that was not yet used.
\<close>

definition within_deadline :: "int \<Rightarrow> int option \<Rightarrow> int \<Rightarrow> int \<Rightarrow> int option option" where
  "within_deadline start reading most timeout =
     (case reading of
        None \<Rightarrow> None
      | Some t \<Rightarrow> if 0 < timeout \<and> timeout \<le> most \<and> timeout \<le> start + 10000 - t then Some None else None)"

definition time_step :: "int \<Rightarrow> int option option \<Rightarrow> net_event \<Rightarrow> int option option" where
  "time_step start st e =
     (case st of
        None \<Rightarrow> None
      | Some reading \<Rightarrow>
          (case e of
             Told t \<Rightarrow> Some (Some t)
           | Slept d \<Rightarrow> within_deadline start reading 2000 d
           | Opened ip port timeout r \<Rightarrow> within_deadline start reading 3000 timeout
           | Wrapped c s host r \<Rightarrow> Some None
           | Requested ip host port timeout r \<Rightarrow> within_deadline start reading 3000 timeout
           | Joined c ok \<Rightarrow> Some None
           | Exchanged ch rq timeout \<Rightarrow> within_deadline start reading 5000 timeout))"

definition timed_log :: "int \<Rightarrow> net_event list \<Rightarrow> bool" where
  "timed_log start l = (foldl (time_step start) (Some None) l \<noteq> None)"

definition opens_connection :: "net_event \<Rightarrow> bool" where
  "opens_connection e = (case e of Opened ip port timeout r \<Rightarrow> True | Requested ip host port timeout r \<Rightarrow> True | _ \<Rightarrow> False)"

section \<open>Where it connects, and when\<close>

text \<open>A log that keeps to both, with a number of openings at most.\<close>

definition good :: "ssrf_result \<Rightarrow> int \<Rightarrow> nat \<Rightarrow> net_event list \<Rightarrow> bool" where
  "good sr start k l =
     (pinned_log sr l \<and> timed_log start l \<and> length (filter opens_connection l) \<le> k \<and> (\<exists>rest. l = Told start # rest))"

text \<open>The logged operation does what the operation does, and leaves a log with a property.\<close>

definition follows :: "(net_event list \<Rightarrow> bool) \<Rightarrow> 'a \<times> 'w \<times> net_event list \<Rightarrow> 'a \<times> 'w \<Rightarrow> bool" where
  "follows P p q = (fst p = fst q \<and> fst (snd p) = snd q \<and> P (snd (snd p)))"

lemma followsI: "P l \<Longrightarrow> follows P (a, w, l) (a, w)"
  by (simp add: follows_def)

lemma follows_apfst: "follows P p q \<Longrightarrow> follows P (apfst f p) (apfst f q)"
  by (simp add: follows_def)

lemma follows_close: "follows P p q \<Longrightarrow> follows P (apsnd (t_close (logged ops)) p) (apsnd (t_close ops) q)"
  by (cases p; cases q) (auto simp: follows_def logged_def)

lemma logged_fields [simp]:
  "t_context (logged ops) = t_context ops" "t_bracket (logged ops) = t_bracket ops" "t_hmac (logged ops) = t_hmac ops"
  by (simp_all add: logged_def)

lemma remaining_both:
  assumes "t_clock ops w = (t, w')"
  shows "remaining (logged ops) start (w, l) = (start + overall_budget - t, w', l @ [Told t])"
    "remaining ops start w = (start + overall_budget - t, w')"
  using assms by (simp_all add: remaining_def logged_def)

named_theorems log_defs \<open>the checks of a log\<close>

lemmas [log_defs] = good_def pinned_log_def timed_log_def pin_step_def time_step_def within_deadline_def opens_connection_def overall_budget_def

lemma good_told: "good sr start k l \<Longrightarrow> good sr start k (l @ [Told t])"
  by (auto simp: log_defs)

lemma good_slept: "good sr start k (l @ [Told t]) \<Longrightarrow> 0 < d \<Longrightarrow> d \<le> 2000 \<Longrightarrow> d < start + overall_budget - t
    \<Longrightarrow> good sr start k (l @ [Told t, Slept d])"
proof -
  assume g: "good sr start k (l @ [Told t])" and d: "0 < d" "d \<le> 2000" "d < start + overall_budget - t"
  from g obtain rest where "l @ [Told t] = Told start # rest" by (auto simp: good_def)
  then have "\<exists>rest. l @ [Told t, Slept d] = Told start # rest" by (cases l) auto
  with g d show ?thesis unfolding good_def by (auto simp: pinned_log_def pin_step_def timed_log_def time_step_def
      within_deadline_def opens_connection_def overall_budget_def split: option.splits)
qed

lemma fail_follows:
  "good sr start k l \<Longrightarrow> follows (good sr start k) (fail_now (logged ops) start mk (w, l)) (fail_now ops start mk w)"
  by (auto simp: fail_now_def logged_def follows_def good_told split: prod.split)

lemma retry_follows:
  assumes "good sr start k l" "0 < delay" "delay \<le> bound" "delay \<le> 2000"
  shows "follows (good sr start k) (retry_or (logged ops) start n delay bound mk (w, l)) (retry_or ops start n delay bound mk w)"
proof -
  obtain t w' where t: "t_clock ops w = (t, w')" by (cases "t_clock ops w")
  note told = good_told [OF assms(1), of t]
  have slept: "good sr start k (l @ [Told t, Slept delay])" if "bound < start + overall_budget - t"
    using good_slept [OF told] assms(2-4) that by simp
  have sleep: "t_sleep (logged ops) delay (w', l @ [Told t]) = (t_sleep ops delay w', l @ [Told t, Slept delay])"
    by (simp add: logged_def)
  show ?thesis
    unfolding retry_or_def remaining_both [OF t]
    using slept by (auto simp: sleep intro!: followsI follows_apfst fail_follows told assms(1))
qed

lemma judge_delay: "judge r = RetryIf d b st msg \<Longrightarrow> 0 < d \<and> d \<le> b \<and> d \<le> 2000"
  by (auto simp: judge_def Let_def retry_delay_def retry_backoff_def split: if_splits option.splits)

lemma on_error_follows:
  "good sr start k l \<Longrightarrow>
   follows (good sr start k) (on_error (logged ops) start ip n e (w, l)) (on_error ops start ip n e w)"
  by (cases e) (auto simp: retry_backoff_def intro!: retry_follows follows_apfst fail_follows)

lemma on_response_follows:
  "good sr start k l \<Longrightarrow>
   follows (good sr start k) (on_response (logged ops) start ip n r (w, l)) (on_response ops start ip n r w)"
  by (auto simp: on_response_def Let_def dest: judge_delay intro!: retry_follows follows_apfst fail_follows split: verdict.split)

text \<open>A log after which an exchange on a channel may run.\<close>

definition secured :: "ssrf_result \<Rightarrow> int \<Rightarrow> nat \<Rightarrow> channel \<Rightarrow> net_event list \<Rightarrow> bool" where
  "secured sr start k ch l = (good sr start k l \<and> foldl (pin_step sr) (Some Idle) l = Some (Secure ch))"

lemma good_exchanged:
  "secured sr start k ch l \<Longrightarrow> 0 < start + overall_budget - t \<Longrightarrow>
   good sr start k (l @ [Told t, Exchanged ch rq (min 5000 (start + overall_budget - t))])"
  by (auto simp: secured_def log_defs)

lemma after_connect_follows:
  assumes "secured sr start k ch l"
  shows "follows (good sr start k) (after_connect (logged ops) start rq ch ip n (w, l)) (after_connect ops start rq ch ip n w)"
proof -
  obtain t w' where t: "t_clock ops w = (t, w')" by (cases "t_clock ops w")
  let ?rem = "start + overall_budget - t"
  obtain r w2 where r: "t_exchange ops ch rq (min 5000 ?rem) w' = (r, w2)" by fastforce
  then have lr: "t_exchange (logged ops) ch rq (min 5000 ?rem) (w', l @ [Told t])
      = (r, w2, l @ [Told t, Exchanged ch rq (min 5000 ?rem)])"
    by (simp add: logged_def)
  have told: "good sr start k (l @ [Told t])" using assms by (simp add: secured_def good_told)
  show ?thesis
  proof (cases "?rem \<le> 0")
    case True
    then show ?thesis
      unfolding after_connect_def remaining_both [OF t]
      using told by (simp add: follows_apfst fail_follows)
  next
    case False
    with assms have "good sr start k (l @ [Told t, Exchanged ch rq (min 5000 ?rem)])" by (simp add: good_exchanged)
    with False show ?thesis
      unfolding after_connect_def remaining_both [OF t]
      by (cases r) (simp_all add: r lr on_error_follows on_response_follows)
  qed
qed

lemma pinned_context_secure: "pinned_context c = Inr ctx \<Longrightarrow> \<not> tls_cert_none ctx \<and> tls_check_hostname ctx"
  by (auto simp: pinned_context_def split: option.splits if_splits)

lemma good_Suc: "good sr start k l \<Longrightarrow> good sr start (Suc k) l"
  by (simp add: good_def)

lemma good_opened:
  assumes "good sr start k l" "0 < start + overall_budget - t"
  defines "l1 \<equiv> \<lambda>r. l @ [Told t, Opened (sr_target sr) (sr_port sr) (min 3000 (start + overall_budget - t)) r]"
  shows "good sr start (Suc k) (l1 r)"
    and "r = Some s \<Longrightarrow> \<not> tls_cert_none c \<Longrightarrow> tls_check_hostname c \<Longrightarrow> good sr start (Suc k) (l1 r @ [Wrapped c s (sr_hostname sr) None])"
    and "r = Some s \<Longrightarrow> \<not> tls_cert_none c \<Longrightarrow> tls_check_hostname c \<Longrightarrow>
      secured sr start (Suc k) (Wire z) (l1 r @ [Wrapped c s (sr_hostname sr) (Some z)])"
  using assms by (auto simp: secured_def log_defs)

lemma good_requested:
  assumes "good sr start k l" "0 < start + overall_budget - t"
  defines "l1 \<equiv> \<lambda>r. l @ [Told t, Requested (sr_target sr) (sr_hostname sr) (sr_port sr) (min 3000 (start + overall_budget - t)) r]"
  shows "good sr start (Suc k) (l1 r)"
    and "r = Some c \<Longrightarrow> good sr start (Suc k) (l1 r @ [Joined c False])"
    and "r = Some c \<Longrightarrow> secured sr start (Suc k) (Made c) (l1 r @ [Joined c True])"
  using assms by (auto simp: secured_def log_defs)

lemma one_attempt_follows:
  assumes "good sr start k l"
  shows "follows (good sr start (Suc k)) (one_attempt (logged ops) start sr rq n (w, l)) (one_attempt ops start sr rq n w)"
proof -
  obtain t w' where t: "t_clock ops w = (t, w')" by (cases "t_clock ops w")
  let ?rem = "start + overall_budget - t"
  have told: "good sr start (Suc k) (l @ [Told t])" using assms by (simp add: good_told good_Suc)
  note start = one_attempt_def remaining_both [OF t] prod.case
  consider "?rem \<le> 0" | mk where "0 < ?rem" "t_factory ops = Some mk" | "0 < ?rem" "t_factory ops = None" by fastforce
  then show ?thesis
  proof cases
    case 1
    then show ?thesis unfolding start using told by (simp add: follows_apfst fail_follows)
  next
    case 2
    let ?ev = "\<lambda>r. Requested (sr_target sr) (sr_hostname sr) (sr_port sr) (min 3000 ?rem) r"
    obtain r w2 where r: "mk (sr_target sr) (sr_hostname sr) (sr_port sr) (min 3000 ?rem) w' = (r, w2)" by fastforce
    have made: "t_factory (logged ops) = Some (\<lambda>ip host port timeout (w, l). case mk ip host port timeout w of (r, w') \<Rightarrow>
        (r, w', l @ [Requested ip host port timeout (answered r)]))"
      using 2 by (simp add: logged_def)
    note req = good_requested [OF assms 2(1)]
    show ?thesis
    proof (cases r)
      case (Inl e)
      have "good sr start (Suc k) (l @ [Told t, ?ev None])" by (rule req(1))
      with 2 Inl show ?thesis unfolding start by (simp add: made r answered_def on_error_follows)
    next
      case (Inr c)
      obtain j w3 where j: "t_join ops c w2 = (j, w3)" by fastforce
      then have lj: "t_join (logged ops) c (w2, l @ [Told t, ?ev (Some c)]) = (j, w3, l @ [Told t, ?ev (Some c), Joined c (answered j \<noteq> None)])"
        by (simp add: logged_def)
      have "good sr start (Suc k) (l @ [Told t, ?ev (Some c), Joined c False])"
        "secured sr start (Suc k) (Made c) (l @ [Told t, ?ev (Some c), Joined c True])"
        using req(2,3) [of "Some c" c] by simp_all
      with 2 Inr show ?thesis
        unfolding start
        by (cases j) (simp_all add: made r j lj [simplified] answered_def follows_close on_error_follows after_connect_follows)
    qed
  next
    case 3
    have none: "t_factory (logged ops) = None" using 3 by (simp add: logged_def)
    show ?thesis
    proof (cases "pinned_context (t_context ops)")
      case (Inl e)
      with 3 told show ?thesis unfolding start by (simp add: none on_error_follows)
    next
      case (Inr ctx)
      note ctx = pinned_context_secure [OF Inr]
      let ?ev = "\<lambda>r. Opened (sr_target sr) (sr_port sr) (min 3000 ?rem) r"
      obtain r w2 where r: "t_socket ops (sr_target sr) (sr_port sr) (min 3000 ?rem) w' = (r, w2)" by fastforce
      then have lr: "t_socket (logged ops) (sr_target sr) (sr_port sr) (min 3000 ?rem) (w', l @ [Told t])
          = (r, w2, l @ [Told t, ?ev (answered r)])"
        by (simp add: logged_def)
      note opn = good_opened [OF assms 3(1)]
      show ?thesis
      proof (cases r)
        case (Inl e)
        have "good sr start (Suc k) (l @ [Told t, ?ev None])" by (rule opn(1))
        with 3 Inl Inr show ?thesis
          unfolding start by (simp add: none pinned_connect_def r lr answered_def follows_close on_error_follows)
      next
        case (Inr s)
        obtain x w3 where x: "t_wrap ops ctx s (sr_hostname sr) w2 = (x, w3)" by fastforce
        then have lx: "t_wrap (logged ops) ctx s (sr_hostname sr) (w2, l @ [Told t, ?ev (Some s)])
            = (x, w3, l @ [Told t, ?ev (Some s), Wrapped ctx s (sr_hostname sr) (answered x)])"
          by (simp add: logged_def)
        have "good sr start (Suc k) (l @ [Told t, ?ev (Some s), Wrapped ctx s (sr_hostname sr) None])"
          "secured sr start (Suc k) (Wire z) (l @ [Told t, ?ev (Some s), Wrapped ctx s (sr_hostname sr) (Some z)])" for z
          using opn(2,3) [of "Some s" s ctx] ctx by simp_all
        with 3 Inr \<open>pinned_context (t_context ops) = Inr ctx\<close> show ?thesis
          unfolding start
          by (cases x) (simp_all add: none pinned_connect_def r lr x lx answered_def follows_close on_error_follows after_connect_follows)
      qed
    qed
  qed
qed

lemma attempt_loop_follows:
  "good sr start k l \<Longrightarrow>
   follows (good sr start (k + left)) (attempt_loop (logged ops) start sr rq left n (w, l)) (attempt_loop ops start sr rq left n w)"
proof (induction left arbitrary: k n w l)
  case 0
  then show ?case by (simp add: fail_follows)
next
  case (Suc left)
  obtain e w1 l1 where e: "one_attempt (logged ops) start sr rq (Suc n) (w, l) = (e, w1, l1)"
    by (cases "one_attempt (logged ops) start sr rq (Suc n) (w, l)") auto
  from one_attempt_follows [OF Suc.prems, of ops rq "Suc n" w]
  have same: "one_attempt ops start sr rq (Suc n) w = (e, w1)" and g: "good sr start (Suc k) l1"
    by (cases "one_attempt ops start sr rq (Suc n) w"; simp add: e follows_def)+
  have more: "good sr start (k + Suc left) l1" using g by (simp add: good_def)
  show ?case
    using Suc.IH [OF g, of "Suc n" w1] more by (cases e) (simp_all add: e same followsI)
qed

text \<open>What the logged delivery returns, does and leaves in the log.\<close>

definition contacts :: "net_event list \<Rightarrow> net_event list" where
  "contacts l = filter (\<lambda>e. case e of Told t \<Rightarrow> False | _ \<Rightarrow> True) l"

lemma only_readings:
  "l = map Told ts \<Longrightarrow> contacts l = [] \<and> timed_log start l \<and> filter opens_connection l = []"
proof -
  have "foldl (time_step start) (Some tm) (map Told ts) \<noteq> None" for tm
    by (induction ts arbitrary: tm) (simp_all add: time_step_def)
  moreover assume "l = map Told ts"
  ultimately show ?thesis by (auto simp: contacts_def timed_log_def opens_connection_def filter_empty_conv)
qed

lemma send_logged:
  assumes "send (logged ops) url body secret key (w, []) = (r, w', l)"
  shows "send ops url body secret key w = (r, w') \<and> (\<exists>start rest. l = Told start # rest \<and> timed_log start l)
    \<and> length (filter opens_connection l) \<le> max_delivery_attempts
    \<and> (contacts l \<noteq> [] \<longrightarrow>
       (\<exists>sr v. t_guard ops url (snd (t_clock ops (snd (t_clock ops w)))) = (Inr sr, v) \<and> pinned_log sr l))"
proof -
  obtain t0 w1 where t0: "t_clock ops w = (t0, w1)" by (cases "t_clock ops w")
  then have l0: "t_clock (logged ops) (w, []) = (t0, w1, [Told t0])" by (simp add: logged_def)
  obtain t1 w2 where t1: "t_clock ops w1 = (t1, w2)" by (cases "t_clock ops w1")
  note first = send_def l0 t0 prod.case remaining_both [OF t1]
  have fails: "\<exists>t v'. fail_now (logged ops) t0 mk (v, k) = (mk (t - t0), v', k @ [Told t]) \<and> fail_now ops t0 mk v = (mk (t - t0), v')"
    for mk v k by (cases "t_clock ops v") (simp add: fail_now_def logged_def)
  have plain: ?thesis if "send ops url body secret key w = (r, w')" "l = Told t0 # map Told ts" for ts
    using that only_readings [of l "t0 # ts" t0] by auto
  show ?thesis
  proof (cases "t0 + overall_budget - t1 \<le> 0")
    case True
    with assms show ?thesis by (intro plain [of "[t1]"]) (simp_all add: first)
  next
    case False
    obtain g w3 where g: "t_guard ops url w2 = (g, w3)" by (cases "t_guard ops url w2")
    then have lg: "t_guard (logged ops) url (w2, k) = (g, w3, k)" for k by (simp add: logged_def)
    show ?thesis
    proof (cases g)
      case (Inl e)
      from fails [of "guard_failure e" w3 "[Told t0, Told t1]"] obtain t v' where
        "fail_now (logged ops) t0 (guard_failure e) (w3, [Told t0, Told t1]) = (guard_failure e (t - t0), v', [Told t0, Told t1, Told t])"
        "fail_now ops t0 (guard_failure e) w3 = (guard_failure e (t - t0), v')" by auto
      with assms False Inl show ?thesis by (intro plain [of "[t1, t]"]) (simp_all add: first g lg)
    next
      case (Inr sr)
      obtain t2 w4 where t2: "t_clock ops w3 = (t2, w4)" by (cases "t_clock ops w3")
      let ?k = "[Told t0, Told t1, Told t2]"
      note second = remaining_both [OF t2]
      show ?thesis
      proof (cases "t0 + overall_budget - t2 \<le> 0")
        case True
        let ?mk = "client_failure CONNECTION_TIMEOUT None ''overall deadline exceeded after DNS resolution'' 0 (Some (sr_target sr))"
        from fails [of ?mk w4 ?k] obtain t v' where
          "fail_now (logged ops) t0 ?mk (w4, ?k) = (?mk (t - t0), v', ?k @ [Told t])" "fail_now ops t0 ?mk w4 = (?mk (t - t0), v')" by auto
        with assms False True Inr show ?thesis by (intro plain [of "[t1, t2, t]"]) (simp_all add: first second g lg)
      next
        case in_time: False
        show ?thesis
        proof (cases "urlsplit (t_bracket ops) url")
          case (Inl e)
          with assms False in_time Inr show ?thesis by (intro plain [of "[t1, t2]"]) (simp_all add: first second g lg)
        next
          case url: (Inr u)
          let ?rq = "\<lparr>q_path = request_path u, q_headers = request_headers (t_hmac ops) secret key body, q_body = body\<rparr>"
          have "good sr t0 0 ?k" by (simp add: log_defs)
          from attempt_loop_follows [OF this, of max_delivery_attempts ops ?rq 0 w4]
          have loop: "follows (good sr t0 max_delivery_attempts)
              (attempt_loop (logged ops) t0 sr ?rq max_delivery_attempts 0 (w4, ?k)) (attempt_loop ops t0 sr ?rq max_delivery_attempts 0 w4)"
            by simp
          obtain c where c: "attempt_loop (logged ops) t0 sr ?rq max_delivery_attempts 0 (w4, ?k) = (c, w', l)" "r = Inr c"
            using assms False in_time Inr url by (auto simp: first second g lg apfst_def map_prod_def split: prod.splits)
          with loop have "attempt_loop ops t0 sr ?rq max_delivery_attempts 0 w4 = (c, w')" "good sr t0 max_delivery_attempts l"
            by (auto simp: follows_def prod_eq_iff)
          moreover have "send ops url body secret key w = (r, w')"
            using calculation(1) c(2) False in_time Inr url by (simp add: first second g)
          moreover have "t_guard ops url (snd (t_clock ops (snd (t_clock ops w)))) = (Inr sr, w3)"
            using g Inr by (simp add: t0 t1)
          ultimately show ?thesis unfolding good_def by blast
        qed
      qed
    qed
  qed
qed

text \<open>
  C17: a delivery opens sockets only to the address and the port that the SSRF guard returned for its URL, and
  wraps each of them by TLS for the host name the guard returned, under a context that verifies
  certificates and host names; a request is sent only over a connection that was just made that
  way. Where a connection factory is injected, it is asked for that address, host name and port, and
  requests go over the connections it makes. Logging changes nothing.
\<close>

theorem send_only_pinned:
  assumes "send (logged ops) url body secret key (w, []) = (r, w', l)"
  shows "send ops url body secret key w = (r, w')
    \<and> (contacts l = [] \<or> (\<exists>sr v. t_guard ops url (snd (t_clock ops (snd (t_clock ops w)))) = (Inr sr, v) \<and> pinned_log sr l))"
  using send_logged [OF assms] by blast


section \<open>A scripted network\<close>

text \<open>The world is the time and the outcomes to come: of each connection and of each exchange.\<close>

type_synonym script = "int \<times> ((conn_error + unit) \<times> int) list \<times> ((conn_error + http_response) \<times> int) list"

fun scripted_connect :: "int \<Rightarrow> script \<Rightarrow> (conn_error + nat) \<times> script" where
  "scripted_connect timeout (t, [], xs) = (Inl Refused, t, [], xs)"
| "scripted_connect timeout (t, (a, d) # cs, xs) =
     (if timeout < d then (Inl TimedOut, t + timeout, cs, xs)
      else (case a of Inl e \<Rightarrow> Inl e | Inr _ \<Rightarrow> Inr (length cs), t + d, cs, xs))"

fun scripted_exchange :: "int \<Rightarrow> script \<Rightarrow> (conn_error + http_response) \<times> script" where
  "scripted_exchange timeout (t, cs, []) = (Inl (OtherConn ''closed''), t, cs, [])"
| "scripted_exchange timeout (t, cs, (a, d) # xs) =
     (if timeout < d then (Inl TimedOut, t + timeout, cs, xs) else (a, t + d, cs, xs))"

definition sample_target :: ssrf_result where
  "sample_target = \<lparr>sr_target = ''93.184.216.34'', sr_hostname = ''h.dev'', sr_port = 443,
     sr_endpoint = ''https://h.dev/x'', sr_all = [''93.184.216.34'']\<rparr>"

definition sample_transport :: "script transport" where
  "sample_transport =
     \<lparr>t_clock = (\<lambda>w. (fst w, w)), t_guard = (\<lambda>u (t, s). (Inr sample_target, t + 40, s)), t_context = None,
      t_socket = (\<lambda>ip p. scripted_connect), t_wrap = (\<lambda>c s h w. (Inr s, w)), t_factory = None, t_join = (\<lambda>c w. (Inr (), w)),
      t_exchange = (\<lambda>ch rq. scripted_exchange),
      t_sleep = (\<lambda>d (t, s). (t + d, s)), t_close = (\<lambda>w. w), t_bracket = (\<lambda>n. False), t_hmac = (\<lambda>k b. b)\<rparr>"

definition sample_script :: script where
  "sample_script = (0, [(Inr (), 20), (Inr (), 10)],
     [(Inr \<lparr>h_status = 503, h_retry_after = None\<rparr>, 30), (Inr \<lparr>h_status = 204, h_retry_after = None\<rparr>, 30)])"

lemma sample_endpoint: "urlsplit (\<lambda>n. False) ''https://h.dev/x''
    = Inr \<lparr>u_scheme = ''https'', u_netloc = ''h.dev'', u_path = ''/x'', u_query = []\<rparr>"
  by (simp add: urlsplit_def split_scheme_def split_netloc_def partition_at_def split_once_def scheme_char_def
      is_alpha_def netloc_end_def code_of_def py_lower_def lower_char_def)

definition sample_delivered :: client_result where
  "sample_delivered = \<lparr>c_success = True, c_status = DELIVERY_SUCCESS, c_status_code = Some 204, c_error = None,
     c_duration = 1130, c_attempts = 2, c_target_ip = Some ''93.184.216.34''\<rparr>"

lemma sample_judge:
  "judge \<lparr>h_status = 503, h_retry_after = None\<rparr> = RetryIf 1000 1000 HTTP_SERVER_ERROR (''HTTP '' @ int_str 503)"
  "judge \<lparr>h_status = 204, h_retry_after = None\<rparr> = Success"
  by (simp_all add: judge_def redirect_codes_def retry_backoff_def)

lemma sample_attempts:
  "attempt_loop sample_transport 0 sample_target rq 2 0 (40, snd sample_script) = (sample_delivered, (1130, [], []))"
  by (simp add: attempt_loop.simps numeral_2_eq_2 one_attempt_def after_connect_def on_response_def sample_judge
      retry_or_def remaining_def fail_now_def pinned_context_def pinned_connect_def sample_transport_def sample_target_def
      sample_script_def overall_budget_def max_delivery_attempts_def sample_delivered_def)

lemma sample_send:
  "send sample_transport ''https://h.dev/x'' body None ''k'' sample_script = (Inr sample_delivered, (1130, [], []))"
proof -
  have fields: "t_clock sample_transport = (\<lambda>w. (fst w, w))" "t_bracket sample_transport = (\<lambda>n. False)"
    "t_guard sample_transport = (\<lambda>u (t, s). (Inr sample_target, t + 40, s))"
    by (simp_all add: sample_transport_def)
  have start: "sample_script = (0, snd sample_script)" by (simp add: sample_script_def)
  show ?thesis
    by (subst start) (simp add: send_def remaining_def fields overall_budget_def sample_endpoint
        max_delivery_attempts_def sample_attempts del: attempt_loop.simps)
qed

theorem send_result_consistent_witness:
  "client_result_ok sample_delivered \<and> c_attempts sample_delivered \<le> max_delivery_attempts"
  by (rule send_result_consistent [OF sample_send])

text \<open>The log of the delivery: a server error, a pause of one second, and the answer of the second attempt.\<close>

definition sample_context :: tls_context where
  "sample_context = \<lparr>tls_cert_none = False, tls_check_hostname = True\<rparr>"

definition sample_log :: "http_request \<Rightarrow> net_event list" where
  "sample_log rq =
     [Told 0, Told 0, Told 40,
      Told 40, Opened ''93.184.216.34'' 443 3000 (Some 1), Wrapped sample_context 1 ''h.dev'' (Some 1),
      Told 60, Exchanged (Wire 1) rq 5000, Told 90, Slept 1000,
      Told 1090, Opened ''93.184.216.34'' 443 3000 (Some 0), Wrapped sample_context 0 ''h.dev'' (Some 0),
      Told 1100, Exchanged (Wire 0) rq 5000, Told 1130]"

definition sample_request :: "string \<Rightarrow> http_request" where
  "sample_request body = \<lparr>q_path = ''/x'', q_headers = request_headers (\<lambda>k b. b) None ''k'' body, q_body = body\<rparr>"

lemma sample_logged_attempts:
  "attempt_loop (logged sample_transport) 0 sample_target rq 2 0 ((40, snd sample_script), [Told 0, Told 0, Told 40])
     = (sample_delivered, (1130, [], []), sample_log rq)"
  by (simp add: attempt_loop.simps numeral_2_eq_2 one_attempt_def after_connect_def on_response_def sample_judge
      retry_or_def remaining_def fail_now_def pinned_context_def pinned_connect_def sample_transport_def sample_target_def
      sample_script_def overall_budget_def max_delivery_attempts_def sample_delivered_def logged_def answered_def
      sample_log_def sample_context_def)

lemma sample_logged:
  "send (logged sample_transport) ''https://h.dev/x'' body None ''k'' (sample_script, [])
     = (Inr sample_delivered, (1130, [], []), sample_log (sample_request body))"
proof -
  have fields: "t_clock (logged sample_transport) = (\<lambda>(w, l). (fst w, w, l @ [Told (fst w)]))"
    "t_bracket sample_transport = (\<lambda>n. False)" "t_hmac sample_transport = (\<lambda>k b. b)"
    "t_guard (logged sample_transport) = (\<lambda>u ((t, s), l). (Inr sample_target, (t + 40, s), l))"
    by (simp_all add: logged_def sample_transport_def fun_eq_iff split: prod.split)
  have start: "sample_script = (0, snd sample_script)" by (simp add: sample_script_def)
  have rq: "\<lparr>q_path = request_path \<lparr>u_scheme = ''https'', u_netloc = ''h.dev'', u_path = ''/x'', u_query = []\<rparr>,
      q_headers = request_headers (\<lambda>k b. b) None ''k'' body, q_body = body\<rparr> = sample_request body"
    by (simp add: sample_request_def request_path_def)
  show ?thesis
    by (subst start) (simp add: send_def remaining_def fields overall_budget_def sample_endpoint rq
        max_delivery_attempts_def sample_logged_attempts del: attempt_loop.simps)
qed


theorem send_only_pinned_witness:
  "pinned_log sample_target (sample_log (sample_request []))
   \<and> send sample_transport ''https://h.dev/x'' [] None ''k'' sample_script = (Inr sample_delivered, (1130, [], []))"
proof -
  have "sr = sample_target" if "t_guard sample_transport ''https://h.dev/x'' v = (Inr sr, v')" for v sr v'
    using that by (auto simp: sample_transport_def split: prod.splits)
  moreover have "contacts (sample_log (sample_request [])) \<noteq> []" by (simp add: contacts_def sample_log_def)
  ultimately show ?thesis using send_only_pinned [OF sample_logged [of "[]"]] by blast
qed

end
