(* ===== verification/Webhook_Format.thy ===== *)
theory Webhook_Format
  imports Policy "HOL-Library.Sublist"
begin

text \<open>
  The payload formatters (\<open>webhook_formatters.py\<close>). Their text is not all ASCII (a bullet, a
  dash, the zero-width space that breaks up mentions), so text is here a list of code points;
  payloads are JSON values written without ASCII escaping and encoded as UTF-8.
\<close>

section \<open>Text, JSON and UTF-8\<close>

type_synonym utext = "nat list"

definition u :: "string \<Rightarrow> utext" where
  "u s = map code_of s"

text \<open>\<open>s.replace(p, r)\<close> for a non-empty pattern.\<close>

function replace_all :: "'a list \<Rightarrow> 'a list \<Rightarrow> 'a list \<Rightarrow> 'a list" where
  "replace_all p r [] = []"
| "replace_all p r (x # xs) =
     (if prefix p (x # xs) then r @ replace_all p r (drop (length p - 1) xs) else x # replace_all p r xs)"
  by pat_completeness auto
termination replace_all
  by (relation "measure (\<lambda>(p, r, xs). length xs)") auto

datatype ujson = UNull | UBool bool | UInt int | UStr utext | UArr "ujson list" | UObj "(string \<times> ujson) list"

definition ujson_char :: "nat \<Rightarrow> utext" where
  "ujson_char c =
     (if c = 34 \<or> c = 92 then [92, c]
      else if c = 10 then u [CHR 0x5C, CHR ''n''] else if c = 13 then u [CHR 0x5C, CHR ''r'']
      else if c = 9 then u [CHR 0x5C, CHR ''t''] else if c = 12 then u [CHR 0x5C, CHR ''f'']
      else if c = 8 then u [CHR 0x5C, CHR ''b'']
      else if c < 32 then u ([CHR 0x5C, CHR ''u'', CHR ''0'', CHR ''0''] @ hex2 c)
      else [c])"

definition ujson_str :: "utext \<Rightarrow> utext" where
  "ujson_str s = [34] @ concat (map ujson_char s) @ [34]"

fun ujoin :: "utext \<Rightarrow> utext list \<Rightarrow> utext" where
  "ujoin sep [] = []"
| "ujoin sep [x] = x"
| "ujoin sep (x # y # ys) = x @ sep @ ujoin sep (y # ys)"

fun ujson_dumps :: "ujson \<Rightarrow> utext" where
  "ujson_dumps UNull = u ''null''"
| "ujson_dumps (UBool b) = u (if b then ''true'' else ''false'')"
| "ujson_dumps (UInt i) = u (int_str i)"
| "ujson_dumps (UStr s) = ujson_str s"
| "ujson_dumps (UArr vs) = u ''['' @ ujoin (u '', '') (map ujson_dumps vs) @ u '']''"
| "ujson_dumps (UObj m) =
     u ''{'' @ ujoin (u '', '') (map (\<lambda>(k, v). ujson_str (u k) @ u '': '' @ ujson_dumps v) m) @ u ''}''"

definition utf8_char :: "nat \<Rightarrow> nat list" where
  "utf8_char c =
     (if c < 128 then [c]
      else if c < 2048 then [192 + c div 64, 128 + c mod 64]
      else if c < 65536 then [224 + c div 4096, 128 + c div 64 mod 64, 128 + c mod 64]
      else [240 + c div 262144, 128 + c div 4096 mod 64, 128 + c div 64 mod 64, 128 + c mod 64])"

definition utf8_encode :: "utext \<Rightarrow> nat list" where
  "utf8_encode s = concat (map utf8_char s)"

section \<open>Escaping\<close>

definition escape_slack_text :: "utext \<Rightarrow> utext" where
  "escape_slack_text t =
     (if t = [] then []
      else replace_all (u ''>'') (u ''&gt;'') (replace_all (u ''<'') (u ''&lt;'') (replace_all (u ''&'') (u ''&amp;'') t)))"

definition zwsp :: nat where
  "zwsp = 0x200B"

definition escape_discord_text :: "utext \<Rightarrow> utext" where
  "escape_discord_text t =
     (if t = [] then []
      else replace_all (u ''<@&'') (u ''<'' @ [zwsp] @ u ''@&'')
            (replace_all (u ''<@'') (u ''<'' @ [zwsp] @ u ''@'')
              (replace_all (u ''@here'') (u ''@'' @ [zwsp] @ u ''here'')
                (replace_all (u ''@everyone'') (u ''@'' @ [zwsp] @ u ''everyone'') t))))"

section \<open>Payloads\<close>

definition max_webhook_payload_bytes :: nat where
  "max_webhook_payload_bytes = 65536"

definition ustr :: "string \<Rightarrow> ujson" where
  "ustr s = UStr (u s)"

definition uopt_int :: "int option \<Rightarrow> ujson" where
  "uopt_int v = (case v of Some i \<Rightarrow> UInt i | None \<Rightarrow> UNull)"

definition uopt_str :: "string option \<Rightarrow> ujson" where
  "uopt_str v = (case v of Some s \<Rightarrow> ustr s | None \<Rightarrow> UNull)"

definition generic_finding :: "safe_finding \<Rightarrow> ujson" where
  "generic_finding f = UObj [(''rule_id'', ustr (sf_rule_id f)), (''cwe'', ustr (sf_cwe f)),
     (''severity'', ustr (severity_value (sf_severity f))), (''file_path'', ustr (sf_file_path f)),
     (''line'', uopt_int (sf_line f)), (''message'', ustr (sf_message f))]"

definition generic_payload :: "intent \<Rightarrow> ujson" where
  "generic_payload i = UObj [(''schema_version'', UInt 1), (''event_id'', ustr (i_event_id i)),
     (''scan_id'', ustr (i_scan_id i)), (''organization_id'', UInt (i_org i)),
     (''notification_type'', ustr (i_type i)), (''severity'', ustr (severity_value (i_severity i))),
     (''title'', ustr (i_title i)), (''message'', ustr (i_message i)), (''link'', uopt_str (i_link i)),
     (''created_at'', ustr (i_created_at i)), (''findings_truncated'', UBool (i_truncated i)),
     (''total_findings'', UInt (int (i_total i))), (''findings'', UArr (map generic_finding (i_findings i)))]"

definition mrkdwn :: "utext \<Rightarrow> ujson" where
  "mrkdwn t = UObj [(''type'', ustr ''mrkdwn''), (''text'', UStr t)]"

definition section_block :: "utext \<Rightarrow> ujson" where
  "section_block t = UObj [(''type'', ustr ''section''), (''text'', mrkdwn t)]"

text \<open>\<open>f":{finding.line}" if finding.line else ""\<close>\<close>

definition line_suffix :: "safe_finding \<Rightarrow> utext" where
  "line_suffix f = (case sf_line f of Some l \<Rightarrow> if l = 0 then [] else u '':'' @ u (int_str l) | None \<Rightarrow> [])"

definition slack_finding :: "safe_finding \<Rightarrow> utext" where
  "slack_finding f =
     take 2000 ([0x2022] @ u '' *'' @ escape_slack_text (u (sf_rule_id f)) @ u ''* ('' @ escape_slack_text (u (sf_cwe f)) @ u '') [''
       @ u (severity_value (sf_severity f)) @ u '']'' @ [10] @ u ''  `'' @ escape_slack_text (u (sf_file_path f)) @ line_suffix f
       @ u ''` '' @ [0x2014] @ u '' '' @ escape_slack_text (u (sf_message f)))"

text \<open>The loop over the findings, which stops once there are fourteen blocks.\<close>

fun slack_blocks :: "safe_finding list \<Rightarrow> ujson list \<Rightarrow> ujson list" where
  "slack_blocks [] blocks = blocks"
| "slack_blocks (f # fs) blocks =
     (let b = blocks @ [section_block (slack_finding f)] in if 14 \<le> length b then b else slack_blocks fs b)"

definition slack_payload :: "intent \<Rightarrow> ujson" where
  "slack_payload i =
     (let title = take 2000 (escape_slack_text (u (i_title i)));
          msg = take 2000 (escape_slack_text (u (i_message i)));
          sev = escape_slack_text (u (severity_value (i_severity i)));
          header = UObj [(''type'', ustr ''header''), (''text'', UObj [(''type'', ustr ''plain_text''),
            (''text'', UStr (take 150 title)), (''emoji'', UBool True)])];
          blocks = slack_blocks (take 10 (i_findings i))
            [header, section_block (u ''*Severity:* `'' @ sev @ u ''`'' @ [10] @ msg)];
          more = (if i_truncated i \<or> length (i_findings i) < i_total i
            then [UObj [(''type'', ustr ''context''), (''elements'', UArr [mrkdwn (u ''Showing '' @ u (nat_str (length (i_findings i)))
                    @ u '' of '' @ u (nat_str (i_total i)) @ u '' findings. View full scan in dashboard.'')])]]
            else [])
      in UObj [(''text'', UStr (take 2000 title)), (''blocks'', UArr (take 15 (blocks @ more)))])"

definition severity_color :: "severity \<Rightarrow> int" where
  "severity_color s =
     (case s of CRITICAL \<Rightarrow> 0xFF0000 | HIGH \<Rightarrow> 0xFF5500 | MEDIUM \<Rightarrow> 0xFFAA00 | LOW \<Rightarrow> 0x00AAFF | INFO \<Rightarrow> 0x888888)"

definition discord_field :: "utext \<Rightarrow> utext \<Rightarrow> bool \<Rightarrow> ujson" where
  "discord_field name val inline = UObj [(''name'', UStr name), (''value'', UStr val), (''inline'', UBool inline)]"

definition discord_finding :: "safe_finding \<Rightarrow> ujson" where
  "discord_finding f = discord_field
     (take 64 (escape_discord_text (u (sf_rule_id f))) @ u '' ['' @ u (severity_value (sf_severity f)) @ u '']'')
     (u ''`'' @ take 128 (escape_discord_text (u (sf_file_path f))) @ line_suffix f @ u ''`'' @ [10]
       @ take 255 (escape_discord_text (u (sf_message f)))) False"

definition discord_payload :: "intent \<Rightarrow> ujson" where
  "discord_payload i =
     (let title = take 250 (escape_discord_text (u (i_title i)));
          desc = take 2000 (escape_discord_text (u (i_message i)));
          fields = [discord_field (u ''Severity'') (u ''`'' @ u (severity_value (i_severity i)) @ u ''`'') True,
                    discord_field (u ''Total Findings'') (u (nat_str (i_total i))) True]
                   @ map discord_finding (take 5 (i_findings i));
          url = (case i_link i of Some l \<Rightarrow> if l = [] then [] else [(''url'', ustr l)] | None \<Rightarrow> []);
          embed = UObj ([(''title'', UStr title), (''description'', UStr desc),
            (''color'', UInt (severity_color (i_severity i))), (''fields'', UArr fields)] @ url)
      in UObj [(''content'', UStr (take 2000 title)), (''text'', UStr (take 2000 title)), (''embeds'', UArr [embed])])"

datatype format_error = PayloadTooLarge nat

definition sized :: "ujson \<Rightarrow> format_error + nat list" where
  "sized v = (let b = utf8_encode (ujson_dumps v)
     in if max_webhook_payload_bytes < length b then Inl (PayloadTooLarge (length b)) else Inr b)"

definition format_webhook_payload :: "intent \<Rightarrow> string \<Rightarrow> format_error + nat list" where
  "format_webhook_payload i format_type =
     (let fmt = py_strip (py_upper format_type)
      in if fmt = ''SLACK'' then sized (slack_payload i)
         else if fmt = ''DISCORD'' then sized (discord_payload i)
         else sized (generic_payload i))"

section \<open>Breaking up mentions\<close>

text \<open>\<open>ys\<close> is \<open>xs\<close> with copies of \<open>z\<close> inserted.\<close>

inductive inserts :: "'a \<Rightarrow> 'a list \<Rightarrow> 'a list \<Rightarrow> bool" for z where
  none: "inserts z [] []"
| keep: "inserts z xs ys \<Longrightarrow> inserts z (x # xs) (x # ys)"
| put: "inserts z xs ys \<Longrightarrow> inserts z xs (z # ys)"

inductive_cases inserts_ConsE: "inserts z xs (y # ys)"

lemma inserts_refl: "inserts z xs xs"
  by (induction xs) (auto intro: inserts.intros)

lemma inserts_append: "inserts z a b \<Longrightarrow> inserts z c d \<Longrightarrow> inserts z (a @ c) (b @ d)"
  by (induction rule: inserts.induct) (auto intro: inserts.intros)

lemma inserts_prefix: "inserts z xs ys \<Longrightarrow> z \<notin> set p \<Longrightarrow> prefix p ys \<Longrightarrow> prefix p xs"
proof (induction p arbitrary: xs ys)
  case (Cons c p)
  then obtain ys' where "ys = c # ys'" "prefix p ys'" by (cases ys) auto
  with Cons show ?case by (auto elim!: inserts_ConsE)
qed simp

lemma inserts_sublist: "inserts z xs ys \<Longrightarrow> z \<notin> set p \<Longrightarrow> sublist p ys \<Longrightarrow> sublist p xs"
proof (induction rule: inserts.induct)
  case (keep xs ys x)
  then have "prefix p (x # xs) \<or> sublist p xs"
    using inserts_prefix [OF inserts.keep [OF keep.hyps]] by (auto simp: sublist_Cons_right)
  then show ?case by (auto simp: sublist_Cons_right)
next
  case (put xs ys)
  then show ?case
    by (cases p) (auto simp: sublist_Cons_right)
qed simp

lemma replace_all_inserts: "p \<noteq> [] \<Longrightarrow> inserts z p r \<Longrightarrow> inserts z xs (replace_all p r xs)"
proof (induction p r xs rule: replace_all.induct)
  case (2 p r x xs)
  show ?case
  proof (cases "prefix p (x # xs)")
    case True
    with \<open>p \<noteq> []\<close> have "x # xs = p @ drop (length p - 1) xs" by (cases p) (auto simp: prefix_def)
    with 2 True show ?thesis by (metis inserts_append replace_all.simps(2))
  qed (use 2 in \<open>auto intro: inserts.keep\<close>)
qed (simp add: inserts.none)

text \<open>A pattern whose first character does not recur is gone once each occurrence is broken up.\<close>

lemma replace_all_removes:
  assumes "a \<notin> set q" "q \<noteq> []" "z \<notin> set (a # q)"
  shows "\<not> sublist (a # q) (replace_all (a # q) (a # z # q) xs)"
proof (induction "a # q" "a # z # q" xs rule: replace_all.induct)
  case (2 x xs)
  have ins: "inserts z (a # q) (a # z # q)" by (intro inserts.intros inserts_refl)
  have skip: "sublist (a # q) (w @ v) \<Longrightarrow> a \<notin> set w \<Longrightarrow> sublist (a # q) v" for w v
    by (induction w) (auto simp: sublist_Cons_right)
  show ?case
  proof (cases "prefix (a # q) (x # xs)")
    case True
    let ?rest = "replace_all (a # q) (a # z # q) (drop (length (a # q) - 1) xs)"
    have "\<not> prefix (a # q) (a # z # q @ ?rest)"
      using assms by (cases q) auto
    moreover have "\<not> sublist (a # q) ((z # q) @ ?rest)"
      using skip [of "z # q" ?rest] assms 2 True by auto
    ultimately show ?thesis
      using True by (simp add: sublist_Cons_right)
  next
    case False
    have "inserts z (x # xs) (x # replace_all (a # q) (a # z # q) xs)"
      by (intro inserts.keep replace_all_inserts ins) simp
    from inserts_prefix [OF this assms(3)] False
    have "\<not> prefix (a # q) (x # replace_all (a # q) (a # z # q) xs)" by (rule contrapos_nn [rotated])
    moreover from False have "replace_all (a # q) (a # z # q) (x # xs) = x # replace_all (a # q) (a # z # q) xs"
      by (simp only: replace_all.simps if_False)
    ultimately show ?thesis using 2(2) [OF False] by (simp only: sublist_Cons_right simp_thms)
  qed
qed simp

definition discord_mentions :: "utext list" where
  "discord_mentions = [u ''@everyone'', u ''@here'', u ''<@'']"

definition mention_free :: "utext \<Rightarrow> bool" where
  "mention_free t \<longleftrightarrow> (\<forall>m \<in> set discord_mentions. \<not> sublist m t)"

lemma mention_codes:
  "u ''@everyone'' = 64 # [101, 118, 101, 114, 121, 111, 110, 101]" "u ''@here'' = 64 # [104, 101, 114, 101]"
  "u ''<@'' = 60 # [64]" "u ''<@&'' = 60 # [64, 38]" "u ''<'' = [60]" "u ''@'' = [64]" "u ''@&'' = [64, 38]"
  "u ''here'' = [104, 101, 114, 101]" "u ''everyone'' = [101, 118, 101, 114, 121, 111, 110, 101]"
  by (simp_all add: u_def code_of_def)

lemma replace_keeps_free:
  assumes "\<not> sublist m t" "z \<notin> set m"
  shows "\<not> sublist m (replace_all (c # q) (c # z # q) t)"
proof -
  have "inserts z (c # q) (c # z # q)" by (intro inserts.intros inserts_refl)
  then have "inserts z t (replace_all (c # q) (c # z # q) t)" by (rule replace_all_inserts [rotated]) simp
  from inserts_sublist [OF this assms(2)] assms(1) show ?thesis by auto
qed

lemma escape_discord_free: "mention_free (escape_discord_text t)"
proof (cases "t = []")
  case True
  then show ?thesis by (simp add: escape_discord_text_def mention_free_def discord_mentions_def mention_codes)
next
  case False
  define everyone here where "everyone = [101, 118, 101, 114, 121, 111, 110, 101 :: nat]" and "here = [104, 101, 114, 101 :: nat]"
  define e where "e = replace_all (64 # everyone) (64 # zwsp # everyone) t"
  define h where "h = replace_all (64 # here) (64 # zwsp # here) e"
  define l where "l = replace_all (60 # [64]) (60 # zwsp # [64]) h"
  have clean: "zwsp \<notin> set (64 # everyone)" "zwsp \<notin> set (64 # here)" "zwsp \<notin> set [60, 64]"
    by (simp_all add: everyone_def here_def zwsp_def)
  have esc: "escape_discord_text t = replace_all (60 # [64, 38]) (60 # zwsp # [64, 38]) l"
    using False by (simp add: escape_discord_text_def mention_codes e_def h_def l_def everyone_def here_def)
  have "\<not> sublist (64 # everyone) e" "\<not> sublist (64 # here) h" "\<not> sublist [60, 64] l"
    unfolding e_def h_def l_def using clean by (intro replace_all_removes; simp add: everyone_def here_def)+
  moreover from this have "\<not> sublist (64 # everyone) l" "\<not> sublist (64 # here) l"
    unfolding h_def l_def using clean by (simp_all only: replace_keeps_free not_False_eq_True)
  ultimately have "\<not> sublist m (escape_discord_text t)" if "m \<in> {64 # everyone, 64 # here, [60, 64]}" for m
    unfolding esc using clean that
    by (elim insertE emptyE; simp only: replace_keeps_free not_False_eq_True)
  then show ?thesis
    by (simp add: mention_free_def discord_mentions_def mention_codes everyone_def here_def)
qed

section \<open>What the payloads show\<close>

text \<open>The texts of a payload, the members named \<open>url\<close> apart.\<close>

fun texts_of :: "ujson \<Rightarrow> utext list" where
  "texts_of (UStr s) = [s]"
| "texts_of (UArr vs) = concat (map texts_of vs)"
| "texts_of (UObj m) = concat (map (\<lambda>(k, v). if k = ''url'' then [] else texts_of v) m)"
| "texts_of v = []"

lemma prefix_split: "prefix p (a @ c # b) \<Longrightarrow> c \<notin> set p \<Longrightarrow> prefix p a"
proof (induction p arbitrary: a)
  case (Cons x p)
  show ?case
  proof (cases a)
    case (Cons y a')
    with Cons.prems Cons.IH [of a'] show ?thesis by simp
  qed (use Cons.prems in simp)
qed simp

lemma sublist_split: "sublist p (a @ c # b) \<Longrightarrow> c \<notin> set p \<Longrightarrow> sublist p a \<or> sublist p b"
proof (induction a)
  case Nil
  then show ?case by (cases p) (auto simp: sublist_Cons_right)
next
  case (Cons x a)
  then have "prefix p ((x # a) @ c # b) \<or> sublist p (a @ c # b)"
    by (simp only: append_Cons sublist_Cons_right)
  then show ?case
    using prefix_split [OF _ Cons.prems(2), of "x # a" b] Cons.IH [OF _ Cons.prems(2)]
    by (auto simp only: sublist_Cons_right)
qed

definition neutral :: "nat \<Rightarrow> bool" where
  "neutral c = (c \<notin> set (concat discord_mentions))"

lemma mention_free_sep: "mention_free a \<Longrightarrow> neutral c \<Longrightarrow> mention_free b \<Longrightarrow> mention_free (a @ c # b)"
  using sublist_split [of _ a c b] unfolding mention_free_def neutral_def by auto

lemma mention_free_Cons: "neutral c \<Longrightarrow> mention_free b \<Longrightarrow> mention_free (c # b)"
  using mention_free_sep [of "[]" c b] by (simp add: mention_free_def discord_mentions_def mention_codes)

lemma mention_free_Nil [simp]: "mention_free []"
  by (simp add: mention_free_def discord_mentions_def mention_codes)

lemma mention_free_take: "mention_free t \<Longrightarrow> mention_free (take n t)"
  unfolding mention_free_def using sublist_order.order_trans [OF _ prefix_imp_sublist [OF take_is_prefix]] by blast

lemma mention_free_no_at: "64 \<notin> set t \<Longrightarrow> mention_free t"
  unfolding mention_free_def discord_mentions_def mention_codes by (auto dest!: set_mono_sublist)

lemma neutral_codes: "neutral c \<longleftrightarrow> c \<notin> {64, 101, 118, 114, 121, 111, 110, 104, 60}"
  by (auto simp: neutral_def discord_mentions_def mention_codes)

lemma digits_codes: "c \<in> set (u (nat_str n)) \<Longrightarrow> 48 \<le> c \<and> c < 58"
  by (induction n rule: nat_str.induct)
    (subst (asm) (2) nat_str.simps, auto simp: u_def digit_char_def code_of_def take_bit_eq_mod split: if_splits)

lemma nat_text_free [simp]: "mention_free (u (nat_str n))"
  using digits_codes by (intro mention_free_no_at) fastforce

lemma line_suffix_free:
  assumes "mention_free a" "mention_free t"
  shows "mention_free (a @ line_suffix f @ 96 # t)"
proof (cases "line_suffix f = []")
  case True
  with assms show ?thesis by (simp add: mention_free_sep neutral_codes)
next
  case False
  have "64 \<notin> set (u (int_str l))" for l
    using digits_codes [of 64] by (auto simp: int_str_def u_def code_of_def)
  with False obtain d where "line_suffix f = 58 # d" "mention_free d"
    by (auto simp: line_suffix_def u_def [of "'':''"] code_of_def split: option.splits if_splits
        intro: mention_free_no_at)
  with assms show ?thesis by (simp add: mention_free_sep neutral_codes)
qed

lemma severity_free: "mention_free (u (severity_value s))"
  by (cases s; auto intro!: mention_free_no_at simp: u_def code_of_def)

lemma severity_texts [simp]:
  "mention_free (u (severity_value s))" "neutral c \<Longrightarrow> mention_free (u (severity_value s) @ [c])"
  using severity_free mention_free_sep [of "u (severity_value s)" c "[]"] by auto

lemma escaped_free [simp]: "mention_free (take n (escape_discord_text t))"
  by (simp add: mention_free_take escape_discord_free)

lemma discord_finding_free: "t \<in> set (texts_of (discord_finding f)) \<Longrightarrow> mention_free t"
  by (auto simp: discord_finding_def discord_field_def u_def [of "'' [''"] u_def [of "'']''"] u_def [of "''`''"]
      code_of_def neutral_codes intro!: line_suffix_free mention_free_sep mention_free_Cons)

text \<open>
  No text of a Discord payload holds a live mention, \<open>@everyone\<close>, \<open>@here\<close> or the opening
  of a user or role mention, whatever the title, the message and the findings of the intent
  say; the link alone is passed on as it is.
\<close>

theorem discord_mentions_neutralized: "t \<in> set (texts_of (discord_payload i)) \<Longrightarrow> mention_free t"
proof -
  have fixed: "mention_free (u ''Severity'')" "mention_free (u ''Total Findings'')"
    by (auto intro!: mention_free_no_at simp: u_def code_of_def)
  have quoted: "mention_free (u ''`'' @ u (severity_value s) @ u ''`'')" for s
    by (auto intro!: mention_free_Cons simp: u_def [of "''`''"] code_of_def neutral_codes)
  assume "t \<in> set (texts_of (discord_payload i))"
  then show ?thesis
    using fixed quoted discord_finding_free
    by (auto simp: discord_payload_def Let_def discord_field_def mention_free_take split: option.splits if_splits)
qed

section \<open>Slack payloads\<close>

lemma replace_all_single: "replace_all [c] r xs = concat (map (\<lambda>x. if x = c then r else [x]) xs)"
  by (induction "[c]" r xs rule: replace_all.induct) auto

definition plain :: "utext \<Rightarrow> bool" where
  "plain t \<longleftrightarrow> 60 \<notin> set t \<and> 62 \<notin> set t"

lemma plain_append [simp]: "plain (a @ b) \<longleftrightarrow> plain a \<and> plain b"
  by (auto simp: plain_def)

lemma plain_take [intro]: "plain t \<Longrightarrow> plain (take n t)"
  by (auto simp: plain_def dest: in_set_takeD)

lemma plain_code [simp]: "plain [] = True" "plain (c # t) = (c \<noteq> 60 \<and> c \<noteq> 62 \<and> plain t)"
  by (auto simp: plain_def)

lemma u_Cons [simp]: "u [] = []" "u (c # s) = code_of c # u s"
  by (simp_all add: u_def)

lemma slack_escape_plain [simp]: "plain (escape_slack_text t)"
  by (auto simp: plain_def escape_slack_text_def replace_all_single code_of_def)

lemma plain_digits [simp]: "plain (u (nat_str n))"
  using digits_codes [of 60] digits_codes [of 62] by (auto simp: plain_def)

lemma plain_line [simp]: "plain (line_suffix f)"
  by (auto simp: line_suffix_def int_str_def code_of_def split: option.split)

lemma plain_severity [simp]: "plain (u (severity_value s))"
  by (cases s) (simp_all add: code_of_def)

lemma slack_finding_plain: "plain (slack_finding f)" "length (slack_finding f) \<le> 2000"
  by (auto simp: slack_finding_def code_of_def)

text \<open>Ten findings never reach the bound of the loop.\<close>

lemma slack_blocks_all:
  "length blocks + length fs < 14 \<Longrightarrow> slack_blocks fs blocks = blocks @ map (\<lambda>f. section_block (slack_finding f)) fs"
  by (induction fs arbitrary: blocks) (auto simp: Let_def)

lemma section_texts: "texts_of (section_block t) = [u ''section'', u ''mrkdwn'', t]"
  by (simp add: section_block_def mrkdwn_def ustr_def)

text \<open>A text a block may hold; only the count of findings is not bounded.\<close>

definition slack_text_ok :: "utext \<Rightarrow> bool" where
  "slack_text_ok t \<longleftrightarrow> plain t \<and> (length t \<le> 3000 \<or> prefix (u ''Showing '') t)"

text \<open>
  A Slack payload keeps to the limits and cannot mention anybody: the fallback text has at
  most 2000 characters, there are between two and thirteen blocks, no text of the payload
  holds an angle bracket, and every text has at most 3000 characters, the line that counts
  the findings apart.
\<close>

theorem slack_payload_limits:
  "\<exists>t bs. slack_payload i = UObj [(''text'', UStr t), (''blocks'', UArr bs)]
     \<and> length t \<le> 2000 \<and> 2 \<le> length bs \<and> length bs \<le> 13 \<and> list_all slack_text_ok (texts_of (slack_payload i))"
proof -
  let ?esc = "escape_slack_text"
  have sev: "length (?esc (u (severity_value s))) \<le> 8" for s
    by (cases s) (simp_all add: escape_slack_text_def replace_all_single code_of_def)
  have head: "slack_text_ok (take n (?esc t))" if "n \<le> 3000" for n t
    using that by (auto simp: slack_text_ok_def)
  have sec: "slack_text_ok (u ''*Severity:* `'' @ ?esc (u (severity_value s)) @ u ''`'' @ [10] @ take 2000 (?esc t))" for s t
    using sev [of s] by (auto simp: slack_text_ok_def code_of_def)
  have finding: "slack_text_ok (slack_finding f)" for f
    using slack_finding_plain [of f] by (simp add: slack_text_ok_def)
  have fixed: "slack_text_ok (u t)" if "t \<in> {''header'', ''plain_text'', ''section'', ''mrkdwn'', ''context''}" for t
    using that by (auto simp: slack_text_ok_def code_of_def)
  have showing: "slack_text_ok (u ''Showing '' @ u (nat_str n) @ u '' of '' @ u (nat_str m) @ u '' findings. View full scan in dashboard.'')" for n m
    by (simp add: slack_text_ok_def code_of_def)
  show ?thesis
    using head sec finding fixed showing
    by (simp add: slack_payload_def Let_def slack_blocks_all section_texts mrkdwn_def ustr_def list_all_iff
        del: u_Cons) auto
qed

text \<open>The size ceiling holds for every format; nothing else makes formatting fail.\<close>

lemma format_sized: "\<exists>v. format_webhook_payload i fmt = sized v"
  by (auto simp: format_webhook_payload_def Let_def)

lemma format_Inr: "format_webhook_payload i fmt = Inr b \<Longrightarrow> length b \<le> max_webhook_payload_bytes"
  using format_sized [of i fmt] by (auto simp: sized_def Let_def split: if_splits)

section \<open>A sample\<close>

definition sample_alert :: intent where
  "sample_alert = \<lparr>i_id = ''a'', i_event_id = ''e'', i_scan_id = ''s'', i_dedupe = ''d'', i_type = ''t'', i_severity = HIGH,
     i_scope = ORGANIZATION, i_org = 7, i_user = None, i_title = ''<@1> hi'', i_message = ''m'', i_link = Some ''/s'',
     i_channel = WEBHOOK, i_created_at = ''n'', i_findings = [], i_truncated = False, i_total = 0\<rparr>"

theorem discord_mentions_neutralized_witness: "mention_free (u ''<'' @ [zwsp] @ u ''@1> hi'')"
proof (rule discord_mentions_neutralized [of _ sample_alert])
  have "escape_discord_text (u (i_title sample_alert)) = u ''<'' @ [zwsp] @ u ''@1> hi''"
    by (simp add: sample_alert_def escape_discord_text_def code_of_def)
  then show "u ''<'' @ [zwsp] @ u ''@1> hi'' \<in> set (texts_of (discord_payload sample_alert))"
    by (simp add: discord_payload_def Let_def)
qed

end
