(* ===== verification/Webhook_Queue.thy ===== *)
theory Webhook_Queue
  imports Webhook_Client Webhook_Format "HOL-Library.Multiset"
begin

text \<open>
  The bounded delivery queue, its workers and its shutdown, and the adapter in front of them
  (\<open>webhook_adapter.py\<close>). The queue is a state machine: what the lock or one queue operation
  makes atomic is one step, and the steps of callers, workers and the thread that shuts down
  interleave freely. Two fields are history variables: the tasks submitted, and with every
  recorded result the task it is for.
\<close>

section \<open>Tasks and results\<close>

record destination =
  wd_id :: string
  wd_org :: int
  wd_url :: string
  wd_secret :: "string option"
  wd_format :: string

definition mk_destination :: "destination \<Rightarrow> error + destination" where
  "mk_destination d =
     res_bind (ensure (0 < wd_org d) (ValueError ''organization_id'')) (\<lambda>_.
     res_bind (ensure (wd_url d \<noteq> []) (ValueError ''url'')) (\<lambda>_. Inr d))"

record webhook_task =
  wt_intent :: intent
  wt_dest :: destination
  wt_key :: string
  wt_payload :: "nat list"

text \<open>A result without a delivery: the shape every rejection in the file records.\<close>

definition refusal :: "delivery_status \<Rightarrow> string \<Rightarrow> intent \<Rightarrow> string \<Rightarrow> delivery_result" where
  "refusal st msg i key = mk_result
     \<lparr>r_success = False, r_status = st, r_status_code = None, r_error = Some msg, r_duration = 0, r_attempts = 0,
      r_key = key, r_org = i_org i, r_event_id = i_event_id i, r_scan_id = Some (i_scan_id i), r_channel = ''WEBHOOK'',
      r_target_ip = None\<rparr>"

text \<open>What a worker records for a task: the client's result, or the exception it raised.\<close>

definition task_result :: "webhook_task \<Rightarrow> string + client_result \<Rightarrow> delivery_result" where
  "task_result t out =
     (case out of
        Inl e \<Rightarrow> refusal INTERNAL_ERROR (take max_error_message_length (''Internal worker exception: '' @ e)) (wt_intent t) (wt_key t)
      | Inr c \<Rightarrow> mk_result
          \<lparr>r_success = c_success c, r_status = c_status c, r_status_code = c_status_code c, r_error = c_error c,
           r_duration = c_duration c, r_attempts = c_attempts c, r_key = wt_key t, r_org = i_org (wt_intent t),
           r_event_id = i_event_id (wt_intent t), r_scan_id = Some (i_scan_id (wt_intent t)), r_channel = ''WEBHOOK'',
           r_target_ip = c_target_ip c\<rparr>)"

definition execute_delivery :: "'w transport \<Rightarrow> webhook_task \<Rightarrow> 'w \<Rightarrow> (ssrf_error + client_result) \<times> 'w" where
  "execute_delivery ops t w =
     send ops (wd_url (wt_dest t)) (map char_of (wt_payload t)) (wd_secret (wt_dest t)) (wt_key t) w"

section \<open>The service\<close>

datatype worker = Idle | Busy webhook_task | Stopped

text \<open>Where the thread that shuts down is: not begun, draining, sentinels to post, joining.\<close>

datatype phase = Running | Draining | Posting nat | Joining

record service =
  sv_queue :: "webhook_task option list"  \<comment> \<open>\<open>None\<close> is the sentinel\<close>
  sv_max :: nat
  sv_accepting :: bool
  sv_initiated :: bool
  sv_stop :: bool
  sv_workers :: "worker list"
  sv_phase :: phase
  sv_log :: "(webhook_task option \<times> delivery_result) list"
  sv_submitted :: "webhook_task list"

definition new_service :: "nat \<Rightarrow> nat \<Rightarrow> service" where
  "new_service max_workers max_queue =
     \<lparr>sv_queue = [], sv_max = max_queue, sv_accepting = True, sv_initiated = False, sv_stop = False,
      sv_workers = replicate max_workers Idle, sv_phase = Running, sv_log = [], sv_submitted = []\<rparr>"

text \<open>\<open>queue.Full\<close>: a queue of size zero is unbounded.\<close>

definition queue_full :: "service \<Rightarrow> bool" where
  "queue_full s \<longleftrightarrow> 0 < sv_max s \<and> sv_max s \<le> length (sv_queue s)"

definition record_result :: "webhook_task option \<Rightarrow> delivery_result \<Rightarrow> service \<Rightarrow> service" where
  "record_result t r s = s\<lparr>sv_log := sv_log s @ [(t, r)]\<rparr>"

definition record_refusal :: "delivery_status \<Rightarrow> string \<Rightarrow> webhook_task \<Rightarrow> service \<Rightarrow> service" where
  "record_refusal st msg t s = record_result (Some t) (refusal st msg (wt_intent t) (wt_key t)) s"

definition enqueue :: "webhook_task \<Rightarrow> service \<Rightarrow> bool \<times> service" where
  "enqueue t s =
     (let s1 = s\<lparr>sv_submitted := sv_submitted s @ [t]\<rparr> in
      if \<not> sv_accepting s \<or> sv_stop s
      then (False, record_refusal SHUTDOWN_ABORTED ''Submission rejected: delivery service is shutting down'' t s1)
      else if queue_full s
      then (False, record_refusal QUEUE_OVERFLOW
             (''Webhook delivery queue full (capacity '' @ nat_str (sv_max s) @ '')'') t s1)
      else (True, s1\<lparr>sv_queue := sv_queue s @ [Some t]\<rparr>))"

text \<open>One round of the drain loop on the item taken.\<close>

definition drain_item :: "webhook_task option \<Rightarrow> service \<Rightarrow> service" where
  "drain_item x s =
     (case x of
        None \<Rightarrow> s
      | Some t \<Rightarrow> record_refusal SHUTDOWN_ABORTED ''Aborted due to service shutdown before execution'' t s)"

definition post_sentinel :: "service \<Rightarrow> service" where
  "post_sentinel s = (if queue_full s then s else s\<lparr>sv_queue := sv_queue s @ [None]\<rparr>)"

section \<open>The adapter\<close>

datatype deliver_error = TenantBoundaryViolation | PayloadRejected nat | AdmissionRejected | UrlRejected ssrf_error

definition canonicalize_endpoint :: "(string \<Rightarrow> bool) \<Rightarrow> string \<Rightarrow> ssrf_error + string" where
  "canonicalize_endpoint bracket_ok url =
     res_bind (urlsplit bracket_ok (py_strip url)) (\<lambda>p.
       let host = drop_trailing_dot (py_lower (case url_hostname p of Some h \<Rightarrow> h | None \<Rightarrow> [])) in
       res_bind (url_port p) (\<lambda>port.
         Inr (py_lower (u_scheme p) @ ''://'' @ host
           @ (case port of Some n \<Rightarrow> if n = 443 then [] else '':'' @ int_str n | None \<Rightarrow> [])
           @ u_path p @ (if u_query p = [] then [] else ''?'' @ u_query p))))"

text \<open>The text that is hashed into the idempotency key.\<close>

definition idempotency_text :: "int \<Rightarrow> string \<Rightarrow> string \<Rightarrow> string" where
  "idempotency_text org endpoint dedupe = int_str org @ '':'' @ endpoint @ '':'' @ dedupe"

definition compute_idempotency_key :: "(string \<Rightarrow> string) \<Rightarrow> int \<Rightarrow> string \<Rightarrow> string \<Rightarrow> string" where
  "compute_idempotency_key sha org endpoint dedupe = sha (idempotency_text org endpoint dedupe)"

definition deliver :: "(string \<Rightarrow> string) \<Rightarrow> (string \<Rightarrow> bool) \<Rightarrow> intent \<Rightarrow> destination \<Rightarrow> service
    \<Rightarrow> (deliver_error + string) \<times> service" where
  "deliver sha bracket_ok i d s =
     (if wd_org d \<noteq> i_org i
      then (Inl TenantBoundaryViolation, record_result None (refusal SSRF_BLOCKED
              (take max_error_message_length (''Cross-tenant delivery rejected: destination org '' @ int_str (wd_org d)
                @ '' != intent org '' @ int_str (i_org i))) i []) s)
      else case canonicalize_endpoint bracket_ok (wd_url d) of
        Inl e \<Rightarrow> (Inl (UrlRejected e), s)
      | Inr endpoint \<Rightarrow>
          (let key = compute_idempotency_key sha (i_org i) endpoint (i_dedupe i) in
           case format_webhook_payload i (wd_format d) of
             Inl (PayloadTooLarge n) \<Rightarrow>
               (Inl (PayloadRejected n), record_result None (refusal PAYLOAD_TOO_LARGE
                  (take max_error_message_length (''webhook payload exceeds 65536 bytes ('' @ nat_str n @ '' bytes).'')) i key) s)
           | Inr bytes \<Rightarrow>
               (case enqueue \<lparr>wt_intent = i, wt_dest = d, wt_key = key, wt_payload = bytes\<rparr> s of
                  (True, s') \<Rightarrow> (Inr key, s')
                | (False, s') \<Rightarrow> (Inl AdmissionRejected, s'))))"

section \<open>Steps\<close>

text \<open>Steps of the workers and of the thread that shuts down.\<close>

inductive internal :: "service \<Rightarrow> service \<Rightarrow> bool" where
  take_task: "i < length (sv_workers s) \<Longrightarrow> sv_workers s ! i = Idle \<Longrightarrow> sv_queue s = Some t # q \<Longrightarrow>
     internal s (s\<lparr>sv_queue := q, sv_workers := (sv_workers s)[i := Busy t]\<rparr>)"
| take_sentinel: "i < length (sv_workers s) \<Longrightarrow> sv_workers s ! i = Idle \<Longrightarrow> sv_queue s = None # q \<Longrightarrow>
     internal s (s\<lparr>sv_queue := q, sv_workers := (sv_workers s)[i := Stopped]\<rparr>)"
| stop_idle: "i < length (sv_workers s) \<Longrightarrow> sv_workers s ! i = Idle \<Longrightarrow> sv_queue s = [] \<Longrightarrow> sv_stop s \<Longrightarrow>
     internal s (s\<lparr>sv_workers := (sv_workers s)[i := Stopped]\<rparr>)"
| finish: "i < length (sv_workers s) \<Longrightarrow> sv_workers s ! i = Busy t \<Longrightarrow>
     internal s (record_result (Some t) (task_result t out) (s\<lparr>sv_workers := (sv_workers s)[i := Idle]\<rparr>))"
| begin_shutdown: "\<not> sv_initiated s \<Longrightarrow>
     internal s (s\<lparr>sv_initiated := True, sv_accepting := False, sv_phase := Draining\<rparr>)"
| drain: "sv_phase s = Draining \<Longrightarrow> sv_queue s = x # q \<Longrightarrow> internal s (drain_item x (s\<lparr>sv_queue := q\<rparr>))"
| drained: "sv_phase s = Draining \<Longrightarrow> sv_queue s = [] \<Longrightarrow>
     internal s (s\<lparr>sv_stop := True, sv_phase := Posting (length (sv_workers s))\<rparr>)"
| post: "sv_phase s = Posting (Suc n) \<Longrightarrow> internal s (post_sentinel (s\<lparr>sv_phase := Posting n\<rparr>))"
| posted: "sv_phase s = Posting 0 \<Longrightarrow> internal s (s\<lparr>sv_phase := Joining\<rparr>)"

inductive_cases internal_cases: "internal s s'"

inductive svc_reachable :: "service \<Rightarrow> bool" where
  fresh: "svc_reachable (new_service n m)"
| inner: "svc_reachable s \<Longrightarrow> internal s s' \<Longrightarrow> svc_reachable s'"
| submit: "svc_reachable s \<Longrightarrow> svc_reachable (snd (enqueue t s))"
| adapter: "svc_reachable s \<Longrightarrow> svc_reachable (snd (deliver sha br i d s))"

text \<open>Runs, with the number of internal steps taken; submissions may come at any time.\<close>

inductive svc_run :: "service \<Rightarrow> nat \<Rightarrow> service \<Rightarrow> bool" for s where
  here: "svc_run s 0 s"
| move: "svc_run s n s' \<Longrightarrow> internal s' s'' \<Longrightarrow> svc_run s (Suc n) s''"
| call: "svc_run s n s' \<Longrightarrow> svc_run s n (snd (enqueue t s'))"
| adapter_call: "svc_run s n s' \<Longrightarrow> svc_run s n (snd (deliver sha br i d s'))"

section \<open>Accounting\<close>

definition queued :: "webhook_task option list \<Rightarrow> webhook_task multiset" where
  "queued q = mset (List.map_filter id q)"

fun held :: "worker \<Rightarrow> webhook_task multiset" where
  "held (Busy t) = {#t#}"
| "held w = {#}"

definition in_flight :: "worker list \<Rightarrow> webhook_task multiset" where
  "in_flight ws = sum_list (map held ws)"

definition settled :: "(webhook_task option \<times> delivery_result) list \<Rightarrow> webhook_task multiset" where
  "settled l = mset (List.map_filter fst l)"

definition result_of_task :: "webhook_task option \<times> delivery_result \<Rightarrow> bool" where
  "result_of_task p \<longleftrightarrow> (case fst p of None \<Rightarrow> True
     | Some t \<Rightarrow> r_key (snd p) = wt_key t \<and> r_org (snd p) = i_org (wt_intent t) \<and> r_event_id (snd p) = i_event_id (wt_intent t))"

text \<open>
  The invariant: every submitted task is recorded, waiting or being delivered, exactly once;
  the queue keeps its bound; once the shutdown has begun nothing is accepted, and after the
  drain no task waits.
\<close>

definition svc_ok :: "service \<Rightarrow> bool" where
  "svc_ok s \<longleftrightarrow>
     mset (sv_submitted s) = settled (sv_log s) + queued (sv_queue s) + in_flight (sv_workers s)
     \<and> (0 < sv_max s \<longrightarrow> length (sv_queue s) \<le> sv_max s)
     \<and> list_all result_of_task (sv_log s)
     \<and> (sv_accepting s \<longleftrightarrow> sv_phase s = Running) \<and> (sv_initiated s \<longleftrightarrow> sv_phase s \<noteq> Running)
     \<and> (sv_stop s \<longleftrightarrow> (\<exists>n. sv_phase s = Posting n) \<or> sv_phase s = Joining)
     \<and> (sv_stop s \<longrightarrow> queued (sv_queue s) = {#}) \<and> (\<not> sv_stop s \<longrightarrow> None \<notin> set (sv_queue s))"

lemma sum_list_replace: "i < length xs \<Longrightarrow> sum_list (xs[i := x]) + xs ! i = sum_list xs + (x :: 'a multiset)"
  by (induction xs arbitrary: i) (auto simp: nth_Cons ac_simps split: nat.split)

lemma in_flight_replace: "i < length ws \<Longrightarrow> in_flight (ws[i := w]) + held (ws ! i) = in_flight ws + held w"
  using sum_list_replace [of i "map held ws" "held w"] by (simp add: in_flight_def map_update)

lemma queued_simps [simp]:
  "queued [] = {#}" "queued (None # q) = queued q" "queued (Some t # q) = add_mset t (queued q)"
  "queued (q @ [None]) = queued q" "queued (q @ [Some t]) = add_mset t (queued q)"
  by (simp_all add: queued_def List.map_filter_def)

lemma settled_simps [simp]:
  "settled [] = {#}" "settled (l @ [(None, r)]) = settled l" "settled (l @ [(Some t, r)]) = add_mset t (settled l)"
  by (simp_all add: settled_def List.map_filter_def)

lemma in_flight_take: "i < length ws \<Longrightarrow> ws ! i = Idle \<Longrightarrow> in_flight (ws[i := w]) = in_flight ws + held w"
  using in_flight_replace [of i ws w] by simp

lemma in_flight_finish: "i < length ws \<Longrightarrow> ws ! i = Busy t \<Longrightarrow> in_flight ws = add_mset t (in_flight (ws[i := Idle]))"
  using in_flight_replace [of i ws Idle] by simp

lemma record_simps [simp]:
  "sv_log (record_result t r s) = sv_log s @ [(t, r)]" "sv_queue (record_result t r s) = sv_queue s"
  "sv_max (record_result t r s) = sv_max s" "sv_accepting (record_result t r s) = sv_accepting s"
  "sv_initiated (record_result t r s) = sv_initiated s" "sv_stop (record_result t r s) = sv_stop s"
  "sv_workers (record_result t r s) = sv_workers s" "sv_phase (record_result t r s) = sv_phase s"
  "sv_submitted (record_result t r s) = sv_submitted s"
  by (simp_all add: record_result_def)

lemma refusal_of_task [simp]: "result_of_task (Some t, refusal st msg (wt_intent t) (wt_key t))"
  by (simp add: result_of_task_def refusal_def mk_result_def)

lemma task_result_of_task [simp]: "result_of_task (Some t, task_result t out)"
  by (cases out) (simp_all add: task_result_def, simp add: result_of_task_def mk_result_def)

lemma svc_ok_new: "svc_ok (new_service n m)"
proof -
  have "in_flight (replicate n Idle) = {#}" by (induction n) (simp_all add: in_flight_def)
  then show ?thesis by (simp add: svc_ok_def new_service_def)
qed

lemma enqueue_ok: "svc_ok s \<Longrightarrow> svc_ok (snd (enqueue t s))"
  by (auto simp: svc_ok_def enqueue_def record_refusal_def queue_full_def Let_def)

lemma internal_ok:
  assumes "internal s s'" "svc_ok s"
  shows "svc_ok s'"
  using assms
proof cases
  case (take_task i t q)
  with assms(2) show ?thesis by (auto simp: svc_ok_def in_flight_take)
next
  case (take_sentinel i q)
  with assms(2) show ?thesis by (auto simp: svc_ok_def in_flight_take)
next
  case (stop_idle i)
  with assms(2) show ?thesis by (auto simp: svc_ok_def in_flight_take)
next
  case (finish i t out)
  with assms(2) show ?thesis by (auto simp: svc_ok_def in_flight_finish)
next
  case (drain x q)
  with assms(2) show ?thesis
    by (cases x) (auto simp: svc_ok_def drain_item_def record_refusal_def)
next
  case (post n)
  with assms(2) show ?thesis by (auto simp: svc_ok_def post_sentinel_def queue_full_def)
qed (use assms(2) in \<open>auto simp: svc_ok_def\<close>)

lemma record_none_ok: "svc_ok s \<Longrightarrow> svc_ok (record_result None r s)"
  by (simp add: svc_ok_def result_of_task_def)

text \<open>What a delivery does to the service is a submission, a record without a task, or nothing.\<close>

lemma deliver_cases:
  obtains "snd (deliver sha br i d s) = s"
    | t where "snd (deliver sha br i d s) = snd (enqueue t s)"
    | r where "snd (deliver sha br i d s) = record_result None r s"
proof (cases "wd_org d = i_org i")
  case org: True
  show thesis
  proof (cases "canonicalize_endpoint br (wd_url d)")
    case (Inl e)
    with org that(1) show thesis by (simp add: deliver_def)
  next
    case (Inr ep)
    show thesis
    proof (cases "format_webhook_payload i (wd_format d)")
      case (Inl e)
      with org \<open>canonicalize_endpoint br (wd_url d) = Inr ep\<close> that(3) show thesis
        by (cases e) (simp add: deliver_def Let_def)
    next
      case (Inr bytes)
      let ?t = "\<lparr>wt_intent = i, wt_dest = d, wt_key = compute_idempotency_key sha (i_org i) ep (i_dedupe i),
        wt_payload = bytes\<rparr>"
      have "snd (deliver sha br i d s) = snd (enqueue ?t s)"
        using Inr org \<open>canonicalize_endpoint br (wd_url d) = Inr ep\<close>
        by (simp add: deliver_def Let_def split: prod.split bool.split)
      then show thesis by (rule that(2))
    qed
  qed
next
  case False
  then have "\<exists>r. snd (deliver sha br i d s) = record_result None r s" by (auto simp: deliver_def)
  with that(3) show thesis by blast
qed

lemma deliver_ok: "svc_ok s \<Longrightarrow> svc_ok (snd (deliver sha br i d s))"
  by (cases rule: deliver_cases [of sha br i d s]) (simp_all add: enqueue_ok record_none_ok)

lemma reachable_svc_ok: "svc_reachable s \<Longrightarrow> svc_ok s"
  by (induction rule: svc_reachable.induct) (auto simp: svc_ok_new internal_ok enqueue_ok deliver_ok)

section \<open>Shutdown ends\<close>

fun item_work :: "webhook_task option \<Rightarrow> nat" where
  "item_work (Some t) = 3"
| "item_work None = 1"

fun worker_work :: "worker \<Rightarrow> nat" where
  "worker_work Idle = 1"
| "worker_work (Busy t) = 3"
| "worker_work Stopped = 0"

fun phase_work :: "nat \<Rightarrow> phase \<Rightarrow> nat" where
  "phase_work w Running = 2 * w + 3"
| "phase_work w Draining = 2 * w + 2"
| "phase_work w (Posting n) = 2 * n + 1"
| "phase_work w Joining = 0"

text \<open>What is left to do, in steps.\<close>

definition work :: "service \<Rightarrow> nat" where
  "work s = phase_work (length (sv_workers s)) (sv_phase s) + sum_list (map item_work (sv_queue s))
     + sum_list (map worker_work (sv_workers s))"

definition finished :: "service \<Rightarrow> bool" where
  "finished s \<longleftrightarrow> sv_phase s = Joining \<and> list_all (\<lambda>w. w = Stopped) (sv_workers s)"

lemma worker_work_replace:
  "i < length ws \<Longrightarrow> sum_list (map worker_work (ws[i := w])) + worker_work (ws ! i) = sum_list (map worker_work ws) + worker_work w"
  by (induction ws arbitrary: i) (auto simp: nth_Cons split: nat.split)

lemma internal_work: "internal s s' \<Longrightarrow> svc_ok s \<Longrightarrow> work s' < work s"
proof (induction rule: internal.induct)
  case (take_task i s t q)
  with worker_work_replace [of i "sv_workers s" "Busy t"] show ?case by (simp add: work_def)
next
  case (take_sentinel i s q)
  with worker_work_replace [of i "sv_workers s" Stopped] show ?case by (simp add: work_def)
next
  case (stop_idle i s)
  with worker_work_replace [of i "sv_workers s" Stopped] show ?case by (simp add: work_def)
next
  case (finish i s t out)
  with worker_work_replace [of i "sv_workers s" Idle] show ?case by (simp add: work_def)
next
  case (begin_shutdown s)
  then show ?case by (simp add: work_def svc_ok_def)
next
  case (drain s x q)
  then show ?case by (cases x) (simp_all add: work_def drain_item_def record_refusal_def)
next
  case (post s n)
  then show ?case by (simp add: work_def post_sentinel_def)
qed (simp_all add: work_def)

lemma rejected_submission:
  "svc_ok s \<Longrightarrow> sv_initiated s \<Longrightarrow> fst (enqueue t s) = False \<and> work (snd (enqueue t s)) = work s \<and> sv_initiated (snd (enqueue t s))"
  by (auto simp: svc_ok_def enqueue_def record_refusal_def work_def Let_def)

lemma initiated_delivery:
  "svc_ok s \<Longrightarrow> sv_initiated s \<Longrightarrow> work (snd (deliver sha br i d s)) = work s \<and> sv_initiated (snd (deliver sha br i d s))"
  by (cases rule: deliver_cases [of sha br i d s]) (simp_all add: rejected_submission, simp add: work_def)

lemma internal_initiated: "internal s s' \<Longrightarrow> sv_initiated s \<Longrightarrow> sv_initiated s'"
  by (induction rule: internal.induct)
    (auto simp: drain_item_def record_refusal_def post_sentinel_def split: option.split)

lemma svc_run_ok:
  "svc_run s n s' \<Longrightarrow> svc_ok s \<Longrightarrow> sv_initiated s \<Longrightarrow> svc_ok s' \<and> sv_initiated s' \<and> n + work s' \<le> work s"
proof (induction rule: svc_run.induct)
  case (move n s' s'')
  then show ?case
    using internal_work [of s' s''] by (auto simp: internal_ok internal_initiated)
qed (auto simp: enqueue_ok rejected_submission deliver_ok initiated_delivery)

lemma not_stuck:
  assumes "svc_ok s" "sv_initiated s" "\<not> finished s"
  shows "\<exists>s'. internal s s'"
proof (cases "sv_phase s")
  case Running
  with assms show ?thesis by (simp add: svc_ok_def)
next
  case Draining
  then show ?thesis by (cases "sv_queue s") (auto intro: internal.drain internal.drained)
next
  case (Posting n)
  then show ?thesis by (cases n) (auto intro: internal.post internal.posted)
next
  case Joining
  with assms obtain i where i: "i < length (sv_workers s)" "sv_workers s ! i \<noteq> Stopped"
    by (auto simp: finished_def list_all_length)
  show ?thesis
  proof (cases "sv_workers s ! i")
    case Idle
    from assms Joining have "sv_stop s" "queued (sv_queue s) = {#}" by (auto simp: svc_ok_def)
    with i Idle show ?thesis
    proof (cases "sv_queue s")
      case (Cons x q)
      with \<open>queued (sv_queue s) = {#}\<close> have "x = None" by (cases x) auto
      with i Idle Cons show ?thesis by (blast intro: internal.take_sentinel)
    qed (blast intro: internal.stop_idle)
  qed (use i in \<open>auto intro: internal.finish\<close>)
qed

lemma finished_idle: "finished s \<Longrightarrow> in_flight (sv_workers s) = {#}"
proof -
  have "list_all (\<lambda>w. w = Stopped) ws \<Longrightarrow> in_flight ws = {#}" for ws
    by (induction ws) (auto simp: in_flight_def)
  then show "finished s \<Longrightarrow> ?thesis" by (simp add: finished_def)
qed

section \<open>What the queue guarantees\<close>

text \<open>
  C1: whatever callers, workers and the shutdown do and however their steps interleave, every
  submitted task is recorded, waiting or being delivered exactly once, every recorded
  result names its task's idempotency key, organization and event, and the queue keeps its
  bound; once the shutdown is complete every submitted task has exactly one result.
\<close>

theorem every_task_accounted:
  assumes "svc_reachable s"
  shows "mset (sv_submitted s) = settled (sv_log s) + queued (sv_queue s) + in_flight (sv_workers s)
    \<and> list_all result_of_task (sv_log s)
    \<and> (0 < sv_max s \<longrightarrow> length (sv_queue s) \<le> sv_max s)
    \<and> (finished s \<longrightarrow> mset (sv_submitted s) = settled (sv_log s))"
  using reachable_svc_ok [OF assms] finished_idle [of s]
  by (auto simp: svc_ok_def finished_def)

text \<open>
  C5: a shutdown that has begun comes to an end: whatever else is submitted, at most as many
  further steps of workers and shutdown are possible as there is work left, and until every
  worker has stopped and every sentinel is posted some step is possible.
\<close>

theorem shutdown_completes:
  assumes "svc_reachable s" "sv_initiated s" "svc_run s n s'"
  shows "n \<le> work s \<and> (\<not> finished s' \<longrightarrow> (\<exists>s''. internal s' s''))"
  using svc_run_ok [OF assms(3) reachable_svc_ok [OF assms(1)] assms(2)] not_stuck by auto

lemma enqueue_True: "enqueue t s = (True, s') \<longleftrightarrow> sv_accepting s \<and> \<not> sv_stop s \<and> \<not> queue_full s
    \<and> s' = s\<lparr>sv_submitted := sv_submitted s @ [t], sv_queue := sv_queue s @ [Some t]\<rparr>"
  by (auto simp: enqueue_def Let_def)

lemma enqueue_False: "enqueue t s = (False, s') \<Longrightarrow> sv_queue s' = sv_queue s \<and> length (sv_log s') = Suc (length (sv_log s))"
  by (auto simp: enqueue_def record_refusal_def Let_def split: if_splits)

text \<open>
  The adapter delivers within one tenant only. A key is returned exactly for an intent whose
  task, with that key and a payload of at most 64 KB, has been put on the queue for a
  destination of the intent's own organization; otherwise the queue is unchanged, and every
  refusal but that of a URL that cannot be split leaves one result in the sink.
\<close>

theorem deliver_outcomes:
  assumes "deliver sha br i d s = (res, s')"
  shows "case res of
      Inr key \<Rightarrow> wd_org d = i_org i \<and> (\<exists>ep bytes. canonicalize_endpoint br (wd_url d) = Inr ep
          \<and> key = compute_idempotency_key sha (i_org i) ep (i_dedupe i)
          \<and> length bytes \<le> max_webhook_payload_bytes \<and> sv_log s' = sv_log s
          \<and> sv_queue s' = sv_queue s @ [Some \<lparr>wt_intent = i, wt_dest = d, wt_key = key, wt_payload = bytes\<rparr>])
    | Inl e \<Rightarrow> sv_queue s' = sv_queue s
        \<and> (e = TenantBoundaryViolation \<longleftrightarrow> wd_org d \<noteq> i_org i)
        \<and> length (sv_log s') = length (sv_log s) + (case e of UrlRejected _ \<Rightarrow> 0 | _ \<Rightarrow> 1)"
  using assms
  by (auto simp: deliver_def Let_def enqueue_True dest!: enqueue_False format_Inr
      split: sum.splits format_error.splits prod.splits bool.splits if_splits)

text \<open>
  The endpoint under the idempotency key is the one the SSRF guard validates: for every URL
  the guard accepts, the adapter's canonical form and the guard's agree.
\<close>

theorem canonical_endpoints_agree:
  assumes "validate_url env url = Inr r"
  shows "canonicalize_endpoint (ne_bracket env) url = Inr (sr_endpoint r)"
proof -
  from assms obtain v p where v: "urlsplit (ne_bracket env) (py_strip url) = Inr v" "py_lower (u_scheme v) = ''https''"
    and p: "url_port v = Inr p" "check_port p = Inr (sr_port r)" "check_host env (url_hostname v) = Inr (sr_hostname r)"
    and r: "sr_endpoint r = ''https://'' @ sr_hostname r @ (if sr_port r = 443 then [] else '':'' @ int_str (sr_port r)) @ u_path v
        @ (if u_query v = [] then [] else ''?'' @ u_query v)"
    by (auto simp: validate_url_def res_bind_Inr_iff split: if_splits sum.splits option.splits)
  from p(3) have host: "drop_trailing_dot (py_lower (case url_hostname v of Some h \<Rightarrow> h | None \<Rightarrow> [])) = sr_hostname r"
    by (auto simp: check_host_def Let_def split: option.splits if_splits)
  from p(2) have port: "(case p of Some n \<Rightarrow> if n = 443 then [] else '':'' @ int_str n | None \<Rightarrow> [])
      = (if sr_port r = 443 then [] else '':'' @ int_str (sr_port r))"
    by (auto simp: check_port_def split: option.splits if_splits)
  show ?thesis
    unfolding canonicalize_endpoint_def v res_bind.simps Let_def p host port r by simp
qed

lemma colon_not_digit: "\<not> is_digit CHR '':''"
  by (simp add: is_digit_def code_of_def)

lemma colon_split: "x @ CHR '':'' # y = x' @ CHR '':'' # y' \<Longrightarrow> CHR '':'' \<notin> set x \<Longrightarrow> CHR '':'' \<notin> set x' \<Longrightarrow> x = x' \<and> y = y'"
proof (induction x arbitrary: x')
  case Nil
  then show ?case by (cases x') auto
next
  case (Cons c x)
  then show ?case by (cases x') auto
qed

text \<open>
  Two deliveries share the text under their idempotency keys only if organization, endpoint
  and deduplication key are the same, for organizations as the constructors admit them and
  keys without a colon, such as the hexadecimal digests of events.
\<close>

theorem idempotency_text_unambiguous:
  assumes "0 < org" "0 < org'" "CHR '':'' \<notin> set dedupe" "CHR '':'' \<notin> set dedupe'"
    "idempotency_text org ep dedupe = idempotency_text org' ep' dedupe'"
  shows "org = org' \<and> ep = ep' \<and> dedupe = dedupe'"
proof -
  have str: "int_str o' = nat_str (nat o')" "CHR '':'' \<notin> set (int_str o')" if "0 < o'" for o'
    using that nat_str_digits [of "nat o'"] colon_not_digit by (auto simp: int_str_def list_all_iff)
  from assms(5) have "nat_str (nat org) @ CHR '':'' # ep @ CHR '':'' # dedupe = nat_str (nat org') @ CHR '':'' # ep' @ CHR '':'' # dedupe'"
    by (simp add: idempotency_text_def str assms(1,2))
  from colon_split [OF this] str assms(1,2)
  have org: "nat_str (nat org) = nat_str (nat org')" and rest: "ep @ CHR '':'' # dedupe = ep' @ CHR '':'' # dedupe'"
    by auto
  from rest have "rev dedupe @ CHR '':'' # rev ep = rev dedupe' @ CHR '':'' # rev ep'"
    by (metis append.assoc append_Cons append_Nil rev.simps(2) rev_append)
  from colon_split [OF this] assms(3,4) have "dedupe = dedupe'" "ep = ep'" by auto
  with org assms(1,2) show ?thesis by (simp add: nat_str_inj)
qed

section \<open>A sample run\<close>

definition sample_destination :: destination where
  "sample_destination = \<lparr>wd_id = ''w'', wd_org = 7, wd_url = ''https://h.dev/x'', wd_secret = None, wd_format = ''GENERIC''\<rparr>"

definition sample_task :: "string \<Rightarrow> webhook_task" where
  "sample_task k = \<lparr>wt_intent = sample_alert, wt_dest = sample_destination, wt_key = k, wt_payload = [123, 125]\<rparr>"

text \<open>One worker, one waiting task; the shutdown begins and aborts it.\<close>

definition sample_waiting :: service where
  "sample_waiting = snd (enqueue (sample_task ''a'') (new_service 1 1))"

definition sample_closing :: service where
  "sample_closing = sample_waiting\<lparr>sv_initiated := True, sv_accepting := False, sv_phase := Draining\<rparr>"

lemma sample_closing_reachable: "svc_reachable sample_closing" "sv_initiated sample_closing"
proof -
  have "svc_reachable sample_waiting" unfolding sample_waiting_def by (rule svc_reachable.submit [OF svc_reachable.fresh])
  moreover have "internal sample_waiting sample_closing"
    unfolding sample_closing_def
    by (rule internal.begin_shutdown) (simp add: sample_waiting_def enqueue_def new_service_def queue_full_def Let_def)
  ultimately show "svc_reachable sample_closing" by (rule svc_reachable.inner)
qed (simp add: sample_closing_def)

theorem every_task_accounted_witness:
  "mset (sv_submitted sample_closing) = settled (sv_log sample_closing) + queued (sv_queue sample_closing)
     + in_flight (sv_workers sample_closing)"
  using every_task_accounted [OF sample_closing_reachable(1)] by simp

theorem shutdown_completes_witness: "\<exists>s''. internal sample_closing s''"
proof -
  have "\<not> finished sample_closing" by (simp add: finished_def sample_closing_def)
  with shutdown_completes [OF sample_closing_reachable svc_run.here] show ?thesis by blast
qed

theorem deliver_outcomes_witness:
  "sv_queue (snd (deliver (\<lambda>t. t) (\<lambda>n. False) sample_alert (sample_destination\<lparr>wd_org := 8\<rparr>) (new_service 1 1))) = []"
proof -
  let ?s' = "snd (deliver (\<lambda>t. t) (\<lambda>n. False) sample_alert (sample_destination\<lparr>wd_org := 8\<rparr>) (new_service 1 1))"
  have "deliver (\<lambda>t. t) (\<lambda>n. False) sample_alert (sample_destination\<lparr>wd_org := 8\<rparr>) (new_service 1 1)
      = (Inl TenantBoundaryViolation, ?s')"
    by (simp add: deliver_def sample_alert_def)
  from deliver_outcomes [OF this] show ?thesis by (simp add: new_service_def)
qed

theorem canonical_endpoints_agree_witness:
  "canonicalize_endpoint (\<lambda>h. False) sample_url = Inr ''https://hooks.dev:84/x?k=1''"
  using canonical_endpoints_agree [OF sample_validation] unfolding sample_bracket sample_validated_def ssrf_result.simps .

theorem idempotency_text_unambiguous_witness: "idempotency_text 7 ''https://h/a'' ''b'' \<noteq> idempotency_text 7 ''https://h/'' ''b''"
  using idempotency_text_unambiguous [of 7 7 "''b''" "''b''" "''https://h/a''" "''https://h/''"] by auto

end
