(* ===== verification/Service.thy ===== *)
theory Service
  imports Publisher In_App Webhook_Queue
begin

text \<open>
  The notification service (\<open>notification_service.py\<close>): the subscriber that turns events into
  intents and hands them to the in-app and webhook adapters, with its registries of
  destinations and policies, and the publication of scan results through the bus. The world
  the bus handlers act on is the state of the service.
\<close>

record notif_service =
  ns_destinations :: "int \<rightharpoonup> destination"
  ns_policies :: "int \<rightharpoonup> policy_config"
  ns_store :: store
  ns_webhook :: service

definition register_destination :: "destination \<Rightarrow> notif_service \<Rightarrow> notif_service" where
  "register_destination d ns = ns\<lparr>ns_destinations := (ns_destinations ns)(wd_org d \<mapsto> d)\<rparr>"

definition register_policy_config :: "policy_config \<Rightarrow> notif_service \<Rightarrow> notif_service" where
  "register_policy_config c ns = ns\<lparr>ns_policies := (ns_policies ns)(pc_org c \<mapsto> c)\<rparr>"

text \<open>What the handler is given besides the event: SHA-256, the URL splitter's bracket check, the clocks.\<close>

record handler_env =
  he_sha :: "string \<Rightarrow> string"
  he_bracket :: "string \<Rightarrow> bool"
  he_stamp :: string
  he_now :: int

text \<open>One round of the dispatch loop; what an adapter raises is logged and dropped.\<close>

definition dispatch_intent :: "handler_env \<Rightarrow> notif_service \<Rightarrow> intent \<Rightarrow> notif_service" where
  "dispatch_intent env ns i =
     (case i_channel i of
        IN_APP \<Rightarrow> ns\<lparr>ns_store := snd (handle_intent create (he_now env) i (ns_store ns))\<rparr>
      | WEBHOOK \<Rightarrow>
          (case ns_destinations ns (i_org i) of
             None \<Rightarrow> ns
           | Some d \<Rightarrow> if wd_org d \<noteq> i_org i then ns
                       else ns\<lparr>ns_webhook := snd (deliver (he_sha env) (he_bracket env) i d (ns_webhook ns))\<rparr>))"

text \<open>
  \<open>handle_domain_event\<close>; \<open>Inl\<close> is an exception that leaves the handler. The default policy is
  built even where the organization has its own, outside any \<open>try\<close>.
\<close>

definition handle_domain_event :: "handler_env \<Rightarrow> event \<Rightarrow> notif_service \<Rightarrow> (error + unit) \<times> notif_service" where
  "handle_domain_event env ev ns =
     (let raw = dict_get ''organization_id'' PNone (ev_metadata ev) in
      if raw = PNone then (Inr (), ns)
      else case py_int raw of
        Inl e \<Rightarrow> (Inr (), ns)
      | Inr org \<Rightarrow>
          (case mk_policy_config org ''LOW'' ''HIGH'' False 10 True True of
             Inl e \<Rightarrow> (Inl e, ns)
           | Inr dflt \<Rightarrow>
               (case evaluate (he_sha env) (he_stamp env) ev
                       (case ns_policies ns org of Some c \<Rightarrow> c | None \<Rightarrow> dflt) of
                  Inl e \<Rightarrow> (Inr (), ns)
                | Inr intents \<Rightarrow> (Inr (), foldl (dispatch_intent env) ns intents))))"

text \<open>The handler as the bus runs it: an exception becomes the failure of its dispatch.\<close>

definition run_orchestrator :: "handler_env \<Rightarrow> (unit, notif_service) run" where
  "run_orchestrator env h ev st =
     (case handle_domain_event env ev (snd st) of
        (Inl e, ns) \<Rightarrow> (Some ''ValueError'', (fst st, ns))
      | (Inr _, ns) \<Rightarrow> (None, (fst st, ns)))"

text \<open>\<open>dict.pop(k, None)\<close> and the publication without the keys a webhook secret could hide in.\<close>

definition dict_pop :: "string \<Rightarrow> dict \<Rightarrow> dict" where
  "dict_pop k m = filter (\<lambda>(k', v). k' \<noteq> k) m"

definition clean_metadata :: "dict \<Rightarrow> dict" where
  "clean_metadata m = dict_pop ''api_key'' (dict_pop ''secret'' (dict_pop ''webhook_url'' m))"

definition service_publish :: "handler_env \<Rightarrow> ((unit, notif_service) bus_state \<Rightarrow> (unit, notif_service) bus_state \<Rightarrow> nat)
    \<Rightarrow> (nat \<Rightarrow> string) \<Rightarrow> (nat \<Rightarrow> string) \<Rightarrow> scan_result \<Rightarrow> string \<Rightarrow> string \<Rightarrow> dict \<Rightarrow> thresholds option
    \<Rightarrow> (unit, notif_service) bus_state \<Rightarrow> error + (event \<times> dispatch_result list) list \<times> (unit, notif_service) bus_state" where
  "service_publish env elapsed ids clk sr repository scan_id metadata policy st =
     publish_scan_events (run_orchestrator env) elapsed (he_sha env) ids clk sr repository scan_id
       (clean_metadata metadata) policy st"

section \<open>Tenants stay apart\<close>

definition registry_ok :: "notif_service \<Rightarrow> bool" where
  "registry_ok ns \<longleftrightarrow> (\<forall>org d. ns_destinations ns org = Some d \<longrightarrow> wd_org d = org)
     \<and> (\<forall>org c. ns_policies ns org = Some c \<longrightarrow> pc_org c = org) \<and> store_ok (ns_store ns)"

text \<open>What handling an event of organization \<open>org\<close> may do to the service.\<close>

definition within_tenant :: "int \<Rightarrow> notif_service \<Rightarrow> notif_service \<Rightarrow> bool" where
  "within_tenant org ns ns' \<longleftrightarrow>
     filter (\<lambda>n. n_org n \<noteq> org) (st_rows (ns_store ns')) = filter (\<lambda>n. n_org n \<noteq> org) (st_rows (ns_store ns))
     \<and> (\<exists>ts. sv_queue (ns_webhook ns') = sv_queue (ns_webhook ns) @ map Some ts
          \<and> (\<forall>t \<in> set ts. i_org (wt_intent t) = org \<and> wd_org (wt_dest t) = org))
     \<and> ns_destinations ns' = ns_destinations ns \<and> ns_policies ns' = ns_policies ns"

lemma within_tenant_refl: "within_tenant org ns ns"
  by (simp add: within_tenant_def)

lemma within_tenant_trans:
  assumes "within_tenant org a b" "within_tenant org b c"
  shows "within_tenant org a c"
proof -
  from assms obtain ts where "sv_queue (ns_webhook b) = sv_queue (ns_webhook a) @ map Some ts"
      "\<forall>t \<in> set ts. i_org (wt_intent t) = org \<and> wd_org (wt_dest t) = org"
    unfolding within_tenant_def by blast
  moreover from assms obtain ts' where "sv_queue (ns_webhook c) = sv_queue (ns_webhook b) @ map Some ts'"
      "\<forall>t \<in> set ts'. i_org (wt_intent t) = org \<and> wd_org (wt_dest t) = org"
    unfolding within_tenant_def by blast
  ultimately have "sv_queue (ns_webhook c) = sv_queue (ns_webhook a) @ map Some (ts @ ts')"
    "\<forall>t \<in> set (ts @ ts'). i_org (wt_intent t) = org \<and> wd_org (wt_dest t) = org"
    by auto
  with assms show ?thesis unfolding within_tenant_def by metis
qed

lemma created_org: "notification_create r = Inr d \<Longrightarrow> dto_org d = cr_org r"
  by (auto simp: notification_create_def res_bind_Inr_iff)

lemma handle_intent_tenant:
  assumes "store_ok s"
  shows "filter (\<lambda>n. n_org n \<noteq> i_org i) (st_rows (snd (handle_intent create now i s))) = filter (\<lambda>n. n_org n \<noteq> i_org i) (st_rows s)"
proof (cases "notification_create (intent_request i)")
  case (Inr d)
  then have "dto_org d = i_org i" using created_org [OF Inr] by (simp add: intent_request_def)
  with Inr notifs.make_other_tenants [OF assms, of d now] show ?thesis by (simp add: handle_intent_def)
qed (simp add: handle_intent_def)

lemma deliver_queue:
  "\<exists>ts. sv_queue (snd (deliver sha br i d s)) = sv_queue s @ map Some ts
     \<and> (\<forall>t \<in> set ts. i_org (wt_intent t) = i_org i \<and> wd_org (wt_dest t) = i_org i)"
proof (cases "deliver sha br i d s")
  case (Pair res s')
  show ?thesis
  proof (cases res)
    case (Inl e)
    with Pair show ?thesis
      by (auto simp: deliver_def Let_def enqueue_True dest!: enqueue_False
          split: if_splits sum.splits format_error.splits prod.splits bool.splits)
  next
    case (Inr key)
    with Pair obtain bytes where "sv_queue s' = sv_queue s @ [Some \<lparr>wt_intent = i, wt_dest = d, wt_key = key, wt_payload = bytes\<rparr>]"
        "wd_org d = i_org i"
      by (auto simp: deliver_def Let_def enqueue_True split: if_splits sum.splits format_error.splits prod.splits bool.splits)
    with Pair show ?thesis
      by (intro exI [of _ "[\<lparr>wt_intent = i, wt_dest = d, wt_key = key, wt_payload = bytes\<rparr>]"]) simp
  qed
qed

lemma dispatch_within:
  assumes "registry_ok ns" "i_org i = org"
  shows "within_tenant org ns (dispatch_intent env ns i) \<and> registry_ok (dispatch_intent env ns i)"
proof (cases "i_channel i")
  case IN_APP
  with assms handle_intent_tenant [of "ns_store ns" i "he_now env"] show ?thesis
    by (auto simp: dispatch_intent_def within_tenant_def registry_ok_def notifs.handle_intent_ok)
next
  case WEBHOOK
  with assms deliver_queue [of "he_sha env" "he_bracket env" i _ "ns_webhook ns"] show ?thesis
    by (auto simp: dispatch_intent_def within_tenant_def registry_ok_def split: option.split)
qed

lemma dispatch_all_within:
  "registry_ok ns \<Longrightarrow> (\<And>i. i \<in> set is \<Longrightarrow> i_org i = org) \<Longrightarrow>
   within_tenant org ns (foldl (dispatch_intent env) ns is) \<and> registry_ok (foldl (dispatch_intent env) ns is)"
proof (induction "is" arbitrary: ns)
  case (Cons i "is")
  note step = dispatch_within [OF Cons.prems(1), of i org env]
  with Cons have "within_tenant org ns (dispatch_intent env ns i)"
    "within_tenant org (dispatch_intent env ns i) (foldl (dispatch_intent env) ns (i # is))"
    "registry_ok (foldl (dispatch_intent env) ns (i # is))"
    by simp_all
  then show ?case using within_tenant_trans by blast
qed (simp add: within_tenant_refl)

lemma registered_ok:
  "registry_ok ns \<Longrightarrow> registry_ok (register_destination d ns)" "registry_ok ns \<Longrightarrow> registry_ok (register_policy_config c ns)"
  by (auto simp: registry_ok_def register_destination_def register_policy_config_def)

lemma handle_within:
  assumes "registry_ok ns" "dict_get ''organization_id'' PNone (ev_metadata ev) = raw" "py_int raw = Inr org"
  shows "within_tenant org ns (snd (handle_domain_event env ev ns)) \<and> registry_ok (snd (handle_domain_event env ev ns))"
proof (cases "mk_policy_config org ''LOW'' ''HIGH'' False 10 True True")
  case (Inl e)
  with assms show ?thesis by (simp add: handle_domain_event_def within_tenant_refl)
next
  case (Inr dflt)
  let ?cfg = "case ns_policies ns org of Some c \<Rightarrow> c | None \<Rightarrow> dflt"
  from Inr assms(1) have cfg: "pc_org ?cfg = org"
    by (auto simp: mk_policy_config_def res_bind_Inr_iff registry_ok_def split: option.splits)
  show ?thesis
  proof (cases "evaluate (he_sha env) (he_stamp env) ev ?cfg")
    case (Inl e)
    with assms Inr show ?thesis by (simp add: handle_domain_event_def Let_def within_tenant_refl)
  next
    case intents: (Inr "is")
    have "i_org i = org" if "i \<in> set is" for i
      using that evaluate_Inr [OF intents] cfg by (auto dest!: list_all2_right simp: intent_for_def)
    from dispatch_all_within [OF assms(1) this, where env = env] Inr intents assms show ?thesis
      by (simp add: handle_domain_event_def Let_def within_tenant_refl)
  qed
qed

text \<open>
  Handling an event stays within the organization its metadata names: the notifications of
  every other organization are untouched, every task put on the webhook queue is that
  organization's, for its own destination, and nothing leaves the queue; the registries keep
  their invariant.
\<close>

theorem event_stays_in_tenant:
  assumes "registry_ok ns" "dict_get ''organization_id'' PNone (ev_metadata ev) = raw" "py_int raw = Inr org"
  shows "within_tenant org ns (snd (handle_domain_event env ev ns)) \<and> registry_ok (snd (handle_domain_event env ev ns))"
  by (rule handle_within [OF assms])

text \<open>
  The handler lets an exception escape exactly when the organization id of the event reads
  as a number that is not positive; every other event is handled or dropped.
\<close>

theorem handler_raises_iff:
  "(\<exists>e. fst (handle_domain_event env ev ns) = Inl e)
   \<longleftrightarrow> dict_get ''organization_id'' PNone (ev_metadata ev) \<noteq> PNone
     \<and> (\<exists>org \<le> 0. py_int (dict_get ''organization_id'' PNone (ev_metadata ev)) = Inr org)"
proof -
  have sev: "severity_of (py_upper ''LOW'') = Some LOW" "severity_of (py_upper ''HIGH'') = Some HIGH"
    by (code_simp, code_simp)
  have cfg: "mk_policy_config org ''LOW'' ''HIGH'' False 10 True True = Inl e \<Longrightarrow> org \<le> 0"
    "mk_policy_config org ''LOW'' ''HIGH'' False 10 True True = Inr c \<Longrightarrow> 0 < org" for org e c
    by (auto simp: mk_policy_config_def sev res_bind_Inl_iff res_bind_Inr_iff)
  show ?thesis
    by (auto simp: handle_domain_event_def Let_def split: sum.splits dest: cfg)
qed

section \<open>Publishing a scan\<close>

lemma map_of_update:
  "distinct (map fst m') \<Longrightarrow> map_of (dict_update m m') k = (case map_of m' k of Some v \<Rightarrow> Some v | None \<Rightarrow> map_of m k)"
  unfolding dict_update_def
proof (induction m' arbitrary: m)
  case (Cons kv m')
  then have "map_of m' (fst kv) = None" by (simp add: map_of_eq_None_iff)
  with Cons show ?case
    by (cases kv) (auto simp: map_of_dict_put split: option.split)
qed simp

text \<open>Freezing a dictionary keeps its keys and freezes its values.\<close>

lemma freeze_map_of:
  assumes "freeze_data (PDict m) = Inr w"
  shows "map_of (proxy_items w) k = None \<longleftrightarrow> map_of m k = None"
    and "map_of m k = Some v \<Longrightarrow> \<exists>v'. freeze_data v = Inr v' \<and> map_of (proxy_items w) k = Some v'"
proof -
  from assms obtain m' where w: "w = PProxy m'"
    and rel: "list_all2 (\<lambda>kv kw. fst kw = fst kv \<and> freeze_data (snd kv) = Inr (snd kw)) m m'"
    by (auto simp: res_bind_Inr_iff seq_items_Inr)
  have items: "proxy_items w = m'" by (simp add: w proxy_items_def)
  have both: "(map_of m' k = None \<longleftrightarrow> map_of m k = None)
      \<and> (\<forall>v. map_of m k = Some v \<longrightarrow> (\<exists>v'. freeze_data v = Inr v' \<and> map_of m' k = Some v'))"
    using rel by (induction rule: list_all2_induct) auto
  show "map_of (proxy_items w) k = None \<longleftrightarrow> map_of m k = None" using both items by simp
  show "map_of m k = Some v \<Longrightarrow> \<exists>v'. freeze_data v = Inr v' \<and> map_of (proxy_items w) k = Some v'" using both items by simp
qed

definition with_metadata :: "dict \<Rightarrow> event \<Rightarrow> bool" where
  "with_metadata md e \<longleftrightarrow> (\<exists>w. freeze_data (PDict md) = Inr w \<and> ev_metadata e = proxy_items w)"

definition metadata_of :: "dict \<Rightarrow> event \<Rightarrow> bool" where
  "metadata_of base e \<longleftrightarrow>
     (\<exists>md. (md = base \<or> (\<exists>k v. md = dict_put k v base \<and> k \<in> {''critical_fingerprints'', ''secret_fingerprints'', ''violations''}))
        \<and> with_metadata md e)"

lemma emit_metadata:
  "emit_if c (new_event sha eid stamp t repository sid s n md ctx) = Inr es \<Longrightarrow> list_all (with_metadata md) es"
  by (auto simp: emit_if_Inr new_event_def mk_event_def res_bind_Inr_iff with_metadata_def split: if_splits)

lemma build_events_metadata:
  assumes "build_events sha ids clk sr repository scan_id metadata policy = Inr es"
  shows "\<exists>s. list_all (metadata_of (base_metadata sr s metadata)) es"
proof -
  from assms obtain s v1 v2 v3 e1 e2 e3 e4 where es: "es = e1 @ e2 @ e3 @ e4"
    and e: "list_all (with_metadata (base_metadata sr s metadata)) e1"
      "list_all (with_metadata (dict_put ''critical_fingerprints'' v1 (base_metadata sr s metadata))) e2"
      "list_all (with_metadata (dict_put ''secret_fingerprints'' v2 (base_metadata sr s metadata))) e3"
      "list_all (with_metadata (dict_put ''violations'' v3 (base_metadata sr s metadata))) e4"
    by (clarsimp simp: build_events_def Let_def res_bind_Inr_iff split: if_splits dest!: emit_metadata)
  have "metadata_of (base_metadata sr s metadata) x" if "x \<in> set es" for x
    using that e unfolding es metadata_of_def by (simp add: list_all_iff) blast
  then show ?thesis by (auto simp: list_all_iff)
qed

lemma metadata_lookup:
  assumes "metadata_of (base_metadata sr s md) e" "distinct (map fst md)"
    "k \<notin> {''critical_fingerprints'', ''secret_fingerprints'', ''violations'', ''files_scanned'', ''lines_scanned'',
       ''active_vulnerabilities'', ''suppressed_vulnerabilities'', ''scan_status''}"
  shows "map_of (ev_metadata e) k = None \<longleftrightarrow> map_of md k = None"
    and "map_of md k = Some v \<Longrightarrow> \<exists>v'. freeze_data v = Inr v' \<and> map_of (ev_metadata e) k = Some v'"
proof -
  from assms(1) obtain m w where m: "m = base_metadata sr s md \<or> (\<exists>k v. m = dict_put k v (base_metadata sr s md)
        \<and> k \<in> {''critical_fingerprints'', ''secret_fingerprints'', ''violations''})"
    and w: "freeze_data (PDict m) = Inr w" "ev_metadata e = proxy_items w"
    unfolding metadata_of_def with_metadata_def by blast
  from m assms(3) have m: "map_of m k = map_of (base_metadata sr s md) k"
    by (auto simp: map_of_dict_put)
  have "map_of (base_metadata sr s md) k = map_of md k"
    using assms(2,3) by (simp add: base_metadata_def map_of_update split: option.split)
  with m have m: "map_of m k = map_of md k" by simp
  show "map_of (ev_metadata e) k = None \<longleftrightarrow> map_of md k = None"
    using freeze_map_of(1) [OF w(1)] m w(2) by simp
  show "map_of md k = Some v \<Longrightarrow> \<exists>v'. freeze_data v = Inr v' \<and> map_of (ev_metadata e) k = Some v'"
    using freeze_map_of(2) [OF w(1)] m w(2) by simp
qed

lemma clean_metadata_facts:
  "distinct (map fst m) \<Longrightarrow> distinct (map fst (clean_metadata m))"
  "map_of (clean_metadata m) k = (if k \<in> {''api_key'', ''secret'', ''webhook_url''} then None else map_of m k)"
proof -
  have "map_of (dict_pop k' m) k = (if k = k' then None else map_of m k)" for k' m
    by (induction m) (auto simp: dict_pop_def)
  then show "map_of (clean_metadata m) k = (if k \<in> {''api_key'', ''secret'', ''webhook_url''} then None else map_of m k)"
    by (auto simp: clean_metadata_def)
  have "distinct (map fst m) \<Longrightarrow> distinct (map fst (dict_pop k' m))" for k' m
    unfolding dict_pop_def by (rule distinct_map_filter)
  then show "distinct (map fst m) \<Longrightarrow> distinct (map fst (clean_metadata m))"
    by (simp add: clean_metadata_def)
qed

text \<open>Everything handlers do to a published event.\<close>

lemma orchestrators_within:
  assumes "registry_ok ns" "map_of (ev_metadata e) ''organization_id'' = Some (PInt org)"
  shows "fst (after_handlers (run_orchestrator env) e subs (bus, ns)) = bus
    \<and> within_tenant org ns (snd (after_handlers (run_orchestrator env) e subs (bus, ns)))
    \<and> registry_ok (snd (after_handlers (run_orchestrator env) e subs (bus, ns)))"
proof -
  let ?P = "\<lambda>st. fst st = bus \<and> within_tenant org ns (snd st) \<and> registry_ok (snd st)"
  have "?P (foldl (\<lambda>s (h, fn). snd (run_orchestrator env fn e s)) (bus, ns) subs)"
  proof (rule foldl_invariant [where P = ?P])
    fix st x assume "?P st"
    with handle_within [of "snd st" e "PInt org" org env] assms(2) within_tenant_trans [of org ns "snd st"]
    show "?P ((\<lambda>s (h, fn). snd (run_orchestrator env fn e s)) st x)"
      by (auto simp: run_orchestrator_def dict_get_def split: prod.split sum.split)
  qed (use assms(1) in \<open>simp add: within_tenant_refl\<close>)
  then show ?thesis by (simp add: after_handlers_def)
qed

lemma publish_each_within:
  assumes "registry_ok ns" "\<And>e. e \<in> set es \<Longrightarrow> map_of (ev_metadata e) ''organization_id'' = Some (PInt org)"
    "publish_each (run_orchestrator env) elapsed es (bus, ns) = (outs, st')"
  shows "fst st' = bus \<and> within_tenant org ns (snd st') \<and> registry_ok (snd st') \<and> map fst outs = es"
  using assms
proof (induction es arbitrary: ns outs)
  case (Cons e es)
  obtain rs b1 ns1 where pub: "publish (run_orchestrator env) elapsed e (bus, ns) = (rs, b1, ns1)"
    by (cases "publish (run_orchestrator env) elapsed e (bus, ns)") auto
  then have "snd (dispatch_all (run_orchestrator env) elapsed e bus (bus, ns)) = (b1, ns1)" by (simp add: publish_def)
  then have "after_handlers (run_orchestrator env) e (receivers e bus) (bus, ns) = (b1, ns1)"
    by (simp only: dispatch_all_state)
  with orchestrators_within [OF Cons.prems(1), of e org env "receivers e bus" bus] Cons.prems(2)
  have mid: "b1 = bus" "within_tenant org ns ns1" "registry_ok ns1" by simp_all
  obtain outs' st'' where rest: "publish_each (run_orchestrator env) elapsed es (bus, ns1) = (outs', st'')"
    by (cases "publish_each (run_orchestrator env) elapsed es (bus, ns1)")
  with Cons.prems(3) pub mid(1) have out: "st' = st''" "outs = (e, rs) # outs'" by (simp_all add: Let_def)
  have "fst st'' = bus \<and> within_tenant org ns1 (snd st'') \<and> registry_ok (snd st'') \<and> map fst outs' = es"
    using Cons.IH [OF mid(3), of outs'] Cons.prems(2) rest out(1) by simp
  with mid within_tenant_trans [OF mid(2), of "snd st''"] show ?case unfolding out by simp
qed (auto simp: within_tenant_refl)

text \<open>
  C8: a scan published for an organization reaches that organization only: whatever handlers of
  the service subscribe, no notification of another organization changes and no task for
  another one is queued, and no event carries a webhook URL, a secret or an API key of the caller's metadata.
\<close>

theorem published_scan_stays_in_tenant:
  assumes "registry_ok ns" "distinct (map fst metadata)" "map_of metadata ''organization_id'' = Some (PInt org)"
    "service_publish env elapsed ids clk sr repository scan_id metadata policy (bus, ns) = Inr (outs, st')"
  shows "within_tenant org ns (snd st') \<and> registry_ok (snd st') \<and> fst st' = bus
    \<and> list_all (\<lambda>(e, rs). \<forall>k \<in> {''webhook_url'', ''secret'', ''api_key''}. map_of (ev_metadata e) k = None) outs"
proof -
  from assms(4) obtain es where es: "build_events (he_sha env) ids clk sr repository scan_id (clean_metadata metadata) policy = Inr es"
    and pub: "publish_each (run_orchestrator env) elapsed es (bus, ns) = (outs, st')"
    by (auto simp: service_publish_def publish_scan_events_def res_bind_Inr_iff)
  from build_events_metadata [OF es] obtain s where md: "metadata_of (base_metadata sr s (clean_metadata metadata)) e"
    if "e \<in> set es" for e by (auto simp: list_all_iff)
  note look = metadata_lookup [OF md clean_metadata_facts(1) [OF assms(2)]]
  have org: "map_of (ev_metadata e) ''organization_id'' = Some (PInt org)" if "e \<in> set es" for e
    using look(2) [OF that, of "''organization_id''" "PInt org"] assms(3) by (simp add: clean_metadata_facts(2))
  have clean: "map_of (ev_metadata e) k = None" if "e \<in> set es" "k \<in> {''webhook_url'', ''secret'', ''api_key''}" for e k
    using look(1) [OF that(1), of k] that(2) by (auto simp: clean_metadata_facts(2))
  note tenant = publish_each_within [OF assms(1) org pub]
  have "e \<in> set es" if "(e, rs) \<in> set outs" for e rs
    using that tenant by (metis fst_conv image_eqI set_map)
  with clean tenant show ?thesis by (auto simp: list_all_iff)
qed

section \<open>A sample\<close>

definition sample_ns :: notif_service where
  "sample_ns = \<lparr>ns_destinations = [7 \<mapsto> sample_destination], ns_policies = Map.empty, ns_store = sample_store,
     ns_webhook = new_service 1 1\<rparr>"

lemma sample_ns_ok: "registry_ok sample_ns"
  by (simp add: registry_ok_def sample_ns_def sample_destination_def store_ok_def sample_store_def)

definition sample_handler_env :: handler_env where
  "sample_handler_env = \<lparr>he_sha = sample_hash, he_bracket = (\<lambda>n. False), he_stamp = ''now'', he_now = 5\<rparr>"

definition tenant_event :: event where
  "tenant_event = sample_event\<lparr>ev_metadata := [(''organization_id'', PInt 7)]\<rparr>"

theorem event_stays_in_tenant_witness:
  "within_tenant 7 sample_ns (snd (handle_domain_event sample_handler_env tenant_event sample_ns))"
  using event_stays_in_tenant [OF sample_ns_ok, of tenant_event "PInt 7" 7 sample_handler_env]
  by (simp add: tenant_event_def dict_get_def)

definition quiet_scan :: scan_result where
  "quiet_scan = \<lparr>sr_status = PStr ''success'', sr_syntax_errors = [], sr_summary = [], sr_findings = [],
     sr_secret_findings = [], sr_sca_findings = []\<rparr>"

definition quiet_summary :: event_summary where
  "quiet_summary = \<lparr>sast_findings = 0, sca_findings = 0, secret_findings = 0, total_findings = 0, critical_count = 0,
     high_count = 0, medium_count = 0, low_count = 0, security_score = 100, risk_level = ''CLEAN'',
     scan_status_of_summary = SUCCESS, summary_message = []\<rparr>"

definition quiet_metadata :: dict where
  "quiet_metadata = [(''organization_id'', PInt 7), (''secret'', PStr ''x'')]"

definition quiet_first :: "error + event" where
  "quiet_first = new_event sample_hash ''e'' ''now'' SCAN_COMPLETED ''shop'' ''42'' quiet_summary 0
     (base_metadata quiet_scan quiet_summary (clean_metadata quiet_metadata)) (completed_context quiet_summary)"

lemma quiet_facts:
  "build_event_summary quiet_scan = Inr quiet_summary" "is_ok quiet_first" "py_strip ''42'' = ''42''"
  "active_findings quiet_scan = []" "sr_secret_findings quiet_scan = []"
  by code_simp+

lemma quiet_build:
  "build_events sample_hash (\<lambda>k. ''e'') (\<lambda>k. ''now'') quiet_scan ''shop'' ''42'' (clean_metadata quiet_metadata) None
   = Inr [result_of quiet_first]"
proof -
  obtain a where first: "quiet_first = Inr a" using is_ok_result [OF quiet_facts(2)] by blast
  have "result_of quiet_first = a" unfolding result_of_def first by simp
  then show ?thesis
    by (simp add: build_events_def Let_def quiet_facts of_severity_def emit_if_def quiet_first_def [symmetric]
        scan_violations_def) (simp only: first res_bind.simps)
qed

theorem published_scan_stays_in_tenant_witness:
  "\<exists>outs st'. service_publish sample_handler_env (\<lambda>a b. 0) (\<lambda>k. ''e'') (\<lambda>k. ''now'') quiet_scan ''shop'' ''42'' quiet_metadata None ([], sample_ns)
      = Inr (outs, st') \<and> within_tenant 7 sample_ns (snd st')"
proof -
  have env: "he_sha sample_handler_env = sample_hash" by (simp add: sample_handler_env_def)
  obtain outs st' where out: "service_publish sample_handler_env (\<lambda>a b. 0) (\<lambda>k. ''e'') (\<lambda>k. ''now'') quiet_scan ''shop'' ''42'' quiet_metadata
      None ([], sample_ns) = Inr (outs, st')"
    by (simp add: service_publish_def publish_scan_events_def env quiet_build Let_def)
  from published_scan_stays_in_tenant [OF sample_ns_ok _ _ out, of 7] out show ?thesis
    by (auto simp: quiet_metadata_def)
qed

end
