(* ===== verification/Reach_Records.thy ===== *)
theory Reach_Records
  imports Py_Values
begin

text \<open>
  \<open>sca_reachability/contracts.py\<close>: the enumerations, the evidence records and the finding of
  the reachability analysis, with \<open>to_dict\<close> and \<open>from_dict\<close>. Columns are integers, floats
  are pairs of their integer part and their text.
\<close>

section \<open>Enumerations\<close>

datatype scope_type = ModuleScope | ClassScope | FunctionScope

datatype reach_state =
    PackageVulnerable | PackageNotVulnerable | PackageImportNotFound | PackageImported | ApiReferenceFound
  | CallReachable | CallUnreachable | ReachabilityUnresolved

datatype reach_class =
    DependencyActive | DependencyDormant | ReachableApiUse | ClassUnresolved | TransitiveVulnerable | NotVulnerable

datatype confidence = ProvenStatic | Possible | UnresolvedConfidence

definition scope_values :: "(string \<times> scope_type) list" where
  "scope_values = [(''MODULE'', ModuleScope), (''CLASS'', ClassScope), (''FUNCTION'', FunctionScope)]"

definition state_values :: "(string \<times> reach_state) list" where
  "state_values =
     [(''PACKAGE_VULNERABLE'', PackageVulnerable), (''PACKAGE_NOT_VULNERABLE'', PackageNotVulnerable),
      (''PACKAGE_IMPORT_NOT_FOUND'', PackageImportNotFound), (''PACKAGE_IMPORTED'', PackageImported),
      (''API_REFERENCE_FOUND'', ApiReferenceFound), (''CALL_REACHABLE'', CallReachable),
      (''CALL_UNREACHABLE'', CallUnreachable), (''REACHABILITY_UNRESOLVED'', ReachabilityUnresolved)]"

definition class_values :: "(string \<times> reach_class) list" where
  "class_values =
     [(''DEPENDENCY_ACTIVE'', DependencyActive), (''DEPENDENCY_DORMANT'', DependencyDormant),
      (''REACHABLE_API_USE'', ReachableApiUse), (''REACHABILITY_UNRESOLVED'', ClassUnresolved),
      (''TRANSITIVE_VULNERABLE'', TransitiveVulnerable), (''NOT_VULNERABLE'', NotVulnerable)]"

definition confidence_values :: "(string \<times> confidence) list" where
  "confidence_values = [(''PROVEN_STATIC'', ProvenStatic), (''POSSIBLE'', Possible), (''UNRESOLVED'', UnresolvedConfidence)]"

text \<open>\<open>Member.value\<close> and \<open>Enum(value)\<close>.\<close>

definition value_of :: "(string \<times> 'a) list \<Rightarrow> 'a \<Rightarrow> string" where
  "value_of vs x = fst (the (find (\<lambda>p. snd p = x) vs))"

definition member_of :: "(string \<times> 'a) list \<Rightarrow> string \<Rightarrow> error + 'a" where
  "member_of vs s = (case map_of vs s of Some x \<Rightarrow> Inr x | None \<Rightarrow> Inl (ValueError s))"

lemma members [simp]:
  "member_of scope_values (value_of scope_values s) = Inr s"
  "member_of state_values (value_of state_values t) = Inr t"
  "member_of class_values (value_of class_values c) = Inr c"
  "member_of confidence_values (value_of confidence_values k) = Inr k"
proof -
  note defs = member_of_def value_of_def scope_values_def state_values_def class_values_def confidence_values_def
  show "member_of scope_values (value_of scope_values s) = Inr s" by (cases s) (simp_all add: defs)
  show "member_of state_values (value_of state_values t) = Inr t" by (cases t) (simp_all add: defs)
  show "member_of class_values (value_of class_values c) = Inr c" by (cases c) (simp_all add: defs)
  show "member_of confidence_values (value_of confidence_values k) = Inr k" by (cases k) (simp_all add: defs)
qed

section \<open>Records\<close>

record import_record =
  ir_style :: string
  ir_dist :: string
  ir_root :: string
  ir_module :: string
  ir_symbol :: "string option"
  ir_alias :: "string option"
  ir_file :: string
  ir_line :: int
  ir_column :: int
  ir_scope_type :: scope_type
  ir_scope :: string
  ir_parent :: "string option"
  ir_evidence :: string
  ir_environment :: string

definition is_wildcard :: "import_record \<Rightarrow> bool" where
  "is_wildcard r \<longleftrightarrow> ir_symbol r = Some ''*'' \<or> ir_style r = ''from_import_star''"

record local_binding =
  lb_variable :: string
  lb_scope :: string
  lb_source :: string
  lb_type :: string
  lb_import :: "import_record option"
  lb_file :: string
  lb_line :: int
  lb_column :: int
  lb_confidence :: confidence

record call_record =
  cr_caller :: string
  cr_callee :: string
  cr_import :: "import_record option"
  cr_symbol :: string
  cr_path :: "string list"
  cr_file :: string
  cr_line :: int
  cr_column :: int
  cr_confidence :: confidence
  cr_dynamic :: bool

record vector_finding =
  vf_id :: string
  vf_aliases :: "string list"
  vf_summary :: string
  vf_package :: string
  vf_version :: "string option"
  vf_specifier :: "string option"
  vf_affected :: string
  vf_confidence :: "int \<times> string"
  vf_import_status :: reach_state
  vf_import :: "import_record option"
  vf_import_source :: string
  vf_environment :: string
  vf_api_status :: reach_state
  vf_call :: "call_record option"
  vf_call_status :: reach_state
  vf_path :: "string list"
  vf_depth :: int
  vf_edge :: string
  vf_class :: reach_class
  vf_transitive :: bool
  vf_severity :: string
  vf_score :: "(int \<times> string) option"
  vf_manifest :: string
  vf_line :: "int option"
  vf_limitations :: "string list"


section \<open>Serialization\<close>

definition opt_text :: "string option \<Rightarrow> pyval" where
  "opt_text t = (case t of None \<Rightarrow> PNone | Some s \<Rightarrow> PStr s)"

definition text_list :: "string list \<Rightarrow> pyval" where
  "text_list ts = PList (map PStr ts)"

definition import_to_dict :: "import_record \<Rightarrow> dict" where
  "import_to_dict r =
     [(''import_style'', PStr (ir_style r)), (''distribution_name'', PStr (ir_dist r)), (''import_root'', PStr (ir_root r)),
      (''module'', PStr (ir_module r)), (''symbol'', opt_text (ir_symbol r)), (''alias'', opt_text (ir_alias r)),
      (''file'', PStr (ir_file r)), (''line'', PInt (ir_line r)), (''column'', PInt (ir_column r)),
      (''scope_type'', PStr (value_of scope_values (ir_scope_type r))), (''scope_path'', PStr (ir_scope r)),
      (''parent_scope_path'', opt_text (ir_parent r)), (''mapping_evidence'', PStr (ir_evidence r)),
      (''environment_scope'', PStr (ir_environment r)), (''is_wildcard'', PBool (is_wildcard r))]"

definition import_entry :: "import_record option \<Rightarrow> pyval" where
  "import_entry r = (case r of None \<Rightarrow> PNone | Some i \<Rightarrow> PDict (import_to_dict i))"

definition call_to_dict :: "call_record \<Rightarrow> dict" where
  "call_to_dict c =
     [(''caller_scope'', PStr (cr_caller c)), (''callee_expr'', PStr (cr_callee c)), (''attributed_import'', import_entry (cr_import c)),
      (''target_symbol'', PStr (cr_symbol c)), (''call_path'', text_list (cr_path c)), (''file'', PStr (cr_file c)),
      (''line'', PInt (cr_line c)), (''column'', PInt (cr_column c)),
      (''attribution_confidence'', PStr (value_of confidence_values (cr_confidence c))), (''is_dynamic'', PBool (cr_dynamic c))]"

definition finding_to_dict :: "vector_finding \<Rightarrow> dict" where
  "finding_to_dict f =
     [(''advisory_id'', PStr (vf_id f)), (''advisory_aliases'', text_list (vf_aliases f)), (''advisory_summary'', PStr (vf_summary f)),
      (''package_name'', PStr (vf_package f)), (''declared_version'', opt_text (vf_version f)),
      (''version_specifier'', opt_text (vf_specifier f)), (''affected_status'', PStr (vf_affected f)),
      (''affected_confidence'', PFloat (fst (vf_confidence f)) (snd (vf_confidence f))),
      (''import_status'', PStr (value_of state_values (vf_import_status f))), (''import_evidence'', import_entry (vf_import f)),
      (''import_evidence_source'', PStr (vf_import_source f)), (''environment_scope'', PStr (vf_environment f)),
      (''api_status'', PStr (value_of state_values (vf_api_status f))),
      (''call_evidence'', (case vf_call f of None \<Rightarrow> PNone | Some c \<Rightarrow> PDict (call_to_dict c))),
      (''call_status'', PStr (value_of state_values (vf_call_status f))), (''call_path'', text_list (vf_path f)),
      (''call_depth'', PInt (vf_depth f)), (''edge_type'', PStr (vf_edge f)),
      (''reachability_classification'', PStr (value_of class_values (vf_class f))), (''is_transitive'', PBool (vf_transitive f)),
      (''severity'', PStr (vf_severity f)), (''cvss_score'', (case vf_score f of None \<Rightarrow> PNone | Some x \<Rightarrow> PFloat (fst x) (snd x))),
      (''manifest_source'', PStr (vf_manifest f)),
      (''manifest_line'', (case vf_line f of None \<Rightarrow> PNone | Some n \<Rightarrow> PInt n)), (''limitations'', text_list (vf_limitations f))]"

section \<open>Deserialization\<close>

text \<open>
  \<open>d.get(key, default)\<close> into a typed field. Python stores whatever the dictionary holds; a
  value that does not have the field's type is outside the records, and is \<open>TypeError\<close> here.
\<close>

definition as_text :: "string \<Rightarrow> pyval \<Rightarrow> error + string" where
  "as_text k v = (case v of PStr s \<Rightarrow> Inr s | _ \<Rightarrow> Inl (TypeError k))"

definition as_opt :: "string \<Rightarrow> pyval \<Rightarrow> error + string option" where
  "as_opt k v = (case v of PNone \<Rightarrow> Inr None | PStr s \<Rightarrow> Inr (Some s) | _ \<Rightarrow> Inl (TypeError k))"

definition as_int :: "string \<Rightarrow> pyval \<Rightarrow> error + int" where
  "as_int k v = (case v of PInt i \<Rightarrow> Inr i | _ \<Rightarrow> Inl (TypeError k))"

definition as_opt_int :: "string \<Rightarrow> pyval \<Rightarrow> error + int option" where
  "as_opt_int k v = (case v of PNone \<Rightarrow> Inr None | PInt i \<Rightarrow> Inr (Some i) | _ \<Rightarrow> Inl (TypeError k))"

definition as_bool :: "string \<Rightarrow> pyval \<Rightarrow> error + bool" where
  "as_bool k v = (case v of PBool b \<Rightarrow> Inr b | _ \<Rightarrow> Inl (TypeError k))"

fun text_values :: "pyval list \<Rightarrow> string list option" where
  "text_values [] = Some []"
| "text_values (v # vs) = (case v of PStr s \<Rightarrow> map_option (\<lambda>ts. s # ts) (text_values vs) | _ \<Rightarrow> None)"

definition as_texts :: "string \<Rightarrow> pyval \<Rightarrow> error + string list" where
  "as_texts k v =
     (case (case v of PTuple vs \<Rightarrow> text_values vs | PList vs \<Rightarrow> text_values vs | _ \<Rightarrow> None) of
        Some xs \<Rightarrow> Inr xs | None \<Rightarrow> Inl (TypeError k))"

definition as_member :: "(string \<times> 'a) list \<Rightarrow> string \<Rightarrow> pyval \<Rightarrow> error + 'a" where
  "as_member vs k v = (case v of PStr s \<Rightarrow> member_of vs s | _ \<Rightarrow> Inl (TypeError k))"

definition as_float :: "string \<Rightarrow> pyval \<Rightarrow> error + int \<times> string" where
  "as_float k v = (case v of PFloat i s \<Rightarrow> Inr (i, s) | PInt i \<Rightarrow> Inr (i, int_str i @ ''.0'') | _ \<Rightarrow> Inl (TypeError k))"

definition as_opt_float :: "string \<Rightarrow> pyval \<Rightarrow> error + (int \<times> string) option" where
  "as_opt_float k v = (if v = PNone then Inr None else res_bind (as_float k v) (\<lambda>x. Inr (Some x)))"

definition field :: "(string \<Rightarrow> pyval \<Rightarrow> error + 'a) \<Rightarrow> string \<Rightarrow> pyval \<Rightarrow> dict \<Rightarrow> error + 'a" where
  "field read k dflt d = read k (dict_get k dflt d)"

definition import_from_dict :: "dict \<Rightarrow> error + import_record" where
  "import_from_dict d =
     res_bind (field (as_member scope_values) ''scope_type'' (PStr (value_of scope_values ModuleScope)) d) (\<lambda>st.
     res_bind (field as_text ''import_style'' (PStr ''import'') d) (\<lambda>style.
     res_bind (field as_text ''distribution_name'' (PStr []) d) (\<lambda>dist.
     res_bind (field as_text ''import_root'' (PStr []) d) (\<lambda>root.
     res_bind (field as_text ''module'' (PStr []) d) (\<lambda>module.
     res_bind (field as_opt ''symbol'' PNone d) (\<lambda>sym.
     res_bind (field as_opt ''alias'' PNone d) (\<lambda>alias.
     res_bind (field as_text ''file'' (PStr []) d) (\<lambda>fl.
     res_bind (field as_int ''line'' (PInt 1) d) (\<lambda>ln.
     res_bind (field as_int ''column'' (PInt 0) d) (\<lambda>col.
     res_bind (field as_text ''scope_path'' (PStr []) d) (\<lambda>scope.
     res_bind (field as_opt ''parent_scope_path'' PNone d) (\<lambda>parent.
     res_bind (field as_text ''mapping_evidence'' (PStr ''UNRESOLVED'') d) (\<lambda>ev.
     res_bind (field as_text ''environment_scope'' (PStr ''NONE'') d) (\<lambda>envs.
       Inr \<lparr>ir_style = style, ir_dist = dist, ir_root = root, ir_module = module, ir_symbol = sym, ir_alias = alias,
            ir_file = fl, ir_line = ln, ir_column = col, ir_scope_type = st, ir_scope = scope, ir_parent = parent,
            ir_evidence = ev, ir_environment = envs\<rparr>))))))))))))))"

text \<open>The call is given the import of the finding, not its own.\<close>

definition call_from_dict :: "import_record option \<Rightarrow> dict \<Rightarrow> error + call_record" where
  "call_from_dict imp d =
     res_bind (field (as_member confidence_values) ''attribution_confidence'' (PStr (value_of confidence_values UnresolvedConfidence)) d) (\<lambda>conf.
     res_bind (field as_text ''caller_scope'' (PStr []) d) (\<lambda>caller.
     res_bind (field as_text ''callee_expr'' (PStr []) d) (\<lambda>callee.
     res_bind (field as_text ''target_symbol'' (PStr []) d) (\<lambda>sym.
     res_bind (field as_texts ''call_path'' (PTuple []) d) (\<lambda>path.
     res_bind (field as_text ''file'' (PStr []) d) (\<lambda>fl.
     res_bind (field as_int ''line'' (PInt 1) d) (\<lambda>ln.
     res_bind (field as_int ''column'' (PInt 0) d) (\<lambda>col.
     res_bind (field as_bool ''is_dynamic'' (PBool False) d) (\<lambda>dyn.
       Inr \<lparr>cr_caller = caller, cr_callee = callee, cr_import = imp, cr_symbol = sym, cr_path = path, cr_file = fl,
            cr_line = ln, cr_column = col, cr_confidence = conf, cr_dynamic = dyn\<rparr>)))))))))"

definition optional_entry :: "string \<Rightarrow> (dict \<Rightarrow> error + 'a) \<Rightarrow> dict \<Rightarrow> error + 'a option" where
  "optional_entry k read d =
     (case dict_get k PNone d of
        PDict e \<Rightarrow> if e = [] then Inr None else res_bind (read e) (\<lambda>x. Inr (Some x))
      | v \<Rightarrow> if py_truthy v then Inl (TypeError k) else Inr None)"

text \<open>The scalar fields of a finding, then its evidence.\<close>

definition blank_finding :: vector_finding where
  "blank_finding =
     \<lparr>vf_id = [], vf_aliases = [], vf_summary = [], vf_package = [], vf_version = None, vf_specifier = None, vf_affected = ''CONFIRMED'',
      vf_confidence = (1, ''1.0''), vf_import_status = PackageImportNotFound, vf_import = None, vf_import_source = ''UNRESOLVED'',
      vf_environment = ''NONE'', vf_api_status = ReachabilityUnresolved, vf_call = None, vf_call_status = ReachabilityUnresolved,
      vf_path = [], vf_depth = 0, vf_edge = ''UNRESOLVED_EDGE'', vf_class = ClassUnresolved, vf_transitive = False,
      vf_severity = ''UNKNOWN'', vf_score = None, vf_manifest = [], vf_line = None, vf_limitations = []\<rparr>"

definition read_statuses :: "dict \<Rightarrow> vector_finding \<Rightarrow> error + vector_finding" where
  "read_statuses d f =
     res_bind (field (as_member state_values) ''import_status'' (PStr (value_of state_values PackageImportNotFound)) d) (\<lambda>i.
     res_bind (field (as_member state_values) ''api_status'' (PStr (value_of state_values ReachabilityUnresolved)) d) (\<lambda>a.
     res_bind (field (as_member state_values) ''call_status'' (PStr (value_of state_values ReachabilityUnresolved)) d) (\<lambda>c.
     res_bind (field (as_member class_values) ''reachability_classification'' (PStr (value_of class_values ClassUnresolved)) d) (\<lambda>k.
       Inr (f\<lparr>vf_import_status := i, vf_api_status := a, vf_call_status := c, vf_class := k\<rparr>)))))"

definition read_evidence :: "dict \<Rightarrow> vector_finding \<Rightarrow> error + vector_finding" where
  "read_evidence d f =
     res_bind (optional_entry ''import_evidence'' import_from_dict d) (\<lambda>i.
     res_bind (optional_entry ''call_evidence'' (call_from_dict i) d) (\<lambda>c.
       Inr (f\<lparr>vf_import := i, vf_call := c\<rparr>)))"

definition read_advisory :: "dict \<Rightarrow> vector_finding \<Rightarrow> error + vector_finding" where
  "read_advisory d f =
     res_bind (field as_text ''advisory_id'' (PStr []) d) (\<lambda>i.
     res_bind (field as_texts ''advisory_aliases'' (PTuple []) d) (\<lambda>al.
     res_bind (field as_text ''advisory_summary'' (PStr []) d) (\<lambda>sm.
     res_bind (field as_text ''package_name'' (PStr []) d) (\<lambda>pk.
     res_bind (field as_opt ''declared_version'' PNone d) (\<lambda>dv.
     res_bind (field as_opt ''version_specifier'' PNone d) (\<lambda>sp.
     res_bind (field as_text ''affected_status'' (PStr ''CONFIRMED'') d) (\<lambda>st.
     res_bind (field as_float ''affected_confidence'' (PFloat 1 ''1.0'') d) (\<lambda>x.
       Inr (f\<lparr>vf_id := i, vf_aliases := al, vf_summary := sm, vf_package := pk, vf_version := dv,
                          vf_specifier := sp, vf_affected := st, vf_confidence := x\<rparr>)))))))))"

definition read_result :: "dict \<Rightarrow> vector_finding \<Rightarrow> error + vector_finding" where
  "read_result d f =
     res_bind (field as_text ''import_evidence_source'' (PStr ''UNRESOLVED'') d) (\<lambda>src.
     res_bind (field as_text ''environment_scope'' (PStr ''NONE'') d) (\<lambda>envs.
     res_bind (field as_texts ''call_path'' (PTuple []) d) (\<lambda>path.
     res_bind (py_int (dict_get ''call_depth'' (PInt 0) d)) (\<lambda>depth.
     res_bind (field as_text ''edge_type'' (PStr ''UNRESOLVED_EDGE'') d) (\<lambda>edge.
       Inr (f\<lparr>vf_import_source := src, vf_environment := envs, vf_path := path, vf_depth := depth, vf_edge := edge,
             vf_transitive := py_truthy (dict_get ''is_transitive'' (PBool False) d)\<rparr>))))))"

definition read_audit :: "dict \<Rightarrow> vector_finding \<Rightarrow> error + vector_finding" where
  "read_audit d f =
     res_bind (field as_text ''severity'' (PStr ''UNKNOWN'') d) (\<lambda>sev.
     res_bind (field as_text ''manifest_source'' (PStr []) d) (\<lambda>src.
     res_bind (field as_texts ''limitations'' (PTuple []) d) (\<lambda>lims.
     res_bind (field as_opt_float ''cvss_score'' PNone d) (\<lambda>score.
     res_bind (field as_opt_int ''manifest_line'' PNone d) (\<lambda>ln.
       Inr (f\<lparr>vf_severity := sev, vf_manifest := src, vf_limitations := lims, vf_score := score, vf_line := ln\<rparr>))))))"

definition finding_from_dict :: "dict \<Rightarrow> error + vector_finding" where
  "finding_from_dict d =
     res_bind (read_statuses d blank_finding) (\<lambda>f.
     res_bind (read_evidence d f) (\<lambda>f. res_bind (read_advisory d f) (\<lambda>f. res_bind (read_result d f) (read_audit d))))"

section \<open>What comes back\<close>

lemma text_values_texts [simp]: "text_values (map PStr ts) = Some ts"
  by (induction ts) auto

lemma reading [simp]:
  "as_text k (PStr s) = Inr s" "as_opt k (opt_text t) = Inr t" "as_int k (PInt i) = Inr i" "as_bool k (PBool b) = Inr b"
  "as_texts k (text_list ts) = Inr ts" "as_float k (PFloat i s) = Inr (i, s)"
  "as_member vs k (PStr s) = member_of vs s"
  by (simp_all add: as_text_def as_opt_def as_int_def as_bool_def as_texts_def as_float_def as_member_def opt_text_def text_list_def
      split: option.split)

lemma reading_options [simp]:
  "as_opt_int k (case n of None \<Rightarrow> PNone | Some i \<Rightarrow> PInt i) = Inr n"
  "as_opt_float k (case x of None \<Rightarrow> PNone | Some f \<Rightarrow> PFloat (fst f) (snd f)) = Inr x"
  by (simp_all add: as_opt_int_def as_opt_float_def split: option.split)

lemma field_Cons [simp]: "field read k d ((k', v) # m) = (if k = k' then read k v else field read k d m)"
  by (simp add: field_def dict_get_def)

lemma import_from_to: "import_from_dict (import_to_dict r) = Inr r"
  by (simp add: import_from_dict_def import_to_dict_def)

lemma call_from_to: "call_from_dict i (call_to_dict c) = Inr (c\<lparr>cr_import := i\<rparr>)"
  by (simp add: call_from_dict_def call_to_dict_def)

lemma optional_import: "dict_get k PNone d = import_entry i \<Longrightarrow> optional_entry k import_from_dict d = Inr i"
  by (cases i) (simp_all add: optional_entry_def import_entry_def import_from_to import_to_dict_def [of "the i", symmetric],
    simp add: import_to_dict_def)

lemma optional_call:
  "dict_get k PNone d = (case c of None \<Rightarrow> PNone | Some c \<Rightarrow> PDict (call_to_dict c)) \<Longrightarrow>
   optional_entry k (call_from_dict i) d = Inr (map_option (\<lambda>c. c\<lparr>cr_import := i\<rparr>) c)"
  by (cases c) (simp_all add: optional_entry_def call_from_to, simp add: call_to_dict_def)

lemma finding_from_to:
  "finding_from_dict (finding_to_dict f) = Inr (f\<lparr>vf_call := map_option (\<lambda>c. c\<lparr>cr_import := vf_import f\<rparr>) (vf_call f)\<rparr>)"
proof -
  let ?d = "finding_to_dict f"
  have "read_statuses ?d g = Inr (g\<lparr>vf_import_status := vf_import_status f, vf_api_status := vf_api_status f,
      vf_call_status := vf_call_status f, vf_class := vf_class f\<rparr>)" for g
    by (simp add: read_statuses_def finding_to_dict_def)
  moreover have "dict_get ''import_evidence'' PNone ?d = import_entry (vf_import f)"
      "dict_get ''call_evidence'' PNone ?d = (case vf_call f of None \<Rightarrow> PNone | Some c \<Rightarrow> PDict (call_to_dict c))"
    by (simp_all add: finding_to_dict_def dict_get_def)
  then have "read_evidence ?d g = Inr (g\<lparr>vf_import := vf_import f, vf_call := map_option (\<lambda>c. c\<lparr>cr_import := vf_import f\<rparr>) (vf_call f)\<rparr>)" for g
    by (simp add: read_evidence_def optional_import optional_call)
  moreover have "read_advisory ?d g = Inr (g\<lparr>vf_id := vf_id f, vf_aliases := vf_aliases f, vf_summary := vf_summary f,
      vf_package := vf_package f, vf_version := vf_version f, vf_specifier := vf_specifier f, vf_affected := vf_affected f,
      vf_confidence := vf_confidence f\<rparr>)" for g
    by (simp add: read_advisory_def finding_to_dict_def)
  moreover have "read_result ?d g = Inr (g\<lparr>vf_import_source := vf_import_source f, vf_environment := vf_environment f,
      vf_path := vf_path f, vf_depth := vf_depth f, vf_edge := vf_edge f, vf_transitive := vf_transitive f\<rparr>)" for g
    by (simp add: read_result_def finding_to_dict_def dict_get_def)
  moreover have "read_audit ?d g = Inr (g\<lparr>vf_severity := vf_severity f, vf_manifest := vf_manifest f,
      vf_limitations := vf_limitations f, vf_score := vf_score f, vf_line := vf_line f\<rparr>)" for g
    by (simp add: read_audit_def finding_to_dict_def)
  ultimately show ?thesis by (simp add: finding_from_dict_def)
qed

text \<open>
  A finding that is serialized and read back is the same finding, but for the import of its
  call evidence, which is replaced by the import evidence of the finding: it comes back unchanged
  exactly when the two agree. A call that was reported as not attributed to any import comes back
  attributed.
\<close>

theorem finding_roundtrip:
  "(finding_from_dict (finding_to_dict f) = Inr f \<longleftrightarrow> (\<exists>c. vf_call f = Some c \<and> cr_import c = vf_import f) \<or> vf_call f = None)
   \<and> (\<exists>g. finding_from_dict (finding_to_dict f) = Inr g \<and> g\<lparr>vf_call := None\<rparr> = f\<lparr>vf_call := None\<rparr>
        \<and> map_option cr_callee (vf_call g) = map_option cr_callee (vf_call f)
        \<and> map_option cr_import (vf_call g) = map_option (\<lambda>c. vf_import f) (vf_call f))"
proof -
  have "f\<lparr>vf_call := x\<rparr> = f \<longleftrightarrow> x = vf_call f" for x by (cases f) simp
  moreover have "c\<lparr>cr_import := i\<rparr> = c \<longleftrightarrow> i = cr_import c" for c :: call_record and i by (cases c) simp
  ultimately show ?thesis
    by (cases "vf_call f") (auto simp: finding_from_to)
qed

end
