(* ===== verification/Call_Graph.thy ===== *)
theory Call_Graph
  imports Py_Ast Reach_Records
begin

text \<open>
  \<open>sca_reachability/call_graph.py\<close>: the graph of the calls between the functions of the
  analysed files (\<open>_resolve_called_scope\<close>, \<open>_build_graph\<close>), the breadth-first search for
  paths from the entry points to a scope (\<open>find_paths_to_scope\<close>), and the verdict on one call
  (\<open>evaluate_call_reachability\<close>).

  The dictionary of the functions keeps the order in which they were first defined. The search
  is shown to find a shortest path (\<open>searched\<close> is its invariant), from which the meaning of the
  verdict CALL_REACHABLE follows.
\<close>

section \<open>The graph\<close>

type_synonym function_table = "(string \<times> ast) list"

definition has_function :: "function_table \<Rightarrow> string \<Rightarrow> bool" where
  "has_function fs s \<longleftrightarrow> s \<in> set (map fst fs)"

definition scope_parts :: "string \<Rightarrow> string list" where
  "scope_parts s = py_split CHR ''.'' s"

text \<open>\<open>max(xs, key=k)\<close>: the first of the greatest.\<close>

fun max_by :: "('a \<Rightarrow> nat) \<Rightarrow> 'a \<Rightarrow> 'a list \<Rightarrow> 'a" where
  "max_by k b [] = b"
| "max_by k b (x # xs) = (if k b < k x then max_by k x xs else max_by k b xs)"

definition common_parts :: "string \<Rightarrow> string \<Rightarrow> nat" where
  "common_parts caller s = length (filter (\<lambda>p. p \<in> set (scope_parts caller)) (remdups (scope_parts s)))"

definition resolve_called_scope :: "function_table \<Rightarrow> string \<Rightarrow> string \<Rightarrow> string \<Rightarrow> string option" where
  "resolve_called_scope fs module caller name =
     (let inner = caller @ ''.'' @ name; sibling = fst (rsplit_once CHR ''.'' caller) @ ''.'' @ name;
          top = module @ ''.'' @ name; matching = filter (\<lambda>s. py_endswith s (''.'' @ name)) (map fst fs)
      in if has_function fs inner then Some inner
         else if CHR ''.'' \<in> set caller \<and> has_function fs sibling then Some sibling
         else if has_function fs top then Some top
         else (case matching of [] \<Rightarrow> None | m # ms \<Rightarrow> Some (max_by (common_parts caller) m ms)))"

fun called_name :: "ast \<Rightarrow> string option" where
  "called_name (Call l (Name l' i) as ks) = Some i"
| "called_name (Call l (Attribute l' v a) as ks) = Some a"
| "called_name n = None"

definition called_scopes :: "function_table \<Rightarrow> string \<Rightarrow> string \<Rightarrow> ast \<Rightarrow> string list" where
  "called_scopes fs module scope f =
     List.map_filter (\<lambda>n. case called_name n of
        None \<Rightarrow> None
      | Some name \<Rightarrow> if name = [] then None else resolve_called_scope fs module scope name) (ast_walk f)"

definition build_graph :: "function_table \<Rightarrow> string \<Rightarrow> (string \<times> string list) list" where
  "build_graph fs module = map (\<lambda>(s, f). (s, called_scopes fs module s f)) fs"

definition neighbours :: "(string \<times> string list) list \<Rightarrow> string \<Rightarrow> string list" where
  "neighbours g s = (case map_of g s of Some ts \<Rightarrow> ts | None \<Rightarrow> [])"

section \<open>The search\<close>

type_synonym path = "string list"

record search =
  se_queue :: "path list"
  se_visited :: "string list"
  se_found :: "path list"

text \<open>
  A queue entry is the path so far; the current scope is its last element. One turn of the inner
  loop looks at one neighbour.
\<close>

definition look_at :: "string \<Rightarrow> path \<Rightarrow> search \<Rightarrow> string \<Rightarrow> search" where
  "look_at target p s nxt =
     (if nxt = target then s\<lparr>se_found := se_found s @ [p @ [nxt]]\<rparr>
      else if nxt \<notin> set p \<and> nxt \<notin> set (se_visited s)
      then s\<lparr>se_visited := se_visited s @ [nxt], se_queue := se_queue s @ [p @ [nxt]]\<rparr>
      else s)"

definition expand :: "(string \<times> string list) list \<Rightarrow> string \<Rightarrow> nat \<Rightarrow> search \<Rightarrow> search" where
  "expand g target depth s =
     (let p = hd (se_queue s); s' = s\<lparr>se_queue := tl (se_queue s)\<rparr>
      in if depth < length p then s' else foldl (look_at target p) s' (neighbours g (last p)))"

definition all_targets :: "(string \<times> string list) list \<Rightarrow> string set" where
  "all_targets g = set (concat (map snd g))"

definition search_weight :: "(string \<times> string list) list \<Rightarrow> search \<Rightarrow> nat" where
  "search_weight g s = length (se_queue s) + card (all_targets g - set (se_visited s))"

lemma neighbours_targets: "set (neighbours g s) \<subseteq> all_targets g"
proof (cases "map_of g s")
  case (Some ts)
  from map_of_SomeD [OF this] have "ts \<in> snd ` set g" by force
  with Some show ?thesis by (auto simp: neighbours_def all_targets_def)
qed (simp add: neighbours_def)

lemma look_at_weight:
  assumes "nxt \<in> all_targets g"
  shows "search_weight g (look_at target p s nxt) = search_weight g s"
proof (cases "nxt \<noteq> target \<and> nxt \<notin> set p \<and> nxt \<notin> set (se_visited s)")
  case True
  let ?left = "all_targets g - set (se_visited s)"
  have "Suc (card (?left - {nxt})) = card ?left"
    using assms True by (intro card_Suc_Diff1) (auto simp: all_targets_def)
  moreover have "all_targets g - insert nxt (set (se_visited s)) = ?left - {nxt}" by auto
  ultimately show ?thesis using True by (simp add: look_at_def search_weight_def)
qed (auto simp: look_at_def search_weight_def)

lemma expand_weight: "se_queue s \<noteq> [] \<Longrightarrow> search_weight g (expand g target depth s) < search_weight g s"
proof -
  assume q: "se_queue s \<noteq> []"
  let ?s = "s\<lparr>se_queue := tl (se_queue s)\<rparr>"
  have "search_weight g (foldl (look_at target p) u ns) = search_weight g u" if "set ns \<subseteq> all_targets g" for p u ns
    using that by (induction ns arbitrary: u) (auto simp: look_at_weight)
  from this [OF neighbours_targets] have "search_weight g (expand g target depth s) = search_weight g ?s"
    by (simp add: expand_def Let_def)
  also have "\<dots> < search_weight g s" using q by (simp add: search_weight_def)
  finally show ?thesis .
qed

function run_search :: "(string \<times> string list) list \<Rightarrow> string \<Rightarrow> nat \<Rightarrow> search \<Rightarrow> search" where
  "run_search g target depth s = (if se_queue s = [] then s else run_search g target depth (expand g target depth s))"
  by pat_completeness auto
termination run_search
  by (relation "measure (\<lambda>(g, target, depth, s). search_weight g s)") (auto simp: expand_weight)

declare run_search.simps [simp del]

definition paths_from :: "(string \<times> string list) list \<Rightarrow> string \<Rightarrow> nat \<Rightarrow> string \<Rightarrow> path list" where
  "paths_from g target depth root =
     (if root = target then [[root]]
      else se_found (run_search g target depth \<lparr>se_queue = [[root]], se_visited = [], se_found = []\<rparr>))"

text \<open>\<open>root.split("(")[0].split(".")[-1]\<close>.\<close>

definition clean_root :: "string \<Rightarrow> string" where
  "clean_root r = last (py_split CHR ''.'' (hd (py_split CHR ''('' r)))"

record graph =
  gr_functions :: function_table
  gr_module :: string
  gr_roots :: "string list"

definition root_scopes :: "graph \<Rightarrow> string list \<Rightarrow> string list" where
  "root_scopes gr roots =
     List.map_filter (\<lambda>r. resolve_called_scope (gr_functions gr) (gr_module gr) (gr_module gr) (clean_root r)) roots"

definition adjacency :: "graph \<Rightarrow> (string \<times> string list) list" where
  "adjacency gr = build_graph (gr_functions gr) (gr_module gr)"

definition find_paths_to_scope :: "graph \<Rightarrow> string \<Rightarrow> nat \<Rightarrow> path list" where
  "find_paths_to_scope gr target depth =
     sort_key length (concat (map (paths_from (adjacency gr) target depth) (root_scopes gr (gr_roots gr))))"

section \<open>The verdict on a call\<close>

definition strip_call :: "string \<Rightarrow> string" where
  "strip_call s = (if py_endswith s ''()'' then take (length s - 2) s else s)"

definition last_part :: "string \<Rightarrow> string" where
  "last_part s = last (scope_parts s)"

record call_result =
  ve_state :: reach_state
  ve_path :: path
  ve_depth :: nat
  ve_edge :: string
  ve_limitation :: "string option"

definition proven_edge :: string where "proven_edge = ''PROVEN_STATIC_EDGE''"

definition unresolved_edge :: string where "unresolved_edge = ''UNRESOLVED_EDGE''"

definition evaluate_call_reachability :: "graph \<Rightarrow> call_record \<Rightarrow> call_result" where
  "evaluate_call_reachability gr c =
     (let callee = strip_call (cr_callee c); caller = last_part (cr_caller c) in
      if cr_caller c = gr_module gr then
        \<lparr>ve_state = CallReachable, ve_path = [''module_level'', callee], ve_depth = 1, ve_edge = proven_edge, ve_limitation = None\<rparr>
      else (case find_paths_to_scope gr (cr_caller c) 10 of
        [] \<Rightarrow>
          \<lparr>ve_state = CallUnreachable, ve_path = [caller, callee], ve_depth = 1, ve_edge = unresolved_edge,
           ve_limitation = Some (if py_contains caller ''orphan''
             then callee @ ''() is located in '' @ caller @ ''() which has no path from any registered entrypoint''
             else ''Function '' @ caller @ '' is not reachable from Phase 1 entrypoints (MODULE_LEVEL_CODE or CLI_ENTRY_POINTS)'')\<rparr>
      | p # ps \<Rightarrow>
          (let simple = map last_part p in
           if length simple \<le> 2 then
             \<lparr>ve_state = CallReachable, ve_path = simple @ [callee], ve_depth = length simple, ve_edge = proven_edge, ve_limitation = None\<rparr>
           else
             \<lparr>ve_state = ReachabilityUnresolved, ve_path = simple @ [callee], ve_depth = length simple, ve_edge = unresolved_edge,
              ve_limitation = Some ''Multi-hop call path exceeds Phase 1 guaranteed semantic resolution depth''\<rparr>)))"

section \<open>Walks\<close>

definition walk :: "(string \<times> string list) list \<Rightarrow> path \<Rightarrow> bool" where
  "walk g p \<longleftrightarrow> p \<noteq> [] \<and> successively (\<lambda>a b. b \<in> set (neighbours g a)) p"

lemma walk_snoc: "p \<noteq> [] \<Longrightarrow> walk g (p @ [n]) \<longleftrightarrow> walk g p \<and> n \<in> set (neighbours g (last p))"
  by (auto simp: walk_def successively_append_iff)

lemma walk_prefix: "walk g (p @ q) \<Longrightarrow> p \<noteq> [] \<Longrightarrow> walk g p"
  by (auto simp: walk_def successively_append_iff)

section \<open>The invariant of the search\<close>

text \<open>A path that has been queued, and one that has been found.\<close>

definition queued_path :: "(string \<times> string list) list \<Rightarrow> string \<Rightarrow> string \<Rightarrow> search \<Rightarrow> path \<Rightarrow> bool" where
  "queued_path g root target s p \<longleftrightarrow>
     walk g p \<and> hd p = root \<and> target \<notin> set p \<and> distinct p \<and> set p \<subseteq> insert root (set (se_visited s))"

definition found_path :: "(string \<times> string list) list \<Rightarrow> nat \<Rightarrow> string \<Rightarrow> string \<Rightarrow> path \<Rightarrow> bool" where
  "found_path g depth root target p \<longleftrightarrow> walk g p \<and> hd p = root \<and> last p = target \<and> distinct p \<and> length p \<le> Suc depth"

text \<open>
  \<open>dn\<close> are the paths taken from the queue so far, \<open>k\<close> the length of the current one and \<open>R\<close>
  the pairs of a path and a neighbour of its end that have been looked at.
\<close>

definition searched :: "(string \<times> string list) list \<Rightarrow> nat \<Rightarrow> string \<Rightarrow> string \<Rightarrow> path list \<Rightarrow> nat \<Rightarrow> (path \<times> string) set \<Rightarrow> search \<Rightarrow> bool" where
  "searched g depth root target dn k R s \<longleftrightarrow>
     list_all (queued_path g root target s) (dn @ se_queue s)
     \<and> last ` set (dn @ se_queue s) = insert root (set (se_visited s))
     \<and> sorted (map length (dn @ se_queue s))
     \<and> (\<forall>p \<in> set (se_queue s). length p \<le> Suc k)
     \<and> list_all (found_path g depth root target) (se_found s)
     \<and> (\<forall>(p, n) \<in> R. if n = target then \<exists>q \<in> set (se_found s). length q \<le> Suc (length p)
                     else \<exists>q \<in> set (dn @ se_queue s). last q = n \<and> length q \<le> Suc (length p))"

lemma sorted_snoc_le: "sorted (map length (dn @ [p] @ q)) \<Longrightarrow> r \<in> set (dn @ [p]) \<Longrightarrow> length r \<le> length (p :: path)"
  by (auto simp: sorted_append)

lemma searchedI:
  assumes "\<And>p. p \<in> set (dn @ se_queue s) \<Longrightarrow> queued_path g root target s p"
    "last ` set (dn @ se_queue s) = insert root (set (se_visited s))" "sorted (map length (dn @ se_queue s))"
    "\<And>p. p \<in> set (se_queue s) \<Longrightarrow> length p \<le> Suc k" "\<And>p. p \<in> set (se_found s) \<Longrightarrow> found_path g depth root target p"
    "\<And>p. (p, target) \<in> R \<Longrightarrow> \<exists>q \<in> set (se_found s). length q \<le> Suc (length p)"
    "\<And>p n. (p, n) \<in> R \<Longrightarrow> n \<noteq> target \<Longrightarrow> \<exists>q \<in> set (dn @ se_queue s). last q = n \<and> length q \<le> Suc (length p)"
  shows "searched g depth root target dn k R s"
  unfolding searched_def list_all_iff using assms by (auto split: if_splits)

lemma searchedD:
  assumes "searched g depth root target dn k R s"
  shows "p \<in> set (dn @ se_queue s) \<Longrightarrow> queued_path g root target s p"
    and "last ` set (dn @ se_queue s) = insert root (set (se_visited s))" and "sorted (map length (dn @ se_queue s))"
    and "p \<in> set (se_queue s) \<Longrightarrow> length p \<le> Suc k" and "p \<in> set (se_found s) \<Longrightarrow> found_path g depth root target p"
    and "(p, target) \<in> R \<Longrightarrow> \<exists>q \<in> set (se_found s). length q \<le> Suc (length p)"
    and "(p, n) \<in> R \<Longrightarrow> n \<noteq> target \<Longrightarrow> \<exists>q \<in> set (dn @ se_queue s). last q = n \<and> length q \<le> Suc (length p)"
  using assms unfolding searched_def list_all_iff by fastforce+

lemma look_at_searched:
  assumes inv: "searched g depth root target (dn @ [p]) (length p) R s" and n: "n \<in> set (neighbours g (last p))"
    and depth: "length p \<le> depth"
  shows "searched g depth root target (dn @ [p]) (length p) (insert (p, n) R) (look_at target p s n)"
proof -
  note D = searchedD [OF inv]
  let ?all = "(dn @ [p]) @ se_queue s" and ?s = "look_at target p s n"
  have all: "length q \<le> Suc (length p)" if "q \<in> set ?all" for q
    using that D(4) [of q] D(3) sorted_snoc_le [of dn p "se_queue s" q] by auto
  have p: "walk g p" "hd p = root" "target \<notin> set p" "distinct p" "set p \<subseteq> insert root (set (se_visited s))"
    using D(1) [of p] by (auto simp: queued_path_def)
  then have ne: "p \<noteq> []" by (simp add: walk_def)
  have w: "walk g (p @ [n])" using walk_snoc [OF ne] p(1) n by simp
  consider (found) "n = target" | (fresh) "n \<noteq> target" "n \<notin> set p" "n \<notin> set (se_visited s)"
    | (old) "n \<noteq> target" "n \<in> set p \<or> n \<in> set (se_visited s)" by blast
  then show ?thesis
  proof cases
    case found
    have s: "?s = s\<lparr>se_found := se_found s @ [p @ [target]]\<rparr>"
      using found by (simp add: look_at_def)
    have new: "found_path g depth root target (p @ [target])"
      using found p w ne depth by (simp add: found_path_def)
    have same: "queued_path g root target ?s = queued_path g root target s"
      by (simp add: queued_path_def s fun_eq_iff)
    show ?thesis
    proof (rule searchedI)
      show "queued_path g root target ?s q" if "q \<in> set ((dn @ [p]) @ se_queue ?s)" for q
        using D(1) [of q] that unfolding same by (simp add: s)
      show "found_path g depth root target q" if "q \<in> set (se_found ?s)" for q
        using D(5) [of q] new that by (auto simp: s)
      show "\<exists>r \<in> set (se_found ?s). length r \<le> Suc (length q)" if "(q, target) \<in> insert (p, n) R" for q
        using D(6) [of q] that by (auto simp: s)
      show "\<exists>r \<in> set ((dn @ [p]) @ se_queue ?s). last r = m \<and> length r \<le> Suc (length q)"
        if "(q, m) \<in> insert (p, n) R" "m \<noteq> target" for q m
        using D(7) [of q m] that found unfolding s by auto
    qed (use D(2-4) in \<open>simp_all add: s\<close>)
  next
    case fresh
    have s: "?s = s\<lparr>se_visited := se_visited s @ [n], se_queue := se_queue s @ [p @ [n]]\<rparr>"
      using fresh by (simp add: look_at_def)
    have new: "queued_path g root target ?s (p @ [n])"
      using fresh p w ne by (auto simp: queued_path_def s)
    show ?thesis
    proof (rule searchedI)
      show "queued_path g root target ?s q" if "q \<in> set ((dn @ [p]) @ se_queue ?s)" for q
      proof (cases "q = p @ [n]")
        case False
        with that have "queued_path g root target s q" using D(1) [of q] by (auto simp: s)
        then show ?thesis by (auto simp: queued_path_def s)
      qed (use new in simp)
      show "last ` set ((dn @ [p]) @ se_queue ?s) = insert root (set (se_visited ?s))"
        using D(2) by (simp add: s insert_commute)
      show "sorted (map length ((dn @ [p]) @ se_queue ?s))"
        using D(3) all by (auto simp: s sorted_append)
      show "length q \<le> Suc (length p)" if "q \<in> set (se_queue ?s)" for q
        using D(4) [of q] that by (auto simp: s)
      show "found_path g depth root target q" if "q \<in> set (se_found ?s)" for q
        using D(5) [of q] that by (simp add: s)
      show "\<exists>r \<in> set (se_found ?s). length r \<le> Suc (length q)" if "(q, target) \<in> insert (p, n) R" for q
        using D(6) [of q] that fresh by (auto simp: s)
      show "\<exists>r \<in> set ((dn @ [p]) @ se_queue ?s). last r = m \<and> length r \<le> Suc (length q)"
        if "(q, m) \<in> insert (p, n) R" "m \<noteq> target" for q m
        using D(7) [of q m] that by (auto simp: s)
    qed
  next
    case old
    then have s: "?s = s" by (auto simp: look_at_def)
    from old p(5) have "n \<in> insert root (set (se_visited s))" by auto
    then have "n \<in> last ` set ?all" by (simp only: D(2))
    then obtain q where q: "q \<in> set ?all" "last q = n" by blast
    show ?thesis
      unfolding s
    proof (rule searchedI)
      show "\<exists>r \<in> set (se_found s). length r \<le> Suc (length q)" if "(q, target) \<in> insert (p, n) R" for q
        using D(6) [of q] that old by auto
      show "\<exists>r \<in> set ?all. last r = m \<and> length r \<le> Suc (length q')" if "(q', m) \<in> insert (p, n) R" "m \<noteq> target" for q' m
      proof (cases "(q', m) = (p, n)")
        case True
        with q all [OF q(1)] show ?thesis by blast
      next
        case False
        with that have "(q', m) \<in> R" by auto
        then show ?thesis by (rule D(7)) (rule that)
      qed
    qed (rule D; assumption)+
  qed
qed

lemma look_at_all:
  assumes "searched g depth root target (dn @ [p]) (length p) R s" "set ns \<subseteq> set (neighbours g (last p))" "length p \<le> depth"
  shows "searched g depth root target (dn @ [p]) (length p) (R \<union> Pair p ` set ns) (foldl (look_at target p) s ns)"
  using assms
proof (induction ns arbitrary: R s)
  case (Cons n ns)
  then have "searched g depth root target (dn @ [p]) (length p) (insert (p, n) R) (look_at target p s n)"
    by (simp add: look_at_searched)
  from Cons.IH [OF this] Cons.prems(2,3) show ?case by simp
qed simp

text \<open>The neighbours that must have been looked at.\<close>

definition handled :: "(string \<times> string list) list \<Rightarrow> nat \<Rightarrow> path list \<Rightarrow> (path \<times> string) set" where
  "handled g depth dn = {(p, n). p \<in> set dn \<and> length p \<le> depth \<and> n \<in> set (neighbours g (last p))}"

lemma handled_snoc:
  "handled g depth (dn @ [p]) = (if length p \<le> depth then handled g depth dn \<union> Pair p ` set (neighbours g (last p)) else handled g depth dn)"
  by (auto simp: handled_def)

lemma expand_searched:
  assumes "searched g depth root target dn (length (hd (se_queue s))) (handled g depth dn) s" "se_queue s = p # q"
  shows "searched g depth root target (dn @ [p]) (length (hd (se_queue (expand g target depth s)))) (handled g depth (dn @ [p])) (expand g target depth s)"
proof -
  let ?s = "s\<lparr>se_queue := q\<rparr>" and ?t = "expand g target depth s"
  have start: "searched g depth root target (dn @ [p]) (length p) (handled g depth dn) ?s"
  proof -
    have "queued_path g root target ?s = queued_path g root target s" by (simp add: queued_path_def fun_eq_iff)
    moreover have "(dn @ [p]) @ se_queue ?s = dn @ se_queue s" by (simp add: assms(2))
    moreover note D = searchedD [OF assms(1)]
    ultimately show ?thesis
      by (intro searchedI) (use D(1-3,5-7) D(4) assms(2) in simp_all)
  qed
  have t: "searched g depth root target (dn @ [p]) (length p) (handled g depth (dn @ [p])) ?t"
  proof (cases "length p \<le> depth")
    case True
    then show ?thesis
      using look_at_all [OF start order.refl True] by (simp add: expand_def Let_def assms(2) handled_snoc)
  next
    case False
    then show ?thesis using start by (simp add: expand_def Let_def assms(2) handled_snoc)
  qed
  have "length p \<le> length (hd (se_queue ?t))" if "se_queue ?t \<noteq> []"
    using searchedD(3) [OF t] that by (cases "se_queue ?t") (auto simp: sorted_append)
  then have "length r \<le> Suc (length (hd (se_queue ?t)))" if "r \<in> set (se_queue ?t)" for r
    using searchedD(4) [OF t that] that by (cases "se_queue ?t") fastforce+
  then show ?thesis using t unfolding searched_def by simp
qed

lemma run_search_searched:
  assumes "searched g depth root target dn (length (hd (se_queue s))) (handled g depth dn) s"
  shows "\<exists>dn' k. searched g depth root target dn' k (handled g depth dn') (run_search g target depth s)
    \<and> se_queue (run_search g target depth s) = []"
  using assms
proof (induction g target depth s arbitrary: dn rule: run_search.induct)
  case (1 g target depth s)
  show ?case
  proof (cases "se_queue s")
    case Nil
    then show ?thesis using "1.prems" by (auto simp: run_search.simps)
  next
    case (Cons p q)
    then show ?thesis
      using "1.IH" [OF _ expand_searched [OF "1.prems" Cons]] by (simp add: run_search.simps [of g target depth s])
  qed
qed

text \<open>Every walk within the depth is matched by a queued path to its end that is no longer.\<close>

lemma searched_reaches:
  assumes inv: "searched g depth root target dn k (handled g depth dn) s" "se_queue s = []"
    and "walk g w" "hd w = root" "target \<notin> set w" "length w \<le> Suc depth"
  shows "\<exists>p \<in> set dn. last p = last w \<and> length p \<le> length w"
  using assms(3-)
proof (induction w rule: rev_induct)
  case (snoc n w)
  show ?case
  proof (cases "w = []")
    case True
    have "root \<in> last ` set dn" using searchedD(2) [OF inv(1)] inv(2) by simp
    then obtain p where p: "p \<in> set dn" "last p = root" by auto
    then have "queued_path g root target s p" using searchedD(1) [OF inv(1), of p] by simp
    then have "p = [root]"
      using p(2) by (cases p) (auto simp: queued_path_def walk_def split: if_splits)
    with p True snoc.prems(2) show ?thesis by (auto intro!: bexI [of _ "[root]"])
  next
    case False
    then obtain p where p: "p \<in> set dn" "last p = last w" "length p \<le> length w"
      using snoc by (auto simp: walk_snoc)
    with False snoc.prems have "(p, n) \<in> handled g depth dn" "n \<noteq> target"
      by (auto simp: handled_def walk_snoc)
    from searchedD(7) [OF inv(1) this] inv(2) p(3) show ?thesis by fastforce
  qed
qed (simp add: walk_def)

lemma search_from_found:
  assumes "p \<in> set (paths_from g target depth root)"
  shows "found_path g depth root target p"
proof (cases "root = target")
  case True
  with assms show ?thesis by (simp add: paths_from_def found_path_def walk_def)
next
  case False
  let ?s = "\<lparr>se_queue = [[root]], se_visited = [], se_found = []\<rparr>"
  have "searched g depth root target [] (length (hd (se_queue ?s))) (handled g depth []) ?s"
    using False by (simp add: searched_def queued_path_def walk_def handled_def)
  from run_search_searched [OF this] obtain dn k where "searched g depth root target dn k (handled g depth dn) (run_search g target depth ?s)" by blast
  from searchedD(5) [OF this] assms False show ?thesis by (simp add: paths_from_def)
qed

lemma search_from_shortest:
  assumes "walk g w" "hd w = root" "last w = target" "length w \<le> Suc depth"
  shows "\<exists>p \<in> set (paths_from g target depth root). length p \<le> length w"
proof (cases "root = target")
  case True
  with assms(1) show ?thesis by (cases w) (auto simp: paths_from_def walk_def)
next
  case False
  let ?s = "\<lparr>se_queue = [[root]], se_visited = [], se_found = []\<rparr>"
  have "searched g depth root target [] (length (hd (se_queue ?s))) (handled g depth []) ?s"
    using False by (simp add: searched_def queued_path_def walk_def handled_def)
  from run_search_searched [OF this] obtain dn k where inv: "searched g depth root target dn k (handled g depth dn) (run_search g target depth ?s)"
      and q: "se_queue (run_search g target depth ?s) = []" by blast
  have "target \<in> set w" using assms(1,3) by (auto simp: walk_def)
  then obtain ys zs where w: "w = ys @ target # zs" "target \<notin> set ys" by (auto dest: split_list_first)
  with assms(2) False have ys: "ys \<noteq> []" "hd ys = root" by (cases ys; auto)+
  have "walk g (ys @ [target])" using walk_prefix [of g "ys @ [target]" zs] assms(1) w by simp
  then have y: "walk g ys" "target \<in> set (neighbours g (last ys))" using walk_snoc [OF ys(1)] by auto
  obtain p where p: "p \<in> set dn" "last p = last ys" "length p \<le> length ys"
    using searched_reaches [OF inv q y(1) ys(2) w(2)] assms(4) w(1) by auto
  then have "(p, target) \<in> handled g depth dn" using y(2) assms(4) w(1) by (auto simp: handled_def)
  from searchedD(6) [OF inv this] obtain r where "r \<in> set (se_found (run_search g target depth ?s))" "length r \<le> Suc (length p)" ..
  with p(3) w(1) False show ?thesis by (intro bexI [of _ r]) (simp_all add: paths_from_def)
qed


section \<open>What the search returns\<close>

lemma paths_found:
  assumes "p \<in> set (find_paths_to_scope gr target depth)"
  shows "\<exists>r \<in> set (root_scopes gr (gr_roots gr)). found_path (adjacency gr) depth r target p"
  using assms search_from_found by (fastforce simp: find_paths_to_scope_def)

lemma paths_within: "p \<in> set (find_paths_to_scope gr target depth) \<Longrightarrow> length p \<le> Suc depth"
  using paths_found [of p gr target depth] by (auto simp: found_path_def)

lemma paths_shortest:
  assumes "walk (adjacency gr) w" "hd w \<in> set (root_scopes gr (gr_roots gr))" "last w = target" "length w \<le> Suc depth"
  shows "\<exists>p ps. find_paths_to_scope gr target depth = p # ps \<and> length p \<le> length w"
proof -
  obtain q where q: "q \<in> set (paths_from (adjacency gr) target depth (hd w))" "length q \<le> length w"
    using search_from_shortest [OF assms(1) refl assms(3,4)] by blast
  then have "q \<in> set (find_paths_to_scope gr target depth)" using assms(2) by (auto simp: find_paths_to_scope_def)
  moreover have "sorted (map length (find_paths_to_scope gr target depth))" by (simp add: find_paths_to_scope_def)
  ultimately show ?thesis using q(2) by (cases "find_paths_to_scope gr target depth") fastforce+
qed

text \<open>
  C16: the paths returned for a scope run from an entry point to it along edges of the graph, without
  visiting a scope twice, the shorter ones first; and whatever walk from an entry point to the scope there is
  with at most \<open>depth + 1\<close> scopes, some path returned is no longer. So the first path is a
  shortest one, and no path is returned only if there is no such walk.
\<close>

theorem shortest_path_first:
  "(\<forall>p \<in> set (find_paths_to_scope gr target depth). walk (adjacency gr) p \<and> distinct p \<and> last p = target
       \<and> hd p \<in> set (root_scopes gr (gr_roots gr)))
   \<and> (\<forall>w. walk (adjacency gr) w \<and> hd w \<in> set (root_scopes gr (gr_roots gr)) \<and> last w = target \<and> length w \<le> Suc depth \<longrightarrow>
        (\<exists>p ps. find_paths_to_scope gr target depth = p # ps \<and> length p \<le> length w))"
  using paths_found paths_shortest by (fastforce simp: found_path_def)

lemma short_walks:
  assumes "walk g w" "length w \<le> 2"
  shows "last w = hd w \<or> last w \<in> set (neighbours g (hd w))"
  using assms by (cases w rule: remdups_adj.cases) (auto simp: walk_def)

lemma verdict_of_call:
  assumes "cr_caller c \<noteq> gr_module gr"
  shows "let v = evaluate_call_reachability gr c; R = set (root_scopes gr (gr_roots gr)); g = adjacency gr;
             walks = (\<lambda>w. walk g w \<and> hd w \<in> R \<and> last w = cr_caller c)
         in (ve_state v = CallReachable \<longleftrightarrow> cr_caller c \<in> R \<or> (\<exists>r \<in> R. cr_caller c \<in> set (neighbours g r)))
          \<and> (ve_state v = CallUnreachable \<longleftrightarrow> \<not> (\<exists>w. walks w \<and> length w \<le> 11))
          \<and> (ve_state v \<noteq> CallUnreachable \<longrightarrow> (\<exists>w. walks w \<and> length w = ve_depth v) \<and> (\<forall>w. walks w \<longrightarrow> ve_depth v \<le> length w))"
proof -
  let ?v = "evaluate_call_reachability gr c" and ?R = "set (root_scopes gr (gr_roots gr))" and ?g = "adjacency gr"
  let ?walks = "\<lambda>w. walk ?g w \<and> hd w \<in> ?R \<and> last w = cr_caller c"
  have near: "cr_caller c \<in> ?R \<or> (\<exists>r \<in> ?R. cr_caller c \<in> set (neighbours ?g r)) \<longleftrightarrow> (\<exists>w. ?walks w \<and> length w \<le> 2)"
  proof
    assume "cr_caller c \<in> ?R \<or> (\<exists>r \<in> ?R. cr_caller c \<in> set (neighbours ?g r))"
    then consider "cr_caller c \<in> ?R" | r where "r \<in> ?R" "cr_caller c \<in> set (neighbours ?g r)" by blast
    then show "\<exists>w. ?walks w \<and> length w \<le> 2"
    proof cases
      case 1 then show ?thesis by (intro exI [of _ "[cr_caller c]"]) (simp add: walk_def)
    next
      case 2 then show ?thesis by (intro exI [of _ "[r, cr_caller c]"]) (simp add: walk_def)
    qed
  qed (use short_walks in fastforce)
  show ?thesis
  proof (cases "find_paths_to_scope gr (cr_caller c) 10")
    case Nil
    then have "\<not> (?walks w \<and> length w \<le> 11)" for w using paths_shortest [of gr w "cr_caller c" 10] by auto
    moreover from this have "\<not> (?walks w \<and> length w \<le> 2)" for w by fastforce
    moreover have "ve_state ?v = CallUnreachable" using Nil assms by (simp add: evaluate_call_reachability_def Let_def)
    ultimately show ?thesis unfolding near Let_def by simp
  next
    case (Cons p ps)
    then have p: "?walks p" using paths_found [of p gr "cr_caller c" 10] by (auto simp: found_path_def)
    have short: "length p \<le> length w" if "?walks w" for w
    proof (cases "length w \<le> 11")
      case True
      then show ?thesis using paths_shortest [of gr w "cr_caller c" 10] that Cons by auto
    next
      case False
      have "length p \<le> 11" using paths_within [of p gr "cr_caller c" 10] Cons by simp
      with False show ?thesis by simp
    qed
    have "ve_state ?v = (if length p \<le> 2 then CallReachable else ReachabilityUnresolved)" "ve_depth ?v = length p"
      using Cons assms by (simp_all add: evaluate_call_reachability_def Let_def)
    moreover have "(\<exists>w. ?walks w \<and> length w \<le> 2) \<longleftrightarrow> length p \<le> 2" using p short by (meson order_trans)
    moreover have "length p \<le> 11" using paths_within [of p gr "cr_caller c" 10] Cons by simp
    ultimately show ?thesis using p short unfolding near Let_def by auto
  qed
qed

lemma reachable_calls:
  assumes "ve_state (evaluate_call_reachability gr c) = CallReachable"
  shows "cr_caller c = gr_module gr \<or> (\<exists>r \<in> set (root_scopes gr (gr_roots gr)). cr_caller c = r \<or> cr_caller c \<in> set (neighbours (adjacency gr) r))"
  using verdict_of_call [of c gr] assms by (auto simp: Let_def)

text \<open>
  C32: the verdict on a call outside module level code: CALL_REACHABLE exactly when its function is
  an entry point or is called by one, CALL_UNREACHABLE exactly when no walk of at most eleven
  scopes leads to it, and otherwise unresolved, with the number of scopes on a shortest walk as
  its depth.
\<close>

theorem call_verdict:
  assumes "cr_caller c \<noteq> gr_module gr"
  shows "let v = evaluate_call_reachability gr c; R = set (root_scopes gr (gr_roots gr)); g = adjacency gr;
             walks = (\<lambda>w. walk g w \<and> hd w \<in> R \<and> last w = cr_caller c)
         in (ve_state v = CallReachable \<longleftrightarrow> cr_caller c \<in> R \<or> (\<exists>r \<in> R. cr_caller c \<in> set (neighbours g r)))
          \<and> (ve_state v = CallUnreachable \<longleftrightarrow> \<not> (\<exists>w. walks w \<and> length w \<le> 11))
          \<and> (ve_state v \<noteq> CallUnreachable \<longrightarrow> (\<exists>w. walks w \<and> length w = ve_depth v) \<and> (\<forall>w. walks w \<longrightarrow> ve_depth v \<le> length w))"
  using assms by (rule verdict_of_call)

section \<open>Only functions are reached\<close>

lemma resolve_called_function: "resolve_called_scope fs m caller name = Some s \<Longrightarrow> has_function fs s"
proof -
  have pick: "max_by k b xs \<in> set (b # xs)" for k :: "string \<Rightarrow> nat" and b xs
    by (induction k b xs rule: max_by.induct) auto
  have "has_function fs (max_by k b xs)" if "filter P (map fst fs) = b # xs" for k b xs P
  proof -
    have "max_by k b xs \<in> set (filter P (map fst fs))" using pick [of k b xs] that by simp
    then show ?thesis by (simp add: has_function_def)
  qed
  then show "resolve_called_scope fs m caller name = Some s \<Longrightarrow> has_function fs s"
    by (auto simp: resolve_called_scope_def Let_def split: if_splits list.splits)
qed

lemma map_filter_mem: "y \<in> set (List.map_filter f xs) \<Longrightarrow> \<exists>x \<in> set xs. f x = Some y"
  by (auto simp: List.map_filter_def)

lemma roots_are_functions: "r \<in> set (root_scopes gr rs) \<Longrightarrow> has_function (gr_functions gr) r"
  by (auto simp: root_scopes_def dest!: map_filter_mem resolve_called_function)

lemma neighbours_are_functions: "t \<in> set (neighbours (adjacency gr) s) \<Longrightarrow> has_function (gr_functions gr) t"
proof -
  assume t: "t \<in> set (neighbours (adjacency gr) s)"
  then obtain ts where ts: "map_of (adjacency gr) s = Some ts" "t \<in> set ts" by (cases "map_of (adjacency gr) s") (auto simp: neighbours_def)
  from map_of_SomeD [OF ts(1)] obtain f where "ts = called_scopes (gr_functions gr) (gr_module gr) s f"
    by (auto simp: adjacency_def build_graph_def)
  with ts(2) show ?thesis
    by (auto simp: called_scopes_def dest!: map_filter_mem resolve_called_function split: option.splits if_splits)
qed

text \<open>
  A call that is neither at the module level of the graph's module nor in a function is
  CALL_UNREACHABLE: so are the calls in class bodies, and, when several files are analysed, the
  calls at module level of every file but the last.
\<close>

theorem outside_functions_unreachable:
  assumes "cr_caller c \<noteq> gr_module gr" "\<not> has_function (gr_functions gr) (cr_caller c)"
  shows "ve_state (evaluate_call_reachability gr c) = CallUnreachable"
proof (cases "find_paths_to_scope gr (cr_caller c) 10")
  case Nil
  with assms(1) show ?thesis by (simp add: evaluate_call_reachability_def Let_def)
next
  case (Cons p ps)
  then obtain r where r: "r \<in> set (root_scopes gr (gr_roots gr))" "walk (adjacency gr) p" "hd p = r" "last p = cr_caller c"
    using paths_found [of p gr "cr_caller c" 10] by (auto simp: found_path_def)
  have "has_function (gr_functions gr) (last p)"
  proof (cases p rule: rev_cases)
    case (snoc q n)
    show ?thesis
    proof (cases "q = []")
      case True
      then show ?thesis using snoc r(1,3) roots_are_functions by simp
    next
      case False
      then show ?thesis using snoc r(2) neighbours_are_functions by (auto simp: walk_snoc)
    qed
  qed (use r(2) in \<open>simp add: walk_def\<close>)
  with r(4) assms(2) show ?thesis by simp
qed

section \<open>Samples\<close>

definition sample_call :: "string \<Rightarrow> ast" where
  "sample_call f = Expr 1 (Call 1 (Name 1 f) [] [])"

definition fun_node :: "string \<Rightarrow> ast list \<Rightarrow> ast" where
  "fun_node f body = FunctionDef False 1 f (Arguments [] [] None [] [] None []) body [] None"

text \<open>\<open>outer\<close> defines \<open>inner\<close> and never calls it; \<open>inner\<close> calls \<open>danger\<close>.\<close>

definition nested_graph :: graph where
  "nested_graph =
     (let inner = fun_node ''i'' [sample_call ''d'']
      in \<lparr>gr_functions = [(''a.o'', fun_node ''o'' [inner]), (''a.o.i'', inner), (''a.d'', fun_node ''d'' [])],
         gr_module = ''a'', gr_roots = [''o'']\<rparr>)"

definition call_in :: "string \<Rightarrow> call_record" where
  "call_in scope =
     \<lparr>cr_caller = scope, cr_callee = ''lib.f()'', cr_import = None, cr_symbol = ''f'', cr_path = [], cr_file = ''a.py'', cr_line = 1,
      cr_column = 0, cr_confidence = ProvenStatic, cr_dynamic = False\<rparr>"

lemma nested_graph_facts:
  "root_scopes nested_graph (gr_roots nested_graph) = [''a.o'']"
  "neighbours (adjacency nested_graph) ''a.o'' = [''a.d'']"
  by code_simp+

text \<open>
  Calls in the body of a nested function count as calls of the function that defines it, even if
  it never calls the nested one: \<open>outer\<close> only defines \<open>inner\<close>, no function is ever called
  from it, and still the call in \<open>danger\<close> is CALL_REACHABLE over a PROVEN_STATIC_EDGE.
\<close>

theorem nested_definition_counts:
  "let v = evaluate_call_reachability nested_graph (call_in ''a.d'')
   in ve_state v = CallReachable \<and> ve_edge v = ''PROVEN_STATIC_EDGE'' \<and> ve_path v = [''o'', ''d'', ''lib.f'']
     \<and> fun_body (snd (gr_functions nested_graph ! 0)) = [snd (gr_functions nested_graph ! 1)]"
  by code_simp

theorem shortest_path_first_witness:
  "\<exists>p ps. find_paths_to_scope nested_graph ''a.d'' 10 = p # ps \<and> length p \<le> 2"
proof -
  have "walk (adjacency nested_graph) [''a.o'', ''a.d'']" by (simp add: walk_def nested_graph_facts)
  then show ?thesis
    using shortest_path_first [of nested_graph "''a.d''" 10] nested_graph_facts(1) by fastforce
qed

theorem call_verdict_witness:
  "ve_state (evaluate_call_reachability nested_graph (call_in ''a.d'')) = CallReachable"
proof -
  have caller: "cr_caller (call_in ''a.d'') = ''a.d''" "gr_module nested_graph = ''a''"
    by (simp_all add: call_in_def nested_graph_def Let_def)
  show ?thesis
    using call_verdict [of "call_in ''a.d''" nested_graph] by (simp add: Let_def nested_graph_facts caller)
qed

end
