(* ===== verification/Dist_Resolver.thy ===== *)
theory Dist_Resolver
  imports Prelude
begin

text \<open>
  \<open>sca_reachability/resolver.py\<close> and \<open>dist_import_map.py\<close>: from the root of an import to the
  distribution that provides it, with the evidence for the attribution, and from a distribution
  to its import roots. The set of declared distributions is a list.
\<close>

section \<open>The curated tables\<close>

definition curated_dist_to_imports :: "(string \<times> string list) list" where
  "curated_dist_to_imports =
     [(''python-dateutil'', [''dateutil'']), (''attrs'', [''attr'']), (''pillow'', [''PIL'']), (''scikit-learn'', [''sklearn'']),
      (''opencv-python'', [''cv2'']), (''beautifulsoup4'', [''bs4'']), (''pyyaml'', [''yaml'']), (''mysqlclient'', [''MySQLdb'']),
      (''pypdf2'', [''PyPDF2'']), (''protobuf'', [''google.protobuf''])]"

definition curated_import_to_dists :: "(string \<times> string list) list" where
  "curated_import_to_dists =
     [(''dateutil'', [''python-dateutil'']), (''attr'', [''attrs'']), (''PIL'', [''pillow'']), (''sklearn'', [''scikit-learn'']),
      (''cv2'', [''opencv-python'']), (''bs4'', [''beautifulsoup4'']), (''yaml'', [''pyyaml'']), (''MySQLdb'', [''mysqlclient'']),
      (''PyPDF2'', [''pypdf2'']), (''google.protobuf'', [''protobuf''])]"

definition hyphenated :: "string \<Rightarrow> string" where
  "hyphenated s = py_replace_char CHR ''_'' ''-'' (py_lower s)"

definition get_curated_imports_for_dist :: "string \<Rightarrow> string list option" where
  "get_curated_imports_for_dist d = map_of curated_dist_to_imports (hyphenated (py_strip d))"

definition get_curated_dists_for_import :: "string \<Rightarrow> string list option" where
  "get_curated_dists_for_import r = map_of curated_import_to_dists r"

section \<open>From an import to its distributions\<close>

record attribution =
  at_root :: string
  at_names :: "string list"
  at_evidence :: string
  at_scope :: string
  at_definitive :: bool
  at_limitations :: "string list"

definition curated_mapping :: string where
  "curated_mapping = ''VERIFIED_STATIC_CURATED_MAPPING''"

definition target_metadata :: string where
  "target_metadata = ''TARGET_ENVIRONMENT_METADATA''"

definition normalized_heuristic :: string where
  "normalized_heuristic = ''NORMALIZED_HEURISTIC''"

definition heuristic_note :: string where
  "heuristic_note = ''Import namespace mapping uses non-definitive heuristic normalization; PROVEN_STATIC attribution not possible''"

definition heuristic :: "string \<Rightarrow> string \<Rightarrow> attribution" where
  "heuristic r d =
     \<lparr>at_root = r, at_names = [d], at_evidence = normalized_heuristic, at_scope = ''NONE'', at_definitive = False,
      at_limitations = [heuristic_note]\<rparr>"

definition proven :: "string \<Rightarrow> string list \<Rightarrow> string \<Rightarrow> string \<Rightarrow> attribution" where
  "proven r ds ev scope =
     \<lparr>at_root = r, at_names = ds, at_evidence = ev, at_scope = scope, at_definitive = True, at_limitations = []\<rparr>"

definition ambiguous :: "string \<Rightarrow> string list \<Rightarrow> string \<Rightarrow> string \<Rightarrow> string \<Rightarrow> attribution" where
  "ambiguous r ds ev scope what =
     \<lparr>at_root = r, at_names = ds, at_evidence = ev, at_scope = scope, at_definitive = False,
      at_limitations = [''Ambiguous import root '' @ CHR 39 # r @ CHR 39 # '' maps to multiple '' @ what @ py_join '', '' ds]\<rparr>"

definition curated_for_import :: "string \<Rightarrow> string list" where
  "curated_for_import root =
     (case get_curated_dists_for_import root of
        Some ds \<Rightarrow> ds
      | None \<Rightarrow> (case get_curated_dists_for_import (hyphenated root) of Some ds \<Rightarrow> ds | None \<Rightarrow> []))"

definition resolve_import :: "string list \<Rightarrow> string \<Rightarrow> attribution" where
  "resolve_import declared import_root =
     (let r = py_strip import_root; norm = hyphenated r; curated = curated_for_import r;
          same = sort (remdups (filter (\<lambda>d. hyphenated d = norm) declared));
          default = heuristic r (if CHR ''_'' \<in> set r then py_replace_char CHR ''_'' ''-'' r else r)
      in if curated \<noteq> [] then
           (if 1 < length curated then ambiguous r curated curated_mapping ''STATIC_METADATA'' ''distributions: ''
            else proven r curated curated_mapping ''STATIC_METADATA'')
         else if r \<in> set declared then proven r [r] target_metadata ''TARGET_ENVIRONMENT''
         else (case same of
                 [] \<Rightarrow> default
               | [d] \<Rightarrow>
                   if d \<noteq> r \<and> (CHR ''_'' \<in> set r \<or> CHR ''-'' \<in> set d) then heuristic r d
                   else proven r [d] target_metadata ''TARGET_ENVIRONMENT''
               | ds \<Rightarrow> ambiguous r ds target_metadata ''TARGET_ENVIRONMENT'' ''declared distributions: ''))"

record namespaces =
  ns_dist :: string
  ns_roots :: "string list"
  ns_evidence :: string
  ns_scope :: string
  ns_definitive :: bool
  ns_limitations :: "string list"

definition resolve_distribution :: "string option \<Rightarrow> string \<Rightarrow> namespaces" where
  "resolve_distribution target dist =
     (let d = py_strip dist; r = py_replace_char CHR ''-'' ''_'' (py_lower d) in
      case get_curated_imports_for_dist d of
        Some (x # xs) \<Rightarrow>
          \<lparr>ns_dist = d, ns_roots = x # xs, ns_evidence = curated_mapping, ns_scope = ''STATIC_METADATA'', ns_definitive = True, ns_limitations = []\<rparr>
      | _ \<Rightarrow>
          if target \<noteq> None \<and> target \<noteq> Some [] then
            \<lparr>ns_dist = d, ns_roots = [r], ns_evidence = target_metadata, ns_scope = ''TARGET_ENVIRONMENT'', ns_definitive = True, ns_limitations = []\<rparr>
          else
            \<lparr>ns_dist = d, ns_roots = [r], ns_evidence = normalized_heuristic, ns_scope = ''NONE'', ns_definitive = False, ns_limitations = [heuristic_note]\<rparr>)"

text \<open>
  An attribution called definitive names exactly one distribution, and that one is curated for
  the import root or declared by the project under the same normalized name; every other
  attribution says so in a limitation, and rests on no evidence unless it is ambiguous.
\<close>

theorem definitive_attribution:
  "let a = resolve_import declared import_root; r = py_strip import_root in
   (if at_definitive a
    then \<exists>d. at_names a = [d] \<and> at_limitations a = []
      \<and> (d \<in> set (curated_for_import r) \<and> at_scope a = ''STATIC_METADATA''
         \<or> d \<in> set declared \<and> hyphenated d = hyphenated r \<and> at_scope a = ''TARGET_ENVIRONMENT'')
    else length (at_limitations a) = 1 \<and> at_names a \<noteq> [] \<and> (at_scope a = ''NONE'' \<or> 1 < length (at_names a)))"
proof -
  let ?r = "py_strip import_root" and ?same = "sort (remdups (filter (\<lambda>d. hyphenated d = hyphenated (py_strip import_root)) declared))"
  have in_same: "d \<in> set declared \<and> hyphenated d = hyphenated ?r" if "?same = [d]" for d
  proof -
    have "d \<in> set ?same" by (simp add: that)
    then show ?thesis by simp
  qed
  have one: "\<exists>d. curated_for_import ?r = [d]" if "curated_for_import ?r \<noteq> []" "\<not> 1 < length (curated_for_import ?r)"
    using that by (cases "curated_for_import ?r") auto
  show ?thesis
  proof (cases "curated_for_import ?r = []")
    case True
    then show ?thesis
      using in_same
      by (cases ?same rule: remdups_adj.cases)
        (auto simp: resolve_import_def Let_def proven_def heuristic_def ambiguous_def simp del: set_sort)
  next
    case False
    then show ?thesis
      using one by (auto simp: resolve_import_def Let_def proven_def ambiguous_def)
  qed
qed

end
