(* ===== verification/Reach_Visitor.thy ===== *)
theory Reach_Visitor
  imports Call_Graph Dist_Resolver "HOL-Library.AList"
begin

text \<open>
  \<open>sca_reachability/ast_analyzer.py\<close>: the visitor that walks a file with the stack of its
  lexical scopes and collects imports, local bindings, functions, classes, calls and the
  invocations at module level. A dictionary is an association list in the order of first
  insertion (\<open>AList.update\<close> is its assignment). \<open>up\<close> is \<open>ast.unparse\<close>; column offsets are not
  in the trees and are 0.
\<close>

section \<open>The visitor\<close>

record visitor =
  vi_module :: string
  vi_file :: string
  vi_declared :: "string list"
  vi_stack :: "(scope_type \<times> string) list"
  vi_imports :: "(string \<times> (string \<times> import_record) list) list"
  vi_bindings :: "(string \<times> (string \<times> local_binding) list) list"
  vi_calls :: "call_record list"
  vi_functions :: function_table
  vi_classes :: "(string \<times> ast) list"
  vi_roots :: "string list"

definition new_visitor :: "string \<Rightarrow> string \<Rightarrow> string list \<Rightarrow> visitor" where
  "new_visitor module fname declared =
     \<lparr>vi_module = module, vi_file = fname, vi_declared = declared, vi_stack = [(ModuleScope, module)], vi_imports = [],
      vi_bindings = [], vi_calls = [], vi_functions = [], vi_classes = [], vi_roots = []\<rparr>"

definition current_scope_type :: "visitor \<Rightarrow> scope_type" where
  "current_scope_type v = fst (last (vi_stack v))"

definition current_scope_path :: "visitor \<Rightarrow> string" where
  "current_scope_path v = py_join ''.'' (map snd (vi_stack v))"

definition parent_scope_path :: "visitor \<Rightarrow> string option" where
  "parent_scope_path v =
     (if length (vi_stack v) \<le> 1 then None else Some (py_join ''.'' (map snd (butlast (vi_stack v)))))"

definition enter_scope :: "scope_type \<Rightarrow> string \<Rightarrow> visitor \<Rightarrow> visitor" where
  "enter_scope t name v = v\<lparr>vi_stack := vi_stack v @ [(t, name)]\<rparr>"

definition leave_scope :: "visitor \<Rightarrow> visitor" where
  "leave_scope v = v\<lparr>vi_stack := butlast (vi_stack v)\<rparr>"

definition frame :: "(string \<times> (string \<times> 'a) list) list \<Rightarrow> string \<Rightarrow> (string \<times> 'a) list" where
  "frame tab s = (case map_of tab s of Some m \<Rightarrow> m | None \<Rightarrow> [])"

text \<open>\<open>table[scope][name] = value\<close>, the frame of the scope created if needed.\<close>

definition put_in :: "string \<Rightarrow> string \<Rightarrow> 'a \<Rightarrow> (string \<times> (string \<times> 'a) list) list \<Rightarrow> (string \<times> (string \<times> 'a) list) list" where
  "put_in s k x tab = AList.update s (AList.update k x (frame tab s)) tab"

definition ensure_frame :: "string \<Rightarrow> (string \<times> (string \<times> 'a) list) list \<Rightarrow> (string \<times> (string \<times> 'a) list) list" where
  "ensure_frame s tab = (if s \<in> set (map fst tab) then tab else tab @ [(s, [])])"

section \<open>Names\<close>

definition parent_of :: "string \<Rightarrow> string" where
  "parent_of s = fst (rsplit_once CHR ''.'' s)"

lemma parent_of_shorter: "CHR ''.'' \<in> set s \<Longrightarrow> length (parent_of s) < length s"
proof -
  assume "CHR ''.'' \<in> set s"
  then have "dropWhile (\<lambda>c. c \<noteq> CHR ''.'') (rev s) \<noteq> []" by (simp add: dropWhile_eq_Nil_conv)
  then have "length (drop 1 (dropWhile (\<lambda>c. c \<noteq> CHR ''.'') (rev s))) < length (dropWhile (\<lambda>c. c \<noteq> CHR ''.'') (rev s))" by simp
  also have "\<dots> \<le> length s" using length_dropWhile_le [of _ "rev s"] by simp
  finally show ?thesis by (simp add: parent_of_def rsplit_once_def)
qed

text \<open>
  The loop of \<open>lookup_import\<close>: \<open>Inl\<close> is the binding found, \<open>Inr\<close> the wildcard import met
  first, if any. From a scope directly below a class the search goes on above the class.
\<close>

function climb :: "(string \<times> (string \<times> import_record) list) list \<Rightarrow> string list \<Rightarrow> string \<Rightarrow> string \<Rightarrow> import_record option
    \<Rightarrow> import_record + import_record option" where
  "climb im cl name cur wild =
     (if cur = [] then Inr wild
      else case map_of (frame im cur) name of
        Some r \<Rightarrow> Inl r
      | None \<Rightarrow>
          (let wild' = (if wild = None then map_of (frame im cur) ''*'' else wild); up = parent_of cur in
           if CHR ''.'' \<notin> set cur then Inr wild'
           else if up \<in> set cl \<and> CHR ''.'' \<in> set up then climb im cl name (parent_of up) wild'
           else climb im cl name up wild'))"
  by pat_completeness auto
termination climb
  by (relation "measure (\<lambda>(im, cl, name, cur, wild). length cur)")
    (auto intro: parent_of_shorter less_trans [OF parent_of_shorter parent_of_shorter])

declare climb.simps [simp del]

definition lookup_import :: "visitor \<Rightarrow> string \<Rightarrow> string \<Rightarrow> import_record option" where
  "lookup_import v name scope =
     (case climb (vi_imports v) (map fst (vi_classes v)) name scope None of
        Inl r \<Rightarrow> Some r
      | Inr wild \<Rightarrow>
          (case map_of (frame (vi_imports v) (vi_module v)) name of
             Some r \<Rightarrow> Some r
           | None \<Rightarrow> if wild = None then map_of (frame (vi_imports v) (vi_module v)) ''*'' else wild))"

function lookup_binding :: "(string \<times> (string \<times> local_binding) list) list \<Rightarrow> string \<Rightarrow> string \<Rightarrow> local_binding option" where
  "lookup_binding tab name cur =
     (if cur = [] then None
      else case map_of (frame tab cur) name of
        Some b \<Rightarrow> Some b
      | None \<Rightarrow> if CHR ''.'' \<notin> set cur then None else lookup_binding tab name (parent_of cur))"
  by pat_completeness auto
termination lookup_binding
  by (relation "measure (\<lambda>(tab, name, cur). length cur)") (auto intro: parent_of_shorter)

declare lookup_binding.simps [simp del]

section \<open>Handlers\<close>

definition first_part :: "string \<Rightarrow> string" where
  "first_part s = hd (py_split CHR ''.'' s)"

fun alias_parts :: "ast \<Rightarrow> (string \<times> string option) option" where
  "alias_parts (Alias l n a) = Some (n, a)"
| "alias_parts n = None"

definition local_name :: "string \<Rightarrow> string option \<Rightarrow> string" where
  "local_name n a = (case a of Some t \<Rightarrow> if t = [] then n else t | None \<Rightarrow> n)"

definition provider :: "visitor \<Rightarrow> string \<Rightarrow> string" where
  "provider v root = hd (at_names (resolve_import (vi_declared v) root) @ [root])"

definition import_entry_of :: "visitor \<Rightarrow> string \<Rightarrow> string \<Rightarrow> string \<Rightarrow> string option \<Rightarrow> string option \<Rightarrow> nat \<Rightarrow> import_record" where
  "import_entry_of v style root module symb alias line =
     (let a = resolve_import (vi_declared v) root in
      \<lparr>ir_style = style, ir_dist = provider v root, ir_root = root, ir_module = module, ir_symbol = symb, ir_alias = alias,
       ir_file = vi_file v, ir_line = int line, ir_column = 0, ir_scope_type = current_scope_type v, ir_scope = current_scope_path v,
       ir_parent = parent_scope_path v, ir_evidence = at_evidence a, ir_environment = at_scope a\<rparr>)"

definition visit_import :: "nat \<Rightarrow> visitor \<Rightarrow> ast \<Rightarrow> visitor" where
  "visit_import line v al =
     (case alias_parts al of
        None \<Rightarrow> v
      | Some (n, a) \<Rightarrow>
          v\<lparr>vi_imports := put_in (current_scope_path v) (local_name n a)
              (import_entry_of v ''import'' (first_part n) n None a line) (vi_imports v)\<rparr>)"

text \<open>The module named by a relative import.\<close>

definition module_prefix :: "string \<Rightarrow> string option \<Rightarrow> nat \<Rightarrow> string" where
  "module_prefix module m level =
     (let p = (case m of Some s \<Rightarrow> s | None \<Rightarrow> []); parts = scope_parts module;
          base = (if level < length parts then py_join ''.'' (take (length parts - level) parts) else [])
      in if level = 0 then p
         else if base \<noteq> [] \<and> p \<noteq> [] then base @ ''.'' @ p else if base \<noteq> [] then base else p)"

definition visit_import_from :: "nat \<Rightarrow> string option \<Rightarrow> nat \<Rightarrow> visitor \<Rightarrow> ast \<Rightarrow> visitor" where
  "visit_import_from line m level v al =
     (case alias_parts al of
        None \<Rightarrow> v
      | Some (n, a) \<Rightarrow>
          (let p = module_prefix (vi_module v) m level; root = (if first_part p = [] then n else first_part p); star = (n = ''*'')
           in v\<lparr>vi_imports := put_in (current_scope_path v) (local_name n a)
                  (import_entry_of v (if star then ''from_import_star'' else ''from_import'') root p (Some n) a line) (vi_imports v)\<rparr>))"

text \<open>The callee of an assigned value, empty when the value is neither a call nor a name.\<close>

fun assigned_callee :: "(ast \<Rightarrow> string) \<Rightarrow> ast \<Rightarrow> string" where
  "assigned_callee up (Call l f as ks) = up f"
| "assigned_callee up (Name l i) = up (Name l i)"
| "assigned_callee up (Attribute l b a) = up (Attribute l b a)"
| "assigned_callee up n = []"

definition visit_assign :: "(ast \<Rightarrow> string) \<Rightarrow> nat \<Rightarrow> ast list \<Rightarrow> ast \<Rightarrow> visitor \<Rightarrow> visitor" where
  "visit_assign up line targets value v =
     (case targets of
        [Name l x] \<Rightarrow>
          (let callee = assigned_callee up value; scope = current_scope_path v in
           if callee = [] then v
           else case lookup_import v (first_part callee) scope of
             None \<Rightarrow> v
           | Some imp \<Rightarrow>
               v\<lparr>vi_bindings := put_in scope x
                   \<lparr>lb_variable = x, lb_scope = scope, lb_source = up value, lb_type = callee, lb_import = Some imp, lb_file = vi_file v,
                    lb_line = int line, lb_column = 0, lb_confidence = ProvenStatic\<rparr> (vi_bindings v)\<rparr>)
      | _ \<Rightarrow> v)"

section \<open>Calls\<close>

text \<open>What a call is attributed to: the symbol, the import, the confidence, whether it is dynamic.\<close>

type_synonym target = "string \<times> import_record option \<times> confidence \<times> bool"

definition dynamic_target :: "visitor \<Rightarrow> ast list \<Rightarrow> target" where
  "dynamic_target v as =
     (''<dynamic>'',
      (case as of a # _ \<Rightarrow> (case name_id a of Some b \<Rightarrow> lookup_import v b (current_scope_path v) | None \<Rightarrow> None) | [] \<Rightarrow> None),
      UnresolvedConfidence, True)"

definition in_class_frame :: "visitor \<Rightarrow> string \<Rightarrow> bool" where
  "in_class_frame v name = list_ex (\<lambda>c. map_of (frame (vi_imports v) c) name \<noteq> None) (map fst (vi_classes v))"

definition method_target :: "(ast \<Rightarrow> string) \<Rightarrow> visitor \<Rightarrow> ast \<Rightarrow> string \<Rightarrow> target" where
  "method_target up v base attr =
     (let scope = current_scope_path v in
      case base of
        Name l b \<Rightarrow>
          (case lookup_import v b scope of
             Some r \<Rightarrow> (attr, Some r, ProvenStatic, False)
           | None \<Rightarrow>
               (case lookup_binding (vi_bindings v) b scope of
                  Some lb \<Rightarrow>
                    (case lb_import lb of
                       Some r \<Rightarrow> (attr, Some r, lb_confidence lb, False)
                     | None \<Rightarrow> (attr, None, if in_class_frame v b then UnresolvedConfidence else ProvenStatic, False))
                | None \<Rightarrow> (attr, None, if in_class_frame v b then UnresolvedConfidence else ProvenStatic, False)))
      | Attribute l b' a \<Rightarrow> (attr, lookup_import v (first_part (up base)) scope, ProvenStatic, False)
      | _ \<Rightarrow> (attr, None, ProvenStatic, False))"

fun is_getattr :: "ast \<Rightarrow> bool" where
  "is_getattr (Name l i) = (i = ''getattr'')"
| "is_getattr n = False"

definition call_target :: "(ast \<Rightarrow> string) \<Rightarrow> visitor \<Rightarrow> ast \<Rightarrow> ast list \<Rightarrow> target" where
  "call_target up v f as =
     (case f of
        Call l g as' ks \<Rightarrow> if is_getattr g then dynamic_target v as' else ([], None, ProvenStatic, False)
      | Name l i \<Rightarrow>
          if i = ''getattr'' then dynamic_target v as else (i, lookup_import v i (current_scope_path v), ProvenStatic, False)
      | Attribute l b a \<Rightarrow> method_target up v b a
      | _ \<Rightarrow> ([], None, ProvenStatic, False))"

definition module_invocation :: "(ast \<Rightarrow> string) \<Rightarrow> visitor \<Rightarrow> ast \<Rightarrow> string list" where
  "module_invocation up v f =
     (if current_scope_type v = ModuleScope
      then (case f of Name l i \<Rightarrow> [i] | Attribute l b a \<Rightarrow> [up f] | _ \<Rightarrow> []) else [])"

definition call_entry :: "(ast \<Rightarrow> string) \<Rightarrow> visitor \<Rightarrow> nat \<Rightarrow> ast \<Rightarrow> ast list \<Rightarrow> call_record" where
  "call_entry up v line f as =
     (case call_target up v f as of
        (symb, imp, conf, dyn) \<Rightarrow>
          \<lparr>cr_caller = current_scope_path v, cr_callee = (if py_endswith (up f) ''()'' then up f else up f @ ''()''),
           cr_import = imp, cr_symbol = symb, cr_path = [current_scope_path v, up f], cr_file = vi_file v, cr_line = int line,
           cr_column = 0,
           cr_confidence = (case imp of Some r \<Rightarrow> if is_wildcard r then UnresolvedConfidence else conf | None \<Rightarrow> UnresolvedConfidence),
           cr_dynamic = dyn\<rparr>)"

definition visit_call :: "(ast \<Rightarrow> string) \<Rightarrow> nat \<Rightarrow> ast \<Rightarrow> ast list \<Rightarrow> visitor \<Rightarrow> visitor" where
  "visit_call up line f as v =
     v\<lparr>vi_roots := vi_roots v @ module_invocation up v f, vi_calls := vi_calls v @ [call_entry up v line f as]\<rparr>"

section \<open>The walk\<close>

text \<open>What a handler does before the child nodes are visited.\<close>

fun before_children :: "(ast \<Rightarrow> string) \<Rightarrow> ast \<Rightarrow> visitor \<Rightarrow> visitor" where
  "before_children up (FunctionDef a l n args b ds r) v =
     enter_scope FunctionScope n
       (v\<lparr>vi_functions := AList.update (current_scope_path v @ ''.'' @ n) (FunctionDef a l n args b ds r) (vi_functions v)\<rparr>)"
| "before_children up (ClassDef l n bs ks b ds) v =
     enter_scope ClassScope n
       (v\<lparr>vi_classes := AList.update (current_scope_path v @ ''.'' @ n) (ClassDef l n bs ks b ds) (vi_classes v)\<rparr>)"
| "before_children up (Import l ns) v =
     foldl (visit_import l) (v\<lparr>vi_imports := ensure_frame (current_scope_path v) (vi_imports v)\<rparr>) ns"
| "before_children up (ImportFrom l m ns k) v =
     foldl (visit_import_from l m k) (v\<lparr>vi_imports := ensure_frame (current_scope_path v) (vi_imports v)\<rparr>) ns"
| "before_children up (Assign l ts x) v = visit_assign up l ts x v"
| "before_children up (Call l f as ks) v = visit_call up l f as v"
| "before_children up n v = v"

fun opens_scope :: "ast \<Rightarrow> bool" where
  "opens_scope (FunctionDef a l n args b ds r) = True"
| "opens_scope (ClassDef l n bs ks b ds) = True"
| "opens_scope n = False"

lemma child_lighter: "m \<in> set (children n) \<Longrightarrow> size m < size n"
  using children_lighter [of n] member_le_sum_list [of "node_weight m" "map node_weight (children n)"] by auto

function visit :: "(ast \<Rightarrow> string) \<Rightarrow> visitor \<Rightarrow> ast \<Rightarrow> visitor" where
  "visit up v n =
     (let v' = foldl (visit up) (before_children up n v) (children n) in if opens_scope n then leave_scope v' else v')"
  by pat_completeness auto
termination visit
  by (relation "measure (\<lambda>(up, v, n). size n)") (auto simp: child_lighter)

declare visit.simps [simp del]

text \<open>\<open>analyze_file\<close>: the file's name without and with its suffix, and its tree.\<close>

definition analyze_file :: "(ast \<Rightarrow> string) \<Rightarrow> visitor \<Rightarrow> string \<times> string \<times> ast \<Rightarrow> visitor" where
  "analyze_file up v fl =
     (case fl of (stem, fname, tree) \<Rightarrow>
        (let m = (if fname = ''target.py'' \<or> fname = ''app.py'' then ''app'' else stem)
         in visit up (v\<lparr>vi_module := m, vi_file := fname, vi_stack := [(ModuleScope, m)]\<rparr>) tree))"

definition graph_of :: "visitor \<Rightarrow> graph" where
  "graph_of v = \<lparr>gr_functions = vi_functions v, gr_module = vi_module v, gr_roots = vi_roots v\<rparr>"

section \<open>The stack, and the calls\<close>

lemma handlers_keep:
  "vi_stack (visit_import l v a) = vi_stack v" "vi_calls (visit_import l v a) = vi_calls v"
  "vi_stack (visit_import_from l m k v a) = vi_stack v" "vi_calls (visit_import_from l m k v a) = vi_calls v"
  "vi_stack (visit_assign up l ts x v) = vi_stack v" "vi_calls (visit_assign up l ts x v) = vi_calls v"
  "vi_module (visit_import l v a) = vi_module v" "vi_module (visit_import_from l m k v a) = vi_module v"
  "vi_module (visit_assign up l ts x v) = vi_module v"
  by (auto simp: visit_import_def visit_import_from_def visit_assign_def Let_def split: option.splits list.splits ast.splits)

lemma foldl_keeps: "(\<And>v x. f (g v x) = f v) \<Longrightarrow> f (foldl g v xs) = f v"
  by (induction xs arbitrary: v) auto

lemma before_children_stack:
  "(if opens_scope n then butlast (vi_stack (before_children up n v)) else vi_stack (before_children up n v)) = vi_stack v"
  by (cases n) (simp_all add: enter_scope_def visit_call_def handlers_keep foldl_keeps [where f = vi_stack])

lemma before_children_module: "vi_module (before_children up n v) = vi_module v"
  by (cases n) (simp_all add: enter_scope_def visit_call_def handlers_keep foldl_keeps [where f = vi_module])

lemma visit_stack [simp]: "vi_stack (visit up v n) = vi_stack v \<and> vi_module (visit up v n) = vi_module v"
proof (induction up v n rule: visit.induct)
  case (1 up v n)
  let ?v = "before_children up n v"
  have "vi_stack (foldl (visit up) ?v (children n)) = vi_stack ?v \<and> vi_module (foldl (visit up) ?v (children n)) = vi_module ?v"
    by (rule foldl_invariant [where P = "\<lambda>u. vi_stack u = vi_stack ?v \<and> vi_module u = vi_module ?v"]) (use 1 in auto)
  then show ?case
    using before_children_stack [of n up v]
    by (auto simp: visit.simps [of up v n] Let_def before_children_module leave_scope_def split: if_splits)
qed

text \<open>The nodes of a tree in document order.\<close>

function preorder :: "ast \<Rightarrow> ast list" where
  "preorder n = n # concat (map preorder (children n))"
  by pat_completeness auto
termination preorder
  by (relation "measure size") (auto simp: child_lighter)

declare preorder.simps [simp del]

fun call_label :: "(ast \<Rightarrow> string) \<Rightarrow> ast \<Rightarrow> (int \<times> string) option" where
  "call_label up (Call l f as ks) = Some (int l, if py_endswith (up f) ''()'' then up f else up f @ ''()'')"
| "call_label up n = None"

lemma before_children_calls:
  "\<exists>cs. vi_calls (before_children up n v) = vi_calls v @ cs
     \<and> map (\<lambda>c. (cr_line c, cr_callee c)) cs = (case call_label up n of None \<Rightarrow> [] | Some x \<Rightarrow> [x])"
  by (cases n) (auto simp: enter_scope_def visit_call_def call_entry_def handlers_keep foldl_keeps [where f = vi_calls] split: prod.split)

lemma visit_calls:
  "\<exists>cs. vi_calls (visit up v n) = vi_calls v @ cs
     \<and> map (\<lambda>c. (cr_line c, cr_callee c)) cs = List.map_filter (call_label up) (preorder n)"
proof (induction up v n rule: visit.induct)
  case (1 up v n)
  let ?label = "\<lambda>c. (cr_line c, cr_callee c)"
  have "\<exists>cs. vi_calls (foldl (visit up) u ns) = vi_calls u @ cs \<and> map ?label cs = List.map_filter (call_label up) (concat (map preorder ns))"
    if "set ns \<subseteq> set (children n)" for ns u
    using that
  proof (induction ns arbitrary: u)
    case (Cons m ms)
    from Cons.prems obtain cs where cs: "vi_calls (visit up u m) = vi_calls u @ cs" "map ?label cs = List.map_filter (call_label up) (preorder m)"
      using "1.IH" by fastforce
    from Cons.IH [of "visit up u m"] Cons.prems obtain ds where
        "vi_calls (foldl (visit up) (visit up u m) ms) = vi_calls (visit up u m) @ ds"
        "map ?label ds = List.map_filter (call_label up) (concat (map preorder ms))" by auto
    with cs show ?case by (auto simp: List.map_filter_def intro!: exI [of _ "cs @ ds"])
  qed (simp add: List.map_filter_simps)
  from this [OF order.refl] obtain ds where ds:
      "vi_calls (foldl (visit up) (before_children up n v) (children n)) = vi_calls (before_children up n v) @ ds"
      "map ?label ds = List.map_filter (call_label up) (concat (map preorder (children n)))" by blast
  from before_children_calls [of up n v] obtain cs where cs:
      "vi_calls (before_children up n v) = vi_calls v @ cs"
      "map ?label cs = (case call_label up n of None \<Rightarrow> [] | Some x \<Rightarrow> [x])" by blast
  have "vi_calls (visit up v n) = vi_calls v @ (cs @ ds)"
    using cs ds by (simp add: visit.simps [of up v n] leave_scope_def Let_def)
  moreover have "map ?label (cs @ ds) = List.map_filter (call_label up) (preorder n)"
    using cs ds by (simp add: preorder.simps [of n] List.map_filter_simps split: option.split)
  ultimately show ?case by blast
qed

text \<open>
  Analysing a file leaves the scope stack at the module, whatever the file nests, and adds a
  record for every call of the file: once each, in document order, with its line and callee.
\<close>

theorem every_call_recorded:
  "let v' = analyze_file up v (stem, fname, tree) in
   vi_stack v' = [(ModuleScope, vi_module v')]
   \<and> (\<exists>cs. vi_calls v' = vi_calls v @ cs
        \<and> map (\<lambda>c. (cr_line c, cr_callee c)) cs = List.map_filter (call_label up) (preorder tree))"
  using visit_calls [of up "v\<lparr>vi_module := m, vi_file := fname, vi_stack := [(ModuleScope, m)]\<rparr>" tree for m]
  by (auto simp: analyze_file_def Let_def)

section \<open>Scopes of names\<close>

lemma parent_of_snoc: "CHR ''.'' \<notin> set m \<Longrightarrow> parent_of (c @ ''.'' @ m) = c"
proof -
  assume "CHR ''.'' \<notin> set m"
  then have "dropWhile (\<lambda>c. c \<noteq> CHR ''.'') (rev m @ CHR ''.'' # rev c) = CHR ''.'' # rev c"
    by (induction m rule: rev_induct) auto
  then show ?thesis by (simp add: parent_of_def rsplit_once_def)
qed

lemma frame_filter: "s \<noteq> c \<Longrightarrow> frame (filter (\<lambda>p. fst p \<noteq> c) tab) s = frame tab s"
proof -
  assume "s \<noteq> c"
  then have "map_of (filter (\<lambda>p. fst p \<noteq> c) tab) s = map_of tab s" by (induction tab) auto
  then show ?thesis by (simp add: frame_def)
qed

text \<open>One turn of the loop, from a scope that does not bind the name.\<close>

lemma climb_step:
  assumes "cur \<noteq> []" "map_of (frame im cur) name = None" "CHR ''.'' \<in> set cur"
  shows "climb im cl name cur wild =
    climb im cl name (if parent_of cur \<in> set cl \<and> CHR ''.'' \<in> set (parent_of cur) then parent_of (parent_of cur) else parent_of cur)
      (if wild = None then map_of (frame im cur) ''*'' else wild)"
  using assms by (simp add: climb.simps [of im cl name cur wild] Let_def)

lemma climb_below: "length cur < length c \<Longrightarrow> climb (filter (\<lambda>p. fst p \<noteq> c) im) cl name cur wild = climb im cl name cur wild"
proof (induction "length cur" arbitrary: cur wild rule: less_induct)
  case less
  let ?f = "filter (\<lambda>p. fst p \<noteq> c) im"
  have fr: "frame ?f cur = frame im cur" using less.prems by (intro frame_filter) auto
  show ?case
  proof (cases "cur = [] \<or> map_of (frame im cur) name \<noteq> None \<or> CHR ''.'' \<notin> set cur")
    case True
    then show ?thesis by (auto simp: climb.simps [of _ cl name cur wild] fr Let_def split: option.splits)
  next
    case False
    let ?up = "if parent_of cur \<in> set cl \<and> CHR ''.'' \<in> set (parent_of cur) then parent_of (parent_of cur) else parent_of cur"
    have "length ?up < length cur"
      using False parent_of_shorter [of cur] parent_of_shorter [of "parent_of cur"] by auto
    then have "climb ?f cl name ?up w = climb im cl name ?up w" for w using less.hyps less.prems by simp
    moreover have "cur \<noteq> []" "map_of (frame im cur) name = None" "CHR ''.'' \<in> set cur" using False by auto
    note step = climb_step [OF this(1) _ this(3)] this(2)
    have "map_of (frame ?f cur) name = None" by (simp only: fr step(2))
    note both = step(1) [OF this] step(1) [OF step(2)]
    ultimately show ?thesis unfolding both fr by simp
  qed
qed

text \<open>
  PEP 227 for methods: what a name means in a method does not depend on the imports in the body
  of its class.
\<close>

theorem method_skips_class:
  assumes "c \<in> set (map fst (vi_classes v))" "CHR ''.'' \<in> set c" "CHR ''.'' \<notin> set m" "vi_module v \<noteq> c"
  shows "lookup_import (v\<lparr>vi_imports := filter (\<lambda>p. fst p \<noteq> c) (vi_imports v)\<rparr>) name (c @ ''.'' @ m)
    = lookup_import v name (c @ ''.'' @ m)"
proof -
  let ?im = "vi_imports v" and ?cl = "map fst (vi_classes v)"
  define cur where "cur = c @ ''.'' @ m"
  have cur: "cur \<noteq> []" "CHR ''.'' \<in> set cur" "cur \<noteq> c" "parent_of cur = c" "length (parent_of c) < length c"
    using parent_of_snoc [OF assms(3)] parent_of_shorter [OF assms(2)] by (simp_all add: cur_def)
  note fr = frame_filter [OF cur(3)] frame_filter [OF assms(4)]
  have "climb (filter (\<lambda>p. fst p \<noteq> c) ?im) ?cl name cur None = climb ?im ?cl name cur None"
  proof (cases "map_of (frame ?im cur) name")
    case None
    then show ?thesis
      using climb_step [where cur = cur and im = ?im and name = name and cl = ?cl] assms(1,2) cur climb_below [OF cur(5)]
        climb_step [where cur = cur and im = "filter (\<lambda>p. fst p \<noteq> c) ?im" and name = name and cl = ?cl]
      by (simp add: fr)
  next
    case (Some r)
    then show ?thesis by (simp add: climb.simps [of _ ?cl name cur None] fr)
  qed
  then show ?thesis unfolding cur_def [symmetric] by (auto simp: lookup_import_def fr split: sum.split option.split)
qed

section \<open>Samples\<close>

definition up_name :: "ast \<Rightarrow> string" where
  "up_name n = (case dotted n of Some s \<Rightarrow> s | None \<Rightarrow> [])"

definition lib_call :: ast where
  "lib_call = Expr 1 (Call 1 (Attribute 1 (Name 1 ''l'') ''f'') [] [])"

definition lib_import :: ast where
  "lib_import = Import 1 [Alias 1 ''l'' None]"

definition scan :: "(string \<times> string \<times> ast) list \<Rightarrow> visitor" where
  "scan fs = foldl (analyze_file up_name) (new_visitor ''app'' ''x'' [''l'']) fs"

text \<open>
  The rule fails for nested classes: an import in the body of an outer class is found from a
  method of an inner class, where Python would not find it, and the call is attributed to it.
\<close>

theorem nested_class_leaks:
  "let inner = ClassDef 1 ''B'' [] [] [fun_node ''m'' [lib_call]] [];
       outer = ClassDef 1 ''A'' [] [] [lib_import, inner] [];
       cs = vi_calls (scan [(''a'', ''a.py'', Module [outer])])
   in map cr_caller cs = [''a.A.B.m''] \<and> map cr_confidence cs = [ProvenStatic]
     \<and> map (map_option ir_scope \<circ> cr_import) cs = [Some ''a.A'']"
  by code_simp

text \<open>
  The verdicts on calls at module level depend on the order of the files: the same call is
  CALL_REACHABLE when its file is analysed alone and CALL_UNREACHABLE when another file follows.
\<close>

theorem only_last_module_reachable:
  "let a = (''a'', ''a.py'', Module [lib_import, lib_call]); b = (''b'', ''b.py'', Module []);
       state = (\<lambda>v. map (\<lambda>c. ve_state (evaluate_call_reachability (graph_of v) c)) (vi_calls v))
   in state (scan [a]) = [CallReachable] \<and> state (scan [b, a]) = [CallReachable] \<and> state (scan [a, b]) = [CallUnreachable]"
  by code_simp

text \<open>A call in the body of a class runs when the module is imported, and is CALL_UNREACHABLE.\<close>

theorem class_body_unreachable:
  "let v = scan [(''a'', ''a.py'', Module [lib_import, ClassDef 1 ''A'' [] [] [lib_call] []])]
   in map (\<lambda>c. (cr_caller c, ve_state (evaluate_call_reachability (graph_of v) c))) (vi_calls v) = [(''a.A'', CallUnreachable)]"
  by code_simp

definition method_sample :: visitor where
  "method_sample = scan [(''a'', ''a.py'', Module [ClassDef 1 ''A'' [] [] [lib_import, fun_node ''m'' [lib_call]] []])]"

lemma method_sample_facts:
  "map fst (vi_classes method_sample) = [''a.A'']" "vi_module method_sample = ''a''"
  "lookup_import (method_sample\<lparr>vi_imports := filter (\<lambda>p. fst p \<noteq> ''a.A'') (vi_imports method_sample)\<rparr>) ''l'' ''a.A.m'' = None"
  by code_simp+

theorem method_skips_class_witness: "lookup_import method_sample ''l'' ''a.A.m'' = None"
  using method_skips_class [of "''a.A''" method_sample "''m''" "''l''"] method_sample_facts by simp

end
