(* ===== verification/Version_Bounds.thy ===== *)
theory Version_Bounds
  imports Py_Values
begin

text \<open>
  How \<open>version_matcher.py\<close> decides whether a requested version range and a vulnerable
  interval of an advisory meet: the intervals of an advisory's event list
  (\<open>extract_intervals_from_events\<close>), membership of a version (\<open>_is_version_in_interval\<close>),
  the outer bounds of a specifier set (\<open>_get_specifier_outer_bounds\<close>) and the three-valued
  classifier (\<open>classify_interval_overlap\<close>).

  The library \<open>packaging\<close> is a parameter: \<open>pv_parse\<close> is \<open>Version(text)\<close>, \<open>pv_base\<close> its
  \<open>base_version\<close>, \<open>pv_specs\<close> the members of \<open>SpecifierSet(text)\<close> in the order they are
  iterated and \<open>pv_contains\<close> the test \<open>version in specifier_set\<close>. Versions are compared by
  the order of the type \<open>'v\<close>, a linear order as PEP 440 has it. What PEP 440 says of the order
  and of the clauses is \<open>documented\<close>, in terms of the epoch and the release of a version, which
  the program itself never looks at.
\<close>

section \<open>The packaging library\<close>

text \<open>The operators of a clause: \<open>>=\<close>, \<open>>\<close>, \<open><=\<close>, \<open><\<close>, \<open>==\<close>, \<open>!=\<close>, \<open>~=\<close> and \<open>===\<close>.\<close>

datatype spec_op = AtLeast | Above | AtMost | Below | Equals | Differs | Compatible | Arbitrary

record spec =
  sp_op :: spec_op
  sp_ver :: string

record 'v pep440 =
  pv_parse :: "string \<Rightarrow> 'v option"
  pv_base :: "'v \<Rightarrow> string"
  pv_specs :: "string \<Rightarrow> spec list option"
  pv_contains :: "spec list \<Rightarrow> 'v \<Rightarrow> bool"
  pv_epoch :: "'v \<Rightarrow> nat"
  pv_release :: "'v \<Rightarrow> nat list"
  pv_bare :: "'v \<Rightarrow> bool"  \<comment> \<open>an epoch and a release, and nothing behind them\<close>
  pv_settled :: "'v \<Rightarrow> bool"  \<comment> \<open>no pre-release or development release, and no local label\<close>

definition safe_parse_version :: "'v pep440 \<Rightarrow> string \<Rightarrow> 'v option" where
  "safe_parse_version env s = (if s = [] then None else pv_parse env (py_strip s))"

section \<open>The intervals of an advisory\<close>

text \<open>The dictionary of one interval: its keys are the four kinds of event.\<close>

record interval =
  iv_introduced :: "string option"
  iv_fixed :: "string option"
  iv_last_affected :: "string option"
  iv_limit :: "string option"

definition no_events :: interval where
  "no_events = \<lparr>iv_introduced = None, iv_fixed = None, iv_last_affected = None, iv_limit = None\<rparr>"

definition event_text :: "string \<Rightarrow> dict \<Rightarrow> string option" where
  "event_text k ev = map_option (\<lambda>v. py_strip (py_str v)) (map_of ev k)"

text \<open>One turn of the loop: the intervals finished so far and the one being built.\<close>

definition interval_step :: "interval list \<times> interval \<Rightarrow> pyval \<Rightarrow> interval list \<times> interval" where
  "interval_step st ev =
     (case st of (done, cur) \<Rightarrow>
      (case ev of
         PDict d \<Rightarrow>
          (case event_text ''introduced'' d of
             Some t \<Rightarrow>
               if iv_introduced cur \<noteq> None then (done @ [cur], no_events\<lparr>iv_introduced := Some t\<rparr>)
               else (done, cur\<lparr>iv_introduced := Some t\<rparr>)
           | None \<Rightarrow>
          (case event_text ''fixed'' d of
             Some t \<Rightarrow> (done @ [cur\<lparr>iv_fixed := Some t\<rparr>], no_events)
           | None \<Rightarrow>
          (case event_text ''last_affected'' d of
             Some t \<Rightarrow> (done @ [cur\<lparr>iv_last_affected := Some t\<rparr>], no_events)
           | None \<Rightarrow>
          (case event_text ''limit'' d of
             Some t \<Rightarrow> (done @ [cur\<lparr>iv_limit := Some t\<rparr>], no_events)
           | None \<Rightarrow> (done, cur)))))
       | _ \<Rightarrow> (done, cur)))"

definition extract_intervals :: "pyval list \<Rightarrow> interval list" where
  "extract_intervals evs =
     (case foldl interval_step ([], no_events) evs of
        (done, cur) \<Rightarrow> if cur = no_events then done else done @ [cur])"

definition format_interval :: "interval \<Rightarrow> string" where
  "format_interval i =
     (let parts = (case iv_introduced i of None \<Rightarrow> [] | Some t \<Rightarrow> [''>='' @ t])
                @ (case iv_fixed i of None \<Rightarrow> [] | Some t \<Rightarrow> [''<'' @ t])
                @ (case iv_last_affected i of None \<Rightarrow> [] | Some t \<Rightarrow> [''<='' @ t])
      in if parts = [] then ''any'' else py_join '', '' parts)"

text \<open>The version an event names, and the test that it names one which cannot be read.\<close>

definition bound_of :: "'v pep440 \<Rightarrow> string option \<Rightarrow> 'v option" where
  "bound_of env t = (case t of None \<Rightarrow> None | Some s \<Rightarrow> if s = [] then None else safe_parse_version env s)"

definition unreadable :: "'v pep440 \<Rightarrow> string option \<Rightarrow> bool" where
  "unreadable env t = (case t of None \<Rightarrow> False | Some s \<Rightarrow> s \<noteq> [] \<and> safe_parse_version env s = None)"

definition in_interval :: "'v::linorder pep440 \<Rightarrow> 'v \<Rightarrow> interval \<Rightarrow> bool" where
  "in_interval env v i =
     ((case bound_of env (iv_introduced i) of None \<Rightarrow> True | Some b \<Rightarrow> \<not> v < b)
      \<and> (case bound_of env (iv_fixed i) of None \<Rightarrow> True | Some b \<Rightarrow> \<not> b \<le> v)
      \<and> (case bound_of env (iv_last_affected i) of None \<Rightarrow> True | Some b \<Rightarrow> \<not> b < v)
      \<and> (case bound_of env (iv_limit i) of None \<Rightarrow> True | Some b \<Rightarrow> \<not> b \<le> v))"

section \<open>The outer bounds of a specifier set\<close>

type_synonym 'v bound = "('v \<times> bool) option"

definition digit_parts :: "string \<Rightarrow> nat list" where
  "digit_parts s = map digits_val (filter py_isdigit (py_split CHR ''.'' s))"

definition bump_last :: "nat list \<Rightarrow> nat list" where
  "bump_last ns = butlast ns @ [last ns + 1]"

definition version_of_parts :: "'v pep440 \<Rightarrow> nat list \<Rightarrow> 'v option" where
  "version_of_parts env ns = safe_parse_version env (py_join ''.'' (map nat_str ns))"

text \<open>The upper ends that \<open>==X.*\<close> and \<open>~=X\<close> are given.\<close>

definition prefix_end :: "'v pep440 \<Rightarrow> string \<Rightarrow> 'v option" where
  "prefix_end env pre =
     (let ns = digit_parts pre in if ns = [] then None else version_of_parts env (bump_last ns))"

definition compatible_end :: "'v pep440 \<Rightarrow> string \<Rightarrow> 'v option" where
  "compatible_end env ver =
     (let ns = digit_parts ver in if 2 \<le> length ns then version_of_parts env (bump_last (butlast ns)) else None)"

definition wildcard :: "spec \<Rightarrow> bool" where
  "wildcard s = py_endswith (sp_ver s) ''.*''"

definition wildcard_prefix :: "spec \<Rightarrow> string" where
  "wildcard_prefix s = py_strip (take (length (sp_ver s) - 2) (sp_ver s))"

text \<open>Replaces a bound by \<open>(v, inc)\<close> when there is none or when the new one is \<open>better\<close>.\<close>

definition tighten :: "('v \<Rightarrow> 'v \<Rightarrow> bool \<Rightarrow> bool) \<Rightarrow> bool \<Rightarrow> 'v option \<Rightarrow> 'v bound \<Rightarrow> 'v bound" where
  "tighten better inc new b =
     (case new of
        None \<Rightarrow> b
      | Some v \<Rightarrow> (case b of None \<Rightarrow> Some (v, inc) | Some (w, k) \<Rightarrow> if better v w k then Some (v, inc) else b))"

definition lower_step :: "'v::linorder pep440 \<Rightarrow> spec \<Rightarrow> 'v bound \<Rightarrow> 'v bound" where
  "lower_step env s low =
     (let v = safe_parse_version env (sp_ver s) in
      (case sp_op s of
         AtLeast \<Rightarrow> tighten (\<lambda>v l inc. l < v \<or> (v = l \<and> \<not> inc)) True v low
       | Above \<Rightarrow> tighten (\<lambda>v l inc. l \<le> v) False v low
       | Equals \<Rightarrow>
           tighten (\<lambda>v l inc. l < v) True
             (if wildcard s then safe_parse_version env (wildcard_prefix s) else v) low
       | Compatible \<Rightarrow> tighten (\<lambda>v l inc. l < v) True v low
       | _ \<Rightarrow> low))"

definition upper_step :: "'v::linorder pep440 \<Rightarrow> spec \<Rightarrow> 'v bound \<Rightarrow> 'v bound" where
  "upper_step env s up =
     (let v = safe_parse_version env (sp_ver s) in
      (case sp_op s of
         AtMost \<Rightarrow> tighten (\<lambda>v u inc. v < u \<or> (v = u \<and> \<not> inc)) True v up
       | Below \<Rightarrow> tighten (\<lambda>v u inc. v \<le> u) False v up
       | Equals \<Rightarrow>
           (if wildcard s
            then tighten (\<lambda>v u inc. v < u \<or> (v = u \<and> inc)) False (prefix_end env (wildcard_prefix s)) up
            else tighten (\<lambda>v u inc. v < u) True v up)
       | Compatible \<Rightarrow>
           (if v = None then up
            else tighten (\<lambda>v u inc. v < u \<or> (v = u \<and> inc)) False (compatible_end env (sp_ver s)) up)
       | _ \<Rightarrow> up))"

definition outer_bounds :: "'v::linorder pep440 \<Rightarrow> spec list \<Rightarrow> 'v bound \<times> 'v bound" where
  "outer_bounds env ss =
     foldl (\<lambda>(low, up) s. (lower_step env s low, upper_step env s up)) (None, None) ss"


section \<open>The classifier\<close>

datatype overlap_state = ProvenOverlap | ProvenDisjoint | Unresolved

text \<open>A clause whose operator or version the classifier does not interpret.\<close>

definition unsupported :: "'v pep440 \<Rightarrow> spec \<Rightarrow> bool" where
  "unsupported env s \<longleftrightarrow> sp_op s = Arbitrary \<or> (\<not> wildcard s \<and> safe_parse_version env (sp_ver s) = None)"

definition unsatisfiable :: "'v::linorder bound \<Rightarrow> 'v bound \<Rightarrow> bool" where
  "unsatisfiable low up =
     (case (low, up) of
        (Some (l, linc), Some (u, uinc)) \<Rightarrow> u < l \<or> (l = u \<and> \<not> (linc \<and> uinc))
      | _ \<Rightarrow> False)"

definition ends_before :: "'v::linorder bound \<Rightarrow> 'v option \<Rightarrow> bool" where
  "ends_before up intro =
     (case (up, intro) of (Some (u, inc), Some b) \<Rightarrow> u < b \<or> (u = b \<and> \<not> inc) | _ \<Rightarrow> False)"

text \<open>\<open>closed\<close>: whether the vulnerable interval contains its upper end (\<open>last_affected\<close>).\<close>

definition starts_after :: "'v::linorder bound \<Rightarrow> bool \<Rightarrow> 'v option \<Rightarrow> bool" where
  "starts_after low closed end =
     (case (low, end) of (Some (l, inc), Some b) \<Rightarrow> b < l \<or> (l = b \<and> inc \<noteq> closed) | _ \<Rightarrow> False)"

text \<open>The values present, in order.\<close>

definition cat_options :: "'a option list \<Rightarrow> 'a list" where
  "cat_options xs = map the (filter (\<lambda>x. x \<noteq> None) xs)"

text \<open>The probing grid around the start of the overlap; an exception anywhere leaves it empty.\<close>

fun all_some :: "'a option list \<Rightarrow> 'a list option" where
  "all_some [] = Some []"
| "all_some (x # xs) = (case x of None \<Rightarrow> None | Some a \<Rightarrow> map_option (\<lambda>as. a # as) (all_some xs))"

definition grid_version :: "int list \<Rightarrow> string" where
  "grid_version ns = py_join ''.'' (map int_str ns)"

definition grid_texts :: "string list \<Rightarrow> string list option" where
  "grid_texts parts =
     (case parts of
        a # b # c # _ \<Rightarrow>
          (case all_some (map py_int_of_str [a, b, c]) of
             Some [x, y, z] \<Rightarrow> Some (map grid_version [[x, y, 0], [x, y, z + 1], [x, y, z + 2], [x, y, z + 5], [x, y + 1, 0], [x + 1, 0, 0]])
           | _ \<Rightarrow> None)
      | [a, b] \<Rightarrow>
          (case all_some (map py_int_of_str [a, b]) of
             Some [x, y] \<Rightarrow> Some (map grid_version [[x, y, 0], [x, y, 1], [x, y, 5], [x, y + 1, 0], [x + 1, 0, 0]])
           | _ \<Rightarrow> None)
      | _ \<Rightarrow> Some [])"

definition grid :: "'v pep440 \<Rightarrow> 'v \<Rightarrow> 'v list" where
  "grid env start =
     (case grid_texts (py_split CHR ''.'' (pv_base env start)) of
        None \<Rightarrow> []
      | Some ts \<Rightarrow> (case all_some (map (pv_parse env) ts) of None \<Rightarrow> [] | Some vs \<Rightarrow> vs))"

definition first_of :: "'a option \<Rightarrow> 'a option \<Rightarrow> 'a option" where
  "first_of x y = (case x of None \<Rightarrow> y | Some a \<Rightarrow> Some a)"

definition rstrip_stars :: "string \<Rightarrow> string" where
  "rstrip_stars s = rev (dropWhile (\<lambda>c. c = CHR ''.'' \<or> c = CHR ''*'') (rev s))"

definition candidates :: "'v pep440 \<Rightarrow> spec list \<Rightarrow> interval \<Rightarrow> string list \<Rightarrow> 'v bound \<Rightarrow> 'v list" where
  "candidates env ss i versions low =
     cat_options (map (safe_parse_version env) versions)
     @ cat_options [bound_of env (iv_introduced i), bound_of env (iv_last_affected i), map_option fst low]
     @ cat_options (map (\<lambda>s. safe_parse_version env (rstrip_stars (sp_ver s))) ss)
     @ (case first_of (bound_of env (iv_introduced i)) (first_of (map_option fst low) (pv_parse env ''0.0.1'')) of
          None \<Rightarrow> []
        | Some start \<Rightarrow> grid env start)"

definition classify_interval_overlap :: "'v::linorder pep440 \<Rightarrow> spec list \<Rightarrow> interval \<Rightarrow> string list
    \<Rightarrow> overlap_state \<times> string option" where
  "classify_interval_overlap env ss i versions =
     (let intro = bound_of env (iv_introduced i); fixed = bound_of env (iv_fixed i);
          last = bound_of env (iv_last_affected i); limit = bound_of env (iv_limit i);
          low = fst (outer_bounds env ss); up = snd (outer_bounds env ss)
      in if list_ex (unreadable env) [iv_introduced i, iv_fixed i, iv_last_affected i, iv_limit i] then (Unresolved, None)
         else if list_ex (unsupported env) ss then (Unresolved, None)
         else if unsatisfiable low up then (ProvenDisjoint, None)
         else if ends_before up intro then (ProvenDisjoint, None)
         else if starts_after low False fixed then (ProvenDisjoint, None)
         else if starts_after low True last then (ProvenDisjoint, None)
         else if starts_after low False limit then (ProvenDisjoint, None)
         else if intro \<noteq> None \<and> intro = last then
           (if pv_contains env ss (the intro) then (ProvenOverlap, Some (''=='' @ the (iv_introduced i)))
            else (ProvenDisjoint, None))
         else if list_ex (\<lambda>c. pv_contains env ss c \<and> in_interval env c i) (candidates env ss i versions low)
         then (ProvenOverlap, Some (format_interval i))
         else (Unresolved, Some (format_interval i)))"

section \<open>What the clauses of a specifier mean\<close>

text \<open>
  PEP 440 on versions: the numbers of a release, filled up with zeros, decide between two versions
  of the same epoch; of the versions with the same release numbers, a bare one is not above a settled
  one; and dotted numbers are the bare version with that release and without an epoch.
\<close>

definition release_part :: "nat list \<Rightarrow> nat \<Rightarrow> nat" where
  "release_part ns k = (if k < length ns then ns ! k else 0)"

definition release_less :: "nat list \<Rightarrow> nat list \<Rightarrow> bool" where
  "release_less a b = (\<exists>k. release_part a k < release_part b k \<and> (\<forall>j < k. release_part a j = release_part b j))"

definition begins_with :: "nat list \<Rightarrow> nat list \<Rightarrow> bool" where
  "begins_with ns p = (\<forall>k < length p. release_part ns k = p ! k)"

definition dotted :: "string \<Rightarrow> bool" where
  "dotted t = list_all py_isdigit (py_split CHR ''.'' t)"

definition dotted_numbers :: "string \<Rightarrow> nat list" where
  "dotted_numbers t = map digits_val (py_split CHR ''.'' t)"

text \<open>
  PEP 440 on a clause and a settled version that it admits: \<open>==X.*\<close> admits the versions whose
  release begins with the numbers of \<open>X\<close>, and \<open>~=X\<close> is the same as \<open>>=X\<close> together with
  \<open>==Y.*\<close> where \<open>Y\<close> is \<open>X\<close> without its last number.
\<close>

definition clause_meaning :: "'v::linorder pep440 \<Rightarrow> 'v \<Rightarrow> spec \<Rightarrow> bool" where
  "clause_meaning env v s =
     (let at = (\<lambda>P. case pv_parse env (py_strip (sp_ver s)) of None \<Rightarrow> True | Some b \<Rightarrow> P b);
          pre = (\<lambda>p. pv_epoch env v = 0 \<and> begins_with (pv_release env v) p)
      in (case sp_op s of
            AtLeast \<Rightarrow> at (\<lambda>b. b \<le> v)
          | Above \<Rightarrow> at (\<lambda>b. b < v)
          | AtMost \<Rightarrow> at (\<lambda>b. v \<le> b)
          | Below \<Rightarrow> at (\<lambda>b. v < b)
          | Equals \<Rightarrow>
              (if wildcard s then dotted (wildcard_prefix s) \<longrightarrow> pre (dotted_numbers (wildcard_prefix s))
               else at (\<lambda>b. v = b))
          | Compatible \<Rightarrow> at (\<lambda>b. b \<le> v) \<and> (dotted (sp_ver s) \<longrightarrow> pre (butlast (dotted_numbers (sp_ver s))))
          | _ \<Rightarrow> True))"

definition documented :: "'v::linorder pep440 \<Rightarrow> bool" where
  "documented env \<longleftrightarrow>
     (\<forall>v w. pv_epoch env v = pv_epoch env w \<and> release_less (pv_release env v) (pv_release env w) \<longrightarrow> v < w)
     \<and> (\<forall>v w. pv_epoch env v = pv_epoch env w \<and> release_part (pv_release env v) = release_part (pv_release env w)
          \<and> pv_settled env v \<and> pv_bare env w \<longrightarrow> w \<le> v)
     \<and> (\<forall>t. dotted t \<longrightarrow> (\<exists>w. pv_parse env t = Some w \<and> pv_epoch env w = 0 \<and> pv_bare env w
          \<and> release_part (pv_release env w) = release_part (dotted_numbers t)))
     \<and> (\<forall>ss v. pv_contains env ss v \<and> pv_settled env v \<longrightarrow> list_all (clause_meaning env v) ss)"

text \<open>
  The clauses with a wildcard or \<open>~=\<close> that the bounds are made for: dotted numbers. An epoch is
  dropped, see the end of the theory.
\<close>

definition plain_clause :: "spec \<Rightarrow> bool" where
  "plain_clause s \<longleftrightarrow>
     (sp_op s = Equals \<and> wildcard s \<longrightarrow> dotted (wildcard_prefix s)) \<and> (sp_op s = Compatible \<longrightarrow> dotted (sp_ver s))"

text \<open>Dotted numbers and their parts.\<close>

lemma split_plain: "d \<notin> set w \<Longrightarrow> py_split d (w @ d # s) = w # py_split d s"
  by (induction w) auto

lemma split_plain_end: "d \<notin> set w \<Longrightarrow> py_split d w = [w]"
  by (induction w) auto

lemma split_join: "ws \<noteq> [] \<Longrightarrow> \<forall>w \<in> set ws. d \<notin> set w \<Longrightarrow> py_split d (py_join [d] ws) = ws"
  by (induction "[d]" ws rule: py_join.induct) (simp_all add: split_plain split_plain_end)

lemma dot_not_digit: "\<not> is_digit (CHR ''.'')"
  by (simp add: is_digit_def code_of_def Let_def)

lemma nat_str_some [simp]: "nat_str n \<noteq> []"
  by (subst nat_str.simps) simp

lemma split_numbers: "ns \<noteq> [] \<Longrightarrow> py_split (CHR ''.'') (py_join ''.'' (map nat_str ns)) = map nat_str ns"
  using nat_str_digits dot_not_digit by (intro split_join) (auto simp: list_all_iff)

lemma dotted_join: "ns \<noteq> [] \<Longrightarrow> dotted (py_join ''.'' (map nat_str ns)) \<and> dotted_numbers (py_join ''.'' (map nat_str ns)) = ns"
  by (simp add: dotted_def dotted_numbers_def split_numbers list_all_iff py_isdigit_def nat_str_digits [unfolded list_all_iff]
      comp_def digits_val_nat_str)

lemma dotted_parts: "dotted t \<Longrightarrow> digit_parts t = dotted_numbers t"
  by (simp add: digit_parts_def dotted_numbers_def dotted_def filter_id_conv list_all_iff)

lemma split_some [simp]: "py_split d s \<noteq> []"
  by (induction s) (auto split: list.splits)

lemma dotted_numbers_some [simp]: "dotted_numbers t \<noteq> []"
  by (simp add: dotted_numbers_def)

lemma split_chars: "c \<in> set s \<Longrightarrow> c = d \<or> (\<exists>w \<in> set (py_split d s). c \<in> set w)"
  by (induction s) (auto split: list.splits)

lemma digit_no_space: "is_digit c \<Longrightarrow> \<not> is_space c"
  by (auto simp: is_digit_def is_space_def code_of_def Let_def)

lemma dotted_strip: "dotted t \<Longrightarrow> py_strip t = t"
proof -
  assume t: "dotted t"
  have "\<not> is_space c" if "c \<in> set t" for c
    using split_chars [OF that, of "CHR ''.''"] t digit_no_space
    by (auto simp: dotted_def list_all_iff py_isdigit_def is_space_def code_of_def Let_def)
  then have "dropWhile is_space u = u" if "set u \<subseteq> set t" for u using that by (cases u) auto
  from this [of t] this [of "rev t"] show ?thesis
    by (simp add: py_strip_def py_lstrip_def py_rstrip_def)
qed

lemma safe_parse_dotted:
  assumes "documented env" "dotted t" "safe_parse_version env t = Some b"
  shows "pv_epoch env b = 0 \<and> pv_bare env b \<and> release_part (pv_release env b) = release_part (dotted_numbers t)"
proof -
  from assms(1,2) obtain w where "pv_parse env t = Some w" "pv_epoch env w = 0" "pv_bare env w"
      "release_part (pv_release env w) = release_part (dotted_numbers t)"
    by (auto simp: documented_def)
  with assms(2,3) dotted_strip show ?thesis by (auto simp: safe_parse_version_def split: if_splits)
qed

text \<open>What begins with a prefix lies below the prefix with its last number raised, and not below the prefix.\<close>

lemma prefix_below:
  assumes env: "documented env" and "pv_epoch env v = 0" "begins_with (pv_release env v) ns" "ns \<noteq> []"
    and b: "version_of_parts env (bump_last ns) = Some b"
  shows "v < b"
proof -
  have ne: "bump_last ns \<noteq> []" by (simp add: bump_last_def)
  have b: "pv_epoch env b = 0" "release_part (pv_release env b) = release_part (bump_last ns)"
    using safe_parse_dotted [OF env conjunct1 [OF dotted_join [OF ne]] b [unfolded version_of_parts_def]] dotted_join [OF ne]
    by simp_all
  have "release_part (bump_last ns) j = (if j < length ns - 1 then ns ! j else if j = length ns - 1 then last ns + 1 else 0)" for j
    using assms(4) by (auto simp: release_part_def bump_last_def nth_append nth_butlast)
  moreover have "release_part (pv_release env v) j = ns ! j" if "j < length ns" for j
    using assms(3) that by (simp add: begins_with_def)
  ultimately have "release_less (pv_release env v) (pv_release env b)"
    unfolding release_less_def b(2) using assms(4) by (intro exI [of _ "length ns - 1"]) (simp add: last_conv_nth)
  with env assms(2) b(1) show ?thesis unfolding documented_def by simp
qed

lemma prefix_above:
  assumes env: "documented env" and v: "pv_epoch env v = 0" "begins_with (pv_release env v) (dotted_numbers p)" "pv_settled env v"
    and p: "dotted p" "safe_parse_version env p = Some b"
  shows "b \<le> v"
proof (cases "release_part (pv_release env v) = release_part (pv_release env b)")
  case True
  with safe_parse_dotted [OF env p] env v show ?thesis unfolding documented_def by metis
next
  case False
  note b = safe_parse_dotted [OF env p]
  define k where "k = (LEAST j. release_part (pv_release env v) j \<noteq> release_part (pv_release env b) j)"
  from False obtain j where "release_part (pv_release env v) j \<noteq> release_part (pv_release env b) j" by blast
  then have k: "release_part (pv_release env v) k \<noteq> release_part (pv_release env b) k"
    unfolding k_def by (rule LeastI)
  have before: "release_part (pv_release env v) i = release_part (pv_release env b) i" if "i < k" for i
    using not_less_Least [of i "\<lambda>j. release_part (pv_release env v) j \<noteq> release_part (pv_release env b) j"] that
    unfolding k_def by blast
  have "\<not> k < length (dotted_numbers p)"
    using k v(2) b by (auto simp: begins_with_def release_part_def)
  then have "release_part (pv_release env b) k = 0" using b by (simp add: release_part_def)
  with k before have "release_less (pv_release env b) (pv_release env v)"
    unfolding release_less_def by (intro exI [of _ k]) auto
  with env b v(1) have "b < v" unfolding documented_def by simp
  then show ?thesis by simp
qed

text \<open>The bounds that the code draws from a clause.\<close>

definition inside_bounds :: "'v::linorder pep440 \<Rightarrow> 'v \<Rightarrow> spec \<Rightarrow> bool" where
  "inside_bounds env v s =
     (let at = (\<lambda>P t. case t of None \<Rightarrow> True | Some b \<Rightarrow> P b); w = safe_parse_version env (sp_ver s) in
      (case sp_op s of
         AtLeast \<Rightarrow> at (\<lambda>b. b \<le> v) w
       | Above \<Rightarrow> at (\<lambda>b. b < v) w
       | AtMost \<Rightarrow> at (\<lambda>b. v \<le> b) w
       | Below \<Rightarrow> at (\<lambda>b. v < b) w
       | Equals \<Rightarrow>
           (if wildcard s
            then at (\<lambda>b. b \<le> v) (safe_parse_version env (wildcard_prefix s)) \<and> at (\<lambda>b. v < b) (prefix_end env (wildcard_prefix s))
            else at (\<lambda>b. v = b) w)
       | Compatible \<Rightarrow> at (\<lambda>b. b \<le> v) w \<and> at (\<lambda>b. v < b) (compatible_end env (sp_ver s))
       | _ \<Rightarrow> True))"

text \<open>A settled version that a clause admits lies inside of the bounds that the code draws from the clause.\<close>

lemma admitted_inside:
  assumes env: "documented env" and s: "plain_clause s" and v: "clause_meaning env v s" "pv_settled env v"
  shows "inside_bounds env v s"
proof -
  let ?w = "safe_parse_version env (sp_ver s)"
  have parse: "?w = Some b \<Longrightarrow> pv_parse env (py_strip (sp_ver s)) = Some b" for b
    by (simp add: safe_parse_version_def split: if_splits)
  consider "sp_op s = Equals" "wildcard s" | "sp_op s = Compatible" | "sp_op s \<noteq> Compatible" "\<not> (sp_op s = Equals \<and> wildcard s)" by blast
  then show ?thesis
  proof cases
    case 1
    let ?p = "wildcard_prefix s"
    have p: "dotted ?p" "pv_epoch env v = 0" "begins_with (pv_release env v) (dotted_numbers ?p)"
      using 1 s v(1) by (simp_all add: plain_clause_def clause_meaning_def)
    have "b \<le> v" if "safe_parse_version env ?p = Some b" for b by (rule prefix_above [OF env p(2,3) v(2) p(1) that])
    moreover have "v < b" if "prefix_end env ?p = Some b" for b
      using prefix_below [OF env p(2,3)] that by (simp add: prefix_end_def dotted_parts [OF p(1)] Let_def split: if_splits)
    ultimately show ?thesis using 1 by (auto simp: inside_bounds_def split: option.split)
  next
    case 2
    let ?ns = "dotted_numbers (sp_ver s)"
    have p: "dotted (sp_ver s)" "pv_epoch env v = 0" "begins_with (pv_release env v) (butlast ?ns)"
      using 2 s v(1) by (simp_all add: plain_clause_def clause_meaning_def)
    have "b \<le> v" if "?w = Some b" for b using 2 v(1) parse [OF that] by (simp add: clause_meaning_def)
    moreover have "v < b" if "compatible_end env (sp_ver s) = Some b" for b
    proof -
      have two: "2 \<le> length ?ns" "version_of_parts env (bump_last (butlast ?ns)) = Some b"
        using that by (simp_all add: compatible_end_def dotted_parts [OF p(1)] Let_def split: if_splits)
      then have "butlast ?ns \<noteq> []" by (cases ?ns rule: rev_cases) auto
      from prefix_below [OF env p(2,3) this two(2)] show ?thesis .
    qed
    ultimately show ?thesis using 2 by (auto simp: inside_bounds_def split: option.split)
  next
    case 3
    with v(1) parse show ?thesis
      by (cases "sp_op s") (auto simp: inside_bounds_def clause_meaning_def Let_def split: option.splits)
  qed
qed

text \<open>The versions of a requested range that the results below speak about.\<close>

definition admitted :: "'v::linorder pep440 \<Rightarrow> spec list \<Rightarrow> 'v \<Rightarrow> bool" where
  "admitted env ss v \<longleftrightarrow> pv_contains env ss v \<and> pv_settled env v \<and> list_all plain_clause ss"

lemma admitted_all_inside: "documented env \<Longrightarrow> admitted env ss v \<Longrightarrow> list_all (inside_bounds env v) ss"
  using admitted_inside by (fastforce simp: admitted_def documented_def list_all_iff)

definition above :: "'v::linorder bound \<Rightarrow> 'v \<Rightarrow> bool" where
  "above b v = (case b of None \<Rightarrow> True | Some (l, inc) \<Rightarrow> if inc then l \<le> v else l < v)"

definition below_bound :: "'v::linorder bound \<Rightarrow> 'v \<Rightarrow> bool" where
  "below_bound b v = (case b of None \<Rightarrow> True | Some (u, inc) \<Rightarrow> if inc then v \<le> u else v < u)"

lemma tighten_above:
  "above b v \<Longrightarrow> (\<And>w. new = Some w \<Longrightarrow> if inc then w \<le> v else w < v) \<Longrightarrow> above (tighten better inc new b) v"
  by (auto simp: above_def tighten_def split: option.splits)

lemma tighten_below:
  "below_bound b v \<Longrightarrow> (\<And>w. new = Some w \<Longrightarrow> if inc then v \<le> w else v < w) \<Longrightarrow> below_bound (tighten better inc new b) v"
  by (auto simp: below_bound_def tighten_def split: option.splits)

lemma lower_step_sound: "inside_bounds env v s \<Longrightarrow> above b v \<Longrightarrow> above (lower_step env s b) v"
  by (cases "sp_op s") (auto simp: lower_step_def inside_bounds_def Let_def intro!: tighten_above)

lemma upper_step_sound: "inside_bounds env v s \<Longrightarrow> below_bound b v \<Longrightarrow> below_bound (upper_step env s b) v"
  by (cases "sp_op s") (auto simp: upper_step_def inside_bounds_def Let_def intro!: tighten_below)

lemma outer_bounds_sound:
  assumes "list_all (inside_bounds env v) ss"
  shows "above (fst (outer_bounds env ss)) v \<and> below_bound (snd (outer_bounds env ss)) v"
proof -
  let ?P = "\<lambda>b. above (fst b) v \<and> below_bound (snd b) v"
    and ?f = "\<lambda>(low, up) s. (lower_step env s low, upper_step env s up)"
  have "?P (foldl ?f (None, None) ss)"
  proof (rule foldl_invariant [where P = ?P])
    fix b s assume "s \<in> set ss" "?P b"
    with assms show "?P (?f b s)"
      by (cases b) (auto simp: list_all_iff intro: lower_step_sound upper_step_sound)
  qed (simp add: above_def below_bound_def)
  then show ?thesis by (simp add: outer_bounds_def)
qed

text \<open>The disjointness tests against a version that is in both.\<close>

lemma disjoint_tests:
  assumes "above low v" "below_bound up v"
  shows "\<not> unsatisfiable low up"
    and "(\<And>b. intro = Some b \<Longrightarrow> b \<le> v) \<Longrightarrow> \<not> ends_before up intro"
    and "(\<And>b. end = Some b \<Longrightarrow> if closed then v \<le> b else v < b) \<Longrightarrow> \<not> starts_after low closed end"
  using assms
  by (auto simp: unsatisfiable_def ends_before_def starts_after_def above_def below_bound_def
      split: option.splits prod.splits if_splits)

lemma in_interval_bounds:
  assumes "in_interval env v i"
  shows "bound_of env (iv_introduced i) = Some b \<Longrightarrow> b \<le> v" "bound_of env (iv_fixed i) = Some b \<Longrightarrow> v < b"
    "bound_of env (iv_last_affected i) = Some b \<Longrightarrow> v \<le> b" "bound_of env (iv_limit i) = Some b \<Longrightarrow> v < b"
  using assms by (auto simp: in_interval_def)

lemma classify_disjoint:
  assumes "fst (classify_interval_overlap env ss i versions) = ProvenDisjoint"
    and "list_all (inside_bounds env v) ss" "pv_contains env ss v"
  shows "\<not> in_interval env v i"
proof
  assume i: "in_interval env v i"
  note iv = in_interval_bounds [OF i]
  from outer_bounds_sound [OF assms(2)]
  have b: "above (fst (outer_bounds env ss)) v" "below_bound (snd (outer_bounds env ss)) v" by auto
  have "\<not> ends_before (snd (outer_bounds env ss)) (bound_of env (iv_introduced i))"
    by (rule disjoint_tests(2) [OF b]) (rule iv(1))
  moreover have "\<not> starts_after (fst (outer_bounds env ss)) False (bound_of env (iv_fixed i))"
    by (rule disjoint_tests(3) [OF b]) (simp add: iv(2))
  moreover have "\<not> starts_after (fst (outer_bounds env ss)) True (bound_of env (iv_last_affected i))"
    by (rule disjoint_tests(3) [OF b]) (simp add: iv(3))
  moreover have "\<not> starts_after (fst (outer_bounds env ss)) False (bound_of env (iv_limit i))"
    by (rule disjoint_tests(3) [OF b]) (simp add: iv(4))
  ultimately obtain w where w: "bound_of env (iv_introduced i) = Some w" "bound_of env (iv_last_affected i) = Some w"
      "\<not> pv_contains env ss w"
    using assms(1) disjoint_tests(1) [OF b]
    by (cases "bound_of env (iv_introduced i)"; cases "bound_of env (iv_last_affected i)") (auto simp: classify_interval_overlap_def Let_def split: if_splits)
  then have "v = w" using iv(1) [of w] iv(3) [of w] by simp
  with w(3) assms(3) show False by simp
qed

lemma classify_overlap:
  assumes "fst (classify_interval_overlap env ss i versions) = ProvenOverlap"
  shows "\<exists>v. pv_contains env ss v \<and>
    (in_interval env v i \<or> (bound_of env (iv_introduced i) = Some v \<and> bound_of env (iv_last_affected i) = Some v))"
  using assms
  by (cases "bound_of env (iv_introduced i)"; cases "bound_of env (iv_last_affected i)")
    (auto simp: classify_interval_overlap_def Let_def list_ex_iff split: if_splits)

section \<open>The intervals extracted\<close>

definition one_end :: "interval \<Rightarrow> bool" where
  "one_end i \<longleftrightarrow>
     (iv_fixed i = None \<or> iv_last_affected i = None) \<and> (iv_fixed i = None \<or> iv_limit i = None)
     \<and> (iv_last_affected i = None \<or> iv_limit i = None)"

definition unended :: "interval \<Rightarrow> bool" where
  "unended i \<longleftrightarrow> iv_fixed i = None \<and> iv_last_affected i = None \<and> iv_limit i = None"

lemma interval_step_ends:
  assumes "list_all one_end (fst st)" "unended (snd st)"
  shows "list_all one_end (fst (interval_step st ev)) \<and> unended (snd (interval_step st ev))"
  using assms
  by (cases st; cases ev) (auto simp: interval_step_def one_end_def unended_def no_events_def split: option.split)

lemma extract_intervals_one_end: "i \<in> set (extract_intervals evs) \<Longrightarrow> one_end i"
proof -
  let ?P = "\<lambda>st. list_all one_end (fst st) \<and> unended (snd st)"
  have "?P (foldl interval_step ([], no_events) evs)"
    by (rule foldl_invariant [where P = ?P]) (use interval_step_ends in \<open>auto simp: unended_def no_events_def\<close>)
  moreover have "one_end cur" if "unended cur" for cur
    using that by (simp add: unended_def one_end_def)
  ultimately show "i \<in> set (extract_intervals evs) \<Longrightarrow> one_end i"
    by (cases "foldl interval_step ([], no_events) evs") (auto simp: extract_intervals_def list_all_iff split: if_splits)
qed

text \<open>The event list of intervals that are written the usual way, and back.\<close>

definition events_of :: "interval \<Rightarrow> pyval list" where
  "events_of i =
     (let ev = (\<lambda>k t. case t of None \<Rightarrow> [] | Some s \<Rightarrow> [PDict [(k, PStr s)]])
      in ev ''introduced'' (iv_introduced i) @ ev ''fixed'' (iv_fixed i)
         @ ev ''last_affected'' (iv_last_affected i) @ ev ''limit'' (iv_limit i))"

definition well_formed :: "interval \<Rightarrow> bool" where
  "well_formed i \<longleftrightarrow> iv_introduced i \<noteq> None \<and> one_end i
     \<and> list_all (\<lambda>t. case t of None \<Rightarrow> True | Some s \<Rightarrow> py_strip s = s)
         [iv_introduced i, iv_fixed i, iv_last_affected i, iv_limit i]"

text \<open>The state of the loop after some intervals: the last one stays open until it has an end.\<close>

definition loop_state :: "interval list \<Rightarrow> interval list \<times> interval" where
  "loop_state is = (if is \<noteq> [] \<and> unended (last is) then (butlast is, last is) else (is, no_events))"

lemma steps_of_interval:
  assumes "well_formed i" "list_all well_formed is"
  shows "foldl interval_step (loop_state is) (events_of i) = loop_state (is @ [i])"
proof -
  obtain a f l m where i: "i = \<lparr>iv_introduced = Some a, iv_fixed = f, iv_last_affected = l, iv_limit = m\<rparr>"
    using assms(1) by (cases i) (auto simp: well_formed_def)
  have intro: "iv_introduced (last is) \<noteq> None" if "is \<noteq> []"
    using assms(2) that by (auto simp: list_all_iff well_formed_def)
  have a: "interval_step (loop_state is) (PDict [(''introduced'', PStr a)]) = (is, no_events\<lparr>iv_introduced := Some a\<rparr>)"
    using assms(1) intro
    by (auto simp: interval_step_def loop_state_def event_text_def i well_formed_def no_events_def)
  show ?thesis
    using assms(1) a
    by (cases f; cases l; cases m)
      (simp_all add: events_of_def i well_formed_def one_end_def unended_def loop_state_def interval_step_def event_text_def no_events_def)
qed

lemma intervals_extracted:
  assumes "list_all well_formed is"
  shows "extract_intervals (concat (map events_of is)) = is"
proof -
  have "foldl interval_step (loop_state js) (concat (map events_of is)) = loop_state (js @ is)" if "list_all well_formed js" for js
    using that assms
  proof (induction "is" arbitrary: js)
    case (Cons i "is")
    then show ?case using steps_of_interval [of i js] Cons.IH [of "js @ [i]"] by simp
  qed simp
  from this [of "[]"] have "foldl interval_step ([], no_events) (concat (map events_of is)) = loop_state is"
    by (simp add: loop_state_def)
  moreover have "last is \<noteq> no_events" if "is \<noteq> []"
    using assms last_in_set [OF that] by (auto simp: list_all_iff well_formed_def no_events_def)
  ultimately show ?thesis by (auto simp: extract_intervals_def loop_state_def)
qed

text \<open>
  Extracting the intervals inverts writing them: from the event list of intervals that each have
  a start and at most one end, the same intervals come back, in order.
\<close>

theorem intervals_roundtrip:
  assumes "list_all well_formed is"
  shows "extract_intervals (concat (map events_of is)) = is"
  using assms by (rule intervals_extracted)


section \<open>An instance, and two limits of the bounds\<close>

text \<open>
  A small instance of the library: final releases with an optional epoch, as the list of the
  epoch and the release numbers without trailing zeros, so that the lexicographic order is
  that of PEP 440.
\<close>

definition mini_numbers :: "string \<Rightarrow> nat list option" where
  "mini_numbers s =
     (let (e, r) = (if CHR ''!'' \<in> set s then split_once CHR ''!'' s else (''0'', s)); ps = e # py_split CHR ''.'' r
      in if list_all py_isdigit ps then Some (map digits_val ps) else None)"

definition no_trailing_zeros :: "nat list \<Rightarrow> nat list" where
  "no_trailing_zeros ns = (hd ns) # rev (dropWhile (\<lambda>n. n = 0) (rev (tl ns)))"

definition mini_parse :: "string \<Rightarrow> nat list option" where
  "mini_parse s = map_option no_trailing_zeros (mini_numbers s)"

definition same_prefix :: "nat list \<Rightarrow> nat list \<Rightarrow> bool" where
  "same_prefix ns v \<longleftrightarrow> take (length ns) (v @ replicate (length ns) 0) = ns"

definition mini_admits :: "nat list \<Rightarrow> spec \<Rightarrow> bool" where
  "mini_admits v s =
     (let w = mini_parse (py_strip (sp_ver s)); at = (\<lambda>P t. case t of None \<Rightarrow> False | Some b \<Rightarrow> P b) in
      (case sp_op s of
         AtLeast \<Rightarrow> at (\<lambda>b. b \<le> v) w
       | Above \<Rightarrow> at (\<lambda>b. b < v) w
       | AtMost \<Rightarrow> at (\<lambda>b. v \<le> b) w
       | Below \<Rightarrow> at (\<lambda>b. v < b) w
       | Equals \<Rightarrow>
           (if wildcard s then at (\<lambda>ns. same_prefix ns v) (mini_numbers (wildcard_prefix s)) else w = Some v)
       | Differs \<Rightarrow>
           (if wildcard s then at (\<lambda>ns. \<not> same_prefix ns v) (mini_numbers (wildcard_prefix s)) else w \<noteq> Some v)
       | Compatible \<Rightarrow> at (\<lambda>b. b \<le> v) w \<and> at (\<lambda>ns. same_prefix (butlast ns) v) (mini_numbers (sp_ver s))
       | Arbitrary \<Rightarrow> False))"

definition clause :: "spec_op \<Rightarrow> string \<Rightarrow> spec" where
  "clause op v = \<lparr>sp_op = op, sp_ver = v\<rparr>"

fun find_clause :: "(string \<times> spec_op) list \<Rightarrow> string \<Rightarrow> spec option" where
  "find_clause [] s = None"
| "find_clause ((p, op) # ps) s = (if py_startswith s p then Some (clause op (drop (length p) s)) else find_clause ps s)"

definition mini_clause :: "string \<Rightarrow> spec option" where
  "mini_clause s = find_clause [(''>='', AtLeast), (''<='', AtMost), (''==='', Arbitrary), (''=='', Equals), (''!='', Differs),
     (''~='', Compatible), (''>'', Above), (''<'', Below)] s"

definition mini_specs :: "string \<Rightarrow> spec list option" where
  "mini_specs s = all_some (map mini_clause (py_split CHR '','' s))"

definition mini_settled :: "nat list \<Rightarrow> bool" where
  "mini_settled v = (v \<noteq> [] \<and> no_trailing_zeros v = v)"

definition mini :: "nat list pep440" where
  "mini = \<lparr>pv_parse = mini_parse, pv_base = (\<lambda>v. py_join ''.'' (map nat_str (tl v))),
     pv_specs = mini_specs, pv_contains = (\<lambda>ss v. list_all (mini_admits v) ss),
     pv_epoch = (\<lambda>v. case v of [] \<Rightarrow> 0 | e # r \<Rightarrow> e), pv_release = tl, pv_bare = mini_settled, pv_settled = mini_settled\<rparr>"

text \<open>The instance behaves as PEP 440 says.\<close>

lemma release_less_order: "release_less a b \<Longrightarrow> a < b"
proof (induction a arbitrary: b)
  case Nil
  then have "b \<noteq> []" by (auto simp: release_less_def release_part_def)
  then show ?case by (cases b) simp_all
next
  case (Cons x a)
  then obtain k where k: "release_part (x # a) k < release_part b k" "\<forall>j < k. release_part (x # a) j = release_part b j"
    by (auto simp: release_less_def)
  from k(1) obtain y b' where b: "b = y # b'" by (cases b) (auto simp: release_part_def)
  show ?case
  proof (cases k)
    case 0
    with k(1) b show ?thesis by (simp add: release_part_def)
  next
    case (Suc m)
    have part: "release_part (z # zs) (Suc j) = release_part zs j" for z zs j by (simp add: release_part_def)
    have "x = y" using k(2) Suc b by (auto simp: release_part_def dest: spec [of _ 0])
    moreover have "release_less a b'"
      unfolding release_less_def using k Suc b by (intro exI [of _ m]) (auto simp: part dest: spec [of _ "Suc _"])
    ultimately show ?thesis using Cons.IH b by simp
  qed
qed

lemma trimmed_equal:
  assumes "release_part a = release_part b" "rev (dropWhile (\<lambda>n. n = 0) (rev a)) = a" "rev (dropWhile (\<lambda>n. n = 0) (rev b)) = b"
  shows "a = b"
proof -
  have last: "last c \<noteq> 0" if "rev (dropWhile (\<lambda>n. n = 0) (rev c)) = c" "c \<noteq> []" for c :: "nat list"
    using that hd_dropWhile [of "\<lambda>n. n = 0" "rev c"] by (metis dropWhile_eq_Nil_conv hd_rev rev.simps(1) rev_rev_ident)
  have no: "\<not> length c < length d" if "release_part c = release_part d" "rev (dropWhile (\<lambda>n. n = 0) (rev d)) = d" for c d :: "nat list"
  proof
    assume l: "length c < length d"
    then have "d \<noteq> []" by auto
    with last [OF that(2)] have "release_part d (length d - 1) \<noteq> 0" by (simp add: release_part_def last_conv_nth)
    moreover have "release_part c (length d - 1) = 0" using l by (auto simp: release_part_def)
    ultimately show False using that(1) by simp
  qed
  have len: "length a = length b" using no [OF assms(1,3)] no [OF assms(1) [symmetric] assms(2)] by simp
  then show ?thesis using assms(1) by (auto simp: release_part_def fun_eq_iff intro!: nth_equalityI) metis
qed

lemma trim_parts: "release_part (rev (dropWhile (\<lambda>n. n = 0) (rev ns))) = release_part ns"
proof (induction ns rule: rev_induct)
  case (snoc n ns)
  show ?case
  proof (cases "n = 0")
    case True
    have "release_part (ns @ [0]) = release_part ns" by (auto simp: release_part_def nth_append fun_eq_iff)
    with True snoc show ?thesis by simp
  qed simp
qed simp

lemma trim_trimmed: "no_trailing_zeros (no_trailing_zeros v) = no_trailing_zeros v"
  by (simp add: no_trailing_zeros_def)

lemma dotted_no_epoch: "dotted t \<Longrightarrow> CHR ''!'' \<notin> set t"
proof -
  assume "dotted t"
  moreover have "\<not> is_digit (CHR ''!'')" by (simp add: is_digit_def code_of_def Let_def)
  ultimately show ?thesis using split_chars [of "CHR ''!''" t "CHR ''.''"] by (auto simp: dotted_def list_all_iff py_isdigit_def)
qed

lemma mini_numbers_dotted: "dotted t \<Longrightarrow> mini_numbers t = Some (0 # dotted_numbers t)"
proof -
  assume t: "dotted t"
  have "py_isdigit ''0''" "digits_val ''0'' = 0" by code_simp+
  with t dotted_no_epoch [OF t] show ?thesis by (simp add: mini_numbers_def dotted_def dotted_numbers_def)
qed

lemma same_prefix_begins: "same_prefix (0 # p) v \<Longrightarrow> (case v of [] \<Rightarrow> 0 | e # r \<Rightarrow> e) = 0 \<and> begins_with (tl v) p"
proof (cases v)
  case Nil
  assume "same_prefix (0 # p) v"
  with Nil have "replicate (length p) 0 = p" by (simp add: same_prefix_def)
  then have "\<forall>k < length p. p ! k = 0" by (metis nth_replicate)
  with Nil show ?thesis by (simp add: begins_with_def release_part_def)
next
  case (Cons e r)
  assume "same_prefix (0 # p) v"
  with Cons have "e = 0" and p: "take (length p) (r @ 0 # replicate (length p) 0) = p"
    by (simp_all add: same_prefix_def)
  have "release_part r k = p ! k" if "k < length p" for k
  proof -
    have "p ! k = (r @ 0 # replicate (length p) 0) ! k" using p that by (metis nth_take)
    with that show ?thesis by (auto simp: release_part_def nth_append nth_Cons')
  qed
  with Cons \<open>e = 0\<close> show ?thesis by (simp add: begins_with_def)
qed

lemma mini_clause_meaning: "mini_admits v s \<Longrightarrow> clause_meaning mini v s"
  using same_prefix_begins [of "dotted_numbers (wildcard_prefix s)" v] same_prefix_begins [of "butlast (dotted_numbers (sp_ver s))" v]
    mini_numbers_dotted [of "wildcard_prefix s"] mini_numbers_dotted [of "sp_ver s"]
  by (cases "sp_op s")
    (auto simp: mini_admits_def clause_meaning_def mini_def Let_def split: if_splits option.splits)

lemma documented_mini: "documented mini"
  unfolding documented_def
proof (intro conjI allI impI)
  fix v w assume a: "pv_epoch mini v = pv_epoch mini w \<and> release_less (pv_release mini v) (pv_release mini w)"
  then have "tl v < tl w" by (simp add: mini_def release_less_order)
  with a show "v < w" by (cases v; cases w) (simp_all add: mini_def)
next
  fix v w assume a: "pv_epoch mini v = pv_epoch mini w \<and> release_part (pv_release mini v) = release_part (pv_release mini w)
      \<and> pv_settled mini v \<and> pv_bare mini w"
  then obtain e r f t where v: "v = e # r" "w = f # t" by (cases v; cases w) (simp_all add: mini_def mini_settled_def)
  from a have "release_part (tl v) = release_part (tl w)" "no_trailing_zeros v = v" "no_trailing_zeros w = w"
    by (simp_all only: mini_def pep440.select_convs mini_settled_def)
  then have "r = t" unfolding v no_trailing_zeros_def list.sel list.inject by (elim conjE) (rule trimmed_equal)
  moreover from a have "(case v of [] \<Rightarrow> 0 | e # r \<Rightarrow> e) = (case w of [] \<Rightarrow> 0 | e # r \<Rightarrow> e)"
    by (simp only: mini_def pep440.select_convs)
  ultimately show "w \<le> v" using v by simp
next
  fix t :: string assume t: "dotted t"
  then have p: "pv_parse mini t = Some (no_trailing_zeros (0 # dotted_numbers t))"
    by (simp add: mini_def mini_parse_def mini_numbers_dotted)
  show "\<exists>w. pv_parse mini t = Some w \<and> pv_epoch mini w = 0 \<and> pv_bare mini w
      \<and> release_part (pv_release mini w) = release_part (dotted_numbers t)"
    unfolding p by (simp add: mini_def mini_settled_def trim_trimmed) (simp add: no_trailing_zeros_def trim_parts)
next
  fix ss v assume "pv_contains mini ss v \<and> pv_settled mini v"
  then have "list_all (mini_admits v) ss" by (simp add: mini_def)
  then show "list_all (clause_meaning mini v) ss" by (simp add: list_all_iff mini_clause_meaning)
qed

lemma mini_versions:
  "mini_parse ''1'' = Some [0, 1]" "mini_parse ''2'' = Some [0, 2]" "mini_parse ''4'' = Some [0, 4]"
  "mini_parse ''1!2.3.4'' = Some [1, 2, 3, 4]" "mini_numbers ''1!2.3.4'' = Some [1, 2, 3, 4]"
  "mini_parse ''1!2'' = Some [1, 2]" "mini_parse ''1!3'' = Some [1, 3]"
  "py_strip ''1'' = ''1''" "py_strip ''2'' = ''2''" "py_strip ''4'' = ''4''"
  "py_strip ''1!2.3.4'' = ''1!2.3.4''" "py_strip ''1!2'' = ''1!2''" "py_strip ''1!3'' = ''1!3''"
  "digit_parts ''1!2.3.4'' = [3, 4]" "nat_str 4 = ''4''" "\<not> py_endswith ''1!2.3.4'' ''.*''" 
  "\<not> py_endswith ''1'' ''.*''" "\<not> py_endswith ''2'' ''.*''"
  by code_simp+

lemma mini_parses: "pv_parse mini = mini_parse"
  by (simp add: mini_def)

lemma mini_safe: "s \<noteq> [] \<Longrightarrow> safe_parse_version mini s = mini_parse (py_strip s)"
  by (simp add: safe_parse_version_def mini_def)

text \<open>
  A compatible-release clause with an epoch is read without its epoch: \<open>~=1!2.3.4\<close> gets the
  upper bound 4, below its own lower bound, so every vulnerable interval is classified as
  disjoint from it, although version \<open>1!2.3.4\<close> is admitted and lies in the interval.
\<close>

theorem epoch_makes_disjoint:
  "let ss = [clause Compatible ''1!2.3.4'']; i = \<lparr>iv_introduced = Some ''1!2'', iv_fixed = Some ''1!3'', iv_last_affected = None, iv_limit = None\<rparr>
   in classify_interval_overlap mini ss i [] = (ProvenDisjoint, None)
     \<and> pv_contains mini ss [1, 2, 3, 4] \<and> in_interval mini [1, 2, 3, 4] i"
  by (simp add: Let_def classify_interval_overlap_def clause_def unsupported_def unreadable_def bound_of_def mini_safe mini_versions
      wildcard_def outer_bounds_def lower_step_def upper_step_def tighten_def compatible_end_def bump_last_def version_of_parts_def
      unsatisfiable_def in_interval_def)
   (simp add: mini_def mini_admits_def Let_def mini_versions same_prefix_def)

text \<open>
  The bounds depend on the order in which the set of clauses is iterated: \<open>>1\<close> before
  \<open>>=1\<close> leaves the weaker bound, and the same requested range is then unresolved against an
  interval that ends with version 1 and disjoint from it in the other order.
\<close>

theorem bounds_depend_on_order:
  "let i = \<lparr>iv_introduced = None, iv_fixed = None, iv_last_affected = Some ''1'', iv_limit = None\<rparr>;
       a = clause Above ''1''; b = clause AtLeast ''1''
   in fst (classify_interval_overlap mini [b, a] i []) = ProvenDisjoint
     \<and> fst (outer_bounds mini [a, b]) = Some ([0, 1], True)
     \<and> fst (outer_bounds mini [b, a]) = Some ([0, 1], False)
     \<and> (\<forall>v. pv_contains mini [a, b] v = pv_contains mini [b, a] v)
     \<and> fst (classify_interval_overlap mini [a, b] i []) \<noteq> ProvenDisjoint"
  by (simp add: Let_def classify_interval_overlap_def clause_def unsupported_def unreadable_def bound_of_def mini_safe mini_versions
      wildcard_def outer_bounds_def lower_step_def upper_step_def tighten_def unsatisfiable_def ends_before_def starts_after_def)
   (auto simp: mini_def)

definition one_to_two :: interval where
  "one_to_two = \<lparr>iv_introduced = Some ''1'', iv_fixed = Some ''2'', iv_last_affected = None, iv_limit = None\<rparr>"

definition from_two :: interval where
  "from_two = \<lparr>iv_introduced = Some ''2'', iv_fixed = None, iv_last_affected = Some ''4'', iv_limit = None\<rparr>"

lemma samples_well_formed: "list_all well_formed [one_to_two, from_two]"
  by (simp add: one_to_two_def from_two_def well_formed_def one_end_def mini_versions)

theorem intervals_roundtrip_witness:
  "extract_intervals (concat (map events_of [one_to_two, from_two])) = [one_to_two, from_two]"
  by (rule intervals_roundtrip [OF samples_well_formed])

lemma one_to_two_classified: "fst (classify_interval_overlap mini [clause AtLeast ''2''] one_to_two []) = ProvenDisjoint"
  by (simp add: one_to_two_def Let_def classify_interval_overlap_def clause_def unsupported_def unreadable_def bound_of_def
      mini_safe mini_versions wildcard_def outer_bounds_def lower_step_def upper_step_def tighten_def unsatisfiable_def
      ends_before_def starts_after_def)

lemma one_to_two_extracted: "one_to_two \<in> set (extract_intervals (events_of one_to_two))"
  by (simp add: one_to_two_def events_of_def extract_intervals_def interval_step_def no_events_def event_text_def mini_versions)


end
