(* ===== verification/Sca_Records.thy ===== *)
theory Sca_Records
  imports Py_Values
begin

text \<open>
  The records that the composition analysis passes between its parts: a dependency as
  \<open>manifest_parser.py\<close> reads it (\<open>DependencyRecord\<close>), an advisory as \<open>osv_client.py\<close>
  reads it (\<open>OSVAffectedRange\<close>, \<open>OSVVulnerability\<close>, \<open>OSVQueryResult\<close>), a finding of
  \<open>version_matcher.py\<close> (\<open>SCAFinding\<close>), and the normalization of package names by which
  they are joined.
\<close>

section \<open>Package names\<close>

text \<open>\<open>re.sub("[-_.]+", "-", s)\<close>.\<close>

definition separator :: "char \<Rightarrow> bool" where
  "separator c \<longleftrightarrow> c = CHR ''-'' \<or> c = CHR ''_'' \<or> c = CHR ''.''"

fun collapse_separators :: "string \<Rightarrow> string" where
  "collapse_separators [] = []"
| "collapse_separators [c] = [if separator c then CHR ''-'' else c]"
| "collapse_separators (c # d # s) =
     (if separator c then (if separator d then collapse_separators (d # s) else CHR ''-'' # collapse_separators (d # s))
      else c # collapse_separators (d # s))"

text \<open>\<open>canon\<close> is \<open>packaging.utils.canonicalize_name\<close>, \<open>None\<close> when the library is not installed.\<close>

definition normalize_package_name :: "(string \<Rightarrow> string) option \<Rightarrow> string \<Rightarrow> string" where
  "normalize_package_name canon name =
     (if name = [] then []
      else case canon of Some f \<Rightarrow> f name | None \<Rightarrow> py_lower (collapse_separators (py_strip name)))"

section \<open>Records\<close>

record dependency =
  dp_name :: string
  dp_version :: "string option"
  dp_specifier :: "string option"
  dp_source :: string
  dp_pinned :: bool
  dp_marker :: "string option"
  dp_extras :: "string list"
  dp_editable :: bool
  dp_group :: "string option"
  dp_raw :: string
  dp_line :: "int option"

record affected_range =
  ar_type :: string
  ar_events :: "pyval list"
  ar_versions :: "string list"
  ar_db :: dict

record vulnerability =
  vu_id :: string
  vu_package :: string
  vu_ecosystem :: string
  vu_summary :: string
  vu_details :: string
  vu_aliases :: "string list"
  vu_ranges :: "affected_range list"
  vu_severity :: "pyval list"
  vu_references :: "pyval list"
  vu_db :: dict
  vu_raw :: dict

record query_result =
  qr_package :: string
  qr_vulnerabilities :: "vulnerability list"
  qr_source :: string
  qr_error :: "string option"

datatype match_status = Confirmed | Potential | UnresolvedMatch

datatype severity_tier = TierCritical | TierHigh | TierMedium | TierLow | TierUnknown

text \<open>A float: its integer part and its text.\<close>

type_synonym pyfloat = "int \<times> string"

text \<open>The confidences the matcher gives: 1.0, 0.6 and 0.0, in tenths.\<close>

record sca_finding =
  sf_package :: string
  sf_installed :: "string option"
  sf_requested :: "string option"
  sf_vuln :: string
  sf_aliases :: "string list"
  sf_severity :: severity_tier
  sf_score :: "pyfloat option"
  sf_summary :: string
  sf_fixed :: "string option"
  sf_range :: string
  sf_confidence :: nat
  sf_status :: match_status
  sf_source :: string
  sf_line :: "int option"

end
