(* ===== verification/Version_Match.thy ===== *)
theory Version_Match
  imports Version_Bounds Sca_Records "HOL-Library.Multiset"
begin

text \<open>
  The matcher of \<open>version_matcher.py\<close>: severity of an advisory, Poetry's version operators,
  the evaluation of a dependency against one advisory (\<open>_evaluate_advisory\<close>: a pinned
  version against the intervals and explicit versions, a requested range through the
  classifier of \<open>Version_Bounds\<close>), and the matching of all dependencies
  (\<open>match_dependency\<close>, \<open>match_dependencies\<close>). \<open>float(x)\<close> is a parameter.
\<close>

section \<open>Severity\<close>

record float_ops =
  fo_num :: "pyval \<Rightarrow> pyfloat"
  fo_text :: "string \<Rightarrow> pyfloat option"

fun is_number :: "pyval \<Rightarrow> bool" where
  "is_number (PInt i) = True"
| "is_number (PBool b) = True"
| "is_number (PFloat i s) = True"
| "is_number v = False"

fun listed_score :: "float_ops \<Rightarrow> pyval list \<Rightarrow> pyfloat option" where
  "listed_score fo [] = None"
| "listed_score fo (it # its) =
     (case it of
        PDict d \<Rightarrow>
          (case dict_get ''score'' PNone d of
             PStr s \<Rightarrow> (case fo_text fo s of Some x \<Rightarrow> Some x | None \<Rightarrow> listed_score fo its)
           | v \<Rightarrow> if is_number v then Some (fo_num fo v) else listed_score fo its)
      | _ \<Rightarrow> listed_score fo its)"

definition database_score :: "float_ops \<Rightarrow> dict \<Rightarrow> pyfloat option" where
  "database_score fo db =
     (case dict_get ''cvss'' PNone db of
        PDict d \<Rightarrow> (let v = dict_get ''score'' PNone d in if is_number v then Some (fo_num fo v) else None)
      | _ \<Rightarrow> (let v = dict_get ''cvss_score'' PNone db in if is_number v then Some (fo_num fo v) else None))"

definition float_positive :: "pyfloat \<Rightarrow> bool" where
  "float_positive x \<longleftrightarrow> 0 < fst x \<or> (fst x = 0 \<and> \<not> py_startswith (snd x) ''-'' \<and> snd x \<noteq> ''0.0'')"

definition tier_of_score :: "pyfloat \<Rightarrow> severity_tier" where
  "tier_of_score x =
     (if 9 \<le> fst x then TierCritical else if 7 \<le> fst x then TierHigh else if 4 \<le> fst x then TierMedium
      else if float_positive x then TierLow else TierUnknown)"

definition named_tier :: "string \<Rightarrow> severity_tier option" where
  "named_tier s =
     (if s = ''CRITICAL'' then Some TierCritical else if s = ''HIGH'' then Some TierHigh
      else if s = ''MODERATE'' \<or> s = ''MEDIUM'' then Some TierMedium
      else if s = ''LOW'' then Some TierLow else None)"

definition extract_severity_and_score :: "float_ops \<Rightarrow> vulnerability \<Rightarrow> severity_tier \<times> pyfloat option" where
  "extract_severity_and_score fo vu =
     (let score = first_of (listed_score fo (vu_severity vu)) (database_score fo (vu_db vu))
      in (case named_tier (py_upper (py_str (dict_get ''severity'' (PStr []) (vu_db vu)))) of
            Some t \<Rightarrow> t
          | None \<Rightarrow> (case score of Some x \<Rightarrow> tier_of_score x | None \<Rightarrow> TierUnknown), score))"

section \<open>Poetry's operators\<close>

definition filled_parts :: "string \<Rightarrow> string list" where
  "filled_parts s = filter (\<lambda>p. py_strip p \<noteq> []) (py_split CHR ''.'' s)"

definition nth_or :: "nat \<Rightarrow> nat list \<Rightarrow> nat" where
  "nth_or k ns = (if k < length ns then ns ! k else 0)"

definition caret_end :: "nat \<Rightarrow> nat list \<Rightarrow> nat list" where
  "caret_end written ns =
     (if 0 < nth_or 0 ns then [nth_or 0 ns + 1, 0, 0]
      else if written = 1 then [1, 0, 0]
      else if 0 < nth_or 1 ns then [0, nth_or 1 ns + 1, 0]
      else if written = 2 then [0, 1, 0]
      else [0, 0, nth_or 2 ns + 1])"

definition tilde_end :: "nat \<Rightarrow> nat list \<Rightarrow> nat list" where
  "tilde_end written ns =
     (if written \<le> 1 then [nth_or 0 ns + 1, 0, 0] else [nth_or 0 ns, nth_or 1 ns + 1, 0])"

definition normalize_poetry :: "(nat \<Rightarrow> nat list \<Rightarrow> nat list) \<Rightarrow> 'v pep440 \<Rightarrow> string \<Rightarrow> string option" where
  "normalize_poetry end_of env ver =
     (case safe_parse_version env ver of
        None \<Rightarrow> None
      | Some v \<Rightarrow>
          (let ns = digit_parts (pv_base env v)
           in if ns = [] then None
              else Some (''>='' @ ver @ '',<'' @ py_join ''.'' (map nat_str (end_of (length (filled_parts ver)) ns)))))"

definition normalize_poetry_caret :: "'v pep440 \<Rightarrow> string \<Rightarrow> string option" where
  "normalize_poetry_caret env ver = normalize_poetry caret_end env ver"

definition normalize_poetry_tilde :: "'v pep440 \<Rightarrow> string \<Rightarrow> string option" where
  "normalize_poetry_tilde env ver = normalize_poetry tilde_end env ver"

definition normalize_clause :: "'v pep440 \<Rightarrow> string \<Rightarrow> string" where
  "normalize_clause env c =
     (let keep = (\<lambda>r. case r of Some t \<Rightarrow> t | None \<Rightarrow> c) in
      if c = ''*'' \<or> c = ''==*'' then ''>=0''
      else if py_startswith c ''^'' then keep (normalize_poetry_caret env (py_strip (tl c)))
      else if py_startswith c ''~'' \<and> \<not> py_startswith c ''~='' then keep (normalize_poetry_tilde env (py_strip (tl c)))
      else c)"

definition normalize_poetry_specifiers :: "'v pep440 \<Rightarrow> string \<Rightarrow> string" where
  "normalize_poetry_specifiers env s =
     (if py_strip s = [] then []
      else py_join '','' (map (normalize_clause env) (filter (\<lambda>c. c \<noteq> []) (map py_strip (py_split CHR '','' s)))))"

section \<open>One advisory\<close>

definition applicable_ranges :: "vulnerability \<Rightarrow> affected_range list" where
  "applicable_ranges vu =
     (let rs = filter (\<lambda>r. py_upper (ar_type r) \<in> {''ECOSYSTEM'', ''SEMVER''}) (vu_ranges vu)
      in if rs = [] then vu_ranges vu else rs)"

text \<open>A match has a description and a fixed version; without one, the range left undecided, if any.\<close>

datatype outcome = Hit string "string option" | Open "string option"

fun pinned_intervals :: "'v::linorder pep440 \<Rightarrow> 'v \<Rightarrow> interval list \<Rightarrow> string option \<Rightarrow> outcome" where
  "pinned_intervals env v [] un = Open un"
| "pinned_intervals env v (i # is) un =
     (if list_ex (unreadable env) [iv_introduced i, iv_fixed i, iv_last_affected i]
      then pinned_intervals env v is (Some (format_interval i))
      else if in_interval env v i then Hit (format_interval i) (iv_fixed i)
      else pinned_intervals env v is un)"

fun pinned_ranges :: "'v::linorder pep440 \<Rightarrow> string \<Rightarrow> 'v \<Rightarrow> affected_range list \<Rightarrow> string option \<Rightarrow> outcome" where
  "pinned_ranges env vt v [] un = Open un"
| "pinned_ranges env vt v (r # rs) un =
     (case pinned_intervals env v (extract_intervals (ar_events r)) un of
        Hit d f \<Rightarrow> Hit d f
      | Open un' \<Rightarrow>
          if list_ex (\<lambda>t. safe_parse_version env t = Some v) (ar_versions r) then Hit (''=='' @ vt) None
          else pinned_ranges env vt v rs un')"

definition or_else :: "string option \<Rightarrow> string \<Rightarrow> string" where
  "or_else t d = (case t of None \<Rightarrow> d | Some s \<Rightarrow> if s = [] then d else s)"

fun requested_intervals :: "'v::linorder pep440 \<Rightarrow> spec list \<Rightarrow> string list \<Rightarrow> interval list \<Rightarrow> string option \<Rightarrow> outcome" where
  "requested_intervals env ss versions [] un = Open un"
| "requested_intervals env ss versions (i # is) un =
     (case classify_interval_overlap env ss i versions of
        (ProvenOverlap, d) \<Rightarrow> Hit (or_else d (format_interval i)) (iv_fixed i)
      | (Unresolved, d) \<Rightarrow> requested_intervals env ss versions is (Some (or_else d (format_interval i)))
      | (ProvenDisjoint, d) \<Rightarrow> requested_intervals env ss versions is un)"

text \<open>Explicit versions are looked at only when a range has no intervals.\<close>

definition requested_versions :: "'v pep440 \<Rightarrow> spec list \<Rightarrow> string list \<Rightarrow> string option \<Rightarrow> outcome" where
  "requested_versions env ss versions un =
     (let ok = filter (\<lambda>t. case safe_parse_version env t of None \<Rightarrow> False | Some v \<Rightarrow> pv_contains env ss v) versions
      in if ok \<noteq> [] then Hit (''in ('' @ py_join '', '' (take 3 ok) @ '')'') None
         else if list_ex (\<lambda>t. safe_parse_version env t = None) versions
         then Open (Some ''unparseable version in advisory'') else Open un)"

fun requested_ranges :: "'v::linorder pep440 \<Rightarrow> spec list \<Rightarrow> affected_range list \<Rightarrow> string option \<Rightarrow> outcome" where
  "requested_ranges env ss [] un = Open un"
| "requested_ranges env ss (r # rs) un =
     (let is = extract_intervals (ar_events r) in
      case requested_intervals env ss (ar_versions r) is un of
        Hit d f \<Rightarrow> Hit d f
      | Open un' \<Rightarrow>
          (case (if is = [] \<and> ar_versions r \<noteq> [] then requested_versions env ss (ar_versions r) un' else Open un') of
             Hit d f \<Rightarrow> Hit d f
           | Open un'' \<Rightarrow> requested_ranges env ss rs un''))"

definition finding_for :: "float_ops \<Rightarrow> dependency \<Rightarrow> vulnerability \<Rightarrow> string \<Rightarrow> string option \<Rightarrow> string
    \<Rightarrow> nat \<Rightarrow> match_status \<Rightarrow> sca_finding" where
  "finding_for fo dep vu summary fixed rng conf status =
     \<lparr>sf_package = dp_name dep, sf_installed = dp_version dep, sf_requested = dp_specifier dep, sf_vuln = vu_id vu,
      sf_aliases = vu_aliases vu, sf_severity = fst (extract_severity_and_score fo vu),
      sf_score = snd (extract_severity_and_score fo vu), sf_summary = summary, sf_fixed = fixed, sf_range = rng,
      sf_confidence = conf, sf_status = status, sf_source = dp_source dep, sf_line = dp_line dep\<rparr>"

definition advisory_summary :: "vulnerability \<Rightarrow> string" where
  "advisory_summary vu =
     (if vu_summary vu \<noteq> [] then vu_summary vu
      else if vu_details vu \<noteq> [] then take 200 (vu_details vu) else ''Security vulnerability advisory'')"

definition evaluate_pinned :: "'v::linorder pep440 \<Rightarrow> float_ops \<Rightarrow> dependency \<Rightarrow> vulnerability \<Rightarrow> sca_finding option" where
  "evaluate_pinned env fo dep vu =
     (let sum = advisory_summary vu; unresolved = (\<lambda>msg rng. Some (finding_for fo dep vu (msg @ '': '' @ sum) None rng 0 UnresolvedMatch))
      in case dp_version dep of
        None \<Rightarrow> unresolved ''Pinned dependency missing version string'' []
      | Some vt \<Rightarrow>
          if vt = [] then unresolved ''Pinned dependency missing version string'' []
          else (case pv_parse env vt of
            None \<Rightarrow> unresolved (''Invalid PEP 440 version '' @ CHR 39 # vt @ [CHR 39]) []
          | Some v \<Rightarrow>
              (case pinned_ranges env vt v (applicable_ranges vu) None of
                 Hit d f \<Rightarrow> Some (finding_for fo dep vu sum f d 10 Confirmed)
               | Open (Some d) \<Rightarrow> unresolved (''Unparseable advisory range '' @ CHR 39 # d @ [CHR 39]) d
               | Open None \<Rightarrow> None)))"

definition requested_text :: "'v pep440 \<Rightarrow> dependency \<Rightarrow> string" where
  "requested_text env dep =
     (let raw = (case dp_specifier dep of None \<Rightarrow> [] | Some s \<Rightarrow> s)
      in if py_strip raw = [] then ''>=0'' else normalize_poetry_specifiers env raw)"

definition evaluate_requested :: "'v::linorder pep440 \<Rightarrow> float_ops \<Rightarrow> dependency \<Rightarrow> vulnerability \<Rightarrow> sca_finding option" where
  "evaluate_requested env fo dep vu =
     (let sum = advisory_summary vu; unresolved = (\<lambda>msg rng. Some (finding_for fo dep vu (msg @ '': '' @ sum) None rng 0 UnresolvedMatch));
          raw = (case dp_specifier dep of None \<Rightarrow> [] | Some s \<Rightarrow> s)
      in case pv_specs env (requested_text env dep) of
        None \<Rightarrow> unresolved (''Ambiguous or invalid version specifier '' @ CHR 39 # raw @ [CHR 39]) []
      | Some ss \<Rightarrow>
          (case requested_ranges env ss (applicable_ranges vu) None of
             Hit d f \<Rightarrow> Some (finding_for fo dep vu sum f d 6 Potential)
           | Open (Some d) \<Rightarrow> unresolved (''Indeterminate overlap with vulnerable range '' @ CHR 39 # d @ [CHR 39]) d
           | Open None \<Rightarrow> None))"

definition evaluate_advisory :: "'v::linorder pep440 \<Rightarrow> float_ops \<Rightarrow> dependency \<Rightarrow> vulnerability \<Rightarrow> sca_finding option" where
  "evaluate_advisory env fo dep vu =
     (if dp_pinned dep then evaluate_pinned env fo dep vu else evaluate_requested env fo dep vu)"

section \<open>All dependencies\<close>

definition unverified :: "dependency \<Rightarrow> string \<Rightarrow> sca_finding" where
  "unverified dep summary =
     \<lparr>sf_package = dp_name dep, sf_installed = dp_version dep, sf_requested = dp_specifier dep, sf_vuln = ''UNKNOWN'',
      sf_aliases = [], sf_severity = TierUnknown, sf_score = None, sf_summary = summary, sf_fixed = None, sf_range = [],
      sf_confidence = 0, sf_status = UnresolvedMatch, sf_source = dp_source dep, sf_line = dp_line dep\<rparr>"

definition match_dependency :: "'v::linorder pep440 \<Rightarrow> float_ops \<Rightarrow> dependency \<Rightarrow> query_result option \<Rightarrow> sca_finding list" where
  "match_dependency env fo dep res =
     (case res of
        None \<Rightarrow> [unverified dep ''No vulnerability intelligence available for this dependency.'']
      | Some q \<Rightarrow>
          if qr_source q = ''error'' then
            [unverified dep (''Vulnerability data could not be verified: '' @ or_else (qr_error q) ''OSV query failed with error'')]
          else if qr_source q = ''offline_fallback'' \<and> qr_vulnerabilities q = [] then
            [unverified dep (''Vulnerability data could not be verified: ''
               @ or_else (qr_error q) ''Offline mode active; dependency unverified in local cache'')]
          else List.map_filter (evaluate_advisory env fo dep) (qr_vulnerabilities q))"

fun status_text :: "match_status \<Rightarrow> string" where
  "status_text Confirmed = ''CONFIRMED''"
| "status_text Potential = ''POTENTIAL''"
| "status_text UnresolvedMatch = ''UNRESOLVED''"

definition finding_sort_key :: "sca_finding \<Rightarrow> string \<times> string \<times> string \<times> int \<times> string \<times> string" where
  "finding_sort_key f =
     (sf_package f, sf_vuln f, sf_source f, (case sf_line f of Some n \<Rightarrow> n | None \<Rightarrow> -1), status_text (sf_status f), sf_range f)"

definition match_dependencies :: "'v::linorder pep440 \<Rightarrow> float_ops \<Rightarrow> (string \<Rightarrow> string) option \<Rightarrow> dependency list
    \<Rightarrow> (string \<Rightarrow> query_result option) \<Rightarrow> sca_finding list" where
  "match_dependencies env fo canon deps results =
     sort_key finding_sort_key
       (concat (map (\<lambda>dep. match_dependency env fo dep (results (normalize_package_name canon (dp_name dep)))) deps))"

section \<open>No dependency is declared clean without proof\<close>

lemma requested_intervals_Open:
  "requested_intervals env ss versions is un = Open None \<Longrightarrow>
   un = None \<and> (\<forall>i \<in> set is. fst (classify_interval_overlap env ss i versions) = ProvenDisjoint)"
  by (induction env ss versions "is" un rule: requested_intervals.induct)
    (auto split: prod.splits overlap_state.splits)

lemma requested_versions_Open:
  "requested_versions env ss versions un = Open None \<Longrightarrow>
   un = None \<and> (\<forall>t \<in> set versions. \<forall>v. safe_parse_version env t = Some v \<longrightarrow> \<not> pv_contains env ss v)"
  by (auto simp: requested_versions_def Let_def filter_empty_conv split: if_splits option.splits)

lemma requested_ranges_Open:
  "requested_ranges env ss rs un = Open None \<Longrightarrow> un = None \<and>
     (\<forall>r \<in> set rs. (\<forall>i \<in> set (extract_intervals (ar_events r)). fst (classify_interval_overlap env ss i (ar_versions r)) = ProvenDisjoint)
        \<and> (extract_intervals (ar_events r) = [] \<longrightarrow>
             (\<forall>t \<in> set (ar_versions r). \<forall>v. safe_parse_version env t = Some v \<longrightarrow> \<not> pv_contains env ss v)))"
proof (induction env ss rs un rule: requested_ranges.induct)
  case (2 env ss r rs un)
  let ?is = "extract_intervals (ar_events r)"
  obtain un' where un': "requested_intervals env ss (ar_versions r) ?is un = Open un'"
    using "2.prems" by (auto simp: Let_def split: outcome.splits)
  obtain un'' where un'': "(if ?is = [] \<and> ar_versions r \<noteq> [] then requested_versions env ss (ar_versions r) un' else Open un') = Open un''"
      "requested_ranges env ss rs un'' = Open None"
    using "2.prems" un' by (auto simp: Let_def split: outcome.splits)
  note rest = "2.IH" [OF refl un' un'']
  have "un' = None \<and> (?is = [] \<longrightarrow> (\<forall>t \<in> set (ar_versions r). \<forall>v. safe_parse_version env t = Some v \<longrightarrow> \<not> pv_contains env ss v))"
    using un''(1) rest requested_versions_Open [of env ss "ar_versions r" un'] by (auto split: if_splits)
  with rest un' requested_intervals_Open [of env ss "ar_versions r" ?is un] show ?case by simp
qed simp


section \<open>Pinned dependencies\<close>

definition readable :: "'v pep440 \<Rightarrow> interval \<Rightarrow> bool" where
  "readable env i \<longleftrightarrow> \<not> list_ex (unreadable env) [iv_introduced i, iv_fixed i, iv_last_affected i]"

definition hit_by :: "'v::linorder pep440 \<Rightarrow> 'v \<Rightarrow> affected_range \<Rightarrow> bool" where
  "hit_by env v r \<longleftrightarrow>
     (\<exists>i \<in> set (extract_intervals (ar_events r)). readable env i \<and> in_interval env v i)
     \<or> (\<exists>t \<in> set (ar_versions r). safe_parse_version env t = Some v)"

lemma pinned_intervals_Hit:
  "(\<exists>d f. pinned_intervals env v is un = Hit d f) \<longleftrightarrow> (\<exists>i \<in> set is. readable env i \<and> in_interval env v i)"
  by (induction env v "is" un rule: pinned_intervals.induct) (auto simp: readable_def)

lemma pinned_intervals_Open:
  "pinned_intervals env v is un = Open None \<longleftrightarrow> un = None \<and> (\<forall>i \<in> set is. readable env i \<and> \<not> in_interval env v i)"
  by (induction env v "is" un rule: pinned_intervals.induct) (auto simp: readable_def)

lemma pinned_ranges_Hit: "(\<exists>d f. pinned_ranges env vt v rs un = Hit d f) \<longleftrightarrow> (\<exists>r \<in> set rs. hit_by env v r)"
proof (induction env vt v rs un rule: pinned_ranges.induct)
  case (2 env vt v r rs un)
  show ?case
  proof (cases "pinned_intervals env v (extract_intervals (ar_events r)) un")
    case (Hit d f)
    then show ?thesis using pinned_intervals_Hit [of env v "extract_intervals (ar_events r)" un] by (auto simp: hit_by_def)
  next
    case (Open un')
    then show ?thesis
      using pinned_intervals_Hit [of env v "extract_intervals (ar_events r)" un] "2.IH" [OF Open]
      by (auto simp: hit_by_def list_ex_iff)
  qed
qed simp

lemma pinned_ranges_Open:
  "pinned_ranges env vt v rs un = Open None \<longleftrightarrow>
   un = None \<and> (\<forall>r \<in> set rs. \<not> hit_by env v r \<and> list_all (readable env) (extract_intervals (ar_events r)))"
proof (induction env vt v rs un rule: pinned_ranges.induct)
  case (2 env vt v r rs un)
  show ?case
  proof (cases "pinned_intervals env v (extract_intervals (ar_events r)) un")
    case (Hit d f)
    then show ?thesis using pinned_intervals_Hit [of env v "extract_intervals (ar_events r)" un] by (auto simp: hit_by_def)
  next
    case (Open un')
    then show ?thesis
      using pinned_intervals_Hit [of env v "extract_intervals (ar_events r)" un] 
        pinned_intervals_Open [of env v "extract_intervals (ar_events r)" un] "2.IH" [OF Open]
      by (auto simp: hit_by_def list_ex_iff list_all_iff)
  qed
qed simp

text \<open>
  A pinned dependency whose version can be read is confirmed as vulnerable exactly when an
  applicable range has a readable interval around the version or lists it; it is passed as clean
  exactly when none does and every interval could be read. In the remaining case it is reported
  as unresolved.
\<close>

theorem pinned_verdict:
  assumes "dp_pinned dep" "dp_version dep = Some vt" "vt \<noteq> []" "pv_parse env vt = Some v"
  shows "((\<exists>f. evaluate_advisory env fo dep vu = Some f \<and> sf_status f = Confirmed) \<longleftrightarrow> (\<exists>r \<in> set (applicable_ranges vu). hit_by env v r))
    \<and> (evaluate_advisory env fo dep vu = None \<longleftrightarrow>
         (\<forall>r \<in> set (applicable_ranges vu). \<not> hit_by env v r \<and> list_all (readable env) (extract_intervals (ar_events r))))
    \<and> (\<forall>f. evaluate_advisory env fo dep vu = Some f \<longrightarrow> sf_status f = Confirmed \<or> sf_status f = UnresolvedMatch)"
  using pinned_ranges_Hit [of env vt v "applicable_ranges vu" None] pinned_ranges_Open [of env vt v "applicable_ranges vu" None] assms
  by (cases "pinned_ranges env vt v (applicable_ranges vu) None")
    (auto simp: evaluate_advisory_def evaluate_pinned_def Let_def finding_for_def split: option.splits)

section \<open>All dependencies\<close>

text \<open>
  The report for all dependencies consists of what each of them gets, sorted; a dependency
  without any finding has advisories that were answered, and none of them gave one. So missing,
  failed and unverified answers are never taken for a clean result.
\<close>

theorem report_complete:
  "mset (match_dependencies env fo canon deps results)
     = (\<Sum>dep\<leftarrow>deps. mset (match_dependency env fo dep (results (normalize_package_name canon (dp_name dep)))))
   \<and> sorted (map finding_sort_key (match_dependencies env fo canon deps results))
   \<and> (\<forall>dep res. match_dependency env fo dep res = [] \<longleftrightarrow>
        (\<exists>q. res = Some q \<and> qr_source q \<noteq> ''error'' \<and> \<not> (qr_source q = ''offline_fallback'' \<and> qr_vulnerabilities q = [])
           \<and> (\<forall>vu \<in> set (qr_vulnerabilities q). evaluate_advisory env fo dep vu = None)))"
proof -
  have "mset (concat (map f deps)) = (\<Sum>dep\<leftarrow>deps. mset (f dep))" for f :: "dependency \<Rightarrow> sca_finding list"
    by (induction deps) auto
  moreover have "List.map_filter g xs = [] \<longleftrightarrow> (\<forall>x \<in> set xs. g x = None)" for g :: "vulnerability \<Rightarrow> sca_finding option" and xs
    by (induction xs) (auto simp: List.map_filter_simps split: option.split)
  ultimately show ?thesis
    by (auto simp: match_dependencies_def match_dependency_def split: option.splits)
qed

section \<open>Poetry ranges\<close>

text \<open>Two releases that agree up to the left-most number of the first that is not zero.\<close>

fun same_leftmost :: "nat list \<Rightarrow> nat list \<Rightarrow> bool" where
  "same_leftmost (a # as) (x # xs) = (a = x \<and> (0 < a \<or> as = [] \<or> same_leftmost as xs))"
| "same_leftmost as xs = False"

text \<open>
  A caret constraint on a full release \<open>a.b.c\<close> becomes the range that starts with it and
  ends before the first release that changes its left-most non-zero number.
\<close>

theorem caret_keeps_leftmost:
  assumes "safe_parse_version env ver = Some v" "digit_parts (pv_base env v) = [a, b, c]" "length (filled_parts ver) = 3"
  shows "\<exists>h. normalize_poetry_caret env ver = Some (''>='' @ ver @ '',<'' @ py_join ''.'' (map nat_str h))
    \<and> (\<forall>x y z. [a, b, c] \<le> [x, y, z] \<longrightarrow> ([x, y, z] < h \<longleftrightarrow> same_leftmost [a, b, c] [x, y, z]))"
proof (intro exI conjI)
  let ?h = "caret_end 3 [a, b, c]"
  show "normalize_poetry_caret env ver = Some (''>='' @ ver @ '',<'' @ py_join ''.'' (map nat_str ?h))"
    by (simp add: normalize_poetry_caret_def normalize_poetry_def Let_def assms)
  show "\<forall>x y z. [a, b, c] \<le> [x, y, z] \<longrightarrow> ([x, y, z] < ?h \<longleftrightarrow> same_leftmost [a, b, c] [x, y, z])"
    by (auto simp: caret_end_def nth_or_def)
qed

section \<open>Samples\<close>

definition sample_dependency :: dependency where
  "sample_dependency =
     \<lparr>dp_name = ''lib'', dp_version = Some ''4'', dp_specifier = Some ''>=2'', dp_source = ''requirements.txt'', dp_pinned = True,
      dp_marker = None, dp_extras = [], dp_editable = False, dp_group = None, dp_raw = [], dp_line = Some 3\<rparr>"

definition sample_advisory :: vulnerability where
  "sample_advisory =
     \<lparr>vu_id = ''PYSEC-1'', vu_package = ''lib'', vu_ecosystem = ''PyPI'', vu_summary = ''s'', vu_details = [], vu_aliases = [],
      vu_ranges = [\<lparr>ar_type = ''ECOSYSTEM'', ar_events = events_of one_to_two, ar_versions = [''4''], ar_db = []\<rparr>],
      vu_severity = [], vu_references = [], vu_db = [], vu_raw = []\<rparr>"

lemma sample_applicable: "applicable_ranges sample_advisory = vu_ranges sample_advisory"
proof -
  have "py_upper ''ECOSYSTEM'' = ''ECOSYSTEM''" by code_simp
  then show ?thesis by (simp add: applicable_ranges_def sample_advisory_def)
qed

lemma sample_intervals: "extract_intervals (events_of one_to_two) = [one_to_two]"
  using intervals_extracted [of "[one_to_two]"] samples_well_formed by simp

lemma sample_requested: "pv_specs mini (requested_text mini (sample_dependency\<lparr>dp_pinned := False\<rparr>)) = Some [clause AtLeast ''2'']"
  by code_simp

lemma two_contained: "\<not> in_interval mini [0, 4] one_to_two" "pv_contains mini [clause AtLeast ''2''] [0, 4]"
  by (simp_all add: in_interval_def bound_of_def one_to_two_def mini_safe mini_versions clause_def)
    (simp add: mini_def mini_admits_def mini_versions)

lemma sample_disjoint: "\<exists>d. classify_interval_overlap mini [clause AtLeast ''2''] one_to_two vs = (ProvenDisjoint, d)"
  by (simp add: one_to_two_def Let_def classify_interval_overlap_def clause_def unsupported_def unreadable_def bound_of_def
    mini_safe mini_versions wildcard_def outer_bounds_def lower_step_def upper_step_def tighten_def unsatisfiable_def
    ends_before_def starts_after_def)

lemma sample_clean: "requested_ranges mini [clause AtLeast ''2''] (vu_ranges sample_advisory) None = Open None"
  using sample_disjoint [of "[''4'']"] by (auto simp: sample_advisory_def sample_intervals Let_def)

text \<open>
  The versions an advisory lists beside its intervals count for a pinned dependency only: the
  advisory confirms version 4 where it is pinned, and gives nothing for the range \<open>>=2\<close> that
  admits it.
\<close>

theorem listed_versions_skipped:
  "(\<exists>f. evaluate_advisory mini fo sample_dependency sample_advisory = Some f \<and> sf_status f = Confirmed)
   \<and> evaluate_advisory mini fo (sample_dependency\<lparr>dp_pinned := False\<rparr>) sample_advisory = None
   \<and> pv_contains mini [clause AtLeast ''2''] [0, 4]"
proof -
  have parse: "pv_parse mini ''4'' = Some [0, 4]" "safe_parse_version mini ''4'' = Some [0, 4]"
    by (simp_all add: mini_safe mini_versions mini_parses)
  have "pinned_ranges mini ''4'' [0, 4] (vu_ranges sample_advisory) None = Hit ''==4'' None"
    by (simp add: sample_advisory_def sample_intervals two_contained parse)
  moreover have "dp_pinned sample_dependency" "dp_version sample_dependency = Some ''4''"
    by (simp_all add: sample_dependency_def)
  moreover have "\<exists>f. Some (finding_for fo sample_dependency sample_advisory m f' d 10 Confirmed) = Some f \<and> sf_status f = Confirmed"
    for m f' d by (simp add: finding_for_def)
  ultimately show ?thesis
    using two_contained(2) sample_requested sample_clean parse
    by (simp add: evaluate_advisory_def evaluate_pinned_def evaluate_requested_def sample_applicable Let_def)
qed


theorem pinned_verdict_witness:
  "\<exists>f. evaluate_advisory mini \<lparr>fo_num = (\<lambda>v. (0, [])), fo_text = (\<lambda>s. None)\<rparr> sample_dependency sample_advisory = Some f
     \<and> sf_status f = Confirmed"
proof -
  have "hit_by mini [0, 4] (hd (vu_ranges sample_advisory))"
    by (simp add: hit_by_def sample_advisory_def mini_safe mini_versions)
  then have "\<exists>r \<in> set (applicable_ranges sample_advisory). hit_by mini [0, 4] r"
    by (simp add: sample_applicable) (simp add: sample_advisory_def)
  then show ?thesis
    using pinned_verdict [of sample_dependency "''4''" mini "[0, 4]"] by (simp add: sample_dependency_def mini_parses mini_versions)
qed

theorem report_complete_witness:
  "match_dependency mini \<lparr>fo_num = (\<lambda>v. (0, [])), fo_text = (\<lambda>s. None)\<rparr> sample_dependency None \<noteq> []"
  using report_complete [of mini "\<lparr>fo_num = (\<lambda>v. (0, [])), fo_text = (\<lambda>s. None)\<rparr>" None "[]" "\<lambda>n. None"] by blast

theorem caret_keeps_leftmost_witness:
  "\<exists>h. normalize_poetry_caret mini ''0.2.3'' = Some (''>=0.2.3,<'' @ py_join ''.'' (map nat_str h)) \<and> [0, 2, 9] < h"
proof -
  have "safe_parse_version mini ''0.2.3'' = Some [0, 0, 2, 3]" "digit_parts (pv_base mini [0, 0, 2, 3]) = [0, 2, 3]"
      "length (filled_parts ''0.2.3'') = 3"
    by code_simp+
  from caret_keeps_leftmost [OF this] show ?thesis by auto
qed

end
