(* ===== verification/Reach_Engine.thy ===== *)
theory Reach_Engine
  imports Reach_Visitor Version_Match
begin

text \<open>
  \<open>sca_reachability/engine.py\<close>: from the visitor's tables and the call graph to one
  \<open>VectorCFinding\<close> for every advisory that applies to a declared package. Reading manifests,
  lock files and advisory files is left out: the declared packages, the map of transitive
  dependencies, the advisories and the syntax trees are arguments.
\<close>

section \<open>Packages and advisories\<close>

definition from_key :: "'a option \<Rightarrow> 'a \<Rightarrow> 'a" where
  "from_key k dflt = (case k of Some x \<Rightarrow> x | None \<Rightarrow> dflt)"

text \<open>The dictionary kept for a declared package; \<open>None\<close> is a missing key.\<close>

record package_meta =
  pm_version :: "string option option"
  pm_specifier :: "string option option"
  pm_source :: "string option"
  pm_line :: "int option"
  pm_transitive :: "string option"

definition no_meta :: package_meta where
  "no_meta = \<lparr>pm_version = None, pm_specifier = None, pm_source = None, pm_line = None, pm_transitive = None\<rparr>"

record advisory_info =
  av_id :: string
  av_aliases :: "string list"
  av_summary :: string
  av_severity :: string
  av_score :: "pyfloat option"

record evaluation_item =
  ei_package :: string
  ei_advisory :: advisory_info
  ei_meta :: package_meta
  ei_status :: string
  ei_confidence :: pyfloat

type_synonym declared = "(string \<times> package_meta) list"

text \<open>\<open>_parse_manifest_dependencies\<close> from the records of the parser; \<open>source\<close> is the manifest's file name.\<close>

definition declare_dependency :: "string \<Rightarrow> declared \<Rightarrow> dependency \<Rightarrow> declared" where
  "declare_dependency source d dep =
     AList.update (dp_name dep)
       \<lparr>pm_version = Some (dp_version dep), pm_specifier = Some (dp_specifier dep),
        pm_source = Some (if dp_source dep = [] then source else dp_source dep), pm_line = dp_line dep, pm_transitive = None\<rparr> d"

definition declared_packages :: "string \<Rightarrow> dependency list \<Rightarrow> declared" where
  "declared_packages source deps = foldl (declare_dependency source) [] deps"

text \<open>
  The packages of a \<open>poetry.lock\<close>: name and dependencies, each with its specifier when that
  is a text. Every package is noted as a parent of its dependencies.
\<close>

type_synonym lock = "(string \<times> (string \<times> string option) list) list"

definition lock_edges :: "lock \<Rightarrow> (string \<times> string \<times> string option) list" where
  "lock_edges l = concat (map (\<lambda>(p, ds). map (\<lambda>(sub, spec). (p, sub, spec)) ds) l)"

definition transitive_map :: "lock \<Rightarrow> (string \<times> string list) list" where
  "transitive_map l =
     foldl (\<lambda>t (p, sub, spec). AList.update sub (from_key (map_of t sub) [] @ [p]) t) [] (lock_edges l)"

definition lock_specifiers :: "lock \<Rightarrow> declared \<Rightarrow> declared" where
  "lock_specifiers l d =
     foldl (\<lambda>t (p, sub, spec). case (map_of t sub, spec) of
          (Some m, Some sp) \<Rightarrow> AList.update sub (m\<lparr>pm_transitive := Some sp\<rparr>) t | _ \<Rightarrow> t) d (lock_edges l)"

section \<open>Items from live findings\<close>

fun tier_text :: "severity_tier \<Rightarrow> string" where
  "tier_text TierCritical = ''CRITICAL''"
| "tier_text TierHigh = ''HIGH''"
| "tier_text TierMedium = ''MEDIUM''"
| "tier_text TierLow = ''LOW''"
| "tier_text TierUnknown = ''UNKNOWN''"

definition tenths :: "nat \<Rightarrow> pyfloat" where
  "tenths n = (int (n div 10), nat_str (n div 10) @ ''.'' @ nat_str (n mod 10))"

text \<open>\<open>_normalize_live_advisory\<close> on the dictionary of an \<open>SCAFinding\<close>, which has every key.\<close>

definition live_advisory :: "sca_finding \<Rightarrow> advisory_info" where
  "live_advisory f =
     \<lparr>av_id = (if sf_vuln f = [] then ''UNKNOWN-VULN'' else sf_vuln f), av_aliases = sf_aliases f, av_summary = sf_summary f,
      av_severity = tier_text (sf_severity f), av_score = Some (case sf_score f of Some x \<Rightarrow> x | None \<Rightarrow> (7, ''7.5''))\<rparr>"

definition find_meta :: "declared \<Rightarrow> string \<Rightarrow> package_meta" where
  "find_meta d pkg =
     (case map_of d pkg of
        Some m \<Rightarrow> m
      | None \<Rightarrow> (case find (\<lambda>p. hyphenated (fst p) = hyphenated pkg) d of Some p \<Rightarrow> snd p | None \<Rightarrow> no_meta))"

definition given :: "string option \<Rightarrow> bool" where
  "given t \<longleftrightarrow> t \<noteq> None \<and> t \<noteq> Some []"

definition live_meta :: "declared \<Rightarrow> sca_finding \<Rightarrow> package_meta" where
  "live_meta d f =
     (let m = find_meta d (sf_package f) in
      m\<lparr>pm_source := (if sf_source f \<noteq> [] then Some (sf_source f) else pm_source m),
        pm_line := (if sf_line f \<noteq> None then sf_line f else pm_line m),
        pm_version := (if given (sf_installed f) then Some (sf_installed f) else pm_version m),
        pm_specifier := (if given (sf_requested f) then Some (sf_requested f) else pm_specifier m)\<rparr>)"

definition live_items :: "declared \<Rightarrow> string option \<Rightarrow> sca_finding list \<Rightarrow> evaluation_item list" where
  "live_items d target fs =
     map (\<lambda>f. \<lparr>ei_package = sf_package f, ei_advisory = live_advisory f, ei_meta = live_meta d f,
               ei_status = status_text (sf_status f), ei_confidence = tenths (sf_confidence f)\<rparr>)
       (filter (\<lambda>f. sf_package f \<noteq> [] \<and> (given target \<longrightarrow> hyphenated (the target) = hyphenated (sf_package f))) fs)"

section \<open>Items from an advisory file\<close>

text \<open>An advisory of the file: its package, and the keys it has.\<close>

record file_advisory =
  fa_package :: string
  fa_id :: "string option"
  fa_aliases :: "string list option"
  fa_summary :: "string option"
  fa_severity :: "string option"
  fa_score :: "pyfloat option option"

definition synthetic_advisory :: advisory_info where
  "synthetic_advisory =
     \<lparr>av_id = ''TimeCodeSecurity-VEC-C-001'', av_aliases = [''CVE-2026-0001'', ''GHSA-vc01-test-0001''],
      av_summary = ''Synthetic advisory: vulnlib.dangerous() execution vulnerability in versions <= 1.5.0'',
      av_severity = ''HIGH'', av_score = Some (8, ''8.5'')\<rparr>"

definition file_advisory_info :: "file_advisory list \<Rightarrow> string \<Rightarrow> advisory_info" where
  "file_advisory_info advs pkg =
     (let a = synthetic_advisory in
      case find (\<lambda>f. hyphenated (fa_package f) = hyphenated pkg) advs of
        None \<Rightarrow> a
      | Some f \<Rightarrow>
          \<lparr>av_id = from_key (fa_id f) (av_id a), av_aliases = from_key (fa_aliases f) (av_aliases a),
           av_summary = from_key (fa_summary f) (av_summary a), av_severity = from_key (fa_severity f) (av_severity a),
           av_score = from_key (fa_score f) (av_score a)\<rparr>)"

definition file_items :: "declared \<Rightarrow> string option \<Rightarrow> file_advisory list \<Rightarrow> evaluation_item list" where
  "file_items d target advs =
     map (\<lambda>pkg. \<lparr>ei_package = pkg, ei_advisory = file_advisory_info advs pkg,
                 ei_meta = from_key (map_of d pkg) no_meta, ei_status = ''CONFIRMED'', ei_confidence = (1, ''1.0'')\<rparr>)
       (if given target then [the target] else map fst d)"

section \<open>One item\<close>

definition import_matches :: "string \<Rightarrow> import_record \<Rightarrow> bool" where
  "import_matches pkg r \<longleftrightarrow>
     ir_dist r = pkg \<or> ir_root r = pkg \<or> ir_root r = py_replace_char CHR ''-'' ''_'' pkg
     \<or> ir_dist r = py_replace_char CHR ''_'' ''-'' pkg
     \<or> hyphenated (ir_dist r) = hyphenated pkg \<or> hyphenated (ir_root r) = hyphenated pkg"

definition found_imports :: "visitor \<Rightarrow> string \<Rightarrow> import_record list" where
  "found_imports v pkg = filter (import_matches pkg) (concat (map (\<lambda>p. map snd (snd p)) (vi_imports v)))"

definition call_matches :: "string \<Rightarrow> call_record \<Rightarrow> bool" where
  "call_matches pkg c = (case cr_import c of Some r \<Rightarrow> import_matches pkg r | None \<Rightarrow> False)"

definition ungrounded :: "string \<Rightarrow> call_record \<Rightarrow> bool" where
  "ungrounded pkg c \<longleftrightarrow> cr_import c = None \<and> py_contains (cr_callee c) pkg"

text \<open>\<open>s.replace("()", "")\<close>.\<close>

fun drop_parens :: "string \<Rightarrow> string" where
  "drop_parens [] = []"
| "drop_parens [c] = [c]"
| "drop_parens (c # d # s) =
     (if c = CHR ''('' \<and> d = CHR '')'' then drop_parens s else c # drop_parens (d # s))"

definition base_finding :: "string \<Rightarrow> evaluation_item \<Rightarrow> vector_finding" where
  "base_finding manifest ei =
     (let m = ei_meta ei; a = ei_advisory ei; ver = from_key (pm_version m) (Some ''1.5.0'') in
      blank_finding\<lparr>vf_id := av_id a, vf_aliases := av_aliases a, vf_summary := av_summary a, vf_package := ei_package ei,
        vf_version := ver,
        vf_specifier := (if given (pm_transitive m) then pm_transitive m
          else from_key (pm_specifier m) (if given ver then Some (''=='' @ the ver) else None)),
        vf_affected := ei_status ei, vf_confidence := ei_confidence ei, vf_severity := av_severity a, vf_score := av_score a,
        vf_manifest := from_key (pm_source m) manifest, vf_line := pm_line m\<rparr>)"

definition not_imported :: "(string \<times> string list) list \<Rightarrow> string \<Rightarrow> vector_finding \<Rightarrow> vector_finding" where
  "not_imported transitive pkg f =
     (case map_of transitive pkg of
        Some parents \<Rightarrow>
          f\<lparr>vf_class := TransitiveVulnerable, vf_transitive := True,
            vf_limitations := [pkg @ '' is a transitive dependency of '' @ hd (parents @ [[]]) @ ''; application does not directly import '' @ pkg]\<rparr>
      | None \<Rightarrow>
          f\<lparr>vf_call_status := CallUnreachable, vf_class := DependencyDormant,
            vf_limitations := [''No import found for vulnerable package '' @ pkg @ '' in analyzed AST'']\<rparr>)"

text \<open>A finding for an imported package whose call could not be followed.\<close>

definition undecided :: "reach_class \<Rightarrow> call_record option \<Rightarrow> path \<Rightarrow> string \<Rightarrow> vector_finding \<Rightarrow> vector_finding" where
  "undecided k c p why f =
     f\<lparr>vf_class := k, vf_call := c, vf_path := p, vf_depth := (if p = [] then 0 else 1),
       vf_edge := (if p = [] then ''UNRESOLVED_EDGE'' else ''POSSIBLE_EDGE''), vf_limitations := [why]\<rparr>"

definition isolation_note :: "visitor \<Rightarrow> string \<Rightarrow> import_record \<Rightarrow> string list" where
  "isolation_note v pkg r =
     (if ir_scope_type r = FunctionScope then
        (case find (\<lambda>c. cr_caller c \<noteq> ir_scope r \<and> ungrounded pkg c) (vi_calls v) of
           Some c \<Rightarrow> [''Import of '' @ pkg @ '' is local to '' @ last_part (ir_scope r) @ ''; call in '' @ last_part (cr_caller c)
                       @ '' is ungrounded and isolated'']
         | None \<Rightarrow> [])
      else [])"

definition alias_note :: "string \<Rightarrow> import_record \<Rightarrow> string list" where
  "alias_note pkg r =
     (case ir_alias r of
        Some a \<Rightarrow> if a = [] then [] else
          [''Alias '' @ CHR 39 # a @ CHR 39 # '' in '' @ last_part (ir_scope r) @ '' resolves to '' @ pkg
             @ '' with zero cross-scope collision with other functions'']
      | None \<Rightarrow> [])"

definition followed :: "visitor \<Rightarrow> string \<Rightarrow> import_record \<Rightarrow> call_record \<Rightarrow> vector_finding \<Rightarrow> vector_finding" where
  "followed v pkg r c f =
     (let ve = evaluate_call_reachability (graph_of v) c in
      f\<lparr>vf_api_status := ApiReferenceFound, vf_call := Some c, vf_call_status := ve_state ve, vf_path := ve_path ve,
        vf_depth := int (ve_depth ve), vf_edge := ve_edge ve,
        vf_class := (if ve_state ve = CallReachable then ReachableApiUse else DependencyActive),
        vf_limitations := (case ve_limitation ve of Some l \<Rightarrow> [l] | None \<Rightarrow> []) @ isolation_note v pkg r @ alias_note pkg r\<rparr>)"

definition evaluate_call :: "visitor \<Rightarrow> string \<Rightarrow> import_record \<Rightarrow> call_record \<Rightarrow> vector_finding \<Rightarrow> vector_finding" where
  "evaluate_call v pkg r c f =
     (let callee = drop_parens (cr_callee c) in
      if cr_dynamic c then
        undecided DependencyActive (Some c) [] ''Dynamic dispatch via getattr prevents static reachability determination'' f
      else if is_wildcard r \<or> (case cr_import c of Some i \<Rightarrow> is_wildcard i | None \<Rightarrow> False) then
        undecided ClassUnresolved (Some c) [if cr_caller c = ''app'' then ''module_level'' else last_part (cr_caller c), callee]
          ''Wildcard import prevents deterministic symbol attribution'' f
      else if ir_evidence r = normalized_heuristic \<or> ir_environment r = ''NONE'' then
        undecided ClassUnresolved (Some c) [''module_level'', callee] heuristic_note f
      else followed v pkg r c f)"

definition evaluate_item :: "string \<Rightarrow> (string \<times> string list) list \<Rightarrow> visitor \<Rightarrow> evaluation_item \<Rightarrow> vector_finding" where
  "evaluate_item manifest transitive v ei =
     (let pkg = ei_package ei; f = base_finding manifest ei in
      case found_imports v pkg of
        [] \<Rightarrow> not_imported transitive pkg f
      | r # rs \<Rightarrow>
          (let g = f\<lparr>vf_import_status := PackageImported, vf_import := Some r, vf_import_source := ir_evidence r,
                     vf_environment := ir_environment r\<rparr>
           in case filter (call_matches pkg) (vi_calls v) of
                c # cs \<Rightarrow> evaluate_call v pkg r c g
              | [] \<Rightarrow>
                  (case find (ungrounded pkg) (vi_calls v) of
                     None \<Rightarrow> undecided DependencyActive None [] ''No API call to vulnerable package found in static analysis'' g
                   | Some c \<Rightarrow> undecided DependencyActive (Some c) []
                       ''PEP 227: class body namespace is not an enclosing scope for methods; bare reference in m() is ungrounded'' g)))"

section \<open>The analysis\<close>

definition scan_files :: "(ast \<Rightarrow> string) \<Rightarrow> declared \<Rightarrow> (string \<times> string \<times> ast) list \<Rightarrow> visitor" where
  "scan_files up d files =
     foldl (analyze_file up) (new_visitor ''app'' (case files of f # _ \<Rightarrow> fst (snd f) | [] \<Rightarrow> ''app.py'') (map fst d)) files"

text \<open>\<open>live\<close> is \<open>None\<close> when no live findings are given, and the advisory file is used instead.\<close>

definition analyze_reachability :: "(ast \<Rightarrow> string) \<Rightarrow> string \<Rightarrow> dependency list \<Rightarrow> lock
    \<Rightarrow> (string \<times> string \<times> ast) list \<Rightarrow> string option \<Rightarrow> file_advisory list \<Rightarrow> sca_finding list option \<Rightarrow> vector_finding list" where
  "analyze_reachability up manifest deps lk files target advs live =
     (let d = lock_specifiers lk (declared_packages manifest deps)
      in map (evaluate_item manifest (transitive_map lk) (scan_files up d files))
           (case live of Some fs \<Rightarrow> live_items d target fs | None \<Rightarrow> file_items d target advs))"


section \<open>What the classifications mean\<close>

lemma found_imports_in: "r \<in> set (found_imports v pkg) \<Longrightarrow> import_matches pkg r \<and> (\<exists>s n. (s, n) \<in> set (vi_imports v) \<and> r \<in> snd ` set n)"
  by (force simp: found_imports_def)

abbreviation finding_identity :: "vector_finding \<Rightarrow> string \<times> string \<times> string" where
  "finding_identity f \<equiv> (vf_id f, vf_package f, vf_affected f)"

lemma identity_kept:
  "finding_identity (base_finding m ei) = (av_id (ei_advisory ei), ei_package ei, ei_status ei)"
  "finding_identity (not_imported t pkg f) = finding_identity f" "finding_identity (undecided k c p why f) = finding_identity f"
  "finding_identity (followed v pkg r c' f) = finding_identity f"
  by (simp_all add: base_finding_def not_imported_def undecided_def followed_def Let_def split: option.split)

lemma identity_call: "finding_identity (evaluate_call v pkg r c f) = finding_identity f"
  by (simp add: evaluate_call_def Let_def identity_kept del: prod.inject)

lemma item_identity: "finding_identity (evaluate_item m t v ei) = (av_id (ei_advisory ei), ei_package ei, ei_status ei)"
proof -
  have "finding_identity (base_finding m ei\<lparr>vf_import_status := a, vf_import := b, vf_import_source := c, vf_environment := d\<rparr>)
      = (av_id (ei_advisory ei), ei_package ei, ei_status ei)" for a b c d
    using identity_kept(1) [of m ei] by simp
  then show ?thesis
    by (simp add: evaluate_item_def Let_def identity_kept identity_call del: prod.inject split: list.split option.split)
qed

abbreviation unimported :: "vector_finding \<Rightarrow> bool" where
  "unimported f \<equiv> vf_class f \<in> {DependencyDormant, TransitiveVulnerable}"

lemma unimported_call: "\<not> unimported (evaluate_call v pkg r c f)"
  by (simp add: evaluate_call_def undecided_def followed_def Let_def split: option.split)

lemma item_unimported: "unimported (evaluate_item m t v ei) \<longleftrightarrow> found_imports v (ei_package ei) = []"
proof -
  have "unimported (not_imported t pkg f)" for pkg f by (simp add: not_imported_def split: option.split)
  moreover have "\<not> unimported (undecided DependencyActive c p why f)" for c p why f by (simp add: undecided_def)
  ultimately show ?thesis
    using unimported_call by (auto simp: evaluate_item_def Let_def simp del: insert_iff split: list.splits option.splits)
qed

lemma base_class: "vf_class (base_finding m ei) = ClassUnresolved"
  by (simp add: base_finding_def Let_def blank_finding_def)

lemma undecided_class: "vf_class (undecided k c p why f) = k"
  by (simp add: undecided_def)

text \<open>
  C11: a finding is classified as a reachable use of the vulnerable package only with the whole
  chain of evidence: a found import of the package that is no wildcard and whose attribution is
  not heuristic, a recorded call attributed to the package that is neither dynamic nor through a
  wildcard, and a call site at module level, in an entry point, or in a function an entry point
  calls.
\<close>

theorem reachable_use_justified:
  assumes "vf_class (evaluate_item manifest transitive v ei) = ReachableApiUse"
  shows "\<exists>r c. vf_import (evaluate_item manifest transitive v ei) = Some r \<and> r \<in> set (found_imports v (ei_package ei))
    \<and> \<not> is_wildcard r \<and> ir_evidence r \<noteq> normalized_heuristic \<and> ir_environment r \<noteq> ''NONE''
    \<and> vf_call (evaluate_item manifest transitive v ei) = Some c \<and> c \<in> set (vi_calls v) \<and> call_matches (ei_package ei) c
    \<and> \<not> cr_dynamic c \<and> (\<exists>i. cr_import c = Some i \<and> \<not> is_wildcard i)
    \<and> (cr_caller c = vi_module v
       \<or> (\<exists>e \<in> set (root_scopes (graph_of v) (vi_roots v)). cr_caller c = e \<or> cr_caller c \<in> set (neighbours (adjacency (graph_of v)) e)))"
proof -
  let ?pkg = "ei_package ei"
  obtain r rs where r: "found_imports v ?pkg = r # rs"
    using assms by (cases "found_imports v ?pkg") (auto simp: evaluate_item_def Let_def not_imported_def base_class split: option.splits)
  obtain c cs where c: "filter (call_matches ?pkg) (vi_calls v) = c # cs"
    using assms r by (cases "filter (call_matches ?pkg) (vi_calls v)") (auto simp: evaluate_item_def Let_def undecided_class split: option.splits)
  then have in_c: "c \<in> set (vi_calls v)" "call_matches ?pkg c" using Cons_eq_filterD [OF c [symmetric]] by auto
  let ?g = "(base_finding manifest ei)\<lparr>vf_import_status := PackageImported, vf_import := Some r, vf_import_source := ir_evidence r, vf_environment := ir_environment r\<rparr>"
  have eval: "evaluate_item manifest transitive v ei = evaluate_call v ?pkg r c ?g"
    using r c by (simp add: evaluate_item_def Let_def)
  with assms have guards: "\<not> cr_dynamic c" "\<not> is_wildcard r" "\<And>i. cr_import c = Some i \<Longrightarrow> \<not> is_wildcard i"
      "ir_evidence r \<noteq> normalized_heuristic" "ir_environment r \<noteq> ''NONE''"
    by (auto simp: evaluate_call_def Let_def undecided_class split: if_splits option.splits)
  then have ev: "evaluate_item manifest transitive v ei = followed v ?pkg r c ?g"
    unfolding eval evaluate_call_def by (auto simp: Let_def split: option.splits)
  then have state: "ve_state (evaluate_call_reachability (graph_of v) c) = CallReachable"
    using assms by (auto simp: followed_def Let_def split: if_splits)
  have site: "cr_caller c = vi_module v
       \<or> (\<exists>e \<in> set (root_scopes (graph_of v) (vi_roots v)). cr_caller c = e \<or> cr_caller c \<in> set (neighbours (adjacency (graph_of v)) e))"
    using reachable_calls [OF state] by (auto simp: graph_of_def)
  have "\<exists>i. cr_import c = Some i" using in_c(2) by (auto simp: call_matches_def split: option.splits)
  with site guards in_c ev r show ?thesis by (auto simp: followed_def Let_def)
qed

text \<open>
  Every item gets one finding, for its advisory and package; the finding is dormant or
  transitive exactly when no scope of the analysed files imports the package.
\<close>

theorem one_finding_per_item:
  "let fs = analyze_reachability up manifest deps lk files target advs live;
       d = lock_specifiers lk (declared_packages manifest deps); v = scan_files up d files;
       items = (case live of Some fs \<Rightarrow> live_items d target fs | None \<Rightarrow> file_items d target advs)
   in map (\<lambda>f. (vf_id f, vf_package f, vf_affected f)) fs = map (\<lambda>i. (av_id (ei_advisory i), ei_package i, ei_status i)) items
    \<and> map (\<lambda>f. vf_class f \<in> {DependencyDormant, TransitiveVulnerable}) fs = map (\<lambda>i. found_imports v (ei_package i) = []) items"
proof -
  show ?thesis
    by (simp add: analyze_reachability_def Let_def item_identity item_unimported del: insert_iff prod.inject)
qed


text \<open>
  Without live findings every declared package is reported, under a synthetic advisory, even
  when the advisory file is empty.
\<close>

theorem synthetic_advisory_for_all:
  "map (\<lambda>f. (vf_id f, vf_package f, vf_affected f)) (analyze_reachability up manifest deps lk files None [] None)
   = map (\<lambda>p. (''TimeCodeSecurity-VEC-C-001'', p, ''CONFIRMED'')) (map fst (lock_specifiers lk (declared_packages manifest deps)))"
proof -
  show ?thesis
    by (simp add: analyze_reachability_def Let_def item_identity file_items_def file_advisory_info_def synthetic_advisory_def given_def del: prod.inject)
qed

section \<open>Samples\<close>

definition lib_scan :: visitor where
  "lib_scan = scan_files up_name [(''l'', no_meta)] [(''a'', ''a.py'', Module [lib_import, lib_call])]"

definition sample_item :: evaluation_item where
  "sample_item = \<lparr>ei_package = ''l'', ei_advisory = synthetic_advisory, ei_meta = no_meta, ei_status = ''CONFIRMED'', ei_confidence = (1, ''1.0'')\<rparr>"

lemma sample_class: "vf_class (evaluate_item ''m'' [] lib_scan sample_item) = ReachableApiUse"
  by code_simp

theorem reachable_use_justified_witness:
  "\<exists>r. vf_import (evaluate_item ''m'' [] lib_scan sample_item) = Some r \<and> \<not> is_wildcard r \<and> ir_environment r \<noteq> ''NONE''"
  using reachable_use_justified [OF sample_class] by blast

end
