(* ===== verification/Directives.thy ===== *)
theory Directives
  imports Text_Lines Py_Values
begin

text \<open>
  \<open>suppression_resolver.py\<close>: the directives \<open># tcs:ignore ...\<close> of a source file and the findings
  they silence, and \<open>_apply_inline_suppressions\<close> of \<open>cli.py\<close>.

  The dictionary from lines to directives is the list of all directives in the order they
  were appended: every directive carries its line, and the entry of a line is the directives
  with that line. The comment tokens of a file are an argument \<open>tok\<close>: the tokens \<open>tokenize\<close>
  yields, with their lines, and whether it raises after them.
\<close>

section \<open>Directives\<close>

record directive =
  targets :: "string list"  \<comment> \<open>a set\<close>
  justification :: "string option"
  d_line :: int
  exact_line :: bool

type_synonym directives = "directive list"

text \<open>The tokens of a source: line and text of each comment, and whether \<open>tokenize\<close> failed.\<close>

type_synonym tokenizer = "string \<Rightarrow> (int \<times> string) list \<times> bool"

definition ignore_head :: rx where
  "ignore_head = seqs [lit ''#'', Star rx_space, lit_i ''tcs'', Star rx_space, lit '':'', Star rx_space, lit_i ''ignore'']"

definition tcs_ignore_pattern :: rx where
  "tcs_ignore_pattern = Seq ignore_head (seqs [WordB, Star rx_space, Grp 1 (Star rx_dot)])"

definition tcs_ignore_bracket_pattern :: rx where
  "tcs_ignore_bracket_pattern =
     Seq ignore_head (seqs [Star rx_space, lit ''['', Grp 1 (Star (CSet True [(CHR '']'', CHR '']'')])), lit '']'',
       Star rx_space, Grp 2 (Star rx_dot)])"

definition normalize_cwe_target :: "string \<Rightarrow> string option" where
  "normalize_cwe_target val =
     (let v = py_upper (py_strip val) in
      if v = [] then None
      else if v = ''ALL'' then Some ''ALL''
      else if py_startswith v ''CWE-'' then
        (let num = py_strip (drop 4 v) in Some (if py_isdigit num then ''CWE-'' @ num else v))
      else if py_startswith v ''CWE'' \<and> py_isdigit (strip_char (CHR ''-'') (drop 3 v)) then
        Some (''CWE-'' @ strip_char (CHR ''-'') (drop 3 v))
      else if py_isdigit v then Some (''CWE-'' @ v)
      else None)"

text \<open>\<open>re.split(r'[,;]+', s)\<close>, whose empty fields the caller drops.\<close>

fun split_targets :: "string \<Rightarrow> string list" where
  "split_targets [] = [[]]"
| "split_targets (c # cs) =
     (if c = CHR '','' \<or> c = CHR '';'' then [] # split_targets cs
      else (case split_targets cs of [] \<Rightarrow> [[c]] | w # ws \<Rightarrow> (c # w) # ws))"

text \<open>The targets and the justification of a payload, or none when it is malformed.\<close>

definition parse_directive_payload :: "string \<Rightarrow> (string list \<times> string option) option" where
  "parse_directive_payload text =
     (let payload = py_strip text;
          (part, note) = (if CHR '':'' \<in> set payload then split_once (CHR '':'') payload else (payload, []));
          items = filter (\<lambda>t. t \<noteq> []) (map py_strip (split_targets (py_strip part)));
          normalized = List.map_filter normalize_cwe_target items
      in if payload = [] \<or> py_strip part = [] \<or> items = [] \<or> normalized = [] then None
         else Some (normalized, if py_strip note = [] then None else Some (py_strip note)))"

section \<open>The directives of a file\<close>

definition comment_text :: "string \<Rightarrow> string" where
  "comment_text line = dropWhile (\<lambda>c. c \<noteq> CHR ''#'') line"

text \<open>The line scan used when \<open>tokenize\<close> raises.\<close>

definition fallback_comments :: "string \<Rightarrow> (int \<times> string) list" where
  "fallback_comments src =
     map (\<lambda>(i, line). (int i + 1, comment_text line))
       (filter (\<lambda>(i, line). CHR ''#'' \<in> set line) (enumerate 0 (py_splitlines src)))"

definition comments_of :: "tokenizer \<Rightarrow> string \<Rightarrow> (int \<times> string) list" where
  "comments_of tok src = fst (tok src) @ (if snd (tok src) then fallback_comments src else [])"

definition matched_group :: "nat \<Rightarrow> string \<Rightarrow> groups \<Rightarrow> string" where
  "matched_group n s g = (case group_text n s g of Some t \<Rightarrow> t | None \<Rightarrow> [])"

text \<open>The bracketed form of one comment: a justification behind the bracket replaces the one inside.\<close>

definition bracket_directive :: "int \<Rightarrow> string \<Rightarrow> groups \<Rightarrow> directive option" where
  "bracket_directive line text g =
     (let tail = py_strip (matched_group 2 text g); outer = py_strip (drop 1 tail) in
      map_option (\<lambda>(ts, note). \<lparr>targets = ts,
          justification = (if py_startswith tail '':'' \<and> outer \<noteq> [] then Some outer else note),
          d_line = line, exact_line = True\<rparr>)
        (parse_directive_payload (matched_group 1 text g)))"

definition plain_directive :: "int \<Rightarrow> string \<Rightarrow> groups \<Rightarrow> directive option" where
  "plain_directive line text g =
     map_option (\<lambda>(ts, note). \<lparr>targets = ts, justification = note, d_line = line, exact_line = False\<rparr>)
       (parse_directive_payload (matched_group 1 text g))"

definition comment_directive :: "int \<times> string \<Rightarrow> directive option" where
  "comment_directive c =
     (case rx_search tcs_ignore_bracket_pattern (snd c) of
        Some (i, j, g) \<Rightarrow> bracket_directive (fst c) (snd c) g
      | None \<Rightarrow>
          (case rx_search tcs_ignore_pattern (snd c) of
             Some (i, j, g) \<Rightarrow> plain_directive (fst c) (snd c) g
           | None \<Rightarrow> None))"

definition extract_file_directives :: "tokenizer \<Rightarrow> string \<Rightarrow> directives" where
  "extract_file_directives tok src = List.map_filter comment_directive (comments_of tok src)"

definition at_line :: "directives \<Rightarrow> int \<Rightarrow> directives" where
  "at_line ds l = filter (\<lambda>d. d_line d = l) ds"

section \<open>The directive of a sink\<close>

definition names :: "string \<Rightarrow> directive \<Rightarrow> bool" where
  "names cwe d = (''ALL'' \<in> set (targets d) \<or> cwe \<in> set (targets d))"

definition line_text :: "string list \<Rightarrow> int \<Rightarrow> string" where
  "line_text ls l = py_strip (if l - 1 < int (length ls) then ls ! nat (l - 1) else [])"

text \<open>The upward search: at most ten lines, over directives, blank lines and comments.\<close>

fun search_upward :: "directives \<Rightarrow> string list \<Rightarrow> string \<Rightarrow> nat \<Rightarrow> int \<Rightarrow> directive option" where
  "search_upward ds ls cwe 0 l = None"
| "search_upward ds ls cwe (Suc n) l =
     (if l < 1 then None
      else if at_line ds l \<noteq> [] then
        (case find (\<lambda>d. \<not> exact_line d \<and> names cwe d) (at_line ds l) of
           Some d \<Rightarrow> Some d
         | None \<Rightarrow> search_upward ds ls cwe n (l - 1))
      else if line_text ls l = [] \<or> py_startswith (line_text ls l) ''#'' then search_upward ds ls cwe n (l - 1)
      else None)"

definition find_matching_directive :: "int \<Rightarrow> string \<Rightarrow> directives \<Rightarrow> string list \<Rightarrow> directive option" where
  "find_matching_directive sink_line cwe ds ls =
     (case find (names (py_upper cwe)) (at_line ds sink_line) of
        Some d \<Rightarrow> Some d
      | None \<Rightarrow> search_upward ds ls (py_upper cwe) 10 (sink_line - 1))"

section \<open>Marking findings\<close>

text \<open>Only a hashable value may be a key of \<open>dict.get\<close>.\<close>

fun hashable :: "pyval \<Rightarrow> bool" where
  "hashable (PDict m) = False"
| "hashable (PProxy m) = False"
| "hashable (PList vs) = False"
| "hashable (PSet vs) = False"
| "hashable (PTuple vs) = list_all hashable vs"
| "hashable _ = True"

definition text_key :: "pyval \<Rightarrow> error + string option" where
  "text_key v = (if hashable v then Inr (case v of PStr s \<Rightarrow> Some s | _ \<Rightarrow> None) else Inl (TypeError ''unhashable''))"

definition note_value :: "string option \<Rightarrow> pyval" where
  "note_value n = (case n of Some t \<Rightarrow> PStr t | None \<Rightarrow> PNone)"

definition mark_suppressed :: "string option \<Rightarrow> dict \<Rightarrow> dict" where
  "mark_suppressed note f =
     dict_put ''active'' (PBool False) (dict_put ''suppression_kind'' (PStr ''inSource'')
       (dict_put ''suppression_justification'' (note_value note) (dict_put ''suppressed'' (PBool True) f)))"

definition mark_active :: "dict \<Rightarrow> dict" where
  "mark_active f =
     dict_put ''active'' (PBool True) (dict_put ''suppression_kind'' PNone
       (dict_put ''suppression_justification'' PNone (dict_put ''suppressed'' (PBool False) f)))"

definition or_default :: "pyval \<Rightarrow> pyval \<Rightarrow> pyval" where
  "or_default v d = (if py_truthy v then v else d)"

text \<open>The directives and the lines of the file a finding names, empty for a file not scanned.\<close>

definition source_of :: "(string \<times> string) list \<Rightarrow> string option \<Rightarrow> string option" where
  "source_of files key = (case key of Some f \<Rightarrow> map_of files f | None \<Rightarrow> None)"

definition mark_finding :: "tokenizer \<Rightarrow> (string \<times> string) list \<Rightarrow> dict \<Rightarrow> error + dict" where
  "mark_finding tok files f =
     res_bind (py_int (or_default (dict_get ''line_number'' PNone f) (PInt 1))) (\<lambda>sink_line.
     res_bind (text_key (dict_get ''file'' (PStr []) f)) (\<lambda>key.
       let cwe = py_str (dict_get ''cwe'' (PStr []) f);
           found = (case source_of files key of
                      Some src \<Rightarrow> find_matching_directive sink_line cwe (extract_file_directives tok src) (py_splitlines src)
                    | None \<Rightarrow> find_matching_directive sink_line cwe [] [])
       in Inr (case found of Some d \<Rightarrow> mark_suppressed (justification d) f | None \<Rightarrow> mark_active f)))"

definition resolve_suppressions :: "tokenizer \<Rightarrow> (string \<times> string) list \<Rightarrow> dict list \<Rightarrow> error + dict list" where
  "resolve_suppressions tok files findings = seq_results (map (mark_finding tok files) findings)"

section \<open>Exact-line suppression\<close>

text \<open>The bracketed directives of one file; a file without the letters \<open>tcs\<close> is not tokenized.\<close>

definition exact_directives :: "tokenizer \<Rightarrow> string \<Rightarrow> directives" where
  "exact_directives tok src =
     (if py_contains (py_lower src) ''tcs'' then filter exact_line (extract_file_directives tok src) else [])"

definition mark_line :: "string option \<Rightarrow> dict \<Rightarrow> dict" where
  "mark_line note f =
     dict_put ''suppression_kind'' (PStr ''inSourceLine'')
       (dict_put ''suppression_justification'' (note_value note) (dict_put ''suppressed'' (PBool True) f))"

definition int_line :: "pyval \<Rightarrow> int option" where
  "int_line v = (case v of PInt i \<Rightarrow> Some i | PBool b \<Rightarrow> Some (if b then 1 else 0) | _ \<Rightarrow> None)"

definition line_directives :: "tokenizer \<Rightarrow> (string \<times> string) list \<Rightarrow> dict \<Rightarrow> directives" where
  "line_directives tok files f =
     (case (map_of files (py_str (dict_get ''file'' (PStr []) f)), int_line (dict_get ''line'' PNone f)) of
        (Some src, Some l) \<Rightarrow> at_line (exact_directives tok src) l
      | _ \<Rightarrow> [])"

definition resolve_line_finding :: "tokenizer \<Rightarrow> (string \<times> string) list \<Rightarrow> dict \<Rightarrow> dict" where
  "resolve_line_finding tok files f =
     (case find (names (py_upper (py_str (dict_get ''cwe'' (PStr []) f)))) (line_directives tok files f) of
        Some d \<Rightarrow> mark_line (justification d) f
      | None \<Rightarrow> f)"

definition resolve_line_suppressions :: "tokenizer \<Rightarrow> (string \<times> string) list \<Rightarrow> dict list \<Rightarrow> dict list" where
  "resolve_line_suppressions tok files findings = map (resolve_line_finding tok files) findings"

definition apply_inline_suppressions :: "tokenizer \<Rightarrow> (string \<times> string) list \<Rightarrow> dict list \<Rightarrow> dict list" where
  "apply_inline_suppressions tok files findings =
     (if findings = [] \<or> files = [] then findings
      else filter (\<lambda>f. \<not> py_truthy (dict_get ''suppressed'' PNone f)) (resolve_line_suppressions tok files findings))"

section \<open>What a directive covers\<close>

text \<open>
  The documented rule (docstring of \<open>find_matching_directive\<close>): a directive covers a sink it
  names when it stands on the line of the sink, or, unbracketed, at most ten lines above it
  and no line of code stands in between; a directive behind a line of code reaches only the next line.
\<close>

definition code_line :: "string list \<Rightarrow> int \<Rightarrow> bool" where
  "code_line ls l = (line_text ls l \<noteq> [] \<and> \<not> py_startswith (line_text ls l) ''#'')"

definition code_between :: "string list \<Rightarrow> int \<Rightarrow> directive \<Rightarrow> int set" where
  "code_between ls sink_line d =
     {k. code_line ls k \<and> d_line d \<le> k \<and> k < sink_line \<and> (k = d_line d \<longrightarrow> k < sink_line - 1)}"

definition above_sink :: "directives \<Rightarrow> string \<Rightarrow> int \<Rightarrow> directive \<Rightarrow> bool" where
  "above_sink ds cwe sink_line d =
     (d \<in> set ds \<and> names cwe d \<and> \<not> exact_line d \<and> 1 \<le> d_line d \<and> sink_line - 10 \<le> d_line d \<and> d_line d < sink_line)"

definition documented_cover :: "directives \<Rightarrow> string list \<Rightarrow> string \<Rightarrow> int \<Rightarrow> directive \<Rightarrow> bool" where
  "documented_cover ds ls cwe sink_line d =
     (d \<in> set ds \<and> names cwe d \<and> d_line d = sink_line
      \<or> above_sink ds cwe sink_line d \<and> code_between ls sink_line d = {})"

text \<open>
  The program departs from it: lines of code in between do not stop the search when every one
  of them carries a directive of its own, for whatever CWE.
\<close>

definition across_annotated_code :: "directives \<Rightarrow> string list \<Rightarrow> string \<Rightarrow> int \<Rightarrow> directive \<Rightarrow> bool" where
  "across_annotated_code ds ls cwe sink_line d =
     (above_sink ds cwe sink_line d \<and> code_between ls sink_line d \<noteq> {}
      \<and> code_between ls sink_line d \<subseteq> d_line ` set ds)"

text \<open>Lines the upward search passes: with a directive, blank, or a comment.\<close>

definition passable :: "directives \<Rightarrow> string list \<Rightarrow> int \<Rightarrow> bool" where
  "passable ds ls l = (at_line ds l \<noteq> [] \<or> line_text ls l = [] \<or> py_startswith (line_text ls l) ''#'')"

text \<open>What the search computes: both cases at once.\<close>

definition stands_above :: "directives \<Rightarrow> string list \<Rightarrow> string \<Rightarrow> nat \<Rightarrow> int \<Rightarrow> directive \<Rightarrow> bool" where
  "stands_above ds ls cwe n l d =
     (d \<in> set ds \<and> names cwe d \<and> \<not> exact_line d \<and> 1 \<le> d_line d \<and> l - int n < d_line d \<and> d_line d \<le> l
      \<and> (\<forall>k. d_line d < k \<and> k \<le> l \<longrightarrow> passable ds ls k))"

definition covers_sink :: "directives \<Rightarrow> string list \<Rightarrow> string \<Rightarrow> int \<Rightarrow> directive \<Rightarrow> bool" where
  "covers_sink ds ls cwe sink_line d =
     (d \<in> set ds \<and> names cwe d \<and> d_line d = sink_line \<or> stands_above ds ls cwe 10 (sink_line - 1) d)"

lemma stands_above_step:
  "stands_above ds ls cwe (Suc n) l d \<longleftrightarrow>
     (if d_line d = l then d \<in> set ds \<and> names cwe d \<and> \<not> exact_line d \<and> 1 \<le> l
      else 1 \<le> l \<and> passable ds ls l \<and> stands_above ds ls cwe n (l - 1) d)"
proof (cases "d_line d = l")
  case False
  have "(\<forall>k. d_line d < k \<and> k \<le> l \<longrightarrow> passable ds ls k) \<longleftrightarrow>
      passable ds ls l \<and> (\<forall>k. d_line d < k \<and> k \<le> l - 1 \<longrightarrow> passable ds ls k)" if "d_line d < l"
    using that by (metis le_less zle_diff1_eq)
  with False show ?thesis by (auto simp: stands_above_def)
qed (auto simp: stands_above_def)

lemma at_line_mem: "d \<in> set (at_line ds l) \<longleftrightarrow> d \<in> set ds \<and> d_line d = l"
  by (auto simp: at_line_def)

text \<open>The search finds a covering directive, the nearest one, whenever there is one.\<close>

lemma search_upward_spec:
  "case search_upward ds ls cwe n l of
     Some d \<Rightarrow> stands_above ds ls cwe n l d \<and> (\<forall>d'. stands_above ds ls cwe n l d' \<longrightarrow> d_line d' \<le> d_line d)
   | None \<Rightarrow> (\<forall>d'. \<not> stands_above ds ls cwe n l d')"
proof (induction ds ls cwe n l rule: search_upward.induct)
  case (1 ds ls cwe l)
  then show ?case by (simp add: stands_above_def)
next
  case (2 ds ls cwe n l)
  let ?hit = "find (\<lambda>d. \<not> exact_line d \<and> names cwe d) (at_line ds l)"
  consider (out) "l < 1" | (hit) d where "1 \<le> l" "?hit = Some d" | (pass) "1 \<le> l" "?hit = None" "passable ds ls l"
    | (stop) "1 \<le> l" "?hit = None" "\<not> passable ds ls l"
    by fastforce
  then show ?case
  proof cases
    case out
    then show ?thesis by (simp add: stands_above_def)
  next
    case hit
    then have d: "d \<in> set ds" "d_line d = l" "\<not> exact_line d" "names cwe d" "at_line ds l \<noteq> []"
      using found_in [OF hit(2)] by (auto simp: at_line_mem)
    have "d_line d' \<le> l" if "stands_above ds ls cwe (Suc n) l d'" for d'
      using that by (simp add: stands_above_def)
    with hit d show ?thesis by (simp add: stands_above_step)
  next
    case pass
    have none: "d_line d \<noteq> l" if "stands_above ds ls cwe (Suc n) l d" for d
      using that pass(2) by (auto simp: stands_above_step find_None_iff at_line_mem split: if_splits)
    have same: "stands_above ds ls cwe (Suc n) l d \<longleftrightarrow> stands_above ds ls cwe n (l - 1) d" for d
    proof (cases "d_line d = l")
      case True
      then show ?thesis using none [of d] by (auto simp: stands_above_def)
    next
      case False
      with pass(1,3) show ?thesis by (simp only: stands_above_step [of ds ls cwe n l d] if_False simp_thms)
    qed
    have "search_upward ds ls cwe (Suc n) l = search_upward ds ls cwe n (l - 1)"
      using pass by (simp add: passable_def)
    moreover have "case search_upward ds ls cwe n (l - 1) of
        Some d \<Rightarrow> stands_above ds ls cwe n (l - 1) d \<and> (\<forall>d'. stands_above ds ls cwe n (l - 1) d' \<longrightarrow> d_line d' \<le> d_line d)
      | None \<Rightarrow> (\<forall>d'. \<not> stands_above ds ls cwe n (l - 1) d')"
    proof (cases "at_line ds l = []")
      case True
      with pass 2(2) show ?thesis by (simp add: passable_def)
    next
      case False
      with pass 2(1) show ?thesis by simp
    qed
    ultimately show ?thesis by (simp only: same)
  next
    case stop
    have "\<not> stands_above ds ls cwe (Suc n) l d" for d
      using stop by (auto simp: stands_above_step find_None_iff at_line_mem)
    with stop show ?thesis by (simp add: passable_def)
  qed
qed

lemma find_matching_spec:
  "case find_matching_directive sink_line cwe ds ls of
     Some d \<Rightarrow> covers_sink ds ls (py_upper cwe) sink_line d
               \<and> (\<forall>d'. covers_sink ds ls (py_upper cwe) sink_line d' \<longrightarrow> d_line d' \<le> d_line d)
   | None \<Rightarrow> (\<forall>d. \<not> covers_sink ds ls (py_upper cwe) sink_line d)"
proof (cases "find (names (py_upper cwe)) (at_line ds sink_line)")
  case None
  then have "\<not> (d \<in> set ds \<and> names (py_upper cwe) d \<and> d_line d = sink_line)" for d
    by (auto simp: find_None_iff at_line_mem)
  then have "covers_sink ds ls (py_upper cwe) sink_line = stands_above ds ls (py_upper cwe) 10 (sink_line - 1)"
    by (intro ext) (auto simp: covers_sink_def)
  with None search_upward_spec [of ds ls "py_upper cwe" 10 "sink_line - 1"] show ?thesis
    unfolding find_matching_directive_def by (simp only: option.case)
next
  case (Some d)
  have "d_line d' \<le> sink_line" if "covers_sink ds ls (py_upper cwe) sink_line d'" for d'
    using that by (auto simp: covers_sink_def stands_above_def)
  with Some found_in [OF Some] show ?thesis
    by (simp add: find_matching_directive_def covers_sink_def at_line_mem)
qed

lemma passable_iff: "passable ds ls k \<longleftrightarrow> \<not> (code_line ls k \<and> k \<notin> d_line ` set ds)"
  by (auto simp: passable_def code_line_def at_line_def filter_empty_conv)

lemma covers_sink_cases:
  "covers_sink ds ls cwe sink_line d \<longleftrightarrow>
     documented_cover ds ls cwe sink_line d \<or> across_annotated_code ds ls cwe sink_line d"
proof -
  have "stands_above ds ls cwe 10 (sink_line - 1) d \<longleftrightarrow>
      above_sink ds cwe sink_line d \<and> code_between ls sink_line d \<subseteq> d_line ` set ds"
  proof (cases "d \<in> set ds")
    case True
    have "code_between ls sink_line d \<subseteq> d_line ` set ds \<longleftrightarrow>
        (\<forall>k. d_line d < k \<and> k \<le> sink_line - 1 \<longrightarrow> passable ds ls k)"
      unfolding code_between_def passable_iff
    proof (intro iffI allI impI subsetI)
      fix k assume "\<forall>k. d_line d < k \<and> k \<le> sink_line - 1 \<longrightarrow> \<not> (code_line ls k \<and> k \<notin> d_line ` set ds)"
        and "k \<in> {k. code_line ls k \<and> d_line d \<le> k \<and> k < sink_line \<and> (k = d_line d \<longrightarrow> k < sink_line - 1)}"
      with True show "k \<in> d_line ` set ds" by (cases "k = d_line d") auto
    qed auto
    then show ?thesis by (auto simp: stands_above_def above_sink_def)
  qed (simp add: stands_above_def above_sink_def)
  then show ?thesis by (auto simp: covers_sink_def documented_cover_def across_annotated_code_def)
qed

text \<open>
  C19: the search finds a directive whenever one covers the sink by the documented rule, and finds
  none otherwise, but for one case, spelled out: a directive above lines of code that all carry
  directives of their own, where the docstring promises that the search stops. The directive found
  is a nearest one.
\<close>

theorem directive_found_iff_covered:
  "case find_matching_directive sink_line cwe ds ls of
     Some d \<Rightarrow>
       (documented_cover ds ls (py_upper cwe) sink_line d \<or> across_annotated_code ds ls (py_upper cwe) sink_line d)
       \<and> (\<forall>d'. documented_cover ds ls (py_upper cwe) sink_line d'
              \<or> across_annotated_code ds ls (py_upper cwe) sink_line d' \<longrightarrow> d_line d' \<le> d_line d)
   | None \<Rightarrow>
       (\<forall>d. \<not> documented_cover ds ls (py_upper cwe) sink_line d
            \<and> \<not> across_annotated_code ds ls (py_upper cwe) sink_line d)"
  using find_matching_spec [where sink_line = sink_line and cwe = cwe and ds = ds and ls = ls]
  unfolding covers_sink_cases by (simp only: de_Morgan_disj)

section \<open>Suppression as an annotation\<close>

definition suppression_keys :: "string list" where
  "suppression_keys = [''suppressed'', ''suppression_justification'', ''suppression_kind'', ''active'']"

definition finding_covered :: "tokenizer \<Rightarrow> (string \<times> string) list \<Rightarrow> dict \<Rightarrow> int \<Rightarrow> string option \<Rightarrow> bool" where
  "finding_covered tok files f sink_line key =
     (\<exists>src d. source_of files key = Some src
        \<and> (let ds = extract_file_directives tok src; cwe = py_upper (py_str (dict_get ''cwe'' (PStr []) f)) in
            documented_cover ds (py_splitlines src) cwe sink_line d
            \<or> across_annotated_code ds (py_splitlines src) cwe sink_line d))"

lemma found_iff_covers:
  "(\<exists>d. find_matching_directive l cwe ds ls = Some d) \<longleftrightarrow> (\<exists>d. covers_sink ds ls (py_upper cwe) l d)"
  using find_matching_spec [where sink_line = l and cwe = cwe and ds = ds and ls = ls] by (cases "find_matching_directive l cwe ds ls") auto

lemma nothing_covers_empty: "\<not> covers_sink [] ls cwe l d"
  by (simp add: covers_sink_def stands_above_def)

lemma marked_simps:
  "dict_get ''suppressed'' PNone (mark_suppressed n f) = PBool True"
  "dict_get ''active'' PNone (mark_suppressed n f) = PBool False"
  "dict_get ''suppressed'' PNone (mark_active f) = PBool False"
  "dict_get ''active'' PNone (mark_active f) = PBool True"
  by (simp_all add: mark_suppressed_def mark_active_def dict_get_put)

lemma marked_others:
  "k \<notin> set suppression_keys \<Longrightarrow> map_of (mark_suppressed n f) k = map_of f k"
  "k \<notin> set suppression_keys \<Longrightarrow> map_of (mark_active f) k = map_of f k"
  by (simp_all add: mark_suppressed_def mark_active_def map_of_dict_put suppression_keys_def)

lemma mark_finding_Inr:
  assumes "mark_finding tok files f = Inr f'"
  shows "\<exists>l key. py_int (or_default (dict_get ''line_number'' PNone f) (PInt 1)) = Inr l
      \<and> text_key (dict_get ''file'' (PStr []) f) = Inr key
      \<and> dict_get ''suppressed'' PNone f' = PBool (finding_covered tok files f l key)
      \<and> dict_get ''active'' PNone f' = PBool (\<not> finding_covered tok files f l key)
      \<and> (\<forall>k. k \<notin> set suppression_keys \<longrightarrow> map_of f' k = map_of f k)"
proof -
  let ?cwe = "py_str (dict_get ''cwe'' (PStr []) f)"
  let ?found = "\<lambda>l key. case source_of files key of
      Some src \<Rightarrow> find_matching_directive l ?cwe (extract_file_directives tok src) (py_splitlines src)
    | None \<Rightarrow> find_matching_directive l ?cwe [] []"
  from assms obtain l key
    where l: "py_int (or_default (dict_get ''line_number'' PNone f) (PInt 1)) = Inr l"
      and key: "text_key (dict_get ''file'' (PStr []) f) = Inr key"
      and f': "f' = (case ?found l key of Some d \<Rightarrow> mark_suppressed (justification d) f | None \<Rightarrow> mark_active f)"
    by (auto simp: mark_finding_def res_bind_Inr_iff Let_def)
  have "(\<exists>d. ?found l key = Some d) \<longleftrightarrow> finding_covered tok files f l key"
    by (cases "source_of files key") (simp_all add: finding_covered_def found_iff_covers Let_def covers_sink_cases [symmetric] nothing_covers_empty)
  with l key show ?thesis
    by (intro exI [of _ l] exI [of _ key]) (auto simp: f' marked_simps marked_others split: option.splits)
qed

text \<open>
  C22: resolving suppressions keeps the list of findings: each one keeps all its other entries
  and is marked suppressed, and inactive, exactly when a directive of its file covers the CWE
  it reports at its line, by the documented rule or across annotated code. The line is the
  value of \<open>line_number\<close> as an integer, and 1 for a finding that has none.
\<close>

theorem suppressed_iff_covered:
  assumes "resolve_suppressions tok files findings = Inr marked"
  shows "list_all2 (\<lambda>f f'. \<exists>l key. py_int (or_default (dict_get ''line_number'' PNone f) (PInt 1)) = Inr l
      \<and> text_key (dict_get ''file'' (PStr []) f) = Inr key
      \<and> dict_get ''suppressed'' PNone f' = PBool (finding_covered tok files f l key)
      \<and> dict_get ''active'' PNone f' = PBool (\<not> finding_covered tok files f l key)
      \<and> (\<forall>k. k \<notin> set suppression_keys \<longrightarrow> map_of f' k = map_of f k)) findings marked"
  using assms unfolding resolve_suppressions_def seq_map_Inr
  by (rule list_all2_mono) (rule mark_finding_Inr)

text \<open>
  A line of code that carries any directive of its own does not stop the upward search: a
  directive two lines above a sink silences it across the statement in between.
\<close>

theorem search_crosses_annotated_code:
  assumes "d \<in> set ds" "names (py_upper cwe) d" "\<not> exact_line d" "1 \<le> d_line d"
    and "e \<in> set ds" "d_line e = d_line d + 1"
  shows "find_matching_directive (d_line d + 2) cwe ds ls \<noteq> None"
proof -
  have "passable ds ls k" if "d_line d < k" "k \<le> d_line d + 1" for k
  proof -
    from that have "k = d_line d + 1" by simp
    with assms(5,6) have "e \<in> set (at_line ds k)" by (simp add: at_line_mem)
    then show ?thesis by (auto simp: passable_def)
  qed
  then have "covers_sink ds ls (py_upper cwe) (d_line d + 2) d"
    using assms(1-4) by (auto simp: covers_sink_def stands_above_def)
  then show ?thesis using found_iff_covers [of "d_line d + 2" cwe ds ls] by auto
qed

section \<open>The letters a directive needs\<close>

lemma code_of_inj: "code_of a = code_of b \<Longrightarrow> a = b"
  unfolding code_of_def by (metis of_char_eq_iff)

lemma code_of_char_of: "n < 256 \<Longrightarrow> code_of (char_of n) = n"
  by (simp add: code_of_def of_char_of)

lemma lower_upper: "lower_char (upper_char a) = lower_char a"
  by (auto simp: lower_char_def upper_char_def Let_def code_of_char_of) (auto simp: code_of_def)

lemma lower_lower: "lower_char (lower_char a) = lower_char a"
  by (auto simp: lower_char_def Let_def code_of_char_of)

lemma ends_lit1_i:
  "(j, g') \<in> set (ends (lit1_i a) s i g) \<Longrightarrow> i < length s \<and> j = Suc i \<and> lower_char (s ! i) = lower_char a"
  by (auto simp: lit1_i_def in_set_def split: if_splits dest!: order_antisym code_of_inj)
    (metis lower_lower lower_upper)+

lemma ends_lit_i:
  "(j, g') \<in> set (ends (lit_i w) s i g) \<Longrightarrow>
     (\<exists>v rest. drop i s = v @ rest \<and> py_lower v = py_lower w)"
proof (induction w arbitrary: i g rule: lit_i.induct)
  case (2 c)
  then have "i < length s" "lower_char (s ! i) = lower_char c" by (auto dest: ends_lit1_i)
  then show ?case
    by (intro exI [of _ "[s ! i]"] exI [of _ "drop (Suc i) s"]) (simp add: Cons_nth_drop_Suc py_lower_def)
next
  case (3 c d cs)
  then obtain k gk where k: "(k, gk) \<in> set (ends (lit1_i c) s i g)" "(j, g') \<in> set (ends (lit_i (d # cs)) s k gk)"
    by auto
  from ends_lit1_i [OF k(1)] have i: "i < length s" "k = Suc i" "lower_char (s ! i) = lower_char c" by auto
  from "3.IH" [OF k(2)] obtain v rest where v: "drop k s = v @ rest" "py_lower v = py_lower (d # cs)" by auto
  with i have "drop i s = (s ! i # v) @ rest" by (metis Cons_nth_drop_Suc append_Cons)
  with i v show ?case by (intro exI [of _ "s ! i # v"] exI [of _ rest]) (simp add: py_lower_def)
qed (simp add: py_lower_def)

lemma startswith_append: "py_startswith (p @ r) p"
  by (induction p) simp_all

lemma contains_append: "py_contains (a @ p @ r) p"
proof (induction a)
  case Nil
  then show ?case by (cases "p @ r") (auto simp: startswith_append dest: arg_cong [of _ _ "\<lambda>x. py_startswith x p"])
qed simp


lemma contains_split: "(\<exists>a r. s = a @ p @ r) \<Longrightarrow> py_contains s p"
  using contains_append by blast

lemma ends_seqs_Cons: "ends (seqs (r # q # rs)) s i g = concat (map (\<lambda>(j, g'). ends (seqs (q # rs)) s j g') (ends r s i g))"
  by simp

lemma ignore_head_tcs:
  assumes "(j, g') \<in> set (ends (Seq ignore_head r) s i g)" "i \<le> length s"
  shows "py_contains (py_lower s) ''tcs''"
proof -
  from assms(1) obtain k gk l gl where "(k, gk) \<in> set (ends (lit ''#'') s i g)"
    and "(l, gl) \<in> set (ends (Star rx_space) s k gk)"
    and tcs: "\<exists>m gm. (m, gm) \<in> set (ends (lit_i ''tcs'') s l gl)"
    unfolding ignore_head_def by (fastforce simp del: lit.simps lit_i.simps)
  from tcs obtain v rest where v: "drop l s = v @ rest" "py_lower v = py_lower ''tcs''"
    using ends_lit_i by blast
  have "py_lower s = py_lower (take l s) @ ''tcs'' @ py_lower rest"
    by (subst append_take_drop_id [of l s, symmetric], subst v(1))
      (use v(2) in \<open>simp add: py_lower_def lower_char_def code_of_def\<close>)
  then show ?thesis by (simp only: contains_append)
qed

lemma search_Some_ends:
  assumes "rx_search r s = Some (i, j, g)"
  shows "(j, g) \<in> set (ends r s i []) \<and> i \<le> length s"
proof -
  from assms show ?thesis
    unfolding rx_search_def using search_from_Some [of r s "[0..<Suc (length s)]" i j g]
    by (auto simp: match_at_def split: list.splits)
qed


lemma exact_from_bracket:
  assumes "comment_directive c = Some d" "exact_line d"
  shows "py_contains (py_lower (snd c)) ''tcs''"
proof -
  have "\<exists>i j g. rx_search tcs_ignore_bracket_pattern (snd c) = Some (i, j, g)"
  proof (rule ccontr)
    assume "\<not> ?thesis"
    then have "rx_search tcs_ignore_bracket_pattern (snd c) = None" by (cases "rx_search tcs_ignore_bracket_pattern (snd c)") auto
    with assms show False
      by (auto simp: comment_directive_def plain_directive_def split: option.splits prod.splits)
  qed
  then obtain i j g where "rx_search tcs_ignore_bracket_pattern (snd c) = Some (i, j, g)" by blast
  from search_Some_ends [OF this] show ?thesis
    unfolding tcs_ignore_bracket_pattern_def by (blast intro: ignore_head_tcs)
qed

lemma first_line_prefix: "py_splitlines s = l # ls \<Longrightarrow> prefix l s"
proof (induction s arbitrary: l ls rule: py_splitlines.induct)
  case (2 c cs)
  then show ?case by (auto split: if_splits list.splits)
qed simp

lemma line_sublist: "l \<in> set (py_splitlines s) \<Longrightarrow> sublist l s"
proof (induction s arbitrary: l rule: py_splitlines.induct)
  case (2 c cs)
  show ?case
  proof (cases "is_break c")
    case True
    with "2.prems" consider "l = []" | "l \<in> set (py_splitlines (after_break c cs))" by auto
    then show ?thesis
    proof cases
      case 2
      with "2.IH"(1) True have "sublist l (after_break c cs)" by blast
      moreover have "sublist (after_break c cs) (c # cs)"
        by (auto simp: after_break_def sublist_Cons_right split: list.splits)
      ultimately show ?thesis by (rule sublist_order.order.trans)
    qed simp
  next
    case False
    with "2.prems" consider ls where "py_splitlines (c # cs) = l # ls" | "l \<in> set (py_splitlines cs)"
      by (auto split: list.splits)
    then show ?thesis
    proof cases
      case 1
      then show ?thesis using first_line_prefix by (blast intro: prefix_imp_sublist)
    next
      case 2
      with "2.IH"(2) False show ?thesis by (simp add: sublist_Cons_right)
    qed
  qed
qed simp

lemma fallback_sublist:
  assumes "c \<in> set (fallback_comments src)"
  shows "sublist (snd c) src"
proof -
  from assms obtain l where l: "l \<in> set (py_splitlines src)" "snd c = comment_text l"
    by (auto simp: fallback_comments_def enumerate_eq_zip dest: set_zip_rightD)
  have "suffix (comment_text l) l" by (simp add: comment_text_def suffix_dropWhile)
  with l line_sublist show ?thesis by (metis sublist_order.order.trans suffix_imp_sublist)
qed

lemma contains_sublist:
  assumes "py_contains (py_lower c) p" "sublist c s" "p \<noteq> []"
  shows "py_contains (py_lower s) p"
proof -
  have "\<exists>a r. t = a @ p @ r" if "py_contains t p" for t
    using that
  proof (induction t)
    case (Cons x t)
    have start: "\<exists>r. u = p @ r" if "py_startswith u p" for u
      using that by (induction u p rule: py_startswith.induct) auto
    from Cons.prems consider "py_startswith (x # t) p" | "py_contains t p" by auto
    then show ?case
    proof cases
      case 1
      with start show ?thesis by (metis append_Nil)
    next
      case 2
      with Cons.IH show ?thesis by (metis append_Cons)
    qed
  qed (use assms(3) in simp)
  with assms(1) obtain a r where "py_lower c = a @ p @ r" by blast
  moreover from assms(2) obtain u v where "s = u @ c @ v" by (auto simp: sublist_def)
  ultimately have "py_lower s = (py_lower u @ a) @ p @ (r @ py_lower v)" by (simp add: py_lower_def)
  then show ?thesis by (simp only: contains_append)
qed


text \<open>The comments of a tokenizer are text of its source.\<close>

definition tokens_from_source :: "tokenizer \<Rightarrow> bool" where
  "tokens_from_source tok = (\<forall>src. \<forall>c \<in> set (fst (tok src)). sublist (snd c) src)"

lemma exact_needs_letters:
  assumes "tokens_from_source tok" "d \<in> set (extract_file_directives tok src)" "exact_line d"
  shows "py_contains (py_lower src) ''tcs''"
proof -
  from assms(2) obtain c where c: "c \<in> set (comments_of tok src)" "comment_directive c = Some d"
    by (auto simp: extract_file_directives_def List.map_filter_def)
  have "sublist (snd c) src"
  proof (cases "c \<in> set (fst (tok src))")
    case True
    with assms(1) show ?thesis by (simp add: tokens_from_source_def)
  next
    case False
    with c(1) have "c \<in> set (fallback_comments src)" by (auto simp: comments_of_def split: if_splits)
    then show ?thesis by (rule fallback_sublist)
  qed
  with exact_from_bracket [OF c(2) assms(3)] show ?thesis by (rule contains_sublist) simp
qed

lemma exact_directives_eq:
  assumes "tokens_from_source tok"
  shows "exact_directives tok src = filter exact_line (extract_file_directives tok src)"
proof (cases "py_contains (py_lower src) ''tcs''")
  case False
  then have "filter exact_line (extract_file_directives tok src) = []"
    using exact_needs_letters [OF assms] by (auto simp: filter_empty_conv)
  with False show ?thesis by (simp add: exact_directives_def)
qed (simp add: exact_directives_def)



section \<open>Samples\<close>

text \<open>A tokenizer for sources without string literals: every comment is a token.\<close>

definition plain_tokens :: tokenizer where
  "plain_tokens src = (fallback_comments src, False)"

lemma plain_tokens_from_source: "tokens_from_source plain_tokens"
  by (simp add: tokens_from_source_def plain_tokens_def fallback_sublist)

definition sample_module :: string where
  "sample_module = ''# tcs:ignore 89: legacy'' @ [CHR 0x0A] @ ''f()  # tcs:ignore CWE-78'' @ [CHR 0x0A]
     @ ''run(q)  # TCS: ignore[CWE-611]'' @ [CHR 0x0A]"

definition sample_finding :: dict where
  "sample_finding = [(''file'', PStr ''a.py''), (''line_number'', PInt 3), (''line'', PInt 3), (''cwe'', PStr ''cwe-611'')]"

lemma sample_directives:
  "extract_file_directives plain_tokens sample_module =
     [\<lparr>targets = [''CWE-89''], justification = Some ''legacy'', d_line = 1, exact_line = False\<rparr>,
      \<lparr>targets = [''CWE-78''], justification = None, d_line = 2, exact_line = False\<rparr>,
      \<lparr>targets = [''CWE-611''], justification = None, d_line = 3, exact_line = True\<rparr>]"
  by code_simp

lemma sample_marked:
  "resolve_suppressions plain_tokens [(''a.py'', sample_module)] [sample_finding] =
     Inr [mark_suppressed None sample_finding]"
  by code_simp

theorem suppressed_iff_covered_witness:
  "\<exists>f'. resolve_suppressions plain_tokens [(''a.py'', sample_module)] [sample_finding] = Inr [f']
     \<and> dict_get ''suppressed'' PNone f' = PBool True
     \<and> finding_covered plain_tokens [(''a.py'', sample_module)] sample_finding 3 (Some ''a.py'')"
  using suppressed_iff_covered [OF sample_marked]
  by (auto simp: sample_marked marked_simps) (simp add: sample_finding_def or_default_def dict_get_def text_key_def)

theorem search_crosses_annotated_code_witness:
  "find_matching_directive 3 ''CWE-89'' (extract_file_directives plain_tokens sample_module) (py_splitlines sample_module) \<noteq> None"
proof -
  let ?d = "\<lparr>targets = [''CWE-89''], justification = Some ''legacy'', d_line = 1, exact_line = False\<rparr>"
  let ?e = "\<lparr>targets = [''CWE-78''], justification = None, d_line = 2, exact_line = False\<rparr>"
  have "names (py_upper ''CWE-89'') ?d" by code_simp
  then show ?thesis
    using search_crosses_annotated_code [where d = ?d and e = ?e and cwe = "''CWE-89''"
        and ds = "extract_file_directives plain_tokens sample_module" and ls = "py_splitlines sample_module"]
    by (simp add: sample_directives)
qed



lemma sample_found:
  "find_matching_directive 3 ''CWE-78'' (extract_file_directives plain_tokens sample_module) (py_splitlines sample_module)
     = Some \<lparr>targets = [''CWE-78''], justification = None, d_line = 2, exact_line = False\<rparr>"
  by code_simp

theorem directive_found_iff_covered_witness:
  "documented_cover (extract_file_directives plain_tokens sample_module) (py_splitlines sample_module) (py_upper ''CWE-78'') 3
     \<lparr>targets = [''CWE-78''], justification = None, d_line = 2, exact_line = False\<rparr>"
  using directive_found_iff_covered [where sink_line = 3 and cwe = "''CWE-78''"
      and ds = "extract_file_directives plain_tokens sample_module" and ls = "py_splitlines sample_module"]
  by (auto simp: sample_found across_annotated_code_def code_between_def)

end
