(* ===== verification/Diff_Scan.thy ===== *)
theory Diff_Scan
  imports Directives "HOL-Library.AList"
begin

text \<open>
  \<open>diff_scan.py\<close>: the lines a working tree adds or modifies against a git reference, and the
  line filters of \<open>cli.py\<close> that narrow a report to them or to the ranges of \<open>--lines\<close>.

  Git is an argument: what a command line returns. Paths and patches are decoded as ASCII.
  The size in bytes and the text of a file of the tree come from the argument \<open>read_bytes\<close>.
\<close>

section \<open>Git\<close>

record git_result =
  returncode :: int
  stdout :: string
  stderr :: string

datatype diff_error = NoGit | DiffValueError string

text \<open>None: the executable cannot be started.\<close>

type_synonym git = "string list \<Rightarrow> git_result option"

definition resolve_repo_root :: "git \<Rightarrow> diff_error + string" where
  "resolve_repo_root git =
     (case git [''rev-parse'', ''--show-toplevel''] of
        None \<Rightarrow> Inl (DiffValueError ''--diff requires git on PATH'')
      | Some r \<Rightarrow>
          (let toplevel = py_strip (stdout r) in
           if returncode r \<noteq> 0 \<or> toplevel = []
           then Inl (DiffValueError ''--diff requires a git repository (git rev-parse --show-toplevel failed)'')
           else Inr toplevel))"

definition run_git :: "git \<Rightarrow> string list \<Rightarrow> diff_error + string" where
  "run_git git args =
     (case git args of
        None \<Rightarrow> Inl NoGit
      | Some r \<Rightarrow>
          if returncode r \<noteq> 0
          then Inl (DiffValueError (''git '' @ py_join '' '' args @ '' failed: '' @ py_strip (stderr r)))
          else Inr (stdout r))"

definition decode_paths :: "string \<Rightarrow> string list" where
  "decode_paths raw = filter (\<lambda>part. part \<noteq> []) (py_split (CHR 0x00) raw)"

section \<open>Hunks\<close>

definition digits :: rx where
  "digits = at_least 1 rx_digit"

definition hunk_header :: rx where
  "hunk_header =
     Seq Bos (Seq (lit ''@@ -'') (Seq digits (Seq (opt (Seq (lit '','') digits)) (Seq (lit '' +'')
       (Seq (Grp 1 digits) (Seq (opt (Seq (lit '','') (Grp 2 digits))) (lit '' @@'')))))))"

definition hunk_span :: "string \<Rightarrow> (nat \<times> nat) option" where
  "hunk_span line =
     (case match_at hunk_header line 0 of
        None \<Rightarrow> None
      | Some (j, g) \<Rightarrow>
          (let start = digits_val (case group_text 1 line g of Some t \<Rightarrow> t | None \<Rightarrow> []);
               count = (case group_text 2 line g of Some t \<Rightarrow> digits_val t | None \<Rightarrow> 1)
           in if 0 < count then Some (start, start + count - 1) else None))"

definition added_intervals_from_patch :: "string \<Rightarrow> (nat \<times> nat) list" where
  "added_intervals_from_patch patch = List.map_filter hunk_span (py_splitlines patch)"

text \<open>None: the file cannot be read.\<close>

definition line_count :: "string option \<Rightarrow> nat" where
  "line_count content =
     (case content of
        None \<Rightarrow> 0
      | Some raw \<Rightarrow>
          (let breaks = length (filter (\<lambda>c. c = CHR 0x0A) raw) in
           if CHR 0x00 \<in> set (take 8192 raw) then 0
           else if raw = [] then 0
           else if py_endswith raw [CHR 0x0A] then breaks
           else breaks + 1))"

section \<open>The changed lines\<close>

type_synonym intervals = "(string \<times> (nat \<times> nat) list) list"

definition tracked_step :: "git \<Rightarrow> string \<Rightarrow> diff_error + intervals \<Rightarrow> string \<Rightarrow> diff_error + intervals" where
  "tracked_step git ref acc path =
     res_bind acc (\<lambda>m.
     res_bind (run_git git [''diff'', ''-U0'', ref, ''--'', path]) (\<lambda>patch.
       let spans = added_intervals_from_patch patch in
       Inr (if spans \<noteq> [] then AList.update path spans m else m)))"

definition untracked_step :: "(string \<Rightarrow> string option) \<Rightarrow> intervals \<Rightarrow> string \<Rightarrow> intervals" where
  "untracked_step read_bytes m path =
     (let lines = line_count (read_bytes path) in
      if lines \<noteq> 0 then AList.update path [(1, lines)] m else m)"

definition changed_line_intervals :: "git \<Rightarrow> (string \<Rightarrow> string option) \<Rightarrow> string \<Rightarrow> diff_error + intervals" where
  "changed_line_intervals git read_bytes ref =
     (case git [''rev-parse'', ''--verify'', ''--quiet'', ref @ ''^{commit}''] of
        None \<Rightarrow> Inl NoGit
      | Some verify \<Rightarrow>
          if returncode verify \<noteq> 0 then Inl (DiffValueError (''Unknown git ref: '' @ ref))
          else
            res_bind (run_git git [''diff'', ''--name-only'', ''-z'', ''--diff-filter=d'', ref, ''--'']) (\<lambda>tracked.
            res_bind (run_git git [''ls-files'', ''--others'', ''--exclude-standard'', ''-z'']) (\<lambda>untracked.
            res_bind (foldl (tracked_step git ref) (Inr []) (decode_paths tracked)) (\<lambda>m.
              Inr (foldl (untracked_step read_bytes) m (decode_paths untracked))))))"

section \<open>The line filters of the report\<close>

definition parse_bounds :: "string \<Rightarrow> error + (int \<times> int)" where
  "parse_bounds part =
     (let (a, b) = (if CHR ''-'' \<in> set part then split_once (CHR ''-'') part else (part, part));
          invalid = ValueError ''Invalid --lines range''
      in case (py_int_of_str (py_strip a), py_int_of_str (py_strip b)) of
           (Some start, Some stop) \<Rightarrow>
             if start < 1 \<or> stop < start then Inl invalid else Inr (start, stop)
         | _ \<Rightarrow> Inl invalid)"

definition parse_line_ranges :: "string option \<Rightarrow> error + (int \<times> int) list option" where
  "parse_line_ranges spec =
     (case spec of
        None \<Rightarrow> Inr None
      | Some text \<Rightarrow>
          res_bind (seq_results (map parse_bounds (filter (\<lambda>p. p \<noteq> []) (map py_strip (py_split (CHR '','') text)))))
            (\<lambda>ranges. Inr (if ranges = [] then None else Some ranges)))"

definition in_line_ranges :: "int \<Rightarrow> (int \<times> int) list option \<Rightarrow> bool" where
  "in_line_ranges line ranges =
     (case ranges of None \<Rightarrow> True | Some rs \<Rightarrow> list_ex (\<lambda>(start, stop). start \<le> line \<and> line \<le> stop) rs)"

definition scope_findings_to_lines :: "dict list \<Rightarrow> (int \<times> int) list option \<Rightarrow> dict list" where
  "scope_findings_to_lines findings ranges =
     (case ranges of
        None \<Rightarrow> findings
      | Some rs \<Rightarrow>
          filter (\<lambda>f. case int_line (dict_get ''line'' PNone f) of
                        None \<Rightarrow> True | Some line \<Rightarrow> in_line_ranges line ranges) findings)"

text \<open>The intervals by the keys findings carry; a path that does not resolve is skipped.\<close>

definition keyed_intervals :: "(string \<Rightarrow> string option) \<Rightarrow> intervals \<Rightarrow> intervals" where
  "keyed_intervals key_of m =
     foldl (\<lambda>c (path, spans). case key_of path of Some k \<Rightarrow> AList.update k spans c | None \<Rightarrow> c) [] m"

definition on_changed_line :: "intervals \<Rightarrow> dict \<Rightarrow> bool" where
  "on_changed_line changed f =
     (case (case dict_get ''file'' PNone f of PStr k \<Rightarrow> map_of changed k | _ \<Rightarrow> None) of
        None \<Rightarrow> False
      | Some spans \<Rightarrow>
          (case int_line (dict_get ''line'' PNone f) of
             None \<Rightarrow> True
           | Some line \<Rightarrow> list_ex (\<lambda>(start, stop). int start \<le> line \<and> line \<le> int stop) spans))"

definition scope_findings_to_diff :: "(string \<Rightarrow> string option) \<Rightarrow> dict list \<Rightarrow> intervals \<Rightarrow> dict list" where
  "scope_findings_to_diff key_of findings m = filter (on_changed_line (keyed_intervals key_of m)) findings"


section \<open>Matching a header\<close>

lemma ends_assoc: "ends (Seq (Seq p q) r) s i g = ends (Seq p (Seq q r)) s i g"
proof -
  have *: "concat (map f (concat (map h xs))) = concat (map (\<lambda>x. concat (map f (h x))) xs)"
    for f :: "nat \<times> groups \<Rightarrow> (nat \<times> groups) list" and h :: "nat \<times> groups \<Rightarrow> (nat \<times> groups) list" and xs
    by (induction xs) simp_all
  show ?thesis by (simp only: ends.simps(3) *) (simp add: case_prod_unfold)
qed

lemma ends_alt_seq: "ends (Seq (Alt p q) r) s i g = ends (Seq p r) s i g @ ends (Seq q r) s i g"
  by simp

lemma ends_eps_seq: "ends (Seq Eps r) s i g = ends r s i g"
  by simp

lemma ends_lit_seq: "ends (Seq (lit w) r) (pre @ w @ rest) (length pre) g = ends r (pre @ w @ rest) (length (pre @ w)) g"
  by (simp add: ends_lit_at)

text \<open>Expressions that cannot start at a digit.\<close>

definition no_digit :: "rx \<Rightarrow> bool" where
  "no_digit q = (\<forall>s k g. k < length s \<longrightarrow> is_digit (s ! k) \<longrightarrow> ends q s k g = [])"

lemma no_digit_lit: "\<not> is_digit c \<Longrightarrow> no_digit (lit (c # w))"
  by (cases w) (auto simp: no_digit_def ends_lit1)

lemma no_digit_seq: "no_digit p \<Longrightarrow> no_digit (Seq p q)"
  by (simp add: no_digit_def)

lemma no_digit_opt: "no_digit p \<Longrightarrow> no_digit q \<Longrightarrow> no_digit (Seq (opt p) q)"
  by (simp add: no_digit_def opt_def)

lemma digit_in_set: "in_set False [(CHR ''0'', CHR ''9'')] c \<longleftrightarrow> is_digit c"
  by (simp add: in_set_def is_digit_def Let_def code_of_def)

lemma star_digits:
  "list_all is_digit ds \<Longrightarrow> (case rest of [] \<Rightarrow> True | c # _ \<Rightarrow> \<not> is_digit c) \<Longrightarrow>
     ends (Star rx_digit) (pre @ ds @ rest) (length pre) g = map (\<lambda>k. (k, g)) (rev [length pre..<Suc (length pre + length ds)])"
proof (induction ds arbitrary: pre)
  case Nil
  then have "ends rx_digit (pre @ rest) (length pre) g = []"
    by (cases rest) (auto simp: rx_digit_def digit_in_set)
  then show ?case by (simp add: ends.simps(5))
next
  case (Cons d ds)
  have "ends rx_digit (pre @ (d # ds) @ rest) (length pre) g = [(Suc (length pre), g)]"
    using Cons.prems(1) by (simp add: rx_digit_def digit_in_set)
  moreover have "ends (Star rx_digit) (pre @ (d # ds) @ rest) (Suc (length pre)) g =
      map (\<lambda>k. (k, g)) (rev [Suc (length pre)..<Suc (Suc (length pre) + length ds)])"
    using Cons.IH [of "pre @ [d]"] Cons.prems by simp
  ultimately show ?case
    by (subst ends.simps(5)) (simp add: upt_rec [of "length pre"] del: upt_Suc)
qed

text \<open>A run of digits followed by something that cannot start at a digit is consumed whole.\<close>

lemma digits_ends:
  assumes "list_all is_digit ds" "ds \<noteq> []" "case rest of [] \<Rightarrow> True | c # _ \<Rightarrow> \<not> is_digit c"
  shows "ends digits (pre @ ds @ rest) (length pre) g = map (\<lambda>k. (k, g)) (rev [Suc (length pre)..<Suc (length pre + length ds)])"
proof -
  obtain d ds' where ds: "ds = d # ds'" using assms(2) by (cases ds) auto
  have "ends rx_digit (pre @ ds @ rest) (length pre) g = [(Suc (length pre), g)]"
    using assms(1) by (simp add: ds rx_digit_def digit_in_set)
  moreover have "ends (Star rx_digit) (pre @ ds @ rest) (Suc (length pre)) g =
      map (\<lambda>k. (k, g)) (rev [Suc (length pre)..<Suc (length pre + length ds)])"
    using star_digits [of ds' rest "pre @ [d]" g] assms(1,3) by (simp add: ds)
  ultimately show ?thesis by (simp add: digits_def at_least_def)
qed

lemma last_of_run:
  assumes "\<And>k. a \<le> k \<Longrightarrow> k < b \<Longrightarrow> f k = []" "a \<le> b"
  shows "concat (map f (rev [a..<Suc b])) = f b"
proof -
  have "concat (map f (rev [a..<b])) = []" using assms(1) by auto
  with assms(2) show ?thesis by simp
qed

lemma digits_seq:
  assumes "list_all is_digit ds" "ds \<noteq> []" "case rest of [] \<Rightarrow> True | c # _ \<Rightarrow> \<not> is_digit c" "no_digit q"
  shows "ends (Seq digits q) (pre @ ds @ rest) (length pre) g = ends q (pre @ ds @ rest) (length (pre @ ds)) g"
    and "ends (Seq (Grp m digits) q) (pre @ ds @ rest) (length pre) g =
           ends q (pre @ ds @ rest) (length (pre @ ds)) ((m, length pre, length (pre @ ds)) # g)"
proof -
  let ?s = "pre @ ds @ rest" and ?b = "length pre + length ds"
  have inside: "ends q ?s k h = []" if "Suc (length pre) \<le> k" "k < ?b" for k h
  proof -
    from that have "?s ! k = ds ! (k - length pre)" "k - length pre < length ds" by (auto simp: nth_append)
    with assms(1) have "is_digit (?s ! k)" by (simp add: list_all_length)
    with assms(4) that show ?thesis by (simp add: no_digit_def)
  qed
  have run: "ends digits ?s (length pre) g = map (\<lambda>k. (k, g)) (rev [Suc (length pre)..<Suc ?b])"
    by (rule digits_ends [OF assms(1-3)])
  have le: "Suc (length pre) \<le> ?b" using assms(2) by (cases ds) auto
  show "ends (Seq digits q) ?s (length pre) g = ends q ?s (length (pre @ ds)) g"
    using last_of_run [OF _ le, of "\<lambda>k. ends q ?s k g"] inside by (simp add: run comp_def del: upt_Suc)
  show "ends (Seq (Grp m digits) q) ?s (length pre) g = ends q ?s (length (pre @ ds)) ((m, length pre, length (pre @ ds)) # g)"
    using last_of_run [OF _ le, of "\<lambda>k. ends q ?s k ((m, length pre, k) # g)"] inside
    by (simp add: run comp_def del: upt_Suc)
qed


section \<open>Patches git prints\<close>

record hunk =
  old_start :: nat
  old_count :: "nat option"  \<comment> \<open>None: the count 1 is not printed\<close>
  new_start :: nat
  new_count :: "nat option"
  section_text :: string
  body :: "string list"

definition count_text :: "nat option \<Rightarrow> string" where
  "count_text c = (case c of None \<Rightarrow> [] | Some n \<Rightarrow> CHR '','' # nat_str n)"

definition header_text :: "hunk \<Rightarrow> string" where
  "header_text h = ''@@ -'' @ nat_str (old_start h) @ count_text (old_count h) @ '' +'' @ nat_str (new_start h)
     @ count_text (new_count h) @ '' @@'' @ section_text h"

definition added_lines :: "hunk \<Rightarrow> nat" where
  "added_lines h = (case new_count h of None \<Rightarrow> 1 | Some n \<Rightarrow> n)"

lemma nat_str_digit_list: "list_all is_digit (nat_str n) \<and> nat_str n \<noteq> []"
  by (simp add: nat_str_digits) (subst nat_str.simps, simp)

lemma comma_not_digit: "\<not> is_digit CHR '',''" "\<not> is_digit CHR '' ''"
  by (simp_all add: is_digit_def code_of_def)

lemma optional_count:
  assumes q: "no_digit q" "\<And>s k g. k < length s \<Longrightarrow> s ! k = CHR '','' \<Longrightarrow> ends q s k g = []"
    and rest: "case rest of [] \<Rightarrow> True | c # _ \<Rightarrow> \<not> is_digit c \<and> c \<noteq> CHR '',''"
  shows "ends (Seq (opt (Seq (lit '','') digits)) q) (pre @ count_text c @ rest) (length pre) g =
      ends q (pre @ count_text c @ rest) (length (pre @ count_text c)) g"
    and "ends (Seq (opt (Seq (lit '','') (Grp m digits))) q) (pre @ count_text c @ rest) (length pre) g =
      ends q (pre @ count_text c @ rest) (length (pre @ count_text c))
        (case c of None \<Rightarrow> g | Some n \<Rightarrow> (m, Suc (length pre), length (pre @ count_text c)) # g)"
proof -
  let ?s = "pre @ count_text c @ rest"
  have rest': "case rest of [] \<Rightarrow> True | c # _ \<Rightarrow> \<not> is_digit c" using rest by (cases rest) auto
  show "ends (Seq (opt (Seq (lit '','') digits)) q) ?s (length pre) g = ends q ?s (length (pre @ count_text c)) g"
  proof (cases c)
    case None
    then show ?thesis using rest by (cases rest) (auto simp: count_text_def opt_def ends_lit1)
  next
    case (Some n)
    have "ends (Seq (Seq (lit '','') digits) q) ?s (length pre) g = ends (Seq digits q) ?s (length (pre @ '','')) g"
      unfolding ends_assoc by (simp add: Some count_text_def ends_lit1)
    also have "\<dots> = ends q ?s (length (pre @ count_text c)) g"
      using digits_seq(1) [of "nat_str n" rest q "pre @ '',''" g] nat_str_digit_list [of n] rest' q(1)
      by (simp add: Some count_text_def)
    finally show ?thesis
      using q(2) [of "length pre" ?s g] by (simp only: opt_def ends_alt_seq ends_eps_seq) (simp add: Some count_text_def)
  qed
  show "ends (Seq (opt (Seq (lit '','') (Grp m digits))) q) ?s (length pre) g = ends q ?s (length (pre @ count_text c))
      (case c of None \<Rightarrow> g | Some n \<Rightarrow> (m, Suc (length pre), length (pre @ count_text c)) # g)"
  proof (cases c)
    case None
    then show ?thesis using rest by (cases rest) (auto simp: count_text_def opt_def ends_lit1)
  next
    case (Some n)
    have "ends (Seq (Seq (lit '','') (Grp m digits)) q) ?s (length pre) g = ends (Seq (Grp m digits) q) ?s (length (pre @ '','')) g"
      unfolding ends_assoc by (simp add: Some count_text_def ends_lit1)
    also have "\<dots> = ends q ?s (length (pre @ count_text c)) ((m, Suc (length pre), length (pre @ count_text c)) # g)"
      using digits_seq(2) [of "nat_str n" rest q m "pre @ '',''" g] nat_str_digit_list [of n] rest' q(1)
      by (simp add: Some count_text_def)
    finally show ?thesis
      using q(2) [of "length pre" ?s g] by (simp only: opt_def ends_alt_seq ends_eps_seq) (simp add: Some count_text_def)
  qed
qed

lemma count_rest: "case count_text c @ CHR '' '' # r of [] \<Rightarrow> True | d # _ \<Rightarrow> \<not> is_digit d"
  by (cases c) (simp_all add: count_text_def comma_not_digit)

lemma blank_rest: "case CHR '' '' # r of [] \<Rightarrow> True | c # _ \<Rightarrow> \<not> is_digit c \<and> c \<noteq> CHR '',''"
  by (simp add: comma_not_digit)

text \<open>What follows the old count and the new count: neither starts at a digit or a comma.\<close>

abbreviation after_old :: rx where
  "after_old \<equiv> Seq (lit '' +'') (Seq (Grp 1 digits) (Seq (opt (Seq (lit '','') (Grp 2 digits))) (lit '' @@'')))"

lemma after_counts:
  "no_digit after_old" "no_digit (lit '' @@'')"
  "k < length s \<Longrightarrow> s ! k = CHR '','' \<Longrightarrow> ends after_old s k g = []"
  "k < length s \<Longrightarrow> s ! k = CHR '','' \<Longrightarrow> ends (lit '' @@'') s k g = []"
  "no_digit (Seq (opt (Seq (lit '','') digits)) after_old)"
  "no_digit (Seq (opt (Seq (lit '','') (Grp 2 digits))) (lit '' @@''))"
proof -
  show old: "no_digit after_old" by (intro no_digit_seq no_digit_lit comma_not_digit)
  show new: "no_digit (lit '' @@'')" by (intro no_digit_lit comma_not_digit)
  show "k < length s \<Longrightarrow> s ! k = CHR '','' \<Longrightarrow> ends after_old s k g = []"
    "k < length s \<Longrightarrow> s ! k = CHR '','' \<Longrightarrow> ends (lit '' @@'') s k g = []"
    by (simp_all add: ends_lit1)
  show "no_digit (Seq (opt (Seq (lit '','') digits)) after_old)"
    "no_digit (Seq (opt (Seq (lit '','') (Grp 2 digits))) (lit '' @@''))"
    by (intro no_digit_opt no_digit_seq no_digit_lit comma_not_digit old new)+
qed

lemma header_groups:
  defines "p2 \<equiv> \<lambda>h. ''@@ -'' @ nat_str (old_start h) @ count_text (old_count h) @ '' +''"
  defines "p3 \<equiv> \<lambda>h. p2 h @ nat_str (new_start h)"
  defines "p4 \<equiv> \<lambda>h. p3 h @ count_text (new_count h)"
  shows "match_at hunk_header (header_text h) 0 = Some (length (p4 h @ '' @@''),
     case new_count h of None \<Rightarrow> [(1, length (p2 h), length (p3 h))]
     | Some n \<Rightarrow> [(2, Suc (length (p3 h)), length (p4 h)), (1, length (p2 h), length (p3 h))])"
proof -
  let ?A = "nat_str (old_start h)" and ?C = "nat_str (new_start h)"
  let ?a = "count_text (old_count h)" and ?c = "count_text (new_count h)" and ?t = "section_text h"
  let ?s = "header_text h"
  let ?new = "Seq (opt (Seq (lit '','') (Grp 2 digits))) (lit '' @@'')"
  have s: "?s = ''@@ -'' @ ?A @ ?a @ '' +'' @ ?C @ ?c @ '' @@'' @ ?t" by (simp add: header_text_def)
  have "ends hunk_header ?s 0 [] =
      ends (Seq digits (Seq (opt (Seq (lit '','') digits)) after_old)) ?s (length ''@@ -'') []"
    using ends_lit_seq [of "''@@ -''" "Seq digits (Seq (opt (Seq (lit '','') digits)) after_old)" "[]"] s
    by (simp add: hunk_header_def del: lit.simps)
  also have "\<dots> = ends (Seq (opt (Seq (lit '','') digits)) after_old) ?s (length (''@@ -'' @ ?A)) []"
    using digits_seq(1) [of ?A "?a @ '' +'' @ ?C @ ?c @ '' @@'' @ ?t" _ "''@@ -''" "[]"]
      nat_str_digit_list after_counts(5) count_rest s by simp
  also have "\<dots> = ends after_old ?s (length (''@@ -'' @ ?A @ ?a)) []"
    using optional_count(1) [of after_old "'' +'' @ ?C @ ?c @ '' @@'' @ ?t" "''@@ -'' @ ?A" "old_count h" "[]"]
      after_counts(1,3) blank_rest s by simp
  also have "\<dots> = ends (Seq (Grp 1 digits) ?new) ?s (length (p2 h)) []"
    using ends_lit_seq [of "'' +''" "Seq (Grp 1 digits) ?new" "''@@ -'' @ ?A @ ?a"] s
    by (simp add: p2_def del: lit.simps)
  also have "\<dots> = ends ?new ?s (length (p3 h)) [(1, length (p2 h), length (p3 h))]"
    using digits_seq(2) [of ?C "?c @ '' @@'' @ ?t" ?new 1 "p2 h" "[]"]
      nat_str_digit_list after_counts(6) count_rest s by (simp add: p2_def p3_def)
  also have "\<dots> = ends (lit '' @@'') ?s (length (p4 h))
      (case new_count h of None \<Rightarrow> [(1, length (p2 h), length (p3 h))]
       | Some n \<Rightarrow> [(2, Suc (length (p3 h)), length (p4 h)), (1, length (p2 h), length (p3 h))])"
    using optional_count(2) [of "lit '' @@''" "'' @@'' @ ?t" 2 "p3 h" "new_count h"]
      after_counts(2,4) blank_rest s
    by (cases "new_count h") (simp_all add: p2_def p3_def p4_def del: ends.simps lit.simps)
  also have "\<dots> = [(length (p4 h @ '' @@''), case new_count h of None \<Rightarrow> [(1, length (p2 h), length (p3 h))]
       | Some n \<Rightarrow> [(2, Suc (length (p3 h)), length (p4 h)), (1, length (p2 h), length (p3 h))])]"
    using ends_lit_at [of "'' @@''" "p4 h" ?t] s by (simp add: p2_def p3_def p4_def del: lit.simps)
  finally show ?thesis by (simp add: match_at_def)
qed

lemma slice_middle: "take (length (pre @ w) - length pre) (drop (length pre) (pre @ w @ rest)) = w"
  by simp

lemma hunk_span_header:
  "hunk_span (header_text h) =
     (if 0 < added_lines h then Some (new_start h, new_start h + added_lines h - 1) else None)"
proof -
  let ?p2 = "''@@ -'' @ nat_str (old_start h) @ count_text (old_count h) @ '' +''"
  let ?p3 = "?p2 @ nat_str (new_start h)"
  let ?C = "nat_str (new_start h)" and ?rest = "count_text (new_count h) @ '' @@'' @ section_text h"
  have s: "header_text h = ?p2 @ ?C @ ?rest" by (simp add: header_text_def)
  have one: "take (length ?p3 - length ?p2) (drop (length ?p2) (header_text h)) = ?C"
    unfolding s by (rule slice_middle)
  show ?thesis
  proof (cases "new_count h")
    case None
    with one show ?thesis
      by (simp add: hunk_span_def header_groups group_text_def digits_val_nat_str added_lines_def Let_def)
  next
    case (Some n)
    have s2: "header_text h = (?p3 @ '','') @ nat_str n @ '' @@'' @ section_text h"
      by (simp add: header_text_def Some count_text_def)
    have two: "take (length ((?p3 @ '','') @ nat_str n) - length (?p3 @ '','')) (drop (length (?p3 @ '','')) (header_text h)) = nat_str n"
      unfolding s2 by (rule slice_middle)
    from one two Some show ?thesis
      by (simp add: hunk_span_def header_groups group_text_def digits_val_nat_str added_lines_def count_text_def Let_def)
  qed
qed

text \<open>A patch: the lines before the first hunk, then every hunk with its header and its body.\<close>

definition hunk_lines :: "hunk \<Rightarrow> string list" where
  "hunk_lines h = header_text h # body h"

definition patch_text :: "string list \<Rightarrow> hunk list \<Rightarrow> string" where
  "patch_text preamble hs = concat (map (\<lambda>l. l @ [CHR 0x0A]) (preamble @ concat (map hunk_lines hs)))"

text \<open>A line no header can be read from: its first character is not the at sign, and it is one line.\<close>

definition plain_diff_line :: "string \<Rightarrow> bool" where
  "plain_diff_line l = (one_line l \<and> (case l of [] \<Rightarrow> True | c # _ \<Rightarrow> c \<noteq> CHR ''@''))"

definition plain_hunk :: "hunk \<Rightarrow> bool" where
  "plain_hunk h = (one_line (section_text h) \<and> list_all plain_diff_line (body h))"

definition span_of :: "hunk \<Rightarrow> (nat \<times> nat) option" where
  "span_of h = (if 0 < added_lines h then Some (new_start h, new_start h + added_lines h - 1) else None)"

lemma digit_no_break: "is_digit c \<Longrightarrow> \<not> is_break c"
  by (auto simp: is_digit_def is_break_def Let_def)

lemma one_line_simps:
  "one_line (a @ b) \<longleftrightarrow> one_line a \<and> one_line b" "one_line [] = True"
  "one_line (c # b) \<longleftrightarrow> \<not> is_break c \<and> one_line b"
  by (simp_all add: one_line_def)

lemma nat_str_one_line: "one_line (nat_str n)"
  using nat_str_digits [of n] by (auto simp: one_line_def list_all_iff digit_no_break)

lemma header_one_line: "one_line (section_text h) \<Longrightarrow> one_line (header_text h)"
  by (auto simp: header_text_def count_text_def one_line_simps nat_str_one_line is_break_def code_of_def split: option.splits)

lemma plain_no_span:
  assumes "plain_diff_line l"
  shows "hunk_span l = None"
proof -
  have "ends (lit ''@@ -'') l 0 [] = []"
    using assms by (cases l) (simp_all add: plain_diff_line_def ends_lit1)
  then have "ends hunk_header l 0 [] = []" by (simp add: hunk_header_def del: lit.simps)
  then show ?thesis by (simp add: hunk_span_def match_at_def)
qed

lemma map_filter_append: "List.map_filter f (xs @ ys) = List.map_filter f xs @ List.map_filter f ys"
  by (induction xs) (simp_all add: List.map_filter_simps split: option.split)

lemma plain_lines_no_span: "list_all plain_diff_line ls \<Longrightarrow> List.map_filter hunk_span ls = []"
  by (induction ls) (simp_all add: List.map_filter_simps plain_no_span)

lemma patch_lines:
  assumes "list_all plain_diff_line preamble" "list_all plain_hunk hs"
  shows "py_splitlines (patch_text preamble hs) = preamble @ concat (map hunk_lines hs)"
  unfolding patch_text_def
  by (rule splitlines_lines)
    (use assms in \<open>auto simp: list_all_iff plain_diff_line_def plain_hunk_def hunk_lines_def header_one_line\<close>)

lemma patch_intervals:
  assumes "list_all plain_diff_line preamble" "list_all plain_hunk hs"
  shows "added_intervals_from_patch (patch_text preamble hs) = List.map_filter span_of hs"
proof -
  have "List.map_filter hunk_span (concat (map hunk_lines hs)) = List.map_filter span_of hs"
    using assms(2)
  proof (induction hs)
    case (Cons h hs)
    then show ?case
      by (simp add: hunk_lines_def List.map_filter_simps map_filter_append plain_lines_no_span plain_hunk_def
          hunk_span_header span_of_def)
  qed (simp add: List.map_filter_simps)
  then show ?thesis
    using assms(1) by (simp add: added_intervals_from_patch_def patch_lines [OF assms] map_filter_append plain_lines_no_span)
qed

text \<open>
  Reading a patch back gives the spans its hunks add, one interval for every hunk that adds a
  line and none for pure deletions, whatever counts git leaves out.
\<close>

theorem patch_intervals_roundtrip:
  assumes "list_all plain_diff_line preamble" "list_all plain_hunk hs"
  shows "added_intervals_from_patch (patch_text preamble hs) = List.map_filter span_of hs"
  using assms by (rule patch_intervals)

definition sample_hunks :: "hunk list" where
  "sample_hunks =
     [\<lparr>old_start = 3, old_count = Some 0, new_start = 4, new_count = Some 2, section_text = '' def f'', body = [''+a'', ''+b'']\<rparr>,
      \<lparr>old_start = 9, old_count = None, new_start = 11, new_count = Some 0, section_text = [], body = [''-c'']\<rparr>,
      \<lparr>old_start = 20, old_count = None, new_start = 21, new_count = None, section_text = [], body = [''-d'', ''+e'']\<rparr>]"

lemma sample_plain: "list_all plain_diff_line [''diff --git a/x b/x'', ''--- a/x'', ''+++ b/x'']" "list_all plain_hunk sample_hunks"
  by code_simp+

theorem patch_intervals_roundtrip_witness:
  "added_intervals_from_patch (patch_text [''diff --git a/x b/x'', ''--- a/x'', ''+++ b/x''] sample_hunks) = [(4, 5), (21, 21)]"
  unfolding patch_intervals_roundtrip [OF sample_plain]
  by (simp add: sample_hunks_def span_of_def added_lines_def List.map_filter_simps)

text \<open>
  \<open>str.splitlines\<close> also breaks at a form feed: text behind a form feed in an added line is
  read as a line of the patch, and if it looks like a header the file gets an interval that no
  hunk has.
\<close>

theorem form_feed_forges_interval:
  "added_intervals_from_patch (''@@ -1 +1 @@'' @ [CHR 0x0A] @ ''+x'' @ [CHR 0x0C] @ ''@@ -0,0 +1,999 @@'' @ [CHR 0x0A])
     = [(1, 1), (1, 999)]"
  by code_simp

section \<open>Lines that are broken in the reading\<close>

text \<open>
  A line of a patch as git prints it: it holds no line feed, and it does not begin with an at sign
  (a line of a hunk begins with a blank, a sign or a backslash). What \<open>str.splitlines\<close> makes of
  the rest of a line, behind another line boundary in it, are its hidden lines.
\<close>

definition diff_line :: "string \<Rightarrow> bool" where
  "diff_line l = (CHR 0x0A \<notin> set l \<and> (case l of [] \<Rightarrow> True | c # _ \<Rightarrow> c \<noteq> CHR ''@''))"

definition printed_hunk :: "hunk \<Rightarrow> bool" where
  "printed_hunk h = (CHR 0x0A \<notin> set (section_text h) \<and> list_all diff_line (body h))"

definition patch_line_list :: "string list \<Rightarrow> hunk list \<Rightarrow> string list" where
  "patch_line_list preamble hs = preamble @ concat (map hunk_lines hs)"

definition hidden_lines :: "string \<Rightarrow> string list" where
  "hidden_lines l = tl (py_splitlines (l @ [CHR 0x0A]))"

lemma splitlines_some: "cs \<noteq> [] \<Longrightarrow> py_splitlines cs \<noteq> []"
  by (cases cs) (auto split: list.split)

lemma splitlines_ended: "py_splitlines ((l @ [CHR 0x0A]) @ rest) = py_splitlines (l @ [CHR 0x0A]) @ py_splitlines rest"
proof (induction l rule: py_splitlines.induct)
  case 1
  show ?case by (simp add: is_break_def code_of_def after_break_def)
next
  case (2 c cs)
  show ?case
  proof (cases "is_break c")
    case True
    show ?thesis
    proof (cases "c = CHR 0x0D \<and> cs = []")
      case True
      then show ?thesis by (simp add: is_break_def code_of_def after_break_def)
    next
      case False
      then have "after_break c (cs @ u) = after_break c cs @ u" if "u \<noteq> []" for u
        by (cases cs) (auto simp: after_break_def)
      with 2 True show ?thesis by simp
    qed
  next
    case False
    with 2 splitlines_some [of "cs @ [CHR 0x0A]"] show ?thesis
      by (cases "py_splitlines (cs @ [CHR 0x0A])") simp_all
  qed
qed

lemma splitlines_unbroken: "one_line a \<Longrightarrow> py_splitlines (a @ s @ [CHR 0x0A]) =
    (a @ hd (py_splitlines (s @ [CHR 0x0A]))) # hidden_lines s"
proof (induction a)
  case Nil
  with splitlines_some [of "s @ [CHR 0x0A]"] show ?case by (simp add: hidden_lines_def)
qed (simp add: one_line_simps)

lemma patch_pieces: "py_splitlines (patch_text preamble hs)
    = concat (map (\<lambda>l. py_splitlines (l @ [CHR 0x0A])) (patch_line_list preamble hs))"
proof -
  have "py_splitlines (concat (map (\<lambda>l. l @ [CHR 0x0A]) ls)) = concat (map (\<lambda>l. py_splitlines (l @ [CHR 0x0A])) ls)" for ls
  proof (induction ls)
    case (Cons l ls)
    with splitlines_ended [of l "concat (map (\<lambda>l. l @ [CHR 0x0A]) ls)"] show ?case by simp
  qed simp
  then show ?thesis unfolding patch_text_def patch_line_list_def by blast
qed

text \<open>The spans read from one line: those of its hidden lines, and the one of a header.\<close>

lemma no_header_span: "(case l of [] \<Rightarrow> True | c # _ \<Rightarrow> c \<noteq> CHR ''@'') \<Longrightarrow> hunk_span l = None"
proof -
  assume "case l of [] \<Rightarrow> True | c # _ \<Rightarrow> c \<noteq> CHR ''@''"
  then have "ends (lit ''@@ -'') l 0 [] = []" by (cases l) (simp_all add: ends_lit1)
  then have "ends hunk_header l 0 [] = []" by (simp add: hunk_header_def del: lit.simps)
  then show ?thesis by (simp add: hunk_span_def match_at_def)
qed

lemma line_spans:
  assumes "diff_line l"
  shows "List.map_filter hunk_span (py_splitlines (l @ [CHR 0x0A])) = List.map_filter hunk_span (hidden_lines l)"
proof -
  have "case hd (py_splitlines (l @ [CHR 0x0A])) of [] \<Rightarrow> True | c # _ \<Rightarrow> c \<noteq> CHR ''@''"
  proof (cases l)
    case Nil
    then show ?thesis by (simp add: is_break_def code_of_def after_break_def)
  next
    case (Cons c cs)
    with assms show ?thesis by (auto simp: diff_line_def split: list.split)
  qed
  with no_header_span splitlines_some [of "l @ [CHR 0x0A]"] show ?thesis
    by (cases "py_splitlines (l @ [CHR 0x0A])") (simp_all add: hidden_lines_def List.map_filter_simps)
qed

lemma header_spans:
  "List.map_filter hunk_span (py_splitlines (header_text h @ [CHR 0x0A])) =
     (case span_of h of None \<Rightarrow> [] | Some s \<Rightarrow> [s]) @ List.map_filter hunk_span (hidden_lines (section_text h))"
proof -
  let ?front = "header_text (h\<lparr>section_text := []\<rparr>)" and ?p = "hd (py_splitlines (section_text h @ [CHR 0x0A]))"
  have h: "header_text h = ?front @ section_text h" "header_text (h\<lparr>section_text := ?p\<rparr>) = ?front @ ?p"
    by (simp_all add: header_text_def)
  have "one_line ?front" by (rule header_one_line) (simp add: one_line_simps)
  then have "py_splitlines (header_text h @ [CHR 0x0A]) = header_text (h\<lparr>section_text := ?p\<rparr>) # hidden_lines (section_text h)"
    unfolding h by (simp add: splitlines_unbroken)
  moreover have "hunk_span (header_text (h\<lparr>section_text := ?p\<rparr>)) = span_of h"
    by (simp add: hunk_span_header span_of_def added_lines_def)
  ultimately show ?thesis by (simp add: List.map_filter_simps split: option.split)
qed

text \<open>The intervals of a patch: the spans of its hunks, and whatever its hidden lines look like.\<close>

definition forged_spans :: "string list \<Rightarrow> hunk list \<Rightarrow> (nat \<times> nat) list" where
  "forged_spans preamble hs =
     List.map_filter hunk_span (concat (map hidden_lines (preamble @ concat (map (\<lambda>h. section_text h # body h) hs))))"

lemma map_filter_concat: "List.map_filter f (concat xss) = concat (map (List.map_filter f) xss)"
  by (induction xss) (simp_all add: map_filter_append List.map_filter_simps)

lemma patch_spans:
  assumes "list_all diff_line preamble" "list_all printed_hunk hs"
  shows "set (added_intervals_from_patch (patch_text preamble hs)) = set (List.map_filter span_of hs) \<union> set (forged_spans preamble hs)"
proof -
  have lines: "concat (map (\<lambda>l. List.map_filter hunk_span (py_splitlines (l @ [CHR 0x0A]))) ls)
      = List.map_filter hunk_span (concat (map hidden_lines ls))" if "list_all diff_line ls" for ls
    using that by (induction ls) (simp_all add: line_spans map_filter_append List.map_filter_simps)
  have "set (concat (map (\<lambda>l. List.map_filter hunk_span (py_splitlines (l @ [CHR 0x0A]))) (concat (map hunk_lines hs))))
      = set (List.map_filter span_of hs)
        \<union> set (List.map_filter hunk_span (concat (map hidden_lines (concat (map (\<lambda>h. section_text h # body h) hs)))))"
    using assms(2)
  proof (induction hs)
    case (Cons h hs)
    then have "list_all diff_line (body h)" by (simp add: printed_hunk_def)
    with Cons lines show ?case
      by (auto simp: hunk_lines_def header_spans map_filter_append List.map_filter_simps split: option.splits)
  qed (simp add: List.map_filter_simps)
  with lines [OF assms(1)] show ?thesis
    by (simp add: added_intervals_from_patch_def patch_pieces map_filter_concat patch_line_list_def forged_spans_def
        map_filter_append comp_def) blast
qed

section \<open>From patches to reports\<close>

lemma res_bind_foldl_Inl: "foldl (tracked_step git ref) (Inl e) ps = Inl e"
  by (induction ps) (simp_all add: tracked_step_def)

lemma tracked_step_cases:
  "run_git git [''diff'', ''-U0'', ref, ''--'', p] = Inl e \<Longrightarrow> tracked_step git ref (Inr m) p = Inl e"
  "run_git git [''diff'', ''-U0'', ref, ''--'', p] = Inr patch \<Longrightarrow> tracked_step git ref (Inr m) p =
     Inr (if added_intervals_from_patch patch \<noteq> [] then AList.update p (added_intervals_from_patch patch) m else m)"
  by (simp_all add: tracked_step_def Let_def)

lemma tracked_ok:
  assumes "foldl (tracked_step git ref) (Inr m) ps = Inr m'" "q \<in> set ps"
  shows "\<exists>patch. run_git git [''diff'', ''-U0'', ref, ''--'', q] = Inr patch"
  using assms
proof (induction ps arbitrary: m)
  case (Cons p ps)
  show ?case
  proof (cases "run_git git [''diff'', ''-U0'', ref, ''--'', p]")
    case (Inl e)
    with Cons.prems show ?thesis by (simp add: tracked_step_cases(1) res_bind_foldl_Inl)
  next
    case (Inr patch)
    with Cons.prems Cons.IH show ?thesis by (auto simp only: foldl.simps tracked_step_cases(2) list.set insert_iff)
  qed
qed simp

lemma tracked_fold:
  assumes "foldl (tracked_step git ref) (Inr m) ps = Inr m'"
  shows "map_of m' q = (if q \<in> set ps then
      (case run_git git [''diff'', ''-U0'', ref, ''--'', q] of
         Inr patch \<Rightarrow> if added_intervals_from_patch patch \<noteq> [] then Some (added_intervals_from_patch patch) else map_of m q
       | Inl e \<Rightarrow> map_of m q)
      else map_of m q)"
  using assms
proof (induction ps arbitrary: m)
  case (Cons p ps)
  show ?case
  proof (cases "run_git git [''diff'', ''-U0'', ref, ''--'', p]")
    case (Inl e)
    with Cons.prems show ?thesis by (simp add: tracked_step_cases(1) res_bind_foldl_Inl)
  next
    case (Inr patch)
    let ?m = "if added_intervals_from_patch patch \<noteq> [] then AList.update p (added_intervals_from_patch patch) m else m"
    have "foldl (tracked_step git ref) (Inr ?m) ps = Inr m'"
      using Cons.prems Inr by (simp only: foldl.simps tracked_step_cases(2))
    from Cons.IH [OF this] Inr show ?thesis
      by (auto simp: update_conv' split: sum.splits if_splits)
  qed
qed simp

lemma untracked_fold: "q \<notin> set us \<Longrightarrow> map_of (foldl (untracked_step read_bytes) m us) q = map_of m q"
  by (induction us arbitrary: m) (simp_all add: untracked_step_def update_conv' Let_def)

lemma tracked_distinct:
  "foldl (tracked_step git ref) (Inr m) ps = Inr m' \<Longrightarrow> distinct (map fst m) \<Longrightarrow> distinct (map fst m')"
proof (induction ps arbitrary: m)
  case (Cons p ps)
  show ?case
  proof (cases "run_git git [''diff'', ''-U0'', ref, ''--'', p]")
    case (Inl e)
    with Cons.prems show ?thesis by (simp add: tracked_step_cases(1) res_bind_foldl_Inl)
  next
    case (Inr patch)
    with Cons show ?thesis by (simp add: tracked_step_cases(2) distinct_update split: if_splits)
  qed
qed simp

lemma untracked_distinct: "distinct (map fst m) \<Longrightarrow> distinct (map fst (foldl (untracked_step read_bytes) m us))"
  by (induction us arbitrary: m) (simp_all add: untracked_step_def Let_def distinct_update)

text \<open>Keys that tell the paths apart keep the intervals of every path.\<close>

lemma keyed_fold:
  assumes "distinct (map fst m)" "inj_on key_of (fst ` set m)" "key_of p = Some k" "p \<in> fst ` set m \<or> Some k \<notin> key_of ` fst ` set m"
  shows "map_of (foldl (\<lambda>c (path, spans). case key_of path of Some k \<Rightarrow> AList.update k spans c | None \<Rightarrow> c) c m) k
    = (case map_of m p of Some s \<Rightarrow> Some s | None \<Rightarrow> map_of c k)"
  using assms
proof (induction m arbitrary: c)
  case (Cons a m)
  obtain q s where a: "a = (q, s)" by (cases a)
  let ?c = "case key_of q of Some k \<Rightarrow> AList.update k s c | None \<Rightarrow> c"
  have "p \<in> fst ` set m \<or> Some k \<notin> key_of ` fst ` set m"
    using Cons.prems a by (auto simp: inj_on_def)
  then have IH: "map_of (foldl (\<lambda>c (path, spans). case key_of path of Some k \<Rightarrow> AList.update k spans c | None \<Rightarrow> c) ?c m) k
      = (case map_of m p of Some s \<Rightarrow> Some s | None \<Rightarrow> map_of ?c k)"
    using Cons.prems a by (intro Cons.IH) (auto simp: inj_on_def)
  show ?case
  proof (cases "q = p")
    case True
    moreover have "map_of m p = None"
      using Cons.prems(1) a True by (auto simp: map_of_eq_None_iff)
    ultimately show ?thesis using IH Cons.prems(3) by (simp add: a update_conv')
  next
    case False
    have "key_of q \<noteq> Some k"
      using Cons.prems a False by (auto simp: inj_on_def)
    then have "map_of ?c k = map_of c k" by (auto simp: update_conv' split: option.splits)
    with IH False show ?thesis by (simp add: a split: option.split)
  qed
qed simp


definition sample_patch :: string where
  "sample_patch = patch_text [''diff --git a/x b/x'', ''--- a/x'', ''+++ b/x''] sample_hunks"

definition sample_git :: git where
  "sample_git args =
     (let out = \<lambda>t. Some \<lparr>returncode = 0, stdout = t, stderr = []\<rparr> in
      if args = [''diff'', ''--name-only'', ''-z'', ''--diff-filter=d'', ''HEAD'', ''--''] then out (''x.py'' @ [CHR 0x00])
      else if args = [''ls-files'', ''--others'', ''--exclude-standard'', ''-z''] then out (''y.py'' @ [CHR 0x00])
      else if args = [''diff'', ''-U0'', ''HEAD'', ''--'', ''x.py''] then out sample_patch
      else out [])"

definition sample_bytes :: "string \<Rightarrow> string option" where
  "sample_bytes path = (if path = ''y.py'' then Some (''a'' @ [CHR 0x0A] @ ''b'') else None)"

lemma sample_run: "changed_line_intervals sample_git sample_bytes ''HEAD'' = Inr [(''x.py'', [(4, 5), (21, 21)]), (''y.py'', [(1, 2)])]"
  by code_simp

lemma sample_printed: "list_all diff_line [''diff --git a/x b/x'', ''--- a/x'', ''+++ b/x'']" "list_all printed_hunk sample_hunks"
  by code_simp+


end
