(* ===== verification/Report.thy ===== *)
theory Report
  imports Diff_Scan
begin

text \<open>
  How \<open>cli.py\<close> turns the findings of its scanners into a report: merging the groups, folding
  the CWEs that describe one defect into one row, the confidence filter, the exit status and
  the SARIF document. A row is a dictionary whose members the code reads by name; the record
  has one field for each of them and keeps the rest in \<open>r_extra\<close>.
\<close>

section \<open>Rows\<close>

record hop =
  hop_role :: string
  hop_label :: string
  hop_file :: string
  hop_line :: int

record row =
  r_file :: string
  r_line :: int
  r_cwe :: string
  r_severity :: string
  r_confidence :: "string option"
  r_category :: "string option"
  r_message :: string
  r_merged :: "string list option"  \<comment> \<open>\<open>consolidated_from\<close>\<close>
  r_related :: "string list"  \<comment> \<open>\<open>related_cwes\<close>, empty when absent\<close>
  r_trace :: "hop list"  \<comment> \<open>\<open>flow_trace\<close>, empty when absent\<close>
  r_extra :: dict

definition row_key :: "row \<Rightarrow> string \<times> int \<times> string" where
  "row_key r = (r_file r, r_line r, r_cwe r)"

definition report_identity :: "row \<Rightarrow> string \<times> int \<times> string \<times> string option" where
  "report_identity r = (r_file r, r_line r, r_cwe r, r_category r)"

text \<open>The first row of every identity, in order.\<close>

fun first_of_each :: "('a \<Rightarrow> 'k) \<Rightarrow> 'k list \<Rightarrow> 'a list \<Rightarrow> 'a list" where
  "first_of_each k seen [] = []"
| "first_of_each k seen (x # xs) =
     (if k x \<in> set seen then first_of_each k seen xs else x # first_of_each k (k x # seen) xs)"

definition merge_findings :: "row list list \<Rightarrow> row list" where
  "merge_findings groups = sort_key row_key (first_of_each report_identity [] (concat groups))"

section \<open>Families\<close>

datatype family = CRYPTO_HASH | INSECURE_COOKIE | RESOURCE_EXHAUSTION

fun family_priority :: "family \<Rightarrow> string list" where
  "family_priority CRYPTO_HASH = [''CWE-327'', ''CWE-916'', ''CWE-759'', ''CWE-328'']"
| "family_priority INSECURE_COOKIE = [''CWE-614'', ''CWE-1004'', ''CWE-1275'']"
| "family_priority RESOURCE_EXHAUSTION = [''CWE-770'', ''CWE-400'']"

definition family_of_cwe :: "string \<Rightarrow> family option" where
  "family_of_cwe cwe = find (\<lambda>f. cwe \<in> set (family_priority f)) [CRYPTO_HASH, INSECURE_COOKIE, RESOURCE_EXHAUSTION]"

definition cookie_flag :: "string \<Rightarrow> string" where
  "cookie_flag cwe = (if cwe = ''CWE-614'' then ''Secure'' else if cwe = ''CWE-1004'' then ''HttpOnly'' else ''SameSite'')"

definition severity_rank :: "string \<Rightarrow> nat" where
  "severity_rank s = (case map_of [(''LOW'', 1), (''MEDIUM'', 2), (''HIGH'', 3), (''CRITICAL'', 4)] s of
     Some n \<Rightarrow> n | None \<Rightarrow> 0)"

definition confidence_order :: "(string \<times> nat) list" where
  "confidence_order = [(''LOW'', 1), (''MEDIUM'', 2), (''HIGH'', 3)]"

definition confidence_rank :: "nat \<Rightarrow> string \<Rightarrow> nat" where
  "confidence_rank d c = (case map_of confidence_order c of Some n \<Rightarrow> n | None \<Rightarrow> d)"

text \<open>\<open>max(xs, key=...)\<close>: the first element with the greatest key.\<close>

definition py_max :: "('a \<Rightarrow> nat) \<Rightarrow> 'a \<Rightarrow> 'a list \<Rightarrow> 'a" where
  "py_max key x xs = foldl (\<lambda>m y. if key m < key y then y else m) x xs"

definition members_of :: "row list \<Rightarrow> string \<Rightarrow> row list" where
  "members_of members cwe = filter (\<lambda>m. r_cwe m = cwe) members"

definition family_message :: "family \<Rightarrow> string \<Rightarrow> row list \<Rightarrow> string" where
  "family_message fam primary members =
     (let present = filter (\<lambda>cwe. members_of members cwe \<noteq> []) (family_priority fam) in
      if fam = INSECURE_COOKIE
      then primary @ '': Insecure Cookie Configuration (Missing '' @ py_join '', '' (map cookie_flag present) @ '')''
      else
        (let source = (case members_of members primary of m # _ \<Rightarrow> r_message m | [] \<Rightarrow> []);
             operation = (if CHR '':'' \<in> set source then py_strip (snd (split_once (CHR '':'') source)) else source);
             secondaries = filter (\<lambda>cwe. cwe \<noteq> primary) present
         in primary @ '': '' @ operation
            @ (if secondaries \<noteq> [] then '' (consolidated: '' @ py_join '', '' secondaries @ '')'' else [])))"

definition member_label :: "row \<Rightarrow> string" where
  "member_label m = r_cwe m @ ''@'' @ int_str (r_line m)"

definition confidence_of :: "row \<Rightarrow> string" where
  "confidence_of m = (case r_confidence m of Some c \<Rightarrow> c | None \<Rightarrow> ''MEDIUM'')"

text \<open>
  The row of one site: the first row of the highest CWE of the family stands for all of it,
  with the greatest severity and confidence. None stands for the \<open>StopIteration\<close> of a group
  without a member of the family.
\<close>

definition consolidate_family :: "family \<Rightarrow> row list \<Rightarrow> row option" where
  "consolidate_family fam members =
     (case find (\<lambda>cwe. members_of members cwe \<noteq> []) (family_priority fam) of
        None \<Rightarrow> None
      | Some primary \<Rightarrow>
          (case (members_of members primary, members) of
             (representative # same, g # gs) \<Rightarrow>
               Some (representative\<lparr>r_cwe := primary,
                 r_line := foldl min (r_line g) (map r_line gs),
                 r_severity := py_max severity_rank (r_severity g) (map r_severity gs),
                 r_confidence := Some (py_max (confidence_rank 0) (confidence_of g) (map confidence_of gs)),
                 r_message := family_message fam primary members,
                 r_merged := Some (map member_label (concat (map (\<lambda>cwe. if cwe = primary then same else members_of members cwe)
                   (family_priority fam))))\<rparr>)
           | _ \<Rightarrow> None))"

definition site :: "row \<Rightarrow> (family \<times> string \<times> int) option" where
  "site r = map_option (\<lambda>fam. (fam, r_file r, r_line r)) (family_of_cwe (r_cwe r))"

definition bucket :: "row list \<Rightarrow> family \<times> string \<times> int \<Rightarrow> row list" where
  "bucket findings key = filter (\<lambda>f. site f = Some key) findings"

text \<open>One pass over the findings: a family site is emitted when it is first met.\<close>

fun emit_sites :: "row list \<Rightarrow> (family \<times> string \<times> int) list \<Rightarrow> row list \<Rightarrow> row list" where
  "emit_sites findings emitted [] = []"
| "emit_sites findings emitted (f # fs) =
     (case site f of
        None \<Rightarrow> f # emit_sites findings emitted fs
      | Some key \<Rightarrow>
          if key \<in> set emitted then emit_sites findings emitted fs
          else (case consolidate_family (fst key) (bucket findings key) of None \<Rightarrow> [] | Some r \<Rightarrow> [r])
               @ emit_sites findings (key # emitted) fs)"

definition consolidate_findings :: "row list \<Rightarrow> row list" where
  "consolidate_findings findings = sort_key row_key (emit_sites findings [] findings)"

section \<open>Confidence and exit status\<close>

definition default_confidence :: "row \<Rightarrow> row" where
  "default_confidence r = (case r_confidence r of None \<Rightarrow> r\<lparr>r_confidence := Some ''MEDIUM''\<rparr> | Some _ \<Rightarrow> r)"

definition filter_by_confidence :: "row list \<Rightarrow> string option \<Rightarrow> error + row list" where
  "filter_by_confidence findings minimum =
     (if minimum = None \<or> minimum = Some [] then Inr findings
      else (case map_of confidence_order (py_upper (the minimum)) of
              None \<Rightarrow> Inl (KeyError (py_upper (the minimum)))
            | Some floor \<Rightarrow>
                Inr (filter (\<lambda>f. floor \<le> confidence_rank 2 (py_upper
                  (case r_confidence f of None \<Rightarrow> ''MEDIUM'' | Some c \<Rightarrow> if c = [] then ''MEDIUM'' else c))) findings)))"

definition exit_code :: "bool \<Rightarrow> row list \<Rightarrow> int" where
  "exit_code fail_on_critical findings =
     (let blocking = (if fail_on_critical then filter (\<lambda>f. r_severity f \<in> {''CRITICAL'', ''HIGH''}) findings else findings)
      in if blocking \<noteq> [] then 1 else 0)"

section \<open>SARIF\<close>

record sarif_rule =
  rule_id :: string
  rule_name :: string
  short_text :: string
  full_text :: string
  help_uri :: string
  rule_level :: string
  rule_tags :: "string list"

record sarif_hop =
  sh_text :: string
  sh_uri :: string
  sh_line :: int
  sh_order :: int

record sarif_result =
  res_rule :: string
  res_index :: nat
  res_level :: string
  res_text :: string
  res_uri :: string
  res_line :: int
  res_tags :: "string list option"
  res_xml_input :: pyval
  res_flow :: "sarif_hop list option"

definition add_new :: "'a list \<Rightarrow> 'a \<Rightarrow> 'a list" where
  "add_new xs x = (if x \<in> set xs then xs else xs @ [x])"

definition sarif_tags :: "string \<Rightarrow> string list \<Rightarrow> string list" where
  "sarif_tags cwe related = foldl add_new [''security'', py_lower cwe] (map py_lower related)"

text \<open>\<open>re.search("\\d+", cwe)\<close>: the first run of digits.\<close>

definition first_digits :: "string \<Rightarrow> string option" where
  "first_digits cwe =
     (let ds = takeWhile is_digit (dropWhile (\<lambda>c. \<not> is_digit c) cwe) in if ds = [] then None else Some ds)"

definition sarif_rule_of :: "(string \<Rightarrow> string option) \<Rightarrow> string \<Rightarrow> string \<Rightarrow> string \<Rightarrow> string list \<Rightarrow> sarif_rule" where
  "sarif_rule_of registered cwe category severity related =
     (let short = py_replace_char (CHR ''_'') '' '' category in
      \<lparr>rule_id = cwe, rule_name = py_replace_char (CHR ''-'') ''_'' cwe, short_text = short,
       full_text = (case registered cwe of Some n \<Rightarrow> n | None \<Rightarrow> short),
       help_uri = (case first_digits cwe of
           Some ds \<Rightarrow> ''https://cwe.mitre.org/data/definitions/'' @ ds @ ''.html''
         | None \<Rightarrow> ''https://cwe.mitre.org/data/definitions/index.html''),
       rule_level = (if severity \<in> {''CRITICAL'', ''HIGH''} then ''error'' else ''warning''),
       rule_tags = sarif_tags cwe related\<rparr>)"

text \<open>The related CWEs of all findings of one CWE, without repetition.\<close>

definition related_of :: "row list \<Rightarrow> string \<Rightarrow> string list" where
  "related_of findings cwe = foldl add_new [] (concat (map r_related (filter (\<lambda>f. r_cwe f = cwe) findings)))"

text \<open>One rule for every CWE, from its first finding; a finding without a category has none to read.\<close>

definition sarif_rules :: "(string \<Rightarrow> string option) \<Rightarrow> row list \<Rightarrow> error + sarif_rule list" where
  "sarif_rules registered findings =
     seq_results (map (\<lambda>f. case r_category f of
         None \<Rightarrow> Inl (KeyError ''category'')
       | Some c \<Rightarrow> Inr (sarif_rule_of registered (r_cwe f) c (r_severity f) (related_of findings (r_cwe f))))
       (first_of_each r_cwe [] findings))"

fun position :: "'a \<Rightarrow> 'a list \<Rightarrow> nat" where
  "position x [] = 0"
| "position x (y # ys) = (if x = y then 0 else Suc (position x ys))"

definition result_level :: "string \<Rightarrow> string" where
  "result_level severity =
     (case map_of [(''CRITICAL'', ''error''), (''HIGH'', ''error''), (''MEDIUM'', ''warning''), (''LOW'', ''note''), (''UNKNOWN'', ''note'')] severity of
        Some l \<Rightarrow> l | None \<Rightarrow> ''warning'')"

definition sarif_code_flows :: "(string \<Rightarrow> string) \<Rightarrow> hop list \<Rightarrow> sarif_hop list" where
  "sarif_code_flows uri_of trace =
     map (\<lambda>(step, h). \<lparr>sh_text = hop_role h @ '' : '' @ hop_label h, sh_uri = uri_of (hop_file h),
            sh_line = max 1 (hop_line h), sh_order = int step\<rparr>) (enumerate 1 trace)"

definition sarif_result_of :: "(string \<Rightarrow> string) \<Rightarrow> string list \<Rightarrow> row \<Rightarrow> sarif_result" where
  "sarif_result_of uri_of rule_ids f =
     \<lparr>res_rule = r_cwe f, res_index = position (r_cwe f) rule_ids, res_level = result_level (r_severity f),
      res_text = r_message f, res_uri = uri_of (r_file f), res_line = max 1 (r_line f),
      res_tags = (if r_related f \<noteq> [] then Some (sarif_tags (r_cwe f) (r_related f)) else None),
      res_xml_input = dict_get ''xml_input'' PNone (r_extra f),
      res_flow = (if r_trace f \<noteq> [] then Some (sarif_code_flows uri_of (r_trace f)) else None)\<rparr>"

definition sarif_document ::
    "(string \<Rightarrow> string option) \<Rightarrow> (string \<Rightarrow> string) \<Rightarrow> row list \<Rightarrow> error + (sarif_rule list \<times> sarif_result list)" where
  "sarif_document registered uri_of findings =
     res_bind (sarif_rules registered findings) (\<lambda>rules.
       Inr (rules, map (sarif_result_of uri_of (map rule_id rules)) findings))"

section \<open>Merging\<close>

lemma first_of_each_keys: "k ` set (first_of_each k seen xs) = k ` set xs - set seen"
  by (induction k seen xs rule: first_of_each.induct) auto

lemma first_of_each_distinct: "distinct (map k (first_of_each k seen xs))"
proof (induction k seen xs rule: first_of_each.induct)
  case (2 k seen x xs)
  then show ?case using first_of_each_keys [of k "k x # seen" xs] by auto
qed simp

lemma first_of_each_subset: "set (first_of_each k seen xs) \<subseteq> set xs"
  by (induction k seen xs rule: first_of_each.induct) auto

text \<open>
  Merging keeps one row for every identity that any group reports and adds none; the report is
  sorted by file, line and CWE.
\<close>

theorem merge_keeps_identities:
  "report_identity ` set (merge_findings groups) = report_identity ` (\<Union>g \<in> set groups. set g)
   \<and> set (merge_findings groups) \<subseteq> (\<Union>g \<in> set groups. set g)
   \<and> distinct (map report_identity (merge_findings groups))
   \<and> sorted (map row_key (merge_findings groups))"
proof -
  let ?f = "first_of_each report_identity [] (concat groups)"
  have "distinct (map report_identity (sort_key row_key ?f))"
    using first_of_each_distinct [of report_identity "[]" "concat groups"]
    by (simp add: distinct_map distinct_sort)
  then show ?thesis
    using first_of_each_keys [of report_identity "[]" "concat groups"] first_of_each_subset [of report_identity "[]" "concat groups"]
    by (simp add: merge_findings_def)
qed

section \<open>Consolidation\<close>

lemma py_max_greatest:
  "(\<forall>y \<in> insert x (set xs). key y \<le> key (py_max key x xs)) \<and> py_max key x xs \<in> insert x (set xs)"
  unfolding py_max_def
proof (induction xs arbitrary: x)
  case (Cons y ys)
  from Cons.IH [of "if key x < key y then y else x"] show ?case by (auto split: if_splits)
qed simp

lemma foldl_min_const: "\<forall>y \<in> set ys. y = x \<Longrightarrow> foldl min x ys = (x :: int)"
  by (induction ys) auto

lemma family_of_member: "family_of_cwe cwe = Some fam \<Longrightarrow> cwe \<in> set (family_priority fam)"
  unfolding family_of_cwe_def by (drule found_in) simp

lemma family_of_priority: "cwe \<in> set (family_priority fam) \<Longrightarrow> family_of_cwe cwe = Some fam"
  by (cases fam) (auto simp: family_of_cwe_def)

text \<open>What a row of a report stands for: itself, or a finding of the same site folded into it.\<close>

definition accounts_for :: "row \<Rightarrow> row \<Rightarrow> bool" where
  "accounts_for r f =
     (r_file r = r_file f \<and> r_line r = r_line f \<and> severity_rank (r_severity f) \<le> severity_rank (r_severity r)
      \<and> (r_cwe r = r_cwe f \<or> (\<exists>ms. r_merged r = Some ms \<and> member_label f \<in> set ms)))"

lemma consolidate_site:
  assumes "bucket findings key \<noteq> []"
  shows "\<exists>r. consolidate_family (fst key) (bucket findings key) = Some r \<and> site r = Some key
     \<and> (\<forall>f \<in> set (bucket findings key). accounts_for r f
          \<and> confidence_rank 0 (confidence_of f) \<le> confidence_rank 0 (confidence_of r))"
proof -
  let ?g = "bucket findings key"
  define fam where "fam = fst key"
  obtain path line where key: "key = (fam, path, line)" by (cases key) (simp add: fam_def)
  have all: "family_of_cwe (r_cwe f) = Some fam \<and> r_file f = path \<and> r_line f = line" if "f \<in> set ?g" for f
    using that by (auto simp: bucket_def site_def key)
  obtain g gs where g: "?g = g # gs" using assms by (cases ?g) auto
  obtain primary where primary: "find (\<lambda>cwe. members_of ?g cwe \<noteq> []) (family_priority fam) = Some primary"
  proof (cases "find (\<lambda>cwe. members_of ?g cwe \<noteq> []) (family_priority fam)")
    case None
    have "r_cwe g \<in> set (family_priority fam)" using all [of g] g by (simp add: family_of_member)
    with None have "members_of ?g (r_cwe g) = []" by (auto simp: find_None_iff)
    moreover have "g \<in> set (members_of ?g (r_cwe g))" using g by (simp add: members_of_def)
    ultimately show ?thesis by simp
  qed
  from found_in [OF primary] have in_fam: "primary \<in> set (family_priority fam)" and some: "members_of ?g primary \<noteq> []"
    by simp_all
  from some obtain m same where m: "members_of ?g primary = m # same" by (cases "members_of ?g primary") auto
  have "m \<in> set (members_of ?g primary)" by (simp add: m)
  then have "m \<in> set ?g" "r_cwe m = primary" by (auto simp: members_of_def)
  then have rep: "r_file m = path" by (simp add: all)
  define r where "r = m\<lparr>r_cwe := primary,
      r_line := foldl min (r_line g) (map r_line gs),
      r_severity := py_max severity_rank (r_severity g) (map r_severity gs),
      r_confidence := Some (py_max (confidence_rank 0) (confidence_of g) (map confidence_of gs)),
      r_message := family_message fam primary ?g,
      r_merged := Some (map member_label (concat (map (\<lambda>cwe. if cwe = primary then same else members_of ?g cwe) (family_priority fam))))\<rparr>"
  have eq: "consolidate_family (fst key) ?g = Some r"
    unfolding consolidate_family_def fam_def [symmetric] primary option.case m by (simp add: r_def g)
  have sel: "r_line r = foldl min (r_line g) (map r_line gs)" "r_file r = path" "r_cwe r = primary"
      "r_severity r = py_max severity_rank (r_severity g) (map r_severity gs)"
      "confidence_of r = py_max (confidence_rank 0) (confidence_of g) (map confidence_of gs)"
      "r_merged r = Some (map member_label (concat (map (\<lambda>cwe. if cwe = primary then same else members_of ?g cwe) (family_priority fam))))"
    by (simp_all add: r_def rep confidence_of_def)
  have in_g: "f \<in> set ?g \<longleftrightarrow> f = g \<or> f \<in> set gs" for f by (simp add: g)
  have "\<forall>y \<in> set (map r_line gs). y = r_line g"
    using all in_g by (metis (no_types, lifting) image_iff list.set_map)
  then have line: "r_line r = line"
    using foldl_min_const [of "map r_line gs" "r_line g"] all [of g] in_g sel(1) by simp
  have "site r = Some key"
    using line family_of_priority [OF in_fam] by (simp add: site_def key sel)
  moreover have "accounts_for r f \<and> confidence_rank 0 (confidence_of f) \<le> confidence_rank 0 (confidence_of r)"
    if f: "f \<in> set ?g" for f
  proof -
    have mem: "r_severity f \<in> insert (r_severity g) (set (map r_severity gs))"
      "confidence_of f \<in> insert (confidence_of g) (set (map confidence_of gs))"
      using f in_g by auto
    have "severity_rank (r_severity f) \<le> severity_rank (r_severity r)"
      unfolding sel(4) by (rule bspec [OF conjunct1 [OF py_max_greatest] mem(1)])
    moreover have "confidence_rank 0 (confidence_of f) \<le> confidence_rank 0 (confidence_of r)"
      unfolding sel(5) by (rule bspec [OF conjunct1 [OF py_max_greatest] mem(2)])
    moreover have "r_cwe r = r_cwe f \<or> (\<exists>ms. r_merged r = Some ms \<and> member_label f \<in> set ms)"
    proof (cases "r_cwe f = primary")
      case False
      have "f \<in> set (members_of ?g (r_cwe f))" "r_cwe f \<in> set (family_priority fam)"
        using f all [OF f] family_of_member by (auto simp: members_of_def)
      with False show ?thesis unfolding sel by (auto intro!: image_eqI [of _ member_label f])
    qed (simp add: sel)
    ultimately show ?thesis using all [OF f] line by (simp add: accounts_for_def sel)
  qed
  ultimately show ?thesis using eq by blast
qed

lemma site_in_bucket: "f \<in> set findings \<Longrightarrow> site f = Some key \<Longrightarrow> f \<in> set (bucket findings key)"
  by (simp add: bucket_def)

lemma consolidate_met:
  assumes "f \<in> set findings" "site f = Some key"
  shows "\<exists>r. consolidate_family (fst key) (bucket findings key) = Some r \<and> site r = Some key \<and> accounts_for r f"
proof -
  have f: "f \<in> set (bucket findings key)" using assms by (rule site_in_bucket)
  then have "bucket findings key \<noteq> []" by (metis empty_iff list.set(1))
  from consolidate_site [OF this] f show ?thesis by blast
qed

lemma emit_covers:
  "set fs \<subseteq> set findings \<Longrightarrow> f \<in> set fs \<Longrightarrow>
     (case site f of
        None \<Rightarrow> f \<in> set (emit_sites findings emitted fs)
      | Some key \<Rightarrow> key \<in> set emitted \<or> (\<exists>r \<in> set (emit_sites findings emitted fs).
            consolidate_family (fst key) (bucket findings key) = Some r))"
proof (induction findings emitted fs rule: emit_sites.induct)
  case (2 findings emitted x fs)
  show ?case
  proof (cases "site x")
    case None
    with 2 show ?thesis by (auto split: option.splits)
  next
    case (Some key)
    show ?thesis
    proof (cases "key \<in> set emitted")
      case True
      with Some 2 show ?thesis by (auto split: option.splits)
    next
      case False
      obtain r where r: "consolidate_family (fst key) (bucket findings key) = Some r"
        using consolidate_met [of x findings key] "2.prems"(1) Some by auto
      with Some False 2 show ?thesis by (auto split: option.splits)
    qed
  qed
qed simp

lemma emit_origin:
  "set fs \<subseteq> set findings \<Longrightarrow> r \<in> set (emit_sites findings emitted fs) \<Longrightarrow>
     (case site r of None \<Rightarrow> r \<in> set fs
      | Some key \<Rightarrow> key \<notin> set emitted \<and> consolidate_family (fst key) (bucket findings key) = Some r)"
proof (induction findings emitted fs rule: emit_sites.induct)
  case (2 findings emitted x fs)
  show ?case
  proof (cases "site x")
    case None
    with 2 show ?thesis by (auto split: option.splits)
  next
    case (Some key)
    show ?thesis
    proof (cases "key \<in> set emitted")
      case True
      with Some 2 show ?thesis by (auto split: option.splits)
    next
      case False
      obtain q where q: "consolidate_family (fst key) (bucket findings key) = Some q" "site q = Some key"
        using consolidate_met [of x findings key] "2.prems"(1) Some by auto
      from "2.prems"(2) Some False q consider "r = q" | "r \<in> set (emit_sites findings (key # emitted) fs)" by auto
      then show ?thesis
      proof cases
        case 1
        with q False show ?thesis by simp
      next
        case 2
        with Some False "2.IH"(3) "2.prems"(1) show ?thesis by (auto split: option.splits)
      qed
    qed
  qed
qed simp

lemma emit_distinct:
  "set fs \<subseteq> set findings \<Longrightarrow> distinct (List.map_filter site (emit_sites findings emitted fs))"
proof (induction findings emitted fs rule: emit_sites.induct)
  case (2 findings emitted x fs)
  show ?case
  proof (cases "site x")
    case None
    with 2 show ?thesis by (simp add: List.map_filter_simps)
  next
    case (Some key)
    show ?thesis
    proof (cases "key \<in> set emitted")
      case True
      with Some 2 show ?thesis by simp
    next
      case False
      obtain q where q: "consolidate_family (fst key) (bucket findings key) = Some q" "site q = Some key"
        using consolidate_met [of x findings key] "2.prems"(1) Some by auto
      have "key \<notin> set (List.map_filter site (emit_sites findings (key # emitted) fs))"
        using emit_origin [of fs findings _ "key # emitted"] "2.prems"(1)
        by (fastforce simp: List.map_filter_def split: option.splits)
      with Some False q 2 show ?thesis by (simp add: List.map_filter_simps)
    qed
  qed
qed (simp add: List.map_filter_simps)

lemma map_filter_sort: "distinct (List.map_filter f (sort_key k xs)) = distinct (List.map_filter f xs)"
  by (simp add: List.map_filter_def filter_sort distinct_map distinct_sort)

text \<open>
  C13: consolidation loses nothing: every finding has a row of the report at its place, at least as
  severe, that carries its CWE or lists it among the findings folded into it; and the CWEs of
  one family leave one row at each line.
\<close>

theorem consolidation_accounts_for_all:
  assumes "f \<in> set findings"
  shows "(\<exists>r \<in> set (consolidate_findings findings). accounts_for r f)
     \<and> distinct (List.map_filter site (consolidate_findings findings))
     \<and> sorted (map row_key (consolidate_findings findings))"
proof -
  have "\<exists>r \<in> set (emit_sites findings [] findings). accounts_for r f"
  proof (cases "site f")
    case None
    with emit_covers [of findings findings f "[]"] assms show ?thesis
      by (intro bexI [of _ f]) (simp_all add: accounts_for_def)
  next
    case (Some key)
    with emit_covers [of findings findings f "[]"] assms
    obtain r where r: "r \<in> set (emit_sites findings [] findings)"
        "consolidate_family (fst key) (bucket findings key) = Some r" by auto
    with consolidate_met [OF assms Some] have "accounts_for r f" by auto
    with r(1) show ?thesis by blast
  qed
  moreover have "distinct (List.map_filter site (consolidate_findings findings))"
    unfolding consolidate_findings_def map_filter_sort by (rule emit_distinct) simp
  ultimately show ?thesis by (simp add: consolidate_findings_def)
qed

section \<open>SARIF references\<close>

lemma position_in: "x \<in> set xs \<Longrightarrow> position x xs < length xs \<and> xs ! position x xs = x"
  by (induction xs) auto

text \<open>
  Every result of a SARIF document points at the rule of its own CWE, every CWE has one rule,
  and the results are the findings in order.
\<close>

theorem sarif_indexes_valid:
  assumes "sarif_document registered uri_of findings = Inr (rules, results)"
  shows "list_all (\<lambda>r. res_index r < length rules \<and> rule_id (rules ! res_index r) = res_rule r \<and> 1 \<le> res_line r) results
     \<and> distinct (map rule_id rules) \<and> map res_rule results = map r_cwe findings"
proof -
  from assms have rules: "sarif_rules registered findings = Inr rules"
    and results: "results = map (sarif_result_of uri_of (map rule_id rules)) findings"
    by (auto simp: sarif_document_def res_bind_Inr_iff)
  have "list_all2 (\<lambda>f r. rule_id r = r_cwe f) (first_of_each r_cwe [] findings) rules"
    using rules unfolding sarif_rules_def seq_map_Inr
    by (rule list_all2_mono) (auto simp: sarif_rule_of_def Let_def split: option.splits)
  then have ids: "map rule_id rules = map r_cwe (first_of_each r_cwe [] findings)"
    by (induction rule: list_all2_induct) simp_all
  have mem: "r_cwe f \<in> set (map rule_id rules)" if "f \<in> set findings" for f
    using first_of_each_keys [of r_cwe "[]" findings] that by (simp add: ids)
  have "res_index (sarif_result_of uri_of (map rule_id rules) f) < length rules
      \<and> rule_id (rules ! res_index (sarif_result_of uri_of (map rule_id rules) f)) = r_cwe f" if "f \<in> set findings" for f
    using position_in [OF mem [OF that]] by (auto simp: sarif_result_of_def)
  then show ?thesis
    using first_of_each_distinct [of r_cwe "[]" findings]
    by (auto simp: results list_all_iff ids) (simp_all add: sarif_result_of_def)
qed

section \<open>Samples, and suppression after consolidation\<close>

text \<open>The members of a row that suppression reads.\<close>

definition row_dict :: "row \<Rightarrow> dict" where
  "row_dict r = [(''file'', PStr (r_file r)), (''line'', PInt (r_line r)), (''cwe'', PStr (r_cwe r)),
     (''severity'', PStr (r_severity r)), (''message'', PStr (r_message r))]"

definition sample_report_row :: "string \<Rightarrow> string \<Rightarrow> string \<Rightarrow> row" where
  "sample_report_row cwe severity message =
     \<lparr>r_file = ''a.py'', r_line = 3, r_cwe = cwe, r_severity = severity, r_confidence = None, r_category = Some ''COOKIE'',
      r_message = message, r_merged = None, r_related = [], r_trace = [], r_extra = []\<rparr>"

definition cookie_rows :: "row list" where
  "cookie_rows = [sample_report_row ''CWE-1004'' ''HIGH'' ''no HttpOnly'', sample_report_row ''CWE-614'' ''MEDIUM'' ''no Secure'',
     sample_report_row ''CWE-79'' ''HIGH'' ''xss'']"

lemma cookie_consolidated:
  "map (\<lambda>r. (r_cwe r, r_severity r, r_message r, r_merged r)) (consolidate_findings cookie_rows) =
     [(''CWE-614'', ''HIGH'', ''CWE-614: Insecure Cookie Configuration (Missing Secure, HttpOnly)'', Some [''CWE-1004@3'']),
      (''CWE-79'', ''HIGH'', ''xss'', None)]"
  by code_simp

theorem consolidation_accounts_for_all_witness:
  "\<exists>r \<in> set (consolidate_findings cookie_rows). accounts_for r (sample_report_row ''CWE-1004'' ''HIGH'' ''no HttpOnly'')"
  using consolidation_accounts_for_all [of "sample_report_row ''CWE-1004'' ''HIGH'' ''no HttpOnly''" cookie_rows]
  by (simp add: cookie_rows_def)

definition cookie_rules :: "sarif_rule list" where
  "cookie_rules = (case sarif_document (\<lambda>c. None) (\<lambda>f. f) cookie_rows of Inr (rules, _) \<Rightarrow> rules | Inl _ \<Rightarrow> [])"

definition cookie_results :: "sarif_result list" where
  "cookie_results = (case sarif_document (\<lambda>c. None) (\<lambda>f. f) cookie_rows of Inr (_, results) \<Rightarrow> results | Inl _ \<Rightarrow> [])"

lemma cookie_document: "sarif_document (\<lambda>c. None) (\<lambda>f. f) cookie_rows = Inr (cookie_rules, cookie_results)"
proof -
  have "is_ok (sarif_document (\<lambda>c. None) (\<lambda>f. f) cookie_rows)" by code_simp
  then show ?thesis
    by (cases "sarif_document (\<lambda>c. None) (\<lambda>f. f) cookie_rows") (auto simp: cookie_rules_def cookie_results_def)
qed

theorem sarif_indexes_valid_witness:
  "map res_rule cookie_results = [''CWE-1004'', ''CWE-614'', ''CWE-79''] \<and> distinct (map rule_id cookie_rules)"
  using sarif_indexes_valid [OF cookie_document] by (simp add: cookie_rows_def sample_report_row_def)

text \<open>
  Suppression runs on consolidated rows: a directive that names the CWE standing for a site
  also silences the findings folded into it, which it would not silence on their own.
\<close>

theorem consolidation_widens_suppression:
  "let files = [(''a.py'', [CHR 0x0A, CHR 0x0A] @ ''set_cookie()  # tcs: ignore[CWE-614]'')];
       rows = [sample_report_row ''CWE-1004'' ''HIGH'' ''no HttpOnly'', sample_report_row ''CWE-614'' ''MEDIUM'' ''no Secure'']
   in apply_inline_suppressions plain_tokens files (map row_dict rows) = [row_dict (hd rows)]
      \<and> apply_inline_suppressions plain_tokens files (map row_dict (consolidate_findings rows)) = []"
  by code_simp

end
