(* ===== verification/Remedy_Records.thy ===== *)
theory Remedy_Records
  imports Py_Values
begin

text \<open>
  \<open>remediation/contracts.py\<close> and \<open>remediation/dispatcher.py\<close>: the outcome of one patch attempt
  with the states it forbids, its dictionary form, and the table from CWEs and rules to
  transformers. A transformer is named by its rule: every transformer of the table has a rule
  of its own, which its property \<open>rule\<close> returns.
\<close>

section \<open>Outcomes and rules\<close>

datatype patch_status = SUCCESS | FAILED_SYNTAX | FAILED_VERIFICATION | UNSUPPORTED_CWE

datatype remediation_rule =
    SQLI_PARAMETERIZE | PATH_TRAVERSAL_RESOLVE | CMD_INJECTION_SPLIT | COOKIE_SECURE_FLAGS | TEMPLATE_AUTOESCAPE
  | WEAK_HASH_REPLACE | PASSWORD_HASH_KDF | YAML_SAFE_LOADER | CREDENTIAL_ENVIRON_GET | DEBUG_FLAG_DISABLE
  | SSL_VERIFY_ENABLE | TEMPFILE_SECURE | EVAL_LITERAL_REPLACE | NETWORK_BINDING_LOCALHOST

definition patch_status_values :: "(string \<times> patch_status) list" where
  "patch_status_values = [(''SUCCESS'', SUCCESS), (''FAILED_SYNTAX'', FAILED_SYNTAX),
     (''FAILED_VERIFICATION'', FAILED_VERIFICATION), (''UNSUPPORTED_CWE'', UNSUPPORTED_CWE)]"

definition remediation_rule_values :: "(string \<times> remediation_rule) list" where
  "remediation_rule_values =
     [(''SQLI_PARAMETERIZE'', SQLI_PARAMETERIZE), (''PATH_TRAVERSAL_RESOLVE'', PATH_TRAVERSAL_RESOLVE),
      (''CMD_INJECTION_SPLIT'', CMD_INJECTION_SPLIT), (''COOKIE_SECURE_FLAGS'', COOKIE_SECURE_FLAGS),
      (''TEMPLATE_AUTOESCAPE'', TEMPLATE_AUTOESCAPE), (''WEAK_HASH_REPLACE'', WEAK_HASH_REPLACE),
      (''PASSWORD_HASH_KDF'', PASSWORD_HASH_KDF), (''YAML_SAFE_LOADER'', YAML_SAFE_LOADER),
      (''CREDENTIAL_ENVIRON_GET'', CREDENTIAL_ENVIRON_GET), (''DEBUG_FLAG_DISABLE'', DEBUG_FLAG_DISABLE),
      (''SSL_VERIFY_ENABLE'', SSL_VERIFY_ENABLE), (''TEMPFILE_SECURE'', TEMPFILE_SECURE),
      (''EVAL_LITERAL_REPLACE'', EVAL_LITERAL_REPLACE), (''NETWORK_BINDING_LOCALHOST'', NETWORK_BINDING_LOCALHOST)]"

text \<open>The value of an enumeration member and the member of a value.\<close>

definition enum_value :: "(string \<times> 'a) list \<Rightarrow> 'a \<Rightarrow> string" where
  "enum_value table x = (case find (\<lambda>(v, y). y = x) table of Some (v, _) \<Rightarrow> v | None \<Rightarrow> [])"

definition enum_member :: "(string \<times> 'a) list \<Rightarrow> string \<Rightarrow> error + 'a" where
  "enum_member table v = (case map_of table v of Some x \<Rightarrow> Inr x | None \<Rightarrow> Inl (ValueError v))"

record remediation_record =
  finding_id :: string
  rem_cwe :: string
  rem_rule :: remediation_rule
  original_file :: string
  rem_line :: int
  patch_status :: patch_status
  original_code_snippet :: string
  patched_code_snippet :: string
  unified_diff :: string
  verification_passed :: bool
  limitations :: "string list"
  patched_source :: "string option"

text \<open>The contradictory states: success without verification, failure with it.\<close>

definition consistent :: "remediation_record \<Rightarrow> bool" where
  "consistent r = (verification_passed r \<longleftrightarrow> patch_status r = SUCCESS)"

definition contradiction_text :: "remediation_record \<Rightarrow> string" where
  "contradiction_text r =
     (if patch_status r = SUCCESS
      then ''Contradictory state: patch_status SUCCESS requires verification_passed == True''
      else ''Contradictory state: patch_status '' @ enum_value patch_status_values (patch_status r)
        @ '' requires verification_passed == False'')"

definition post_init :: "remediation_record \<Rightarrow> error + remediation_record" where
  "post_init r =
     (if patch_status r = SUCCESS \<and> \<not> verification_passed r then Inl (ValueError (contradiction_text r))
      else if patch_status r \<in> {FAILED_SYNTAX, FAILED_VERIFICATION, UNSUPPORTED_CWE} \<and> verification_passed r
      then Inl (ValueError (contradiction_text r))
      else Inr r)"

section \<open>Dictionaries\<close>

definition record_to_dict :: "remediation_record \<Rightarrow> dict" where
  "record_to_dict r =
     [(''finding_id'', PStr (finding_id r)), (''cwe'', PStr (rem_cwe r)),
      (''remediation_rule'', PStr (enum_value remediation_rule_values (rem_rule r))),
      (''original_file'', PStr (original_file r)), (''line_number'', PInt (rem_line r)),
      (''patch_status'', PStr (enum_value patch_status_values (patch_status r))),
      (''original_code_snippet'', PStr (original_code_snippet r)),
      (''patched_code_snippet'', PStr (patched_code_snippet r)),
      (''unified_diff'', PStr (unified_diff r)), (''verification_passed'', PBool (verification_passed r)),
      (''limitations'', PList (map PStr (limitations r)))]
     @ (case patched_source r of Some s \<Rightarrow> [(''patched_source'', PStr s)] | None \<Rightarrow> [])"

definition required :: "string \<Rightarrow> dict \<Rightarrow> error + pyval" where
  "required k d = (case map_of d k of Some v \<Rightarrow> Inr v | None \<Rightarrow> Inl (KeyError k))"

text \<open>\<open>tuple(v)\<close> where the elements are text.\<close>

fun text_tuple :: "pyval \<Rightarrow> error + string list" where
  "text_tuple (PList vs) = Inr (map py_str vs)"
| "text_tuple (PTuple vs) = Inr (map py_str vs)"
| "text_tuple (PStr s) = Inr (map (\<lambda>c. [c]) s)"
| "text_tuple _ = Inl (TypeError ''not iterable'')"

definition read_status :: "dict \<Rightarrow> error + patch_status" where
  "read_status d = (case map_of d ''patch_status'' of
     None \<Rightarrow> Inr UNSUPPORTED_CWE
   | Some v \<Rightarrow> (case v of PStr s \<Rightarrow> enum_member patch_status_values s | _ \<Rightarrow> Inl (ValueError ''Invalid patch_status'')))"

definition read_rule :: "dict \<Rightarrow> error + remediation_rule" where
  "read_rule d =
     (let v = dict_get ''remediation_rule'' PNone d in
      if \<not> py_truthy v then Inl (ValueError ''Missing required 'remediation_rule' in RemediationRecord payload'')
      else (case v of PStr s \<Rightarrow> enum_member remediation_rule_values s | _ \<Rightarrow> Inl (ValueError ''Invalid remediation_rule'')))"

definition record_from_dict :: "dict \<Rightarrow> error + remediation_record" where
  "record_from_dict d =
     res_bind (read_status d) (\<lambda>status.
     res_bind (read_rule d) (\<lambda>rule.
     res_bind (required ''finding_id'' d) (\<lambda>fid.
     res_bind (required ''cwe'' d) (\<lambda>cwe.
     res_bind (required ''original_file'' d) (\<lambda>path.
     res_bind (required ''line_number'' d) (\<lambda>raw_line.
     res_bind (py_int raw_line) (\<lambda>line.
     res_bind (text_tuple (dict_get ''limitations'' (PTuple []) d)) (\<lambda>notes.
       post_init \<lparr>finding_id = py_str fid, rem_cwe = py_str cwe, rem_rule = rule, original_file = py_str path,
         rem_line = line, patch_status = status,
         original_code_snippet = py_str (dict_get ''original_code_snippet'' (PStr []) d),
         patched_code_snippet = py_str (dict_get ''patched_code_snippet'' (PStr []) d),
         unified_diff = py_str (dict_get ''unified_diff'' (PStr []) d),
         verification_passed = py_truthy (dict_get ''verification_passed'' (PBool False) d),
         limitations = notes,
         patched_source = (case dict_get ''patched_source'' PNone d of PStr s \<Rightarrow> Some s | _ \<Rightarrow> None)\<rparr>))))))))"

section \<open>The dispatcher\<close>

definition rule_map :: "remediation_rule list" where
  "rule_map = map snd remediation_rule_values"

definition cwe_map :: "(string \<times> remediation_rule) list" where
  "cwe_map =
     [(''CWE-89'', SQLI_PARAMETERIZE), (''CWE-78'', CMD_INJECTION_SPLIT), (''CWE-22'', PATH_TRAVERSAL_RESOLVE),
      (''CWE-614'', COOKIE_SECURE_FLAGS), (''CWE-1275'', COOKIE_SECURE_FLAGS), (''CWE-668'', COOKIE_SECURE_FLAGS),
      (''CWE-1336'', TEMPLATE_AUTOESCAPE), (''CWE-116'', TEMPLATE_AUTOESCAPE), (''CWE-327'', WEAK_HASH_REPLACE),
      (''CWE-916'', PASSWORD_HASH_KDF), (''CWE-759'', PASSWORD_HASH_KDF), (''CWE-502'', YAML_SAFE_LOADER),
      (''CWE-798'', CREDENTIAL_ENVIRON_GET), (''CWE-489'', DEBUG_FLAG_DISABLE), (''CWE-295'', SSL_VERIFY_ENABLE),
      (''CWE-377'', TEMPFILE_SECURE), (''CWE-95'', EVAL_LITERAL_REPLACE), (''CWE-1188'', NETWORK_BINDING_LOCALHOST)]"

definition by_cwe :: "string option \<Rightarrow> remediation_rule option" where
  "by_cwe cwe = (case cwe of Some c \<Rightarrow> map_of cwe_map (py_upper (py_strip c)) | None \<Rightarrow> None)"

text \<open>A rule is given by its member or by its value; an unknown value is unsupported whatever the CWE.\<close>

definition get_transformer :: "string option \<Rightarrow> (remediation_rule + string) option \<Rightarrow> remediation_rule option" where
  "get_transformer cwe rule =
     (case rule of
        None \<Rightarrow> by_cwe cwe
      | Some (Inl r) \<Rightarrow> if r \<in> set rule_map then Some r else by_cwe cwe
      | Some (Inr v) \<Rightarrow>
          (case enum_member remediation_rule_values v of
             Inl e \<Rightarrow> None
           | Inr r \<Rightarrow> if r \<in> set rule_map then Some r else by_cwe cwe))"

text \<open>The rule \<open>RemediationEngine.remediate\<close> reports before it knows a transformer.\<close>

definition default_rule :: "string \<Rightarrow> remediation_rule" where
  "default_rule cwe =
     (if cwe = ''CWE-78'' then CMD_INJECTION_SPLIT
      else if cwe = ''CWE-22'' then PATH_TRAVERSAL_RESOLVE
      else if cwe \<in> {''CWE-614'', ''CWE-1275'', ''CWE-668''} then COOKIE_SECURE_FLAGS
      else if cwe \<in> {''CWE-1336'', ''CWE-116''} then TEMPLATE_AUTOESCAPE
      else if cwe \<in> {''CWE-327'', ''CWE-328''} then WEAK_HASH_REPLACE
      else if cwe \<in> {''CWE-916'', ''CWE-759''} then PASSWORD_HASH_KDF
      else if cwe = ''CWE-502'' then YAML_SAFE_LOADER
      else if cwe = ''CWE-798'' then CREDENTIAL_ENVIRON_GET
      else if cwe = ''CWE-489'' then DEBUG_FLAG_DISABLE
      else if cwe = ''CWE-295'' then SSL_VERIFY_ENABLE
      else if cwe = ''CWE-377'' then TEMPFILE_SECURE
      else if cwe = ''CWE-95'' then EVAL_LITERAL_REPLACE
      else if cwe = ''CWE-1188'' then NETWORK_BINDING_LOCALHOST
      else SQLI_PARAMETERIZE)"

section \<open>Facts\<close>

lemma post_init_Inr: "post_init r = Inr s \<longleftrightarrow> s = r \<and> consistent r"
  by (cases "patch_status r") (auto simp: post_init_def consistent_def)

lemma rule_value: "enum_member remediation_rule_values (enum_value remediation_rule_values r) = Inr r
    \<and> enum_value remediation_rule_values r \<noteq> []"
  by (cases r) (simp_all add: enum_member_def enum_value_def remediation_rule_values_def)

lemma status_value: "enum_member patch_status_values (enum_value patch_status_values s) = Inr s"
  by (cases s) (simp_all add: enum_member_def enum_value_def patch_status_values_def)

lemma record_fields:
  "map_of (record_to_dict r) ''finding_id'' = Some (PStr (finding_id r))"
  "map_of (record_to_dict r) ''cwe'' = Some (PStr (rem_cwe r))"
  "map_of (record_to_dict r) ''remediation_rule'' = Some (PStr (enum_value remediation_rule_values (rem_rule r)))"
  "map_of (record_to_dict r) ''original_file'' = Some (PStr (original_file r))"
  "map_of (record_to_dict r) ''line_number'' = Some (PInt (rem_line r))"
  "map_of (record_to_dict r) ''patch_status'' = Some (PStr (enum_value patch_status_values (patch_status r)))"
  "map_of (record_to_dict r) ''original_code_snippet'' = Some (PStr (original_code_snippet r))"
  "map_of (record_to_dict r) ''patched_code_snippet'' = Some (PStr (patched_code_snippet r))"
  "map_of (record_to_dict r) ''unified_diff'' = Some (PStr (unified_diff r))"
  "map_of (record_to_dict r) ''verification_passed'' = Some (PBool (verification_passed r))"
  "map_of (record_to_dict r) ''limitations'' = Some (PList (map PStr (limitations r)))"
  "map_of (record_to_dict r) ''patched_source'' = map_option PStr (patched_source r)"
  by (simp_all add: record_to_dict_def split: option.split)

lemma texts_of_texts: "map py_str (map PStr ss) = ss"
  by (induction ss) simp_all

text \<open>
  C40: a record without a contradiction survives serialization unchanged, and reading a dictionary
  never yields a contradictory one: what is read back is verified exactly when it succeeded.
\<close>

theorem remediation_roundtrip:
  "(consistent r \<longrightarrow> record_from_dict (record_to_dict r) = Inr r) \<and> (record_from_dict d = Inr s \<longrightarrow> consistent s)"
proof -
  have "(case dict_get ''patched_source'' PNone (record_to_dict r) of PStr s \<Rightarrow> Some s | _ \<Rightarrow> None) = patched_source r"
    by (cases "patched_source r") (simp_all add: dict_get_def record_fields)
  then have "record_from_dict (record_to_dict r) = Inr r" if "consistent r"
    using that rule_value [of "rem_rule r"] status_value [of "patch_status r"]
    by (simp add: record_from_dict_def read_status_def read_rule_def required_def dict_get_def record_fields
        texts_of_texts post_init_Inr consistent_def del: map_map)
  moreover have "consistent s" if "record_from_dict d = Inr s"
    using that by (auto simp: record_from_dict_def res_bind_Inr_iff post_init_Inr)
  ultimately show ?thesis by blast
qed

definition sample_record :: remediation_record where
  "sample_record =
     \<lparr>finding_id = ''F-1'', rem_cwe = ''CWE-502'', rem_rule = YAML_SAFE_LOADER, original_file = ''a.py'', rem_line = 4,
      patch_status = SUCCESS, original_code_snippet = ''yaml.load(x)'', patched_code_snippet = ''yaml.safe_load(x)'',
      unified_diff = [], verification_passed = True, limitations = [''l''], patched_source = Some ''yaml.safe_load(x)''\<rparr>"

theorem remediation_roundtrip_witness:
  "record_from_dict (record_to_dict sample_record) = Inr sample_record"
  using remediation_roundtrip [of sample_record] by (simp add: consistent_def sample_record_def)

text \<open>
  The engine reports a default rule before it has a transformer. For a CWE in canonical spelling
  that has a transformer the two agree; a CWE in lower case gets its transformer but the default
  rule of CWE-89.
\<close>

theorem default_rule_agrees:
  "list_all (\<lambda>(cwe, rule). default_rule cwe = rule \<and> get_transformer (Some cwe) None = Some rule) cwe_map
   \<and> get_transformer (Some ''cwe-78'') None = Some CMD_INJECTION_SPLIT \<and> default_rule ''cwe-78'' = SQLI_PARAMETERIZE"
  by code_simp

end
