(* ===== verification/Remedy_Verify.thy ===== *)
theory Remedy_Verify
  imports Remedy_Records Text_Lines
begin

text \<open>
  \<open>remediation/verification.py\<close>: the re-scan of a source, the identity of findings before and
  after a patch, and the two gates a patch must pass. A finding is a dictionary; the record has
  one field for every member the code reads, None when it is absent. The taint analysis of
  \<open>ast_scanner.py\<close> is an argument: the sources, sinks and edges it reports for one file.
\<close>

section \<open>Findings and the re-scan\<close>

record graph_node =
  node_type :: "string option"
  node_scope :: "string option"
  node_expr :: "string option"

record vfinding =
  vf_id :: "string option"
  vf_cwe :: "string option"
  vf_category :: "string option"
  vf_file :: "string option"
  vf_line :: "int option"  \<comment> \<open>\<open>line_number\<close>\<close>
  vf_alt_line :: "int option"  \<comment> \<open>\<open>line\<close>\<close>
  vf_sink :: "string option"
  vf_source :: "string option"
  vf_source_line :: "int option"
  vf_snippet :: "string option"
  vf_nodes :: "graph_node list"  \<comment> \<open>of \<open>proof_graph\<close>\<close>
  vf_confidence :: pyval
  vf_suppressed :: bool

record taint_node =
  tn_id :: string
  tn_symbol :: string
  tn_file :: string
  tn_line :: int
  tn_cwe :: "string option"
  tn_type :: "string option"

record taint_edge =
  te_source :: string
  te_target :: string
  te_graph :: "graph_node list"
  te_confidence :: pyval
  te_kind :: string
  te_transform :: "string option"

type_synonym analysis = "taint_node list \<times> taint_node list \<times> taint_edge list"  \<comment> \<open>sources, sinks, edges\<close>

text \<open>\<open>{n.id: n for n in nodes}\<close>: the last node of an identifier.\<close>

definition node_by_id :: "taint_node list \<Rightarrow> string \<Rightarrow> taint_node option" where
  "node_by_id nodes i = find (\<lambda>n. tn_id n = i) (rev nodes)"

definition pad3 :: "nat \<Rightarrow> string" where
  "pad3 n = replicate (3 - length (nat_str n)) (CHR ''0'') @ nat_str n"

definition or_given :: "'a option \<Rightarrow> 'a \<Rightarrow> 'a" where
  "or_given x d = (case x of Some y \<Rightarrow> y | None \<Rightarrow> d)"

definition dedup_key :: "taint_node \<Rightarrow> string \<times> int \<times> string" where
  "dedup_key sink = (tn_file sink, tn_line sink, or_given (tn_cwe sink) ''UNKNOWN_CWE'')"

definition snippet_at :: "string list \<Rightarrow> int \<Rightarrow> string" where
  "snippet_at ls l = (if 1 \<le> l \<and> l \<le> int (length ls) then py_strip (ls ! nat (l - 1)) else [])"

definition scan_finding :: "string list \<Rightarrow> taint_node list \<Rightarrow> nat \<Rightarrow> taint_node \<Rightarrow> taint_edge \<Rightarrow> vfinding" where
  "scan_finding ls sources idx sink e =
     (let src = node_by_id sources (te_source e) in
      \<lparr>vf_id = Some (''TimeCodeSecurity-VULN-'' @ pad3 idx), vf_cwe = Some (or_given (tn_cwe sink) ''UNKNOWN_CWE''),
       vf_category = Some (or_given (tn_type sink) ''UNKNOWN_VULNERABILITY''), vf_file = Some (tn_file sink),
       vf_line = Some (tn_line sink), vf_alt_line = None, vf_sink = Some (tn_symbol sink),
       vf_source = Some (case src of Some s \<Rightarrow> tn_symbol s | None \<Rightarrow> ''USER_INPUT''),
       vf_source_line = map_option tn_line src, vf_snippet = Some (snippet_at ls (tn_line sink)),
       vf_nodes = te_graph e, vf_confidence = te_confidence e, vf_suppressed = False\<rparr>)"

text \<open>One finding for every file, line and CWE, from the first edge whose sink is known.\<close>

fun scan_edges ::
    "string list \<Rightarrow> taint_node list \<Rightarrow> taint_node list \<Rightarrow> (string \<times> int \<times> string) list \<Rightarrow> nat \<Rightarrow> taint_edge list \<Rightarrow> vfinding list" where
  "scan_edges ls sources sinks seen idx [] = []"
| "scan_edges ls sources sinks seen idx (e # es) =
     (case node_by_id sinks (te_target e) of
        None \<Rightarrow> scan_edges ls sources sinks seen idx es
      | Some sink \<Rightarrow>
          if dedup_key sink \<in> set seen then scan_edges ls sources sinks seen idx es
          else scan_finding ls sources idx sink e
               # scan_edges ls sources sinks (dedup_key sink # seen) (Suc idx) es)"

definition scan_source_for_verification :: "(string \<Rightarrow> string \<Rightarrow> analysis) \<Rightarrow> string \<Rightarrow> string \<Rightarrow> vfinding list" where
  "scan_source_for_verification analyze path src =
     (case analyze path src of (sources, sinks, edges) \<Rightarrow> scan_edges (py_splitlines src) sources sinks [] 1 edges)"

definition opt_string :: "string option \<Rightarrow> string" where
  "opt_string x = or_given x ''None''"

definition opt_int :: "int option \<Rightarrow> string" where
  "opt_int x = (case x of Some i \<Rightarrow> int_str i | None \<Rightarrow> ''None'')"

text \<open>
  The teacher gate: no finding that is not suppressed. The verdict, the reason of a rejection
  and the number of active flaws.
\<close>

definition residual_text :: "vfinding \<Rightarrow> string" where
  "residual_text f = opt_string (vf_cwe f) @ '' at line '' @ opt_int (vf_line f) @ '' ('' @ or_given (vf_snippet f) [] @ '')''"

definition roundtrip_validate :: "(string \<Rightarrow> string \<Rightarrow> analysis) \<Rightarrow> string \<Rightarrow> string \<Rightarrow> bool \<times> string \<times> nat" where
  "roundtrip_validate analyze path src =
     (let residual = filter (\<lambda>f. \<not> vf_suppressed f) (scan_source_for_verification analyze path src) in
      if residual = [] then (True, [], 0)
      else (False, ''Residual flaw(s) after roundtrip re-scan: '' @ py_join ''; '' (map residual_text residual), length residual))"

section \<open>The identity of findings\<close>

record signature =
  sig_cwe :: string
  sig_sink :: "string option"
  sig_scope :: string
  sig_exprs :: "string list"
  sig_snippet :: string
  sig_line :: int

definition after_colon :: "string \<Rightarrow> string" where
  "after_colon s = (if CHR '':'' \<in> set s then snd (split_once (CHR '':'') s) else s)"

definition is_sink_node :: "graph_node \<Rightarrow> bool" where
  "is_sink_node n = (node_type n = Some ''SINK'')"

definition graph_scope :: "graph_node list \<Rightarrow> string" where
  "graph_scope nodes =
     (case find is_sink_node nodes of
        Some n \<Rightarrow> or_given (node_scope n) []
      | None \<Rightarrow> (case nodes of n # _ \<Rightarrow> or_given (node_scope n) [] | [] \<Rightarrow> []))"

definition upstream_exprs :: "graph_node list \<Rightarrow> string list" where
  "upstream_exprs nodes =
     map py_strip (filter (\<lambda>t. t \<noteq> []) (map (\<lambda>n. or_given (node_expr n) []) (filter (\<lambda>n. \<not> is_sink_node n) nodes)))"

definition extract_graph_signature :: "vfinding \<Rightarrow> signature" where
  "extract_graph_signature f =
     \<lparr>sig_cwe = or_given (vf_cwe f) ''None'',
      sig_sink = (if or_given (vf_sink f) [] = [] then None else vf_sink f),
      sig_scope = after_colon (graph_scope (vf_nodes f)),
      sig_exprs = upstream_exprs (vf_nodes f),
      sig_snippet = py_strip (or_given (vf_snippet f) []),
      sig_line = or_given (vf_line f) 0\<rparr>"

definition signatures_match :: "signature \<Rightarrow> signature \<Rightarrow> bool" where
  "signatures_match a b =
     (if sig_cwe a \<noteq> sig_cwe b then False
      else if sig_sink a \<noteq> None \<and> sig_sink b \<noteq> None \<and> sig_sink a \<noteq> sig_sink b then False
      else if sig_scope a \<noteq> [] \<and> sig_scope b \<noteq> [] \<and> sig_scope a \<noteq> sig_scope b then False
      else if sig_exprs a \<noteq> [] \<and> sig_exprs b \<noteq> [] then list_ex (\<lambda>ea. list_ex (\<lambda>eb. ea = eb) (sig_exprs b)) (sig_exprs a)
      else if sig_snippet a \<noteq> [] \<and> sig_snippet b \<noteq> [] \<and> sig_snippet a = sig_snippet b then True
      else if sig_line a \<noteq> 0 \<and> sig_line b \<noteq> 0 then \<bar>sig_line a - sig_line b\<bar> \<le> 2
      else True)"

definition is_matching_finding :: "vfinding \<Rightarrow> vfinding \<Rightarrow> bool" where
  "is_matching_finding fa fb = signatures_match (extract_graph_signature fa) (extract_graph_signature fb)"

definition first_line :: "vfinding \<Rightarrow> int" where
  "first_line f = (if or_given (vf_line f) 0 \<noteq> 0 then or_given (vf_line f) 0 else or_given (vf_alt_line f) 0)"

definition is_same_sink_instance :: "vfinding \<Rightarrow> vfinding \<Rightarrow> bool" where
  "is_same_sink_instance fa fb =
     (let la = first_line fa; lb = first_line fb;
          sa = py_strip (or_given (vf_snippet fa) []); sb = py_strip (or_given (vf_snippet fb) []) in
      if la = 0 \<or> la \<noteq> lb then False
      else if sa \<noteq> [] \<and> sb \<noteq> [] then py_contains sb sa \<or> py_contains sa sb
      else True)"

section \<open>The closed-loop gate\<close>

definition still_present :: "vfinding list \<Rightarrow> vfinding \<Rightarrow> bool" where
  "still_present patched uf =
     list_ex (\<lambda>pf. is_matching_finding pf uf \<or> (vf_cwe pf = vf_cwe uf \<and> vf_sink pf = vf_sink uf)) patched"

definition unrelated :: "vfinding list \<Rightarrow> vfinding \<Rightarrow> vfinding list" where
  "unrelated originals target =
     filter (\<lambda>f. \<not> is_matching_finding f target \<and> \<not> is_same_sink_instance f target) originals"

datatype patch_verdict = Passed | TargetStillDetected | UnrelatedRemoved vfinding

definition verify_findings :: "vfinding list \<Rightarrow> vfinding list \<Rightarrow> vfinding \<Rightarrow> patch_verdict" where
  "verify_findings originals patched target =
     (if list_ex (\<lambda>pf. is_matching_finding pf target) patched then TargetStillDetected
      else (case find (\<lambda>uf. \<not> still_present patched uf) (unrelated originals target) of
              Some uf \<Rightarrow> UnrelatedRemoved uf
            | None \<Rightarrow> Passed))"

definition verify :: "(string \<Rightarrow> string \<Rightarrow> analysis) \<Rightarrow> string \<Rightarrow> string \<Rightarrow> string \<Rightarrow> vfinding \<Rightarrow> patch_verdict" where
  "verify analyze path original patched target =
     verify_findings (scan_source_for_verification analyze path original)
       (scan_source_for_verification analyze path patched) target"

section \<open>Facts\<close>

definition vf_key :: "vfinding \<Rightarrow> string \<times> int \<times> string" where
  "vf_key f = (or_given (vf_file f) [], or_given (vf_line f) 0, or_given (vf_cwe f) [])"

lemma scan_finding_key: "vf_key (scan_finding ls sources idx sink e) = dedup_key sink"
  by (simp add: vf_key_def scan_finding_def dedup_key_def or_given_def Let_def)

definition edge_key :: "taint_node list \<Rightarrow> taint_edge \<Rightarrow> (string \<times> int \<times> string) option" where
  "edge_key sinks e = map_option dedup_key (node_by_id sinks (te_target e))"

lemma scan_edges_keys:
  "vf_key ` set (scan_edges ls sources sinks seen idx es) = {k. Some k \<in> edge_key sinks ` set es} - set seen
   \<and> distinct (map vf_key (scan_edges ls sources sinks seen idx es))"
proof (induction ls sources sinks seen idx es rule: scan_edges.induct)
  case (2 ls sources sinks seen idx e es)
  show ?case
  proof (cases "node_by_id sinks (te_target e)")
    case None
    with 2 show ?thesis by (auto simp: edge_key_def)
  next
    case (Some sink)
    with 2 show ?thesis by (auto simp: edge_key_def scan_finding_key)
  qed
qed simp

text \<open>
  The re-scan reports every file, line and CWE that an edge of the analysis reaches, each
  exactly once.
\<close>

theorem scan_reports_each_sink_once:
  assumes "analyze path src = (sources, sinks, edges)"
  shows "vf_key ` set (scan_source_for_verification analyze path src) = {k. Some k \<in> edge_key sinks ` set edges}
     \<and> distinct (map vf_key (scan_source_for_verification analyze path src))"
  using scan_edges_keys [of "py_splitlines src" sources sinks "[]" 1 edges] assms
  by (simp add: scan_source_for_verification_def)

lemma matching_refl: "is_matching_finding f f"
proof -
  have "list_ex (\<lambda>ea. list_ex (\<lambda>eb. ea = eb) es) es" if "es \<noteq> []" for es :: "string list"
    using that by (cases es) auto
  then show ?thesis by (simp add: is_matching_finding_def signatures_match_def)
qed

lemma signatures_match_sym: "signatures_match a b = signatures_match b a"
  unfolding signatures_match_def by (intro if_cong) (auto simp: list_ex_iff abs_minus_commute)

lemma matching_sym: "is_matching_finding f g \<longleftrightarrow> is_matching_finding g f"
  unfolding is_matching_finding_def by (rule signatures_match_sym)

lemma verify_passed:
  "verify analyze path original patched target = Passed \<longleftrightarrow>
     (\<forall>pf \<in> set (scan_source_for_verification analyze path patched). \<not> is_matching_finding pf target)
     \<and> (\<forall>uf \<in> set (scan_source_for_verification analyze path original).
          is_matching_finding uf target \<or> is_same_sink_instance uf target
          \<or> still_present (scan_source_for_verification analyze path patched) uf)"
proof -
  have "verify_findings os ps target = Passed \<longleftrightarrow>
      (\<forall>pf \<in> set ps. \<not> is_matching_finding pf target)
      \<and> (\<forall>uf \<in> set os. is_matching_finding uf target \<or> is_same_sink_instance uf target \<or> still_present ps uf)" for os ps
  proof (cases "find (\<lambda>uf. \<not> still_present ps uf) (unrelated os target)")
    case None
    then have "\<forall>uf \<in> set (unrelated os target). still_present ps uf" by (auto simp: find_None_iff)
    with None show ?thesis by (auto simp: verify_findings_def list_ex_iff) (auto simp: unrelated_def)
  next
    case (Some uf)
    from found_in [OF Some] have "uf \<in> set os" "\<not> is_matching_finding uf target" "\<not> is_same_sink_instance uf target"
        "\<not> still_present ps uf" by (auto simp: unrelated_def)
    with Some show ?thesis by (auto simp: verify_findings_def)
  qed
  then show ?thesis by (simp add: verify_def)
qed

text \<open>
  A patch passes the gate exactly when no finding of the patched source is the target and every
  original finding that is neither the target nor at its sink still has a counterpart. The
  identity the gate uses relates every finding to itself and does not depend on the order.
\<close>

theorem verify_passed_iff:
  "(verify analyze path original patched target = Passed \<longleftrightarrow>
     (\<forall>pf \<in> set (scan_source_for_verification analyze path patched). \<not> is_matching_finding pf target)
     \<and> (\<forall>uf \<in> set (scan_source_for_verification analyze path original).
          is_matching_finding uf target \<or> is_same_sink_instance uf target
          \<or> still_present (scan_source_for_verification analyze path patched) uf))
   \<and> is_matching_finding f f \<and> (is_matching_finding f g \<longleftrightarrow> is_matching_finding g f)"
  using verify_passed [of analyze path original patched target] matching_refl [of f] matching_sym [of f g] by blast

section \<open>Samples\<close>

definition yaml_analysis :: "string \<Rightarrow> string \<Rightarrow> analysis" where
  "yaml_analysis path src =
     (if py_contains src ''yaml.load(''
      then ([], [\<lparr>tn_id = ''SNK-1'', tn_symbol = ''yaml.load'', tn_file = path, tn_line = 1, tn_cwe = Some ''CWE-502'', tn_type = None\<rparr>],
        [\<lparr>te_source = ''SRC-1'', te_target = ''SNK-1'', te_graph = [], te_confidence = PFloat 1 ''1.0'', te_kind = ''CONFIRMED_DATA_FLOW'',
          te_transform = None\<rparr>])
      else ([], [], []))"

definition yaml_source :: string where
  "yaml_source = ''d = yaml.load(x)'' @ [CHR 0x0A]"

definition yaml_finding :: vfinding where
  "yaml_finding = hd (scan_source_for_verification yaml_analysis ''a.py'' yaml_source)"

definition yaml_fixed :: string where
  "yaml_fixed = ''d = yaml.safe_load(x)'' @ [CHR 0x0A]"

lemma yaml_edges: "yaml_analysis ''a.py'' yaml_source =
    ([], fst (snd (yaml_analysis ''a.py'' yaml_source)), snd (snd (yaml_analysis ''a.py'' yaml_source)))"
  by code_simp

theorem scan_reports_each_sink_once_witness:
  "distinct (map vf_key (scan_source_for_verification yaml_analysis ''a.py'' yaml_source))"
  using scan_reports_each_sink_once [where analyze = yaml_analysis and path = "''a.py''" and src = yaml_source, OF yaml_edges] by simp

lemma yaml_verified: "verify yaml_analysis ''a.py'' yaml_source yaml_fixed yaml_finding = Passed"
  by code_simp

theorem verify_passed_iff_witness:
  "\<not> list_ex (\<lambda>pf. is_matching_finding pf yaml_finding) (scan_source_for_verification yaml_analysis ''a.py'' yaml_fixed)"
  using verify_passed_iff [of yaml_analysis "''a.py''" yaml_source yaml_fixed yaml_finding]
  by (simp add: yaml_verified list_ex_iff)

definition command_finding :: "int \<Rightarrow> string \<Rightarrow> vfinding" where
  "command_finding line expr =
     \<lparr>vf_id = None, vf_cwe = Some ''CWE-78'', vf_category = None, vf_file = Some ''a.py'', vf_line = Some line, vf_alt_line = None,
      vf_sink = Some ''os.system'', vf_source = None, vf_source_line = None, vf_snippet = Some expr,
      vf_nodes = [\<lparr>node_type = Some ''FLOW'', node_scope = None, node_expr = Some expr\<rparr>],
      vf_confidence = PNone, vf_suppressed = False\<rparr>"

text \<open>
  The negative space check accepts a patch that loses an unrelated finding when another finding
  of the same CWE and sink symbol remains anywhere in the file.
\<close>

theorem vanished_finding_accepted:
  "verify_findings [yaml_finding, command_finding 10 ''a'', command_finding 40 ''b''] [command_finding 10 ''a''] yaml_finding = Passed
   \<and> \<not> is_matching_finding (command_finding 10 ''a'') (command_finding 40 ''b'')"
  by code_simp

end
