(* ===== verification/Remedy_Engine.thy ===== *)
theory Remedy_Engine
  imports Remedy_Verify
begin

text \<open>
  \<open>remediation/patch_engine.py\<close>: one finding, one source, one patch attempt. The parser, the
  compiler, the transformers, the taint analysis and \<open>difflib.unified_diff\<close> are arguments; a
  transformer sees the tree of the source it is given, so it is a function of that source.
\<close>

section \<open>What the engine calls\<close>

datatype parse_outcome = ParseOk | SyntaxErr string | ValueErr string

record engine_env =
  parse :: "string \<Rightarrow> parse_outcome"
  compile :: "string \<Rightarrow> parse_outcome"
  transform :: "remediation_rule \<Rightarrow> vfinding \<Rightarrow> string \<Rightarrow> patch_status \<times> string option \<times> string option \<times> string list"
  analyze :: "string \<Rightarrow> string \<Rightarrow> analysis"
  unified :: "string list \<Rightarrow> string list \<Rightarrow> string \<Rightarrow> string \<Rightarrow> string list"

definition parse_error :: "parse_outcome \<Rightarrow> string option" where
  "parse_error p = (case p of ParseOk \<Rightarrow> None | SyntaxErr t \<Rightarrow> Some t | ValueErr t \<Rightarrow> Some t)"

text \<open>Parsing, then compiling.\<close>

definition syntax_gate :: "engine_env \<Rightarrow> string \<Rightarrow> string option" where
  "syntax_gate env src =
     (case parse_error (parse env src) of Some t \<Rightarrow> Some t | None \<Rightarrow> parse_error (compile env src))"

section \<open>Diffs\<close>

definition with_eol :: "string \<Rightarrow> string \<Rightarrow> string" where
  "with_eol eol l = (if py_endswith l [CHR 0x0A] then l else l @ eol)"

definition diff_text :: "engine_env \<Rightarrow> string \<Rightarrow> string \<Rightarrow> string \<Rightarrow> string" where
  "diff_text env path src patched =
     (let eol = (if py_contains src [CHR 0x0D, CHR 0x0A] then [CHR 0x0D, CHR 0x0A] else [CHR 0x0A]);
          norm = py_replace_char (CHR 0x5C) ''/'' path
      in concat (map (with_eol eol)
           (unified env (map (with_eol eol) (splitlines_keepends src)) (map (with_eol eol) (splitlines_keepends patched))
             (''a/'' @ norm) (''b/'' @ norm))))"

section \<open>The pipeline\<close>

definition verdict_text :: "vfinding \<Rightarrow> patch_verdict \<Rightarrow> string" where
  "verdict_text target v =
     (case v of
        Passed \<Rightarrow> ''None''
      | TargetStillDetected \<Rightarrow> ''Target finding '' @ opt_string (vf_cwe target) @ '' at line '' @ opt_int (vf_line target)
          @ '' is still detected by Vector B after patching''
      | UnrelatedRemoved uf \<Rightarrow> ''Unrelated finding '' @ or_given (vf_id uf) ''N/A'' @ '' ('' @ opt_string (vf_cwe uf) @ '' at line ''
          @ opt_int (vf_line uf) @ '') was unexpectedly removed or modified by the patch'')"

definition engine_path :: "vfinding \<Rightarrow> string option \<Rightarrow> string" where
  "engine_path f path = (if or_given path [] \<noteq> [] then or_given path [] else or_given (vf_file f) ''source.py'')"

definition unpatched ::
    "vfinding \<Rightarrow> string option \<Rightarrow> remediation_rule \<Rightarrow> patch_status \<Rightarrow> string option \<Rightarrow> string list \<Rightarrow> remediation_record" where
  "unpatched f path rule status snippet remarks =
     \<lparr>finding_id = or_given (vf_id f) ''TimeCodeSecurity-REM-000'', rem_cwe = or_given (vf_cwe f) ''UNKNOWN_CWE'',
      rem_rule = rule, original_file = engine_path f path, rem_line = or_given (vf_line f) 0, patch_status = status,
      original_code_snippet = or_given (vf_snippet f) [], patched_code_snippet = or_given snippet [], unified_diff = [],
      verification_passed = False, limitations = remarks, patched_source = None\<rparr>"

text \<open>The gates behind a successful transformation: syntax, re-scan, then the successful record.\<close>

definition patched_outcome ::
    "engine_env \<Rightarrow> vfinding \<Rightarrow> string \<Rightarrow> string option \<Rightarrow> remediation_rule \<Rightarrow> string \<Rightarrow> string option \<Rightarrow> string list
      \<Rightarrow> error + remediation_record" where
  "patched_outcome env f src path rule patched snippet remarks =
     (case syntax_gate env patched of
        Some t \<Rightarrow> post_init (unpatched f path rule FAILED_SYNTAX snippet
            [''Patched code failed syntax or compile validation: '' @ t])
      | None \<Rightarrow>
          (let v = verify (analyze env) (engine_path f path) src patched f in
           if v \<noteq> Passed
           then post_init (unpatched f path rule FAILED_VERIFICATION snippet
                  [''Re-scan verification failed: '' @ verdict_text f v])
           else post_init ((unpatched f path rule SUCCESS snippet remarks)
                  \<lparr>unified_diff := diff_text env (engine_path f path) src patched,
                   verification_passed := True, patched_source := Some patched\<rparr>)))"

definition remediate :: "engine_env \<Rightarrow> vfinding \<Rightarrow> string \<Rightarrow> string option \<Rightarrow> error + remediation_record" where
  "remediate env f src path =
     (let cwe = or_given (vf_cwe f) ''UNKNOWN_CWE'' in
      case parse_error (parse env src) of
        Some t \<Rightarrow> post_init (unpatched f path (default_rule cwe) FAILED_SYNTAX None
            [''Original source code contains syntax error: '' @ t])
      | None \<Rightarrow>
          (case get_transformer (Some cwe) None of
             None \<Rightarrow> post_init (unpatched f path (default_rule cwe) UNSUPPORTED_CWE None
                 [''Automated remediation for '' @ cwe @ '' is not supported in Phase 2''])
           | Some rule \<Rightarrow>
               (case transform env rule f src of
                  (SUCCESS, Some patched, snippet, remarks) \<Rightarrow> patched_outcome env f src path rule patched snippet remarks
                | (status, _, snippet, remarks) \<Rightarrow>
                    post_init (unpatched f path rule status snippet
                      (if remarks = [] then [''Code construct or SQL pattern is unsupported for automated parameterization''] else remarks)))))"

section \<open>What a success means\<close>

lemma unpatched_simps [simp]:
  "patch_status (unpatched f path rule status snippet remarks) = status"
  "verification_passed (unpatched f path rule status snippet remarks) = False"
  "patched_source (unpatched f path rule status snippet remarks) = None"
  "rem_rule (unpatched f path rule status snippet remarks) = rule"
  "original_file (unpatched f path rule status snippet remarks) = engine_path f path"
  by (simp_all add: unpatched_def)

text \<open>The conditions under which a record may claim success.\<close>

definition gates_passed :: "engine_env \<Rightarrow> vfinding \<Rightarrow> string \<Rightarrow> string option \<Rightarrow> remediation_rule \<Rightarrow> string \<Rightarrow> bool" where
  "gates_passed env f src path rule patched =
     (parse env src = ParseOk \<and> by_cwe (Some (or_given (vf_cwe f) ''UNKNOWN_CWE'')) = Some rule
      \<and> (\<exists>snippet remarks. transform env rule f src = (SUCCESS, Some patched, snippet, remarks))
      \<and> parse env patched = ParseOk \<and> compile env patched = ParseOk
      \<and> verify (analyze env) (engine_path f path) src patched f = Passed)"

lemma parse_error_None: "parse_error p = None \<longleftrightarrow> p = ParseOk"
  by (cases p) (simp_all add: parse_error_def)

lemma parse_error_ok: "parse_error ParseOk = None"
  by (simp add: parse_error_def)

lemma patched_outcome_success:
  "patched_outcome env f src path rule patched snippet remarks = Inr r \<Longrightarrow>
     consistent r \<and> original_file r = engine_path f path \<and> rem_rule r = rule
     \<and> (patch_status r = SUCCESS \<longrightarrow> patched_source r = Some patched \<and> parse env patched = ParseOk
          \<and> compile env patched = ParseOk \<and> verify (analyze env) (engine_path f path) src patched f = Passed)
     \<and> (patch_status r \<noteq> SUCCESS \<longrightarrow> patched_source r = None)"
  by (auto simp: patched_outcome_def post_init_Inr syntax_gate_def parse_error_None consistent_def Let_def
      split: option.splits if_splits)

lemma remediate_Inr:
  assumes "remediate env f src path = Inr r"
  shows "consistent r \<and> original_file r = engine_path f path"
    and "patch_status r = SUCCESS \<longrightarrow> (\<exists>patched. patched_source r = Some patched \<and> gates_passed env f src path (rem_rule r) patched)"
    and "patch_status r \<noteq> SUCCESS \<longrightarrow> patched_source r = None"
proof -
  let ?cwe = "or_given (vf_cwe f) ''UNKNOWN_CWE''"
  have *: "(consistent r \<and> original_file r = engine_path f path)
      \<and> (patch_status r = SUCCESS \<longrightarrow> (\<exists>patched. patched_source r = Some patched \<and> gates_passed env f src path (rem_rule r) patched))
      \<and> (patch_status r \<noteq> SUCCESS \<longrightarrow> patched_source r = None)"
  proof (cases "parse_error (parse env src)")
    case (Some t)
    with assms show ?thesis by (auto simp: remediate_def post_init_Inr Let_def)
  next
    case None
    note ok = None
    show ?thesis
    proof (cases "by_cwe (Some ?cwe)")
      case None
      with ok assms show ?thesis by (auto simp: remediate_def post_init_Inr get_transformer_def Let_def)
    next
      case (Some rule)
      obtain status source snippet remarks where t: "transform env rule f src = (status, source, snippet, remarks)"
        by (cases "transform env rule f src")
      show ?thesis
      proof (cases "status = SUCCESS \<and> source \<noteq> None")
        case True
        then obtain patched where "source = Some patched" by auto
        with True ok Some t assms have "patched_outcome env f src path rule patched snippet remarks = Inr r"
          by (simp add: remediate_def get_transformer_def)
        from patched_outcome_success [OF this] True ok Some t \<open>source = Some patched\<close> show ?thesis
          by (auto simp: gates_passed_def parse_error_None)
      next
        case False
        with ok Some t assms show ?thesis
          by (cases status; cases source) (auto simp: remediate_def get_transformer_def post_init_Inr consistent_def)
      qed
    qed
  qed
  then show "consistent r \<and> original_file r = engine_path f path"
    and "patch_status r = SUCCESS \<longrightarrow> (\<exists>patched. patched_source r = Some patched \<and> gates_passed env f src path (rem_rule r) patched)"
    and "patch_status r \<noteq> SUCCESS \<longrightarrow> patched_source r = None" by simp_all
qed

text \<open>
  C6: a successful record is only produced behind every gate: the source parses, the transformer
  of the CWE succeeded, its source parses and compiles, and the re-scan neither finds the target
  again nor misses an unrelated finding; the record carries that source.
\<close>

theorem success_passed_all_gates:
  assumes "remediate env f src path = Inr r" "patch_status r = SUCCESS"
  shows "\<exists>patched. patched_source r = Some patched \<and> gates_passed env f src path (rem_rule r) patched
     \<and> (\<forall>pf \<in> set (scan_source_for_verification (analyze env) (engine_path f path) patched). \<not> is_matching_finding pf f)"
proof -
  from remediate_Inr(2) [OF assms(1)] assms(2) obtain patched
    where p: "patched_source r = Some patched" "gates_passed env f src path (rem_rule r) patched" by blast
  then have "verify (analyze env) (engine_path f path) src patched f = Passed" by (simp add: gates_passed_def)
  then show ?thesis using p by (auto simp: verify_passed)
qed

text \<open>
  The engine returns a record on every input, with one exception: it raises when the transformer
  of a parseable source claims success without giving a source.
\<close>

theorem remediate_raises_iff:
  "(\<exists>e. remediate env f src path = Inl e) \<longleftrightarrow>
     parse env src = ParseOk
     \<and> (\<exists>rule snippet remarks. by_cwe (Some (or_given (vf_cwe f) ''UNKNOWN_CWE'')) = Some rule
          \<and> transform env rule f src = (SUCCESS, None, snippet, remarks))"
proof -
  have raises: "(\<exists>e. post_init r = Inl e) \<longleftrightarrow> \<not> consistent r" for r
    by (metis Inl_Inr_False Inl_inject post_init_Inr sum.exhaust)
  have never: "\<not> (\<exists>e. patched_outcome env f src path rule patched snippet remarks = Inl e)" for rule patched snippet remarks
    by (auto simp: patched_outcome_def post_init_def Let_def split: option.splits)
  show ?thesis
  proof (cases "parse_error (parse env src)")
    case (Some t)
    then show ?thesis by (auto simp: remediate_def post_init_def parse_error_def Let_def split: parse_outcome.splits)
  next
    case None
    note ok = None
    show ?thesis
    proof (cases "by_cwe (Some (or_given (vf_cwe f) ''UNKNOWN_CWE''))")
      case None
      with ok show ?thesis by (auto simp: remediate_def post_init_def get_transformer_def Let_def)
    next
      case (Some rule)
      obtain status source snippet remarks where t: "transform env rule f src = (status, source, snippet, remarks)"
        by (cases "transform env rule f src")
      from ok Some t never show ?thesis
        by (cases status; cases source) (auto simp: remediate_def get_transformer_def post_init_def parse_error_None parse_error_ok Let_def)
    qed
  qed
qed


section \<open>A sample engine\<close>

definition yaml_engine :: engine_env where
  "yaml_engine =
     \<lparr>parse = (\<lambda>s. ParseOk), compile = (\<lambda>s. ParseOk),
      transform = (\<lambda>rule f src. (SUCCESS, Some (''d = yaml.safe_load(x)'' @ [CHR 0x0A]), Some ''d = yaml.safe_load(x)'', [])),
      analyze = yaml_analysis, unified = (\<lambda>a b f t. [])\<rparr>"

definition yaml_record :: remediation_record where
  "yaml_record =
     \<lparr>finding_id = ''TimeCodeSecurity-VULN-001'', rem_cwe = ''CWE-502'', rem_rule = YAML_SAFE_LOADER, original_file = ''a.py'',
      rem_line = 1, patch_status = SUCCESS, original_code_snippet = ''d = yaml.load(x)'',
      patched_code_snippet = ''d = yaml.safe_load(x)'', unified_diff = [], verification_passed = True, limitations = [],
      patched_source = Some (''d = yaml.safe_load(x)'' @ [CHR 0x0A])\<rparr>"

lemma yaml_remediated: "remediate yaml_engine yaml_finding yaml_source (Some ''a.py'') = Inr yaml_record"
  by code_simp

theorem success_passed_all_gates_witness:
  "gates_passed yaml_engine yaml_finding yaml_source (Some ''a.py'') YAML_SAFE_LOADER (''d = yaml.safe_load(x)'' @ [CHR 0x0A])"
  using success_passed_all_gates [OF yaml_remediated] by (simp add: yaml_record_def)

end
