(* ===== verification/Remedy_Project.thy ===== *)
theory Remedy_Project
  imports Remedy_Engine Py_Ast
begin

text \<open>
  \<open>remediation/orchestrator.py\<close> and \<open>verification_engine.py\<close>: all findings of a project, file by
  file and bottom up; the cross-file gate; the roundtrip gate; the transactional write. Parsing
  to trees, \<open>difflib\<close>'s opcodes, the analysis of a set of files and the file system are
  arguments; the disk is a map from resolved paths to files and is the state of a run.
\<close>

section \<open>Line numbers after a patch\<close>

datatype opcode_tag = Equal | Replace | Delete | Insert

type_synonym opcode = "opcode_tag \<times> nat \<times> nat \<times> nat \<times> nat"

text \<open>The loop over the opcodes with the shift so far, for the line with index \<open>k\<close>.\<close>

fun map_index :: "nat \<Rightarrow> int \<Rightarrow> int \<Rightarrow> opcode list \<Rightarrow> int" where
  "map_index k old shift [] = old + shift"
| "map_index k old shift ((tag, i1, i2, j1, j2) # ops) =
     (if i2 \<le> k then map_index k old (shift + ((int j2 - int j1) - (int i2 - int i1))) ops
      else if i1 \<le> k \<and> k < i2
      then (if tag = Equal then int j1 + (int k - int i1) + 1 else int j1 + 1)
      else old + shift)"

definition map_line_number :: "(string list \<Rightarrow> string list \<Rightarrow> opcode list) \<Rightarrow> string \<Rightarrow> string \<Rightarrow> int \<Rightarrow> int" where
  "map_line_number opcodes prev_content new_content old_line =
     (if old_line \<le> 0 then old_line
      else map_index (nat (old_line - 1)) old_line 0
             (opcodes (splitlines_keepends prev_content) (splitlines_keepends new_content)))"

section \<open>Finding the sink again\<close>

definition call_name :: "ast \<Rightarrow> string" where
  "call_name func = (case func of Name _ i \<Rightarrow> i | Attribute _ _ a \<Rightarrow> a | _ \<Rightarrow> [])"

definition last_segment :: "string \<Rightarrow> string" where
  "last_segment s = last (py_split (CHR ''.'') s)"

definition sink_call_matches :: "string \<Rightarrow> string \<Rightarrow> string \<Rightarrow> bool" where
  "sink_call_matches attr cwe name =
     (attr \<noteq> [] \<and> name = attr
      \<or> cwe = ''CWE-89'' \<and> name \<in> {''execute'', ''executemany''}
      \<or> cwe = ''CWE-78'' \<and> name \<in> {''call'', ''run'', ''Popen'', ''check_output'', ''check_call''}
      \<or> cwe = ''CWE-22'' \<and> name \<in> {''open'', ''file'', ''read_text'', ''read_bytes''})"

text \<open>The nearest matching call; the first one among equally near ones. None: no call so far.\<close>

definition nearer :: "string \<Rightarrow> string \<Rightarrow> int \<Rightarrow> int option \<Rightarrow> ast \<Rightarrow> int option" where
  "nearer attr cwe line best node =
     (case node of
        Call l func args kws \<Rightarrow>
          if sink_call_matches attr cwe (call_name func)
             \<and> (case best of None \<Rightarrow> True | Some b \<Rightarrow> \<bar>int l - line\<bar> < \<bar>b - line\<bar>)
          then Some (int l) else best
      | _ \<Rightarrow> best)"

definition refine_finding_line_number :: "(string \<Rightarrow> ast option) \<Rightarrow> vfinding \<Rightarrow> string \<Rightarrow> int" where
  "refine_finding_line_number tree_of f content =
     (let line = or_given (vf_line f) 0; snippet = py_strip (or_given (vf_snippet f) []);
          symbol = or_given (vf_sink f) []; attr = (if symbol = [] then [] else last_segment symbol);
          ls = py_splitlines content; text = snippet_at ls line in
      if line \<le> 0 then line
      else (case tree_of content of
              None \<Rightarrow> line
            | Some tree \<Rightarrow>
                if line \<le> int (length ls)
                   \<and> (snippet \<noteq> [] \<and> (py_contains text snippet \<or> py_contains snippet text) \<or> attr \<noteq> [] \<and> py_contains text attr)
                then line
                else or_given (foldl (nearer attr (or_given (vf_cwe f) []) line) None (ast_walk tree)) line))"

section \<open>The cross-file gate\<close>

type_synonym files = "(string \<times> string) list"

function py_split_text :: "string \<Rightarrow> string \<Rightarrow> string list" where
  "py_split_text sep [] = [[]]"
| "py_split_text sep (c # cs) =
     (if sep \<noteq> [] \<and> py_startswith (c # cs) sep then [] # py_split_text sep (drop (length sep) (c # cs))
      else (case py_split_text sep cs of [] \<Rightarrow> [[c]] | w # ws \<Rightarrow> (c # w) # ws))"
  by pat_completeness auto
termination
  by (relation "measure (\<lambda>(sep, s). length s)") auto

type_synonym stable_signature = "string \<times> string \<times> string \<times> string \<times> string"

definition get_stable_signature :: "taint_node \<Rightarrow> taint_node \<Rightarrow> taint_edge \<Rightarrow> stable_signature" where
  "get_stable_signature s sk e =
     (let parts = py_split_text '' -> '' (or_given (te_transform e) []);
          roots = filter (\<lambda>p. CHR '':'' \<in> set p \<and> \<not> py_startswith p ''return'') parts
      in (tn_symbol s, tn_symbol sk, tn_file s, tn_file sk, case roots of r # _ \<Rightarrow> r | [] \<Rightarrow> ''unknown''))"

definition live_edge :: "taint_edge \<Rightarrow> bool" where
  "live_edge e = (te_kind e \<noteq> ''CLEAN'' \<and> py_startswith (te_target e) ''SNK'')"

definition signatures_of :: "analysis \<Rightarrow> stable_signature list" where
  "signatures_of a =
     (case a of (sources, sinks, edges) \<Rightarrow>
        List.map_filter (\<lambda>e. case (node_by_id sources (te_source e), node_by_id sinks (te_target e)) of
            (Some s, Some sk) \<Rightarrow> if live_edge e then Some (get_stable_signature s sk e) else None
          | _ \<Rightarrow> None) edges)"

datatype fix_status = VERIFIED_FIX | NOT_VERIFIED | INVALID_PATCH | REGRESSION_DETECTED

fun replace_first :: "string \<Rightarrow> string \<Rightarrow> string \<Rightarrow> string" where
  "replace_first old new [] = (if old = [] then new else [])"
| "replace_first old new (c # cs) =
     (if py_startswith (c # cs) old then new @ drop (length old) (c # cs) else c # replace_first old new cs)"

definition put_file :: "string \<Rightarrow> string \<Rightarrow> files \<Rightarrow> files" where
  "put_file path text fs = (if path \<in> fst ` set fs then map (\<lambda>(p, t). (p, if p = path then text else t)) fs else fs @ [(path, text)])"

record project_env =
  engine :: engine_env
  tree_of :: "string \<Rightarrow> ast option"
  opcodes :: "string list \<Rightarrow> string list \<Rightarrow> opcode list"
  analyze_files :: "files \<Rightarrow> analysis option"  \<comment> \<open>None: the analysis raises\<close>

text \<open>\<open>verify_fix\<close>: the status and its reason, or None when it raises.\<close>

definition verify_fix :: "project_env \<Rightarrow> files \<Rightarrow> string \<Rightarrow> string \<Rightarrow> string \<Rightarrow> stable_signature \<Rightarrow> (fix_status \<times> string) option" where
  "verify_fix env fs path original new target =
     (if original = new then Some (NOT_VERIFIED, ''No-op patch (identical source code)'')
      else (case map_of fs path of
              None \<Rightarrow> Some (INVALID_PATCH, ''Target file '' @ path @ '' not found'')
            | Some text \<Rightarrow>
                if \<not> py_contains text original then Some (INVALID_PATCH, ''Original snippet not found in target file'')
                else
                  (let patched = put_file path (replace_first original new text) fs in
                   case find (\<lambda>(p, t). parse (engine env) t \<noteq> ParseOk) patched of
                     Some (p, t) \<Rightarrow>
                       (case parse (engine env) t of
                          SyntaxErr m \<Rightarrow> Some (INVALID_PATCH, ''SyntaxError in '' @ p @ '': '' @ m)
                        | _ \<Rightarrow> None)
                   | None \<Rightarrow>
                       (case (analyze_files env fs, analyze_files env patched) of
                          (Some before, Some after) \<Rightarrow>
                            if target \<in> set (signatures_of after) then Some (NOT_VERIFIED, ''Target vulnerability remains reachable'')
                            else if set (signatures_of after) - set (signatures_of before) \<noteq> {}
                            then Some (REGRESSION_DETECTED, ''Patch introduced new vulnerabilities'')
                            else Some (VERIFIED_FIX, ''Vulnerability securely remediated with no regressions'')
                        | _ \<Rightarrow> None))))"

text \<open>The edge that stands for a finding: the first near its line, else the first at all.\<close>

definition edge_candidates :: "vfinding \<Rightarrow> analysis \<Rightarrow> (taint_node \<times> taint_node \<times> taint_edge) list" where
  "edge_candidates f a =
     (case a of (sources, sinks, edges) \<Rightarrow>
        List.map_filter (\<lambda>e. case (node_by_id sources (te_source e), node_by_id sinks (te_target e)) of
            (Some s, Some sk) \<Rightarrow>
              if live_edge e \<and> (or_given (vf_file f) [] = [] \<or> vf_file f = Some (tn_file sk))
                 \<and> (or_given (vf_sink f) [] = [] \<or> vf_sink f = Some (tn_symbol sk))
              then Some (s, sk, e) else None
          | _ \<Rightarrow> None) edges)"

definition resolve_target_signature :: "project_env \<Rightarrow> vfinding \<Rightarrow> files \<Rightarrow> stable_signature option" where
  "resolve_target_signature env f fs =
     (if fs = [] then None
      else (case analyze_files env fs of
              None \<Rightarrow> None
            | Some a \<Rightarrow>
                (let cands = edge_candidates f a; line = or_given (vf_line f) 0;
                     near = find (\<lambda>(s, sk, e). 0 < line \<and> \<bar>tn_line sk - line\<bar> \<le> 2) cands
                 in map_option (\<lambda>(s, sk, e). get_stable_signature s sk e)
                      (case near of Some c \<Rightarrow> Some c | None \<Rightarrow> (case cands of c # _ \<Rightarrow> Some c | [] \<Rightarrow> None)))))"

definition accepted :: "remediation_record \<Rightarrow> bool" where
  "accepted r = (patch_status r = SUCCESS \<and> verification_passed r \<and> patched_source r \<noteq> None)"

definition rejected :: "patch_status \<Rightarrow> string \<Rightarrow> remediation_record \<Rightarrow> remediation_record" where
  "rejected status note r =
     r\<lparr>patch_status := status, verification_passed := False, patched_source := None, limitations := limitations r @ [note]\<rparr>"

definition cross_file_gate :: "project_env \<Rightarrow> files \<Rightarrow> string \<Rightarrow> vfinding \<Rightarrow> string \<Rightarrow> remediation_record \<Rightarrow> remediation_record" where
  "cross_file_gate env fs rel f content r =
     (if \<not> accepted r \<or> fs = [] then r
      else
        (let working = put_file rel content fs in
         case resolve_target_signature env f working of
           None \<Rightarrow> r
         | Some target \<Rightarrow>
             (case verify_fix env working rel content (the (patched_source r)) target of
                Some (REGRESSION_DETECTED, reason) \<Rightarrow> rejected FAILED_VERIFICATION (''Cross-file regression detected: '' @ reason) r
              | Some (NOT_VERIFIED, reason) \<Rightarrow> rejected FAILED_VERIFICATION (''Cross-file verification failed: '' @ reason) r
              | Some (INVALID_PATCH, reason) \<Rightarrow> rejected FAILED_SYNTAX (''Invalid patch: '' @ reason) r
              | Some (VERIFIED_FIX, reason) \<Rightarrow> r
              | None \<Rightarrow> r)))"

section \<open>One file\<close>

definition bottom_up :: "vfinding list \<Rightarrow> vfinding list" where
  "bottom_up fs = sort_key (\<lambda>f. - or_given (vf_line f) 0) fs"

definition moved :: "project_env \<Rightarrow> string \<Rightarrow> string \<Rightarrow> vfinding \<Rightarrow> vfinding" where
  "moved env prev now f = f\<lparr>vf_line := Some (map_line_number (opcodes env) prev now (or_given (vf_line f) 0))\<rparr>"

text \<open>
  The findings of one file in order, each on the content the previous ones left: whether all
  were accepted, the final content and the records, up to the first finding that was not.
\<close>

function patch_file ::
    "project_env \<Rightarrow> files \<Rightarrow> string \<Rightarrow> vfinding list \<Rightarrow> string \<Rightarrow> error + (bool \<times> string \<times> remediation_record list)" where
  "patch_file env fs rel [] content = Inr (True, content, [])"
| "patch_file env fs rel (f # rest) content =
     (let f' = f\<lparr>vf_line := Some (refine_finding_line_number (tree_of env) f content)\<rparr> in
      res_bind (remediate (engine env) f' content (Some rel)) (\<lambda>r0.
        let r = cross_file_gate env fs rel f' content r0 in
        if accepted r
        then res_bind (patch_file env fs rel (map (moved env content (the (patched_source r))) rest) (the (patched_source r)))
               (\<lambda>(ok, final, rs). Inr (ok, final, r # rs))
        else Inr (False, content, [r])))"
  by pat_completeness auto
termination
  by (relation "measure (\<lambda>(env, fs, rel, findings, content). length findings)") auto

definition roundtrip_rejected :: "string \<Rightarrow> remediation_record \<Rightarrow> remediation_record" where
  "roundtrip_rejected reason r =
     (if patch_status r = SUCCESS then rejected FAILED_VERIFICATION (''Roundtrip re-scan failed: '' @ reason) r else r)"

definition rolled_back :: "remediation_record \<Rightarrow> remediation_record" where
  "rolled_back r =
     (if patch_status r = SUCCESS
      then r\<lparr>limitations := limitations r @
        [''transaction_rollback: not persisted to disk due to subsequent failure in same file'']\<rparr>
      else r)"

record file_plan =
  fp_path :: string
  fp_ok :: bool
  fp_original :: string
  fp_content :: string
  fp_records :: "remediation_record list"
  fp_active :: "nat option"  \<comment> \<open>active flaws of the roundtrip, when it ran\<close>

text \<open>The two gates behind the loop: the roundtrip of a changed file, the marks of a rollback.\<close>

definition plan_file :: "project_env \<Rightarrow> files \<Rightarrow> bool \<Rightarrow> string \<Rightarrow> vfinding list \<Rightarrow> string \<Rightarrow> error + file_plan" where
  "plan_file env fs is_write rel findings original =
     res_bind (patch_file env fs rel (bottom_up findings) original) (\<lambda>(ok, content, records).
       let trip = (if ok \<and> content \<noteq> original then Some (roundtrip_validate (analyze (engine env)) rel content) else None);
           clean = (case trip of Some (valid, reason, n) \<Rightarrow> valid | None \<Rightarrow> True);
           ok' = (ok \<and> clean);
           gated = (case trip of Some (False, reason, n) \<Rightarrow> map (roundtrip_rejected reason) records | _ \<Rightarrow> records);
           final = (if is_write \<and> \<not> ok' then map rolled_back gated else gated)
       in Inr \<lparr>fp_path = rel, fp_ok = ok', fp_original = original, fp_content = content, fp_records = final,
               fp_active = map_option (\<lambda>t. snd (snd t)) trip\<rparr>)"

section \<open>The disk\<close>

record disk_file =
  raw :: string
  is_link :: bool
  nlink :: nat
  writable :: bool
  mode :: nat

type_synonym disk = "string \<Rightarrow> disk_file option"

text \<open>
  What a run sees of the file system besides the disk: the target and its resolution, the test
  seams, and which system calls fail. The write of the temporary file may fail at its opening,
  after some characters, or at the renaming.
\<close>

datatype write_fault = NoFault | OpenFails | WriteFails nat | ReplaceFails

record write_env =
  target_file :: "string option"  \<comment> \<open>the target, when it is a file\<close>
  resolve_target :: "string \<Rightarrow> string"  \<comment> \<open>\<open>(target / rel).resolve()\<close>\<close>
  resolve_base :: "string \<Rightarrow> string"  \<comment> \<open>\<open>(base_dir / rel).resolve()\<close>\<close>
  force_symlink :: bool
  hook :: "string \<Rightarrow> disk \<Rightarrow> disk"
  mutate :: "string option"
  stat_fails :: "string \<Rightarrow> bool"
  read_fails :: "string \<Rightarrow> bool"
  bytes_fail :: "string \<Rightarrow> bool"
  write_fault :: "string \<Rightarrow> write_fault"
  chmod_fails :: "string \<Rightarrow> bool"
  unlink_fails :: "string \<Rightarrow> bool"
  link_to :: "string \<Rightarrow> string"  \<comment> \<open>where an open through a symbolic link arrives\<close>
  new_mode :: nat  \<comment> \<open>the mode of a created file\<close>

text \<open>Text mode reads every line ending as a line feed.\<close>

fun universal_newlines :: "string \<Rightarrow> string" where
  "universal_newlines [] = []"
| "universal_newlines (c # cs) =
     (if c = CHR 0x0D
      then CHR 0x0A # (case cs of d # ds \<Rightarrow> if d = CHR 0x0A then universal_newlines ds else universal_newlines cs | [] \<Rightarrow> [])
      else c # universal_newlines cs)"

fun crlf_to_lf :: "string \<Rightarrow> string" where
  "crlf_to_lf [] = []"
| "crlf_to_lf [c] = [c]"
| "crlf_to_lf (c # d # cs) =
     (if c = CHR 0x0D \<and> d = CHR 0x0A then CHR 0x0A # crlf_to_lf cs else c # crlf_to_lf (d # cs))"

definition normalized_content :: "string \<Rightarrow> string \<Rightarrow> string" where
  "normalized_content raw_bytes content =
     (if py_contains raw_bytes [CHR 0x0D, CHR 0x0A]
      then py_replace_char (CHR 0x0A) [CHR 0x0D, CHR 0x0A] (crlf_to_lf content)
      else crlf_to_lf content)"

definition disk_path :: "write_env \<Rightarrow> disk \<Rightarrow> string \<Rightarrow> string" where
  "disk_path w d rel =
     (case target_file w of
        Some t \<Rightarrow> t
      | None \<Rightarrow> if d (resolve_target w rel) \<noteq> None then resolve_target w rel else resolve_base w rel)"

datatype write_outcome = Skipped | Written | Unwritten | Stale

text \<open>The changes a test seam may make right before the stale check.\<close>

definition before_check :: "write_env \<Rightarrow> string \<Rightarrow> disk \<Rightarrow> disk" where
  "before_check w p d =
     (let d1 = hook w p d in
      case (mutate w, d1 p) of
        (Some t, Some f) \<Rightarrow> if t \<noteq> [] then d1(p \<mapsto> f\<lparr>raw := t\<rparr>) else d1
      | _ \<Rightarrow> d1)"

text \<open>
  Replacing the file: the text is written to the temporary sibling, which gets the old mode and
  then takes the name. After a failure the sibling is removed, unless that fails too.
\<close>

definition temp_path :: "string \<Rightarrow> string" where
  "temp_path p = p @ ''.tcs_tmp''"

definition opened :: "write_env \<Rightarrow> disk \<Rightarrow> string \<Rightarrow> string" where
  "opened w d p = (case d p of Some f \<Rightarrow> if is_link f then link_to w p else p | None \<Rightarrow> p)"

definition write_temp :: "write_env \<Rightarrow> string \<Rightarrow> nat \<Rightarrow> string \<Rightarrow> disk \<Rightarrow> bool \<times> disk" where
  "write_temp w p old_mode text d =
     (let t = opened w d (temp_path p);
          file = (\<lambda>s. case d t of Some f \<Rightarrow> f\<lparr>raw := s\<rparr>
            | None \<Rightarrow> \<lparr>raw = s, is_link = False, nlink = 1, writable = True, mode = new_mode w\<rparr>);
          full = (if chmod_fails w p then file text else (file text)\<lparr>mode := old_mode\<rparr>)
      in if (case d t of Some f \<Rightarrow> \<not> writable f | None \<Rightarrow> False) then (False, d)
         else (case write_fault w p of
                 OpenFails \<Rightarrow> (False, d)
               | WriteFails n \<Rightarrow> (False, d(t \<mapsto> file (take n text)))
               | ReplaceFails \<Rightarrow> (False, d(t \<mapsto> full))
               | NoFault \<Rightarrow> (True, d(t \<mapsto> full))))"

definition replace_file :: "write_env \<Rightarrow> string \<Rightarrow> nat \<Rightarrow> string \<Rightarrow> disk \<Rightarrow> write_outcome \<times> disk" where
  "replace_file w p old_mode content d =
     (let tmp = temp_path p;
          bytes = (if bytes_fail w p then [] else case d p of Some f \<Rightarrow> raw f | None \<Rightarrow> [])
      in case write_temp w p old_mode (normalized_content bytes content) d of
           (True, d1) \<Rightarrow> (Written, d1(p := d1 tmp, tmp := None))
         | (False, d1) \<Rightarrow>
             (Unwritten, if d1 (opened w d1 tmp) \<noteq> None \<and> \<not> unlink_fails w p then d1(tmp := None) else d1))"

definition check_and_replace :: "write_env \<Rightarrow> string \<Rightarrow> nat \<Rightarrow> string \<Rightarrow> string \<Rightarrow> disk \<Rightarrow> write_outcome \<times> disk" where
  "check_and_replace w p old_mode original content d =
     (let d' = before_check w p d;
          now = (if read_fails w p then None else map_option (\<lambda>f. universal_newlines (raw f)) (d' p))
      in if now \<noteq> Some original then (Stale, d') else replace_file w p old_mode content d')"

definition write_plan :: "write_env \<Rightarrow> file_plan \<Rightarrow> disk \<Rightarrow> write_outcome \<times> disk" where
  "write_plan w fp d =
     (if fp_ok fp \<and> fp_content fp \<noteq> fp_original fp
      then
        (let p = disk_path w d (fp_path fp) in
         case d p of
           None \<Rightarrow> (Unwritten, d)
         | Some f \<Rightarrow>
             if is_link f \<or> force_symlink w then (Unwritten, d)
             else if stat_fails w p then (Unwritten, d)
             else if 1 < nlink f then (Unwritten, d)
             else if \<not> writable f then (Unwritten, d)
             else check_and_replace w p (mode f) (fp_original fp) (fp_content fp) d)
      else if \<not> fp_ok fp then (Unwritten, d)
      else (Skipped, d))"

section \<open>The project\<close>

record project_run =
  pr_disk :: disk
  pr_records :: "remediation_record list"
  pr_written :: "string list"
  pr_stale :: "string list"
  pr_unwritten :: "string list"
  pr_trips :: "(string \<times> nat) list"

definition open_findings :: "vfinding list \<Rightarrow> vfinding list" where
  "open_findings fs = filter (\<lambda>f. \<not> vf_suppressed f) fs"

text \<open>The files of the open findings in the order they are met.\<close>

definition finding_files :: "vfinding list \<Rightarrow> string list" where
  "finding_files cands = rev (remdups (rev (filter (\<lambda>p. p \<noteq> []) (map (\<lambda>f. or_given (vf_file f) []) cands))))"

definition findings_in :: "vfinding list \<Rightarrow> string \<Rightarrow> vfinding list" where
  "findings_in cands rel = filter (\<lambda>f. vf_file f = Some rel) cands"

definition finish_file :: "bool \<Rightarrow> write_env \<Rightarrow> file_plan \<Rightarrow> project_run \<Rightarrow> project_run" where
  "finish_file is_write w fp s =
     (let s1 = s\<lparr>pr_records := pr_records s @ fp_records fp,
                 pr_trips := pr_trips s @ (case fp_active fp of Some n \<Rightarrow> [(fp_path fp, n)] | None \<Rightarrow> [])\<rparr> in
      if \<not> is_write then s1
      else (case write_plan w fp (pr_disk s1) of
              (Skipped, d) \<Rightarrow> s1\<lparr>pr_disk := d\<rparr>
            | (Written, d) \<Rightarrow> s1\<lparr>pr_disk := d, pr_written := pr_written s1 @ [fp_path fp]\<rparr>
            | (Unwritten, d) \<Rightarrow> s1\<lparr>pr_disk := d, pr_unwritten := pr_unwritten s1 @ [fp_path fp]\<rparr>
            | (Stale, d) \<Rightarrow> s1\<lparr>pr_disk := d, pr_stale := pr_stale s1 @ [fp_path fp], pr_unwritten := pr_unwritten s1 @ [fp_path fp]\<rparr>))"

text \<open>
  A run as the exception that ended it, if any, and the state it leaves: what was written before
  an exception stays on the disk.
\<close>

definition project_step ::
    "project_env \<Rightarrow> write_env \<Rightarrow> files \<Rightarrow> bool \<Rightarrow> vfinding list
     \<Rightarrow> error option \<times> project_run \<Rightarrow> string \<Rightarrow> error option \<times> project_run" where
  "project_step env w fs is_write cands acc rel =
     (case acc of
        (Some e, s) \<Rightarrow> (Some e, s)
      | (None, s) \<Rightarrow>
          (case map_of fs rel of
             None \<Rightarrow> (None, s)
           | Some original \<Rightarrow>
               (case plan_file env fs is_write rel (findings_in cands rel) original of
                  Inl e \<Rightarrow> (Some e, s)
                | Inr fp \<Rightarrow> (None, finish_file is_write w fp s))))"

definition remediate_project ::
    "project_env \<Rightarrow> write_env \<Rightarrow> files \<Rightarrow> vfinding list \<Rightarrow> bool \<Rightarrow> disk \<Rightarrow> error option \<times> project_run" where
  "remediate_project env w fs findings is_write d =
     foldl (project_step env w fs is_write (open_findings findings))
       (None, \<lparr>pr_disk = d, pr_records = [], pr_written = [], pr_stale = [], pr_unwritten = [], pr_trips = []\<rparr>)
       (finding_files (open_findings findings))"

text \<open>The counts of the summary.\<close>

definition successful_count :: "bool \<Rightarrow> project_run \<Rightarrow> nat" where
  "successful_count is_write s =
     length (filter (\<lambda>r. patch_status r = SUCCESS \<and> (is_write \<longrightarrow> original_file r \<in> set (pr_written s))) (pr_records s))"

definition unsupported_count :: "project_run \<Rightarrow> nat" where
  "unsupported_count s = length (filter (\<lambda>r. patch_status r = UNSUPPORTED_CWE) (pr_records s))"

definition failed_count :: "bool \<Rightarrow> vfinding list \<Rightarrow> project_run \<Rightarrow> int" where
  "failed_count is_write findings s =
     int (length (open_findings findings)) - int (successful_count is_write s) - int (unsupported_count s)"


section \<open>Lines keep their text\<close>

text \<open>Opcodes that describe how one list of lines becomes another, from two positions on.\<close>

fun describes :: "string list \<Rightarrow> string list \<Rightarrow> nat \<Rightarrow> nat \<Rightarrow> opcode list \<Rightarrow> bool" where
  "describes prev new i j [] = (i = length prev \<and> j = length new)"
| "describes prev new i j ((tag, i1, i2, j1, j2) # ops) =
     (i1 = i \<and> j1 = j \<and> i1 \<le> i2 \<and> j1 \<le> j2 \<and> i2 \<le> length prev \<and> j2 \<le> length new
      \<and> (tag = Equal \<longrightarrow> i2 - i1 = j2 - j1 \<and> take (i2 - i1) (drop i1 prev) = take (j2 - j1) (drop j1 new))
      \<and> describes prev new i2 j2 ops)"

lemma slice_nth:
  "take n (drop i xs) = take n (drop j ys) \<Longrightarrow> m < n \<Longrightarrow> i + n \<le> length xs \<Longrightarrow> j + n \<le> length ys \<Longrightarrow> xs ! (i + m) = ys ! (j + m)"
  by (metis add_leD1 nth_drop nth_take)

lemma map_index_equal:
  assumes "describes prev new i j ops" "(Equal, i1, i2, j1, j2) \<in> set ops" "i1 \<le> k" "k < i2"
  shows "map_index k old shift ops = int (j1 + (k - i1)) + 1 \<and> j1 + (k - i1) < length new \<and> new ! (j1 + (k - i1)) = prev ! k \<and> i \<le> i1"
  using assms
proof (induction ops arbitrary: i j shift)
  case (Cons op ops)
  obtain tag a1 a2 b1 b2 where op: "op = (tag, a1, a2, b1, b2)" by (cases op)
  show ?case
  proof (cases "(Equal, i1, i2, j1, j2) = op")
    case True
    with Cons.prems op have eq: "take (i2 - i1) (drop i1 prev) = take (i2 - i1) (drop j1 new)" "i2 - i1 = j2 - j1"
        "i2 \<le> length prev" "j2 \<le> length new" "i = i1" "i1 \<le> i2" "j1 \<le> j2" by auto
    have "prev ! (i1 + (k - i1)) = new ! (j1 + (k - i1))"
      by (rule slice_nth [OF eq(1)]) (use eq Cons.prems(3,4) in auto)
    with True Cons.prems(3,4) op eq show ?thesis by auto
  next
    case False
    with Cons.prems(2) have mem: "(Equal, i1, i2, j1, j2) \<in> set ops" by auto
    have d: "describes prev new a2 b2 ops" "a1 \<le> a2" "a1 = i" using Cons.prems(1) op by auto
    have IH: "map_index k old sh ops = int (j1 + (k - i1)) + 1 \<and> j1 + (k - i1) < length new
        \<and> new ! (j1 + (k - i1)) = prev ! k \<and> a2 \<le> i1" for sh
      by (rule Cons.IH [OF d(1) mem Cons.prems(3,4)])
    from IH [of 0] have "a2 \<le> i1" by blast
    with d Cons.prems(3) have "a2 \<le> k" "i \<le> i1" by auto
    with IH d op show ?thesis by auto
  qed
qed simp


text \<open>
  A finding below a patch follows its line: when the opcodes describe the change, a line inside
  an unchanged block is mapped to a line of the new text with the same content.
\<close>

theorem mapped_line_keeps_text:
  assumes "describes prev new 0 0 (ops prev new)" "prev = splitlines_keepends before" "new = splitlines_keepends after"
    and "(Equal, i1, i2, j1, j2) \<in> set (ops prev new)" "int i1 < l" "l \<le> int i2"
  shows "1 \<le> map_line_number ops before after l \<and> map_line_number ops before after l \<le> int (length new)
     \<and> new ! nat (map_line_number ops before after l - 1) = prev ! nat (l - 1)"
proof -
  have k: "i1 \<le> nat (l - 1)" "nat (l - 1) < i2" "0 < l" using assms(5,6) by auto
  from map_index_equal [OF assms(1,4) k(1,2), of l 0]
  have "map_line_number ops before after l = int (j1 + (nat (l - 1) - i1)) + 1
      \<and> j1 + (nat (l - 1) - i1) < length new \<and> new ! (j1 + (nat (l - 1) - i1)) = prev ! nat (l - 1)"
    using k(3) assms(2,3) by (simp add: map_line_number_def)
  then show ?thesis by (simp add: nat_add_distrib)
qed

section \<open>What the loop over one file guarantees\<close>

lemma rejected_simps [simp]:
  "patch_status (rejected status note r) = status" "verification_passed (rejected status note r) = False"
  "patched_source (rejected status note r) = None" "original_file (rejected status note r) = original_file r"
  by (simp_all add: rejected_def)

lemma gate_keeps_file: "original_file (cross_file_gate env fs rel f content r) = original_file r"
  by (auto simp: cross_file_gate_def Let_def split: option.splits prod.splits fix_status.splits)

lemma gate_accepted:
  "accepted (cross_file_gate env fs rel f content r) \<Longrightarrow> cross_file_gate env fs rel f content r = r"
  by (auto simp: cross_file_gate_def accepted_def Let_def split: option.splits prod.splits fix_status.splits if_splits)

text \<open>The contents a list of accepted records passes through.\<close>

fun contents_after :: "string \<Rightarrow> remediation_record list \<Rightarrow> string" where
  "contents_after content [] = content"
| "contents_after content (r # rs) = contents_after (or_given (patched_source r) content) rs"

lemma patch_file_result:
  assumes "patch_file env fs rel findings content = Inr (ok, final, rs)"
  shows "(ok \<longleftrightarrow> list_all accepted rs \<and> length rs = length findings) \<and> length rs \<le> length findings
    \<and> final = contents_after content (filter accepted rs) \<and> list_all accepted (butlast rs)
    \<and> (rel \<noteq> [] \<longrightarrow> list_all (\<lambda>r. original_file r = rel) rs)"
  using assms
proof (induction env fs rel findings content arbitrary: ok final rs rule: patch_file.induct)
  case (2 env fs rel f rest content)
  define f' where "f' = f\<lparr>vf_line := Some (refine_finding_line_number (tree_of env) f content)\<rparr>"
  from "2.prems" obtain r0 where r0: "remediate (engine env) f' content (Some rel) = Inr r0"
    by (auto simp: f'_def res_bind_Inr_iff Let_def)
  define r where "r = cross_file_gate env fs rel f' content r0"
  have same: "rel \<noteq> [] \<longrightarrow> original_file r = rel"
    using remediate_Inr(1) [OF r0] by (auto simp: r_def gate_keeps_file engine_path_def or_given_def)
  show ?case
  proof (cases "accepted r")
    case False
    then have "ok = False \<and> final = content \<and> rs = [r]"
      using "2.prems" r0 by (simp add: f'_def [symmetric] r_def [symmetric] Let_def)
    with False same show ?thesis by auto
  next
    case True
    let ?rest = "map (moved env content (the (patched_source r))) rest" and ?next = "the (patched_source r)"
    from True have some: "or_given (patched_source r) content = ?next" by (auto simp: accepted_def or_given_def)
    from True "2.prems" r0 obtain ok' final' rs'
      where rec: "patch_file env fs rel ?rest ?next = Inr (ok', final', rs')" and eq: "ok = ok'" "final = final'" "rs = r # rs'"
      by (auto simp: f'_def [symmetric] r_def [symmetric] Let_def res_bind_Inr_iff)
    have "(ok' \<longleftrightarrow> list_all accepted rs' \<and> length rs' = length ?rest) \<and> length rs' \<le> length ?rest
      \<and> final' = contents_after ?next (filter accepted rs') \<and> list_all accepted (butlast rs')
      \<and> (rel \<noteq> [] \<longrightarrow> list_all (\<lambda>r. original_file r = rel) rs')"
      by (rule "2.IH" [OF f'_def r_def True rec])
    with True same show ?thesis unfolding eq by (auto simp: some)
  qed
qed simp


section \<open>What a run guarantees\<close>

text \<open>A file may be written only when its plan holds: every finding accepted, the result clean.\<close>

definition clean_source :: "project_env \<Rightarrow> string \<Rightarrow> string \<Rightarrow> bool" where
  "clean_source env rel content =
     (filter (\<lambda>f. \<not> vf_suppressed f) (scan_source_for_verification (analyze (engine env)) rel content) = [])"

lemma roundtrip_valid: "fst (roundtrip_validate an path src) \<longleftrightarrow>
    filter (\<lambda>f. \<not> vf_suppressed f) (scan_source_for_verification an path src) = []"
  by (simp add: roundtrip_validate_def Let_def)

lemma plan_file_result:
  assumes "plan_file env fs is_write rel findings original = Inr fp"
  shows "fp_path fp = rel \<and> fp_original fp = original \<and> length (fp_records fp) \<le> length findings
    \<and> (fp_ok fp \<longrightarrow> patch_file env fs rel (bottom_up findings) original = Inr (True, fp_content fp, fp_records fp)
         \<and> (fp_content fp \<noteq> original \<longrightarrow> clean_source env rel (fp_content fp)))"
proof -
  from assms obtain ok content records
    where run: "patch_file env fs rel (bottom_up findings) original = Inr (ok, content, records)"
    by (auto simp: plan_file_def res_bind_Inr_iff)
  have "length records \<le> length findings"
    using patch_file_result [OF run] by (simp add: bottom_up_def)
  moreover have "fp_ok fp \<longrightarrow> ok \<and> fp_content fp = content \<and> fp_records fp = records
      \<and> (content \<noteq> original \<longrightarrow> clean_source env rel content)"
    using assms run roundtrip_valid [of "analyze (engine env)" rel content]
    by (cases "roundtrip_validate (analyze (engine env)) rel content")
      (auto simp: plan_file_def Let_def clean_source_def split: if_splits option.splits bool.splits)
  moreover have "fp_path fp = rel \<and> fp_original fp = original \<and> length (fp_records fp) = length records"
    using assms run by (auto simp: plan_file_def Let_def split: option.splits bool.splits)
  ultimately show ?thesis using run by auto
qed

text \<open>The test seams of the writer switched off.\<close>

definition no_seams :: "write_env \<Rightarrow> bool" where
  "no_seams w = (hook w = (\<lambda>p d. d) \<and> mutate w = None)"

definition safe_to_replace :: "string \<Rightarrow> disk_file \<Rightarrow> bool" where
  "safe_to_replace original f =
     (\<not> is_link f \<and> nlink f \<le> 1 \<and> writable f \<and> universal_newlines (raw f) = original)"

text \<open>Names of temporary files, and the two conditions on them: no target bears such a name, and none is a link.\<close>

definition is_temp :: "string \<Rightarrow> bool" where
  "is_temp q = (drop (length q - 8) q = ''.tcs_tmp'')"

definition no_temp_targets :: "write_env \<Rightarrow> files \<Rightarrow> bool" where
  "no_temp_targets w fs =
     (list_all (\<lambda>(rel, text). \<not> is_temp (resolve_target w rel) \<and> \<not> is_temp (resolve_base w rel)) fs
      \<and> (case target_file w of Some t \<Rightarrow> \<not> is_temp t | None \<Rightarrow> True))"

definition plain_temps :: "disk \<Rightarrow> bool" where
  "plain_temps d = (\<forall>q f. is_temp q \<longrightarrow> d q = Some f \<longrightarrow> \<not> is_link f \<and> nlink f \<le> 1)"

lemma is_temp_temp [simp]: "is_temp (temp_path p)"
  by (simp add: is_temp_def temp_path_def)

lemma temp_path_neq [simp]: "temp_path p \<noteq> p" "p \<noteq> temp_path p"
  by (simp_all add: temp_path_def)

lemma disk_path_not_temp: "no_temp_targets w fs \<Longrightarrow> map_of fs rel = Some text \<Longrightarrow> \<not> is_temp (disk_path w d rel)"
  by (drule map_of_SomeD) (auto simp: no_temp_targets_def list_all_iff disk_path_def split: option.splits)

lemma plain_tempsD: "plain_temps d \<Longrightarrow> d (temp_path p) = Some f \<Longrightarrow> \<not> is_link f \<and> nlink f \<le> 1"
  using is_temp_temp [of p] unfolding plain_temps_def by blast

lemma plain_temps_upd: "plain_temps d \<Longrightarrow> \<not> is_link f \<Longrightarrow> nlink f \<le> 1 \<Longrightarrow> plain_temps (d(q \<mapsto> f))"
  by (simp add: plain_temps_def)

lemma opened_temp: "plain_temps d \<Longrightarrow> opened w d (temp_path p) = temp_path p"
  by (auto simp: opened_def dest: plain_tempsD split: option.split)

lemma write_temp_result:
  assumes "plain_temps d" "write_temp w p m text d = (ok, d')"
  shows "(\<forall>q. q \<noteq> temp_path p \<longrightarrow> d' q = d q) \<and> plain_temps d'
    \<and> (d' (temp_path p) = d (temp_path p) \<or> (\<exists>g n. d' (temp_path p) = Some g \<and> raw g = take n text))
    \<and> (ok \<longrightarrow> (\<exists>g. d' (temp_path p) = Some g \<and> raw g = text))"
proof -
  have self: "\<exists>n. text = take n text" by (rule exI [of _ "length text"]) simp
  show ?thesis
    using assms self
    by (cases "write_fault w p"; cases "d (temp_path p)")
      (auto simp: write_temp_def opened_temp Let_def intro!: plain_temps_upd dest: plain_tempsD split: if_splits)
qed

lemma replace_file_result:
  assumes "plain_temps d" "\<not> is_temp p" "replace_file w p m content d = (out, d')"
  shows "(\<forall>q. q \<noteq> p \<longrightarrow> q \<noteq> temp_path p \<longrightarrow> d' q = d q) \<and> plain_temps d' \<and> (out = Written \<or> out = Unwritten)
    \<and> (\<exists>old. (d' (temp_path p) \<noteq> d (temp_path p) \<longrightarrow> d' (temp_path p) = None
             \<or> out = Unwritten \<and> (\<exists>g n. d' (temp_path p) = Some g \<and> raw g = take n (normalized_content old content)))
         \<and> (out = Written \<longrightarrow> (\<exists>g. d' p = Some g \<and> raw g = normalized_content old content)))
    \<and> (out \<noteq> Written \<longrightarrow> d' p = d p)"
proof -
  define old where "old = (if bytes_fail w p then [] else case d p of Some f \<Rightarrow> raw f | None \<Rightarrow> [])"
  obtain ok d1 where temp: "write_temp w p m (normalized_content old content) d = (ok, d1)"
    by (cases "write_temp w p m (normalized_content old content) d")
  note res = write_temp_result [OF assms(1) temp]
  have plain: "plain_temps (d1(p := d1 (temp_path p), temp_path p := None))" "plain_temps (d1(temp_path p := None))"
    using res assms(2) by (auto simp: plain_temps_def)
  show ?thesis
  proof (cases ok)
    case True
    with assms(3) temp have eq: "out = Written" "d' = d1(p := d1 (temp_path p), temp_path p := None)"
      by (simp_all add: replace_file_def Let_def old_def [symmetric])
    from res True have "\<exists>g. d' p = Some g \<and> raw g = normalized_content old content" by (simp add: eq(2))
    with res plain(1) show ?thesis by (auto simp: eq)
  next
    case False
    with assms(3) temp have eq: "out = Unwritten" "d' = d1 \<or> d' = d1(temp_path p := None)"
      by (auto simp: replace_file_def Let_def old_def [symmetric] split: if_splits)
    from eq(2) show ?thesis
    proof
      assume d': "d' = d1"
      show ?thesis unfolding d' eq(1) using res by (auto intro: exI [of _ old])
    next
      assume d': "d' = d1(temp_path p := None)"
      show ?thesis unfolding d' eq(1) using res plain(2) by auto
    qed
  qed
qed

lemma write_plan_result:
  assumes "no_seams w" "plain_temps d" "\<not> is_temp (disk_path w d (fp_path fp))" "write_plan w fp d = (out, d')"
  defines "p \<equiv> disk_path w d (fp_path fp)"
  shows "(\<forall>q. q \<noteq> p \<longrightarrow> q \<noteq> temp_path p \<longrightarrow> d' q = d q) \<and> plain_temps d' \<and> (out \<noteq> Written \<longrightarrow> d' p = d p)
    \<and> (d' = d \<and> out \<noteq> Written
       \<or> fp_ok fp \<and> fp_content fp \<noteq> fp_original fp \<and> (out = Written \<or> out = Unwritten)
         \<and> (\<exists>f. d p = Some f \<and> safe_to_replace (fp_original fp) f)
         \<and> (\<exists>old. (d' (temp_path p) \<noteq> d (temp_path p) \<longrightarrow> d' (temp_path p) = None
               \<or> out = Unwritten \<and> (\<exists>g n. d' (temp_path p) = Some g \<and> raw g = take n (normalized_content old (fp_content fp))))
             \<and> (out = Written \<longrightarrow> (\<exists>g. d' p = Some g \<and> raw g = normalized_content old (fp_content fp)))))"
proof (cases "d' = d \<and> out \<noteq> Written")
  case True
  with assms(2) show ?thesis by simp
next
  case False
  with assms(1,4) obtain f where f: "fp_ok fp" "fp_content fp \<noteq> fp_original fp" "d p = Some f" "safe_to_replace (fp_original fp) f"
    and run: "replace_file w p (mode f) (fp_content fp) d = (out, d')"
    by (auto simp: write_plan_def check_and_replace_def before_check_def no_seams_def safe_to_replace_def Let_def p_def
        split: if_splits option.splits)
  from replace_file_result [OF assms(2) assms(3) [folded p_def] run] f show ?thesis by blast
qed

text \<open>The verified result of one file: every finding accepted, and a changed source that scans clean.\<close>

definition file_result :: "project_env \<Rightarrow> files \<Rightarrow> vfinding list \<Rightarrow> string \<Rightarrow> string \<Rightarrow> bool" where
  "file_result env fs cands rel content =
     (\<exists>original records. map_of fs rel = Some original \<and> content \<noteq> original
        \<and> patch_file env fs rel (bottom_up (findings_in cands rel)) original = Inr (True, content, records)
        \<and> list_all accepted records \<and> length records = length (findings_in cands rel)
        \<and> clean_source env rel content)"

definition changed_safely :: "project_env \<Rightarrow> write_env \<Rightarrow> files \<Rightarrow> vfinding list \<Rightarrow> disk \<Rightarrow> disk \<Rightarrow> string list \<Rightarrow> string \<Rightarrow> bool" where
  "changed_safely env w fs cands d0 d written q =
     ((\<exists>f rel original. d0 q = Some f \<and> rel \<in> set written \<and> q = disk_path w d0 rel
         \<and> map_of fs rel = Some original \<and> safe_to_replace original f)
      \<and> (\<exists>g rel content old. d q = Some g \<and> rel \<in> set written \<and> q = disk_path w d0 rel
         \<and> file_result env fs cands rel content \<and> raw g = normalized_content old content))"

text \<open>
  What a run may leave at the temporary name of a target: nothing, or the beginning of the verified
  result, when the file could not be written and the removal failed.
\<close>

definition temp_left :: "project_env \<Rightarrow> write_env \<Rightarrow> files \<Rightarrow> vfinding list \<Rightarrow> disk \<Rightarrow> project_run \<Rightarrow> string \<Rightarrow> bool" where
  "temp_left env w fs cands d0 s q =
     (\<exists>rel. q = temp_path (disk_path w d0 rel)
        \<and> (pr_disk s q = None \<and> rel \<in> set (pr_written s @ pr_unwritten s)
           \<or> rel \<in> set (pr_unwritten s)
             \<and> (\<exists>g content old n. pr_disk s q = Some g \<and> file_result env fs cands rel content
                  \<and> raw g = take n (normalized_content old content))))"

definition run_ok :: "project_env \<Rightarrow> write_env \<Rightarrow> files \<Rightarrow> vfinding list \<Rightarrow> disk \<Rightarrow> project_run \<Rightarrow> bool" where
  "run_ok env w fs cands d0 s =
     (plain_temps (pr_disk s)
      \<and> (\<forall>q. \<not> is_temp q \<longrightarrow> (pr_disk s q = None \<longleftrightarrow> d0 q = None))
      \<and> (\<forall>q. pr_disk s q = d0 q \<or> changed_safely env w fs cands d0 (pr_disk s) (pr_written s) q
            \<or> temp_left env w fs cands d0 s q))"

lemma disk_path_same:
  "d (resolve_target w rel) = None \<longleftrightarrow> d0 (resolve_target w rel) = None \<Longrightarrow> disk_path w d rel = disk_path w d0 rel"
  by (simp add: disk_path_def del: not_None_eq split: option.split)

lemma changed_safely_more:
  "changed_safely env w fs cands d0 d written q \<Longrightarrow> d' q = d q \<Longrightarrow> set written \<subseteq> set written'
     \<Longrightarrow> changed_safely env w fs cands d0 d' written' q"
  unfolding changed_safely_def by simp blast

lemma temp_left_more:
  "temp_left env w fs cands d0 s q \<Longrightarrow> pr_disk s' q = pr_disk s q \<Longrightarrow> set (pr_written s) \<subseteq> set (pr_written s')
     \<Longrightarrow> set (pr_unwritten s) \<subseteq> set (pr_unwritten s') \<Longrightarrow> temp_left env w fs cands d0 s' q"
  unfolding temp_left_def set_append by (elim exE conjE disjE; simp; blast)

lemma finish_file_state:
  assumes "write_plan w fp (pr_disk s) = (out, d')"
  shows "pr_disk (finish_file True w fp s) = d'"
    "set (pr_written (finish_file True w fp s)) = set (pr_written s) \<union> (if out = Written then {fp_path fp} else {})"
    "set (pr_unwritten (finish_file True w fp s)) = set (pr_unwritten s) \<union> (if out \<in> {Unwritten, Stale} then {fp_path fp} else {})"
  using assms by (cases out; simp add: finish_file_def)+

lemma finish_file_ok:
  assumes "no_seams w" "no_temp_targets w fs" "run_ok env w fs cands d0 s"
    and "map_of fs rel = Some original"
    and plan: "plan_file env fs is_write rel (findings_in cands rel) original = Inr fp"
  shows "run_ok env w fs cands d0 (finish_file is_write w fp s)"
proof (cases is_write)
  case False
  then have "pr_disk (finish_file is_write w fp s) = pr_disk s" "pr_written (finish_file is_write w fp s) = pr_written s"
      "pr_unwritten (finish_file is_write w fp s) = pr_unwritten s"
    by (simp_all add: finish_file_def)
  with assms(3) show ?thesis by (simp add: run_ok_def temp_left_def)
next
  case True
  note fp = plan_file_result [OF plan]
  define p where "p = disk_path w d0 rel"
  obtain out d' where out: "write_plan w fp (pr_disk s) = (out, d')" by (cases "write_plan w fp (pr_disk s)")
  note st = finish_file_state [OF out]
  have target: "\<not> is_temp (resolve_target w rel)" "\<not> is_temp p"
    using disk_path_not_temp [OF assms(2,4)] map_of_SomeD [OF assms(4)] assms(2)
    by (auto simp: p_def no_temp_targets_def list_all_iff)
  have path: "disk_path w (pr_disk s) (fp_path fp) = p"
    using disk_path_same [of "pr_disk s" w rel d0] assms(3) fp target by (simp add: run_ok_def p_def)
  have old: "plain_temps (pr_disk s)" "\<not> is_temp q \<Longrightarrow> pr_disk s q = None \<longleftrightarrow> d0 q = None"
      "pr_disk s q = d0 q \<or> changed_safely env w fs cands d0 (pr_disk s) (pr_written s) q \<or> temp_left env w fs cands d0 s q" for q
    using assms(3) by (auto simp: run_ok_def)
  note res = write_plan_result [OF assms(1) old(1) _ out, unfolded path, OF target(2)]
  let ?s = "finish_file True w fp s"
  have keep: "pr_disk ?s q = d0 q \<or> changed_safely env w fs cands d0 (pr_disk ?s) (pr_written ?s) q \<or> temp_left env w fs cands d0 ?s q"
    if same: "d' q = pr_disk s q" for q
    using old(3) [of q] changed_safely_more [of env w fs cands d0 "pr_disk s" "pr_written s" q "pr_disk ?s" "pr_written ?s"]
      temp_left_more [of env w fs cands d0 s q ?s] same st by auto
  have "run_ok env w fs cands d0 ?s"
  proof (cases "d' = pr_disk s \<and> out \<noteq> Written")
    case True
    with keep old(1,2) show ?thesis by (simp add: run_ok_def st)
  next
    case False
    with res obtain f oldraw where ok: "fp_ok fp" "fp_content fp \<noteq> original" "out = Written \<or> out = Unwritten"
      and f: "pr_disk s p = Some f" "safe_to_replace original f"
      and temp: "d' (temp_path p) \<noteq> pr_disk s (temp_path p) \<Longrightarrow> d' (temp_path p) = None
           \<or> out = Unwritten \<and> (\<exists>g n. d' (temp_path p) = Some g \<and> raw g = take n (normalized_content oldraw (fp_content fp)))"
      and wr: "out = Written \<Longrightarrow> \<exists>g. d' p = Some g \<and> raw g = normalized_content oldraw (fp_content fp)"
      using fp by metis
    have run: "patch_file env fs rel (bottom_up (findings_in cands rel)) original = Inr (True, fp_content fp, fp_records fp)"
      using fp ok(1) by blast
    from patch_file_result [OF run] have result: "file_result env fs cands rel (fp_content fp)"
      using run ok fp assms(4) by (auto simp: file_result_def bottom_up_def)
    have at_temp: "temp_left env w fs cands d0 ?s (temp_path p)" if diff: "d' (temp_path p) \<noteq> pr_disk s (temp_path p)"
    proof -
      consider "d' (temp_path p) = None" | g n where "out = Unwritten" "d' (temp_path p) = Some g"
          "raw g = take n (normalized_content oldraw (fp_content fp))"
        using temp [OF diff] by (elim disjE conjE exE) simp_all
      then show ?thesis
      proof cases
        case 1
        with ok(3) fp show ?thesis unfolding temp_left_def p_def st set_append by auto
      next
        case 2
        then have "rel \<in> set (pr_unwritten ?s)" using fp st(3) by simp
        with 2 result st(1) show ?thesis unfolding temp_left_def p_def by metis
      qed
    qed
    have at_target: "changed_safely env w fs cands d0 d' (pr_written ?s) p" if "out = Written"
    proof -
      have "\<exists>g rel original. d0 p = Some g \<and> rel \<in> set (pr_written ?s) \<and> p = disk_path w d0 rel
          \<and> map_of fs rel = Some original \<and> safe_to_replace original g"
      proof (cases "pr_disk s p = d0 p")
        case True
        with f assms(4) st(2) that fp show ?thesis unfolding p_def by auto
      next
        case False
        moreover have "\<not> temp_left env w fs cands d0 s p" using target(2) by (auto simp: temp_left_def)
        ultimately have "changed_safely env w fs cands d0 (pr_disk s) (pr_written s) p" using old(3) [of p] by blast
        then show ?thesis unfolding changed_safely_def st(2) by fastforce
      qed
      moreover have "rel \<in> set (pr_written ?s)" using that st(2) fp by simp
      ultimately show ?thesis using wr [OF that] result unfolding changed_safely_def p_def by metis
    qed
    have "pr_disk ?s q = d0 q \<or> changed_safely env w fs cands d0 (pr_disk ?s) (pr_written ?s) q \<or> temp_left env w fs cands d0 ?s q" for q
    proof (cases "d' q = pr_disk s q")
      case True
      then show ?thesis by (rule keep)
    next
      case diff: False
      show ?thesis
      proof (cases "q = temp_path p")
        case True
        with at_temp diff show ?thesis by blast
      next
        case False
        with diff res have "q = p" by blast
        moreover from this diff res have "out = Written" by blast
        ultimately show ?thesis using at_target st(1) by simp
      qed
    qed
    moreover have "d' q = None \<longleftrightarrow> d0 q = None" if "\<not> is_temp q" for q
    proof (cases "q = p")
      case True
      have "d' p = None \<longleftrightarrow> pr_disk s p = None"
      proof (cases "out = Written")
        case True
        with wr f(1) show ?thesis by auto
      next
        case False
        with res show ?thesis by simp
      qed
      with True old(2) [OF that] show ?thesis by simp
    next
      case False
      with that have "q \<noteq> temp_path p" by auto
      with False res have "d' q = pr_disk s q" by blast
      with old(2) [OF that] show ?thesis by simp
    qed
    ultimately show ?thesis using res unfolding run_ok_def st(1) by blast
  qed
  with True show ?thesis by simp
qed

lemma project_fold_ok:
  assumes "no_seams w" "no_temp_targets w fs" "foldl (project_step env w fs is_write cands) (err, s) rels = (err', s')"
    "run_ok env w fs cands d0 s"
  shows "run_ok env w fs cands d0 s'"
  using assms(3,4)
proof (induction rels arbitrary: err s)
  case (Cons rel rels)
  obtain err1 s1 where step: "project_step env w fs is_write cands (err, s) rel = (err1, s1)"
    by (cases "project_step env w fs is_write cands (err, s) rel")
  then have "run_ok env w fs cands d0 s1"
    using Cons.prems(2) finish_file_ok [OF assms(1,2) Cons.prems(2)]
    by (auto simp: project_step_def split: option.splits sum.splits)
  with Cons step show ?case by simp
qed simp


text \<open>A preview leaves the disk as it is.\<close>

lemma preview_fold:
  "foldl (project_step env w fs False cands) (err, s) rels = (err', s') \<Longrightarrow> pr_disk s' = pr_disk s \<and> pr_written s' = pr_written s"
proof (induction rels arbitrary: err s)
  case (Cons rel rels)
  obtain err1 s1 where step: "project_step env w fs False cands (err, s) rel = (err1, s1)"
    by (cases "project_step env w fs False cands (err, s) rel")
  then have "pr_disk s1 = pr_disk s \<and> pr_written s1 = pr_written s"
    by (auto simp: project_step_def finish_file_def split: option.splits sum.splits)
  with Cons step show ?case by simp
qed simp

text \<open>
  A preview never writes: without the write flag a run leaves the disk as it was and counts no
  file as written, whatever the findings, the transformers and the analysis are, and also when an
  exception ends it.
\<close>

theorem preview_leaves_disk:
  "remediate_project env w fs findings False d = (err, s) \<Longrightarrow> pr_disk s = d \<and> pr_written s = []"
  unfolding remediate_project_def by (drule preview_fold) simp

section \<open>A sample project\<close>

text \<open>One file with one finding, on a disk that also holds a file outside of the project.\<close>

definition line_opcodes :: "string list \<Rightarrow> string list \<Rightarrow> opcode list" where
  "line_opcodes prev new = (if prev = new then [(Equal, 0, length prev, 0, length new)] else [(Replace, 0, length prev, 0, length new)])"

definition yaml_env :: project_env where
  "yaml_env = \<lparr>engine = yaml_engine, tree_of = (\<lambda>s. None), opcodes = line_opcodes, analyze_files = (\<lambda>fs. None)\<rparr>"

definition yaml_files :: files where
  "yaml_files = [(''a.py'', yaml_source)]"

definition plain_file :: "string \<Rightarrow> disk_file" where
  "plain_file text = \<lparr>raw = text, is_link = False, nlink = 1, writable = True, mode = 420\<rparr>"

definition link_file :: "string \<Rightarrow> disk_file" where
  "link_file target = \<lparr>raw = target, is_link = True, nlink = 1, writable = True, mode = 511\<rparr>"

definition project_disk :: disk where
  "project_disk p = (if p = ''/p/a.py'' then Some (plain_file yaml_source) else None)"

text \<open>The project's \<open>a.py\<close> as a symbolic link to a file elsewhere.\<close>

definition linked_disk :: disk where
  "linked_disk p =
     (if p = ''/p/a.py'' then Some (link_file ''/elsewhere/real.py'')
      else if p = ''/elsewhere/real.py'' then Some (plain_file yaml_source) else None)"

text \<open>Resolving a path follows the link that stands there.\<close>

definition follow_link :: "disk \<Rightarrow> string \<Rightarrow> string" where
  "follow_link d p = (case d p of Some f \<Rightarrow> if is_link f then raw f else p | None \<Rightarrow> p)"

definition project_fs :: "disk \<Rightarrow> write_env" where
  "project_fs d =
     \<lparr>target_file = None, resolve_target = (\<lambda>rel. follow_link d (''/p/'' @ rel)), resolve_base = (\<lambda>rel. follow_link d (''/p/'' @ rel)),
      force_symlink = False, hook = (\<lambda>p d. d), mutate = None, stat_fails = (\<lambda>p. False), read_fails = (\<lambda>p. False),
      bytes_fail = (\<lambda>p. False), write_fault = (\<lambda>p. NoFault), chmod_fails = (\<lambda>p. False), unlink_fails = (\<lambda>p. False),
      link_to = follow_link d, new_mode = 420\<rparr>"

definition yaml_run :: "bool \<Rightarrow> disk \<Rightarrow> error option \<times> project_run" where
  "yaml_run is_write d = remediate_project yaml_env (project_fs d) yaml_files [yaml_finding] is_write d"

text \<open>A disk that is full after four characters, on which the temporary file cannot be removed either.\<close>

definition full_fs :: "disk \<Rightarrow> write_env" where
  "full_fs d = (project_fs d)\<lparr>write_fault := (\<lambda>p. WriteFails 4), unlink_fails := (\<lambda>p. True)\<rparr>"

definition full_run :: "error option \<times> project_run" where
  "full_run = remediate_project yaml_env (full_fs project_disk) yaml_files [yaml_finding] True project_disk"

lemma yaml_conditions:
  "no_seams (project_fs d)" "no_seams (full_fs d)" "plain_temps project_disk"
  "no_temp_targets (project_fs project_disk) yaml_files" "no_temp_targets (full_fs project_disk) yaml_files"
proof -
  show "no_seams (project_fs d)" "no_seams (full_fs d)" by (simp_all add: no_seams_def project_fs_def full_fs_def)
  show "plain_temps project_disk" by (auto simp: plain_temps_def project_disk_def plain_file_def)
  show "no_temp_targets (project_fs project_disk) yaml_files" "no_temp_targets (full_fs project_disk) yaml_files" by code_simp+
qed

lemma yaml_changed: "fst (yaml_run True project_disk) = None"
  "pr_disk (snd (yaml_run True project_disk)) ''/p/a.py'' = Some (plain_file yaml_fixed)"
  "pr_disk (snd (yaml_run True project_disk)) ''/p/a.py.tcs_tmp'' = None"
  by code_simp+

text \<open>
  The guard against symbolic links never fires: the path is resolved first, so a link in the
  project has its target replaced, even outside of the project, and the file counts as written.
\<close>

theorem symlink_target_overwritten:
  "pr_disk (snd (yaml_run True linked_disk)) ''/elsewhere/real.py'' = Some (plain_file yaml_fixed)
   \<and> pr_disk (snd (yaml_run True linked_disk)) ''/p/a.py'' = linked_disk ''/p/a.py''
   \<and> pr_written (snd (yaml_run True linked_disk)) = [''a.py''] \<and> pr_unwritten (snd (yaml_run True linked_disk)) = []"
  by code_simp

text \<open>A failed write may leave a partial copy behind, and the file itself as it was.\<close>

theorem temp_file_left_behind:
  "pr_disk (snd full_run) ''/p/a.py.tcs_tmp'' = Some (plain_file (take 4 yaml_fixed))
   \<and> pr_disk (snd full_run) ''/p/a.py'' = project_disk ''/p/a.py'' \<and> pr_unwritten (snd full_run) = [''a.py'']"
  by code_simp


theorem preview_leaves_disk_witness: "pr_disk (snd (yaml_run False project_disk)) = project_disk"
proof -
  have "remediate_project yaml_env (project_fs project_disk) yaml_files [yaml_finding] False project_disk
      = (fst (yaml_run False project_disk), snd (yaml_run False project_disk))"
    by (simp add: yaml_run_def)
  from preview_leaves_disk [OF this] show ?thesis by simp
qed

theorem mapped_line_keeps_text_witness:
  "map_line_number (\<lambda>p n. [(Insert, 0, 0, 0, 1), (Equal, 0, 2, 1, 3)]) (''a'' @ [CHR 0x0A] @ ''b'' @ [CHR 0x0A])
     (''import x'' @ [CHR 0x0A] @ ''a'' @ [CHR 0x0A] @ ''b'' @ [CHR 0x0A]) 2 = 3
   \<and> splitlines_keepends (''import x'' @ [CHR 0x0A] @ ''a'' @ [CHR 0x0A] @ ''b'' @ [CHR 0x0A]) ! nat (3 - 1) = ''b'' @ [CHR 0x0A]"
proof -
  let ?old = "''a'' @ [CHR 0x0A] @ ''b'' @ [CHR 0x0A]" and ?new = "''import x'' @ [CHR 0x0A] @ ''a'' @ [CHR 0x0A] @ ''b'' @ [CHR 0x0A]"
  let ?ops = "(\<lambda>p n. [(Insert, 0, 0, 0, 1), (Equal, 0, 2, 1, 3)]) :: string list \<Rightarrow> string list \<Rightarrow> opcode list"
  have d: "describes (splitlines_keepends ?old) (splitlines_keepends ?new) 0 0 (?ops (splitlines_keepends ?old) (splitlines_keepends ?new))"
    by code_simp
  have m: "map_line_number ?ops ?old ?new 2 = 3" by code_simp
  have old: "splitlines_keepends ?old ! nat (2 - 1) = ''b'' @ [CHR 0x0A]" by code_simp
  have "1 \<le> map_line_number ?ops ?old ?new 2 \<and> map_line_number ?ops ?old ?new 2 \<le> int (length (splitlines_keepends ?new))
     \<and> splitlines_keepends ?new ! nat (map_line_number ?ops ?old ?new 2 - 1) = splitlines_keepends ?old ! nat (2 - 1)"
    by (rule mapped_line_keeps_text [OF d refl refl, where ?i1.0 = 0 and ?i2.0 = 2 and ?j1.0 = 1 and ?j2.0 = 3]) simp_all
  then show ?thesis unfolding m old by simp
qed

end
