(* ===== verification/Tolerant_Parse.thy ===== *)
theory Tolerant_Parse
  imports Py_Values Text_Lines
begin

text \<open>
  The tolerant reader of \<open>ast_scanner.py\<close>: which reader may produce a module in each mode, and
  the sweep that replaces an unreadable top-level block by \<open>pass\<close> and parses again. Python's
  parser and tokenizer and the tree-sitter packer are arguments; a module is of any type.
\<close>

section \<open>The readers\<close>

text \<open>The outcome of \<open>ast.parse\<close>: a module, a syntax error with its line, or another exception.\<close>

datatype 'm parsed = Parsed 'm | SyntaxAt "int option" | ParseRaises error

datatype token_kind = Newline_Token | Skipped_Token | Other_Token

text \<open>A token: its kind, the line it starts on and the line it ends on.\<close>

type_synonym line_token = "token_kind \<times> nat \<times> nat"

record 'm readers =
  parse_module :: "string \<Rightarrow> 'm parsed"
  clean_parse :: "(string \<Rightarrow> 'm option) option"  \<comment> \<open>None: the packer is not installed\<close>
  token_stream :: "string \<Rightarrow> line_token list \<times> bool"  \<comment> \<open>the tokens, and whether the tokenizer raised\<close>

section \<open>Blocks\<close>

text \<open>\<open>str.expandtabs()\<close> from a column on.\<close>

fun expand_tabs :: "nat \<Rightarrow> string \<Rightarrow> string" where
  "expand_tabs j [] = []"
| "expand_tabs j (c # cs) =
     (if c = CHR 0x09 then replicate (8 - j mod 8) (CHR '' '') @ expand_tabs (j + (8 - j mod 8)) cs
      else c # expand_tabs (if c = CHR 0x0A \<or> c = CHR 0x0D then 0 else Suc j) cs)"

definition tolerant_block_indent :: "string \<Rightarrow> nat" where
  "tolerant_block_indent text =
     (let expanded = expand_tabs 0 text in length expanded - length (py_lstrip expanded))"

text \<open>The scan of the tokens: the spans found so far and the line of the pending statement.\<close>

definition span_token :: "(nat \<times> nat) list \<times> nat option \<Rightarrow> line_token \<Rightarrow> (nat \<times> nat) list \<times> nat option" where
  "span_token st tok =
     (case (st, tok) of ((spans, start), (kind, l1, l2)) \<Rightarrow>
        (case kind of
           Newline_Token \<Rightarrow> (case start of Some s \<Rightarrow> (spans @ [(s, l2)], None) | None \<Rightarrow> (spans, None))
         | Skipped_Token \<Rightarrow> (spans, start)
         | Other_Token \<Rightarrow> (case start of None \<Rightarrow> (spans, Some l1) | Some s \<Rightarrow> (spans, Some s))))"

definition numbered :: "string list \<Rightarrow> (nat \<times> string) list" where
  "numbered ls = zip [1..<Suc (length ls)] ls"

definition tolerant_line_spans :: "'m readers \<Rightarrow> string \<Rightarrow> (nat \<times> nat) list" where
  "tolerant_line_spans rd source =
     (let lines = py_splitlines source;
          (toks, raised) = token_stream rd source;
          (found, start) = foldl span_token ([], None) toks;
          spans = (if raised then []
                   else (case start of Some s \<Rightarrow> found @ [(s, max s (length lines))] | None \<Rightarrow> found))
      in if spans = [] then map (\<lambda>(i, text). (i, i)) (filter (\<lambda>(i, text). py_strip text \<noteq> []) (numbered lines))
         else spans)"

text \<open>The lines that belong to a block behind its last line: blank ones and deeper ones.\<close>

fun suite_length :: "nat \<Rightarrow> string list \<Rightarrow> nat" where
  "suite_length base [] = 0"
| "suite_length base (l # ls) =
     (if py_strip l = [] \<or> base < tolerant_block_indent l then Suc (suite_length base ls) else 0)"

text \<open>The first line of a block; the spans name lines of the file.\<close>

definition line_at :: "string list \<Rightarrow> nat \<Rightarrow> string" where
  "line_at lines start = (if start - 1 < length lines then lines ! (start - 1) else [])"

definition block_limit :: "string list \<Rightarrow> nat \<Rightarrow> nat \<Rightarrow> nat" where
  "block_limit lines start stop =
     stop + suite_length (tolerant_block_indent (line_at lines start)) (drop stop lines)"

definition own_newline :: "string \<Rightarrow> string" where
  "own_newline l = (if py_endswith l [CHR 0x0A] \<or> py_endswith l [CHR 0x0D] then [CHR 0x0A] else [])"

definition line_indent :: "string \<Rightarrow> string" where
  "line_indent l = take (length l - length (py_lstrip l)) l"

definition tolerant_substitute :: "string list \<Rightarrow> nat \<Rightarrow> nat \<Rightarrow> string list" where
  "tolerant_substitute lines start stop =
     (let limit = block_limit lines start stop in
      map (\<lambda>(i, l). if i = start then line_indent l @ ''pass'' @ own_newline l
                    else if start < i \<and> i \<le> limit then own_newline l else l)
        (numbered lines))"

section \<open>The sweep\<close>

definition max_blocks :: nat where
  "max_blocks = 32"

definition block_of :: "(nat \<times> nat) list \<Rightarrow> int option \<Rightarrow> (nat \<times> nat) option" where
  "block_of spans lineno =
     (let n = (case lineno of Some k \<Rightarrow> k | None \<Rightarrow> 0) in find (\<lambda>(a, b). int a \<le> n \<and> n \<le> int b) spans)"

text \<open>The rounds: the number left, the lines as they are now and the starts of the blocks replaced.\<close>

fun sweep_rounds ::
    "'m readers \<Rightarrow> (nat \<times> nat) list \<Rightarrow> nat \<Rightarrow> string list \<Rightarrow> nat list \<Rightarrow> error + ('m option \<times> nat list)" where
  "sweep_rounds rd spans 0 current replaced = Inr (None, sort replaced)"
| "sweep_rounds rd spans (Suc k) current replaced =
     (case parse_module rd (concat current) of
        Parsed m \<Rightarrow> Inr (Some m, sort replaced)
      | ParseRaises e \<Rightarrow> Inl e
      | SyntaxAt lineno \<Rightarrow>
          (case block_of spans lineno of
             None \<Rightarrow> Inr (None, sort replaced)
           | Some (a, b) \<Rightarrow>
               if a \<in> set replaced then Inr (None, sort replaced)
               else sweep_rounds rd spans k (tolerant_substitute current a b) (replaced @ [a])))"

definition tolerant_sweep :: "'m readers \<Rightarrow> string \<Rightarrow> error + ('m option \<times> nat list)" where
  "tolerant_sweep rd source =
     (let lines = splitlines_keepends source; spans = tolerant_line_spans rd source in
      if lines = [] \<or> spans = [] then Inr (None, [])
      else sweep_rounds rd spans max_blocks lines [])"

section \<open>The modes\<close>

definition normalise_parser_mode :: "pyval \<Rightarrow> string" where
  "normalise_parser_mode mode =
     (case mode of
        PStr s \<Rightarrow> (if py_lower (py_strip s) \<in> {''hybrid'', ''treesitter'', ''ast''} then py_lower (py_strip s) else ''hybrid'')
      | _ \<Rightarrow> ''hybrid'')"

definition native_parse_once :: "'m readers \<Rightarrow> string \<Rightarrow> error + 'm option" where
  "native_parse_once rd source =
     (case parse_module rd source of Parsed m \<Rightarrow> Inr (Some m) | SyntaxAt l \<Rightarrow> Inr None | ParseRaises e \<Rightarrow> Inl e)"

definition treesitter_rescue :: "'m readers \<Rightarrow> string \<Rightarrow> error + 'm option" where
  "treesitter_rescue rd source = Inr (case clean_parse rd of None \<Rightarrow> None | Some f \<Rightarrow> f source)"

definition mode_readers :: "string \<Rightarrow> ('m readers \<Rightarrow> string \<Rightarrow> error + 'm option) list" where
  "mode_readers mode =
     (if mode = ''treesitter'' then [treesitter_rescue, native_parse_once]
      else if mode = ''ast'' then [native_parse_once]
      else [native_parse_once, treesitter_rescue])"

fun read_in_order ::
    "'m readers \<Rightarrow> string \<Rightarrow> ('m readers \<Rightarrow> string \<Rightarrow> error + 'm option) list \<Rightarrow> error + ('m option \<times> nat list)" where
  "read_in_order rd source [] = tolerant_sweep rd source"
| "read_in_order rd source (r # rs) =
     res_bind (r rd source) (\<lambda>t. case t of Some m \<Rightarrow> Inr (Some m, []) | None \<Rightarrow> read_in_order rd source rs)"

definition parse_source_tolerant :: "'m readers \<Rightarrow> string \<Rightarrow> string \<Rightarrow> error + ('m option \<times> nat list)" where
  "parse_source_tolerant rd source mode = read_in_order rd source (mode_readers mode)"

section \<open>What a substitution keeps\<close>

lemma numbered_nth [simp]: "i < length ls \<Longrightarrow> numbered ls ! i = (Suc i, ls ! i)"
  by (simp add: numbered_def del: upt_Suc)

lemma length_numbered [simp]: "length (numbered ls) = length ls"
  by (simp add: numbered_def del: upt_Suc)

lemma length_substitute [simp]: "length (tolerant_substitute lines a b) = length lines"
  by (simp add: tolerant_substitute_def Let_def)

lemma nth_substitute:
  "i < length lines \<Longrightarrow> tolerant_substitute lines a b ! i =
     (if Suc i = a then line_indent (lines ! i) @ ''pass'' @ own_newline (lines ! i)
      else if a \<le> i \<and> i < block_limit lines a b then own_newline (lines ! i) else lines ! i)"
  by (simp add: tolerant_substitute_def Let_def less_Suc_eq_le Suc_le_eq)

lemma suite_length_covers: "j < suite_length base ls \<Longrightarrow> j < length ls \<and> (py_strip (ls ! j) = [] \<or> base < tolerant_block_indent (ls ! j))"
proof (induction ls arbitrary: j)
  case (Cons l ls)
  then show ?case by (cases j) (auto split: if_splits)
qed simp

text \<open>
  A substitution touches one block and no line number: the lines before and behind the block stay
  what they are, its first line becomes a \<open>pass\<close> at the same indentation, every other line of it
  becomes empty, and what it takes along behind its own last line is blank or indented deeper.
\<close>

theorem substitution_is_local:
  assumes "1 \<le> a" "a \<le> b" "a \<le> length lines"
  shows "length (tolerant_substitute lines a b) = length lines
    \<and> take (a - 1) (tolerant_substitute lines a b) = take (a - 1) lines
    \<and> drop (block_limit lines a b) (tolerant_substitute lines a b) = drop (block_limit lines a b) lines
    \<and> tolerant_substitute lines a b ! (a - 1) = line_indent (lines ! (a - 1)) @ ''pass'' @ own_newline (lines ! (a - 1))
    \<and> (\<forall>i. a \<le> i \<and> i < block_limit lines a b \<and> i < length lines \<longrightarrow> tolerant_substitute lines a b ! i \<in> {[], [CHR 0x0A]})
    \<and> (\<forall>i. b \<le> i \<and> i < block_limit lines a b \<longrightarrow>
          py_strip (lines ! i) = [] \<or> tolerant_block_indent (lines ! (a - 1)) < tolerant_block_indent (lines ! i))"
proof -
  have "b \<le> block_limit lines a b" by (simp add: block_limit_def)
  with assms have lim: "a \<le> block_limit lines a b" by simp
  have "py_strip (lines ! i) = [] \<or> tolerant_block_indent (lines ! (a - 1)) < tolerant_block_indent (lines ! i)"
    if "b \<le> i" "i < block_limit lines a b" for i
  proof -
    let ?base = "tolerant_block_indent (line_at lines a)"
    from that have "i - b < suite_length ?base (drop b lines)" by (auto simp: block_limit_def)
    from suite_length_covers [OF this] have "py_strip (drop b lines ! (i - b)) = [] \<or> ?base < tolerant_block_indent (drop b lines ! (i - b))"
      and "i < length lines" using that by auto
    moreover have "a - 1 < length lines" using assms by linarith
    then have "drop b lines ! (i - b) = lines ! i" "line_at lines a = lines ! (a - 1)"
      using that \<open>i < length lines\<close> by (simp_all add: line_at_def)
    ultimately show ?thesis by simp
  qed
  moreover have "take (a - 1) (tolerant_substitute lines a b) = take (a - 1) lines"
    using assms by (intro nth_equalityI) (auto simp: nth_substitute)
  moreover have "drop (block_limit lines a b) (tolerant_substitute lines a b) = drop (block_limit lines a b) lines"
    using lim by (intro nth_equalityI) (auto simp: nth_substitute)
  ultimately show ?thesis
    using assms by (auto simp: nth_substitute own_newline_def)
qed

section \<open>What a recovery is\<close>

text \<open>
  A line belongs to a block that starts on the line \<open>a\<close> and whose first statement ends on the line
  \<open>b\<close> when it is not above \<open>a\<close> and every line from the one behind \<open>b\<close> down to it is blank or indented
  deeper than the line \<open>a\<close>. The index \<open>i\<close> stands for the line \<open>Suc i\<close>.
\<close>

definition of_block :: "string list \<Rightarrow> nat \<Rightarrow> nat \<Rightarrow> nat \<Rightarrow> bool" where
  "of_block lines a b i =
     (a \<le> Suc i \<and> (\<forall>j. b \<le> j \<and> j \<le> i \<longrightarrow>
        py_strip (lines ! j) = [] \<or> tolerant_block_indent (line_at lines a) < tolerant_block_indent (lines ! j)))"

text \<open>
  Bypassing blocks one after the other: the first line of a block becomes \<open>pass\<close> at its indentation, every
  other line of it keeps nothing but its end, and every line that does not belong to it stays.
\<close>

fun bypassed :: "string list \<Rightarrow> (nat \<times> nat) list \<Rightarrow> string list \<Rightarrow> bool" where
  "bypassed lines [] final = (final = lines)"
| "bypassed lines ((a, b) # blocks) final =
     (\<exists>next. length next = length lines
        \<and> (\<forall>i < length lines. next ! i =
             (if Suc i = a then line_indent (lines ! i) @ ''pass'' @ own_newline (lines ! i)
              else if of_block lines a b i then own_newline (lines ! i) else lines ! i))
        \<and> bypassed next blocks final)"

lemma suite_length_iff:
  "j < suite_length base ls \<longleftrightarrow>
   j < length ls \<and> (\<forall>i \<le> j. py_strip (ls ! i) = [] \<or> base < tolerant_block_indent (ls ! i))"
proof (induction ls arbitrary: j)
  case (Cons l ls)
  show ?case
  proof (cases j)
    case (Suc m)
    have "(\<forall>i \<le> Suc m. P ((l # ls) ! i)) \<longleftrightarrow> P l \<and> (\<forall>i \<le> m. P (ls ! i))" for P
    proof (intro iffI conjI allI impI)
      fix i assume all: "\<forall>i \<le> Suc m. P ((l # ls) ! i)" and "i \<le> m"
      then show "P (ls ! i)" using spec [OF all, of "Suc i"] by simp
    next
      assume all: "\<forall>i \<le> Suc m. P ((l # ls) ! i)"
      show "P l" using spec [OF all, of 0] by simp
    next
      fix i assume "P l \<and> (\<forall>i \<le> m. P (ls ! i))" "i \<le> Suc m"
      then show "P ((l # ls) ! i)" by (cases i) simp_all
    qed
    from this [of "\<lambda>l. py_strip l = [] \<or> base < tolerant_block_indent l"] Cons.IH [of m] Suc show ?thesis by auto
  qed simp
qed simp

lemma block_limit_iff:
  assumes "i < length lines" "a \<le> b"
  shows "a \<le> Suc i \<and> i < block_limit lines a b \<longleftrightarrow> of_block lines a b i"
proof (cases "i < b")
  case True
  then show ?thesis by (auto simp: block_limit_def of_block_def)
next
  case False
  let ?P = "\<lambda>l. py_strip l = [] \<or> tolerant_block_indent (line_at lines a) < tolerant_block_indent l"
  have "i < block_limit lines a b \<longleftrightarrow> (\<forall>k \<le> i - b. ?P (drop b lines ! k))"
    using False assms suite_length_iff [of "i - b" "tolerant_block_indent (line_at lines a)" "drop b lines"]
    by (auto simp: block_limit_def)
  also have "\<dots> \<longleftrightarrow> (\<forall>j. b \<le> j \<and> j \<le> i \<longrightarrow> ?P (lines ! j))"
  proof (intro iffI allI impI)
    fix j assume "\<forall>k \<le> i - b. ?P (drop b lines ! k)" and "b \<le> j \<and> j \<le> i"
    moreover from this have "j - b \<le> i - b" by (simp add: diff_le_mono)
    ultimately have "?P (drop b lines ! (j - b))" by blast
    with \<open>b \<le> j \<and> j \<le> i\<close> assms(1) show "?P (lines ! j)" by simp
  next
    fix k assume "\<forall>j. b \<le> j \<and> j \<le> i \<longrightarrow> ?P (lines ! j)" "k \<le> i - b"
    then have "?P (lines ! (b + k))" using False by simp
    with assms(1) False \<open>k \<le> i - b\<close> show "?P (drop b lines ! k)" by simp
  qed
  finally show ?thesis using False assms(2) by (auto simp: of_block_def)
qed

lemma substitute_bypasses:
  assumes "a \<le> b" "bypassed (tolerant_substitute lines a b) blocks final"
  shows "bypassed lines ((a, b) # blocks) final"
  unfolding bypassed.simps
proof (intro exI [of _ "tolerant_substitute lines a b"] conjI allI impI)
  fix i assume i: "i < length lines"
  from block_limit_iff [OF i assms(1)] nth_substitute [OF i, of a b]
  show "tolerant_substitute lines a b ! i =
      (if Suc i = a then line_indent (lines ! i) @ ''pass'' @ own_newline (lines ! i)
       else if of_block lines a b i then own_newline (lines ! i) else lines ! i)"
    by (auto simp: le_Suc_eq)
qed (use assms(2) in simp_all)

lemma block_of_ordered: "block_of spans l = Some (a, b) \<Longrightarrow> a \<le> b"
  using found_in [of _ spans "(a, b)"] by (force simp: block_of_def Let_def)

lemma block_of_in: "block_of spans l = Some (a, b) \<Longrightarrow> (a, b) \<in> set spans"
  using found_in [of _ spans "(a, b)"] by (auto simp: block_of_def Let_def)

lemma sweep_rounds_result:
  assumes "sweep_rounds rd spans k current replaced = Inr (Some m, bs)"
    and "distinct replaced" "set replaced \<subseteq> fst ` set spans"
  shows "(\<exists>blocks final. parse_module rd (concat final) = Parsed m \<and> bypassed current blocks final
      \<and> set blocks \<subseteq> set spans \<and> bs = sort (replaced @ map fst blocks))
    \<and> distinct bs \<and> length bs < length replaced + k"
  using assms
proof (induction k arbitrary: current replaced)
  case (Suc k)
  show ?case
  proof (cases "parse_module rd (concat current)")
    case (Parsed m')
    with Suc.prems have "bypassed current [] current" "m' = m" "bs = sort (replaced @ map fst [])" "length bs < length replaced + Suc k"
      by auto
    with Parsed Suc.prems(2) show ?thesis by (metis bot.extremum distinct_sort list.simps(8) list.set(1) append_Nil2)
  next
    case (SyntaxAt l)
    then obtain a b where span: "block_of spans l = Some (a, b)" "a \<notin> set replaced"
      and rec: "sweep_rounds rd spans k (tolerant_substitute current a b) (replaced @ [a]) = Inr (Some m, bs)"
      using Suc.prems(1) by (auto split: option.splits if_splits)
    have mem: "(a, b) \<in> set spans" "a \<in> fst ` set spans" using block_of_in [OF span(1)] by force+
    have "distinct (replaced @ [a])" "set (replaced @ [a]) \<subseteq> fst ` set spans" using Suc.prems(2,3) span(2) mem(2) by auto
    from Suc.IH [OF rec this] obtain blocks final where ih: "parse_module rd (concat final) = Parsed m"
        "bypassed (tolerant_substitute current a b) blocks final" "set blocks \<subseteq> set spans"
        "bs = sort ((replaced @ [a]) @ map fst blocks)" "distinct bs" "length bs < length replaced + Suc k"
      by auto
    have "bypassed current ((a, b) # blocks) final" by (rule substitute_bypasses [OF block_of_ordered [OF span(1)] ih(2)])
    moreover have "set ((a, b) # blocks) \<subseteq> set spans" "bs = sort (replaced @ map fst ((a, b) # blocks))" using ih(3,4) mem(1) by simp_all
    ultimately show ?thesis using ih(1,5,6) by blast
  next
    case (ParseRaises e)
    with Suc.prems show ?thesis by simp
  qed
qed simp

text \<open>
  C10: a module comes from a reader that read the whole source, with no block bypassed, or it parses
  from the lines of the source with some blocks bypassed. A block ends where the first line behind its
  statement is neither blank nor indented deeper; its first line becomes \<open>pass\<close>, its other lines become
  empty, and every other line keeps its text and its position. The blocks are reported by their
  first lines, in order and none of them twice, and there are at most 31.
\<close>

theorem recovery_is_local:
  assumes "parse_source_tolerant rd source mode = Inr (Some m, bs)"
  shows "bs = [] \<and> (parse_module rd source = Parsed m \<or> (\<exists>f. clean_parse rd = Some f \<and> f source = Some m))
    \<or> (\<exists>blocks final. parse_module rd (concat final) = Parsed m \<and> bypassed (splitlines_keepends source) blocks final
          \<and> set blocks \<subseteq> set (tolerant_line_spans rd source) \<and> bs = sort (map fst blocks))
       \<and> distinct bs \<and> length bs < 32"
proof -
  have read: "r rd source = Inr (Some m') \<Longrightarrow> parse_module rd source = Parsed m' \<or> (\<exists>f. clean_parse rd = Some f \<and> f source = Some m')"
    if "r \<in> {treesitter_rescue, native_parse_once}" for r m'
    using that by (auto simp: treesitter_rescue_def native_parse_once_def split: option.splits parsed.splits)
  have sweep: "(\<exists>blocks final. parse_module rd (concat final) = Parsed m \<and> bypassed (splitlines_keepends source) blocks final
          \<and> set blocks \<subseteq> set (tolerant_line_spans rd source) \<and> bs = sort (map fst blocks))
       \<and> distinct bs \<and> length bs < 32"
    if "tolerant_sweep rd source = Inr (Some m, bs)"
  proof -
    from that have "sweep_rounds rd (tolerant_line_spans rd source) max_blocks (splitlines_keepends source) [] = Inr (Some m, bs)"
      by (auto simp: tolerant_sweep_def Let_def split: if_splits)
    from sweep_rounds_result [OF this] show ?thesis by (simp add: max_blocks_def)
  qed
  have "read_in_order rd source rs = Inr (Some m, bs) \<Longrightarrow> set rs \<subseteq> {treesitter_rescue, native_parse_once} \<Longrightarrow> ?thesis" for rs
  proof (induction rs)
    case (Cons r rs)
    with read [of r m] show ?case by (auto simp: res_bind_Inr_iff split: option.splits)
  qed (use sweep in simp)
  moreover have "set (mode_readers mode) \<subseteq> {treesitter_rescue, native_parse_once}" by (simp add: mode_readers_def)
  ultimately show ?thesis using assms by (simp add: parse_source_tolerant_def)
qed

text \<open>
  The mode only orders the readers: on a source that CPython reads, every mode but
  \<open>treesitter\<close> returns CPython's module untouched; \<open>ast\<close> never asks the packer; and where no reader
  reads the source all modes do the same sweep. Every text is normalised to one of the three.
\<close>

theorem modes_only_reorder:
  "(parse_module rd source = Parsed m \<and> mode \<noteq> ''treesitter'' \<longrightarrow> parse_source_tolerant rd source mode = Inr (Some m, []))
   \<and> (clean_parse rd = None \<longrightarrow> parse_source_tolerant rd source mode = parse_source_tolerant rd source ''ast'')
   \<and> parse_source_tolerant (rd\<lparr>clean_parse := f\<rparr>) source ''ast'' = parse_source_tolerant rd source ''ast''
   \<and> normalise_parser_mode v \<in> {''hybrid'', ''treesitter'', ''ast''}"
proof -
  have rounds: "sweep_rounds (rd\<lparr>clean_parse := f\<rparr>) spans k current replaced = sweep_rounds rd spans k current replaced"
    for spans k current replaced
    by (induction k arbitrary: current replaced) (auto split: parsed.split option.split)
  moreover have "tolerant_line_spans (rd\<lparr>clean_parse := f\<rparr>) source = tolerant_line_spans rd source"
    by (simp add: tolerant_line_spans_def)
  ultimately have sweep: "tolerant_sweep (rd\<lparr>clean_parse := f\<rparr>) source = tolerant_sweep rd source"
    by (simp add: tolerant_sweep_def Let_def)
  have "parse_module rd source = Parsed m \<and> mode \<noteq> ''treesitter'' \<Longrightarrow> parse_source_tolerant rd source mode = Inr (Some m, [])"
    by (simp add: parse_source_tolerant_def mode_readers_def native_parse_once_def)
  moreover have "clean_parse rd = None \<Longrightarrow> parse_source_tolerant rd source mode = parse_source_tolerant rd source ''ast''"
    by (cases "native_parse_once rd source")
      (auto simp: parse_source_tolerant_def mode_readers_def treesitter_rescue_def split: option.split)
  moreover have "parse_source_tolerant (rd\<lparr>clean_parse := f\<rparr>) source ''ast'' = parse_source_tolerant rd source ''ast''"
    by (simp add: parse_source_tolerant_def mode_readers_def native_parse_once_def sweep)
  moreover have "normalise_parser_mode v \<in> {''hybrid'', ''treesitter'', ''ast''}"
    by (cases v) (simp_all add: normalise_parser_mode_def)
  ultimately show ?thesis by blast
qed

section \<open>A sample reader\<close>

text \<open>
  A reader for small samples: a source parses unless a line opens a parenthesis and does not
  close it; the error is on that line, with lines counted the way CPython counts them. The
  module is the text itself. The tokenizer raises on the same sources.
\<close>

definition unclosed :: "string \<Rightarrow> bool" where
  "unclosed l = (CHR 0x28 \<in> set l \<and> CHR 0x29 \<notin> set l)"

definition sample_parse :: "string \<Rightarrow> string parsed" where
  "sample_parse src =
     (case find (\<lambda>(i, l). unclosed l) (numbered (py_split (CHR 0x0A) src)) of
        Some (i, l) \<Rightarrow> SyntaxAt (Some (int i))
      | None \<Rightarrow> Parsed src)"

definition sample_readers :: "string readers" where
  "sample_readers = \<lparr>parse_module = sample_parse, clean_parse = None, token_stream = (\<lambda>src. ([], list_ex unclosed (py_split (CHR 0x0A) src)))\<rparr>"

text \<open>A damaged function with its body, between two statements.\<close>

definition damaged_source :: string where
  "damaged_source = ''x = 1'' @ [CHR 0x0A] @ ''def f(:'' @ [CHR 0x0A] @ ''  return x'' @ [CHR 0x0A] @ ''y = 2'' @ [CHR 0x0A]"

definition mended_source :: string where
  "mended_source = ''x = 1'' @ [CHR 0x0A] @ ''pass'' @ [CHR 0x0A, CHR 0x0A] @ ''y = 2'' @ [CHR 0x0A]"

lemma damaged_recovered: "parse_source_tolerant sample_readers damaged_source ''hybrid'' = Inr (Some mended_source, [2])"
  by code_simp

theorem recovery_is_local_witness:
  "\<exists>blocks final. concat final = mended_source \<and> bypassed (splitlines_keepends damaged_source) blocks final \<and> map fst blocks = [2]"
proof -
  have "parse_module sample_readers t = Parsed mended_source \<Longrightarrow> t = mended_source" for t
    by (auto simp: sample_readers_def sample_parse_def split: option.splits)
  moreover have "xs = [2::nat]" if "[2] = sort xs" for xs
  proof -
    from arg_cong [OF that, of set] arg_cong [OF that, of length] have "set xs = {2}" "length xs = 1" by simp_all
    then show ?thesis by (cases xs) auto
  qed
  moreover obtain blocks final where "parse_module sample_readers (concat final) = Parsed mended_source"
      "bypassed (splitlines_keepends damaged_source) blocks final" "[2] = sort (map fst blocks)"
    using recovery_is_local [OF damaged_recovered] by auto
  ultimately show ?thesis by blast
qed

theorem substitution_is_local_witness:
  "drop 3 (tolerant_substitute (splitlines_keepends damaged_source) 2 2) = [''y = 2'' @ [CHR 0x0A]]"
proof -
  have facts: "length (splitlines_keepends damaged_source) = 4" "block_limit (splitlines_keepends damaged_source) 2 2 = 3"
    "drop 3 (splitlines_keepends damaged_source) = [''y = 2'' @ [CHR 0x0A]]" by code_simp+
  show ?thesis
    using substitution_is_local [of 2 2 "splitlines_keepends damaged_source"] by (simp add: facts)
qed

theorem modes_only_reorder_witness:
  "parse_source_tolerant sample_readers mended_source ''hybrid'' = Inr (Some mended_source, [])"
proof -
  have "parse_module sample_readers mended_source = Parsed mended_source" by code_simp
  then show ?thesis using modes_only_reorder [of sample_readers mended_source mended_source "''hybrid''"] by simp
qed

text \<open>
  A form feed is a line boundary for \<open>splitlines\<close> and none for CPython. A page break shifts the
  spans against the lines of the errors: the sweep replaces a sound statement, meets the same
  error again and gives the file up, which without the page break it recovers. And a damaged
  line that ends in a form feed loses its end: its \<open>pass\<close> is glued to the next statement, and the
  recovered module assigns to another name.
\<close>

theorem form_feed_misleads_sweep:
  "parse_source_tolerant sample_readers (''a = 1'' @ [CHR 0x0A] @ ''b = ('' @ [CHR 0x0A]) ''hybrid''
     = Inr (Some (''a = 1'' @ [CHR 0x0A] @ ''pass'' @ [CHR 0x0A]), [2])
   \<and> parse_source_tolerant sample_readers (CHR 0x0C # ''#'' @ [CHR 0x0A] @ ''a = 1'' @ [CHR 0x0A] @ ''b = ('' @ [CHR 0x0A]) ''hybrid''
     = Inr (None, [3])
   \<and> parse_source_tolerant sample_readers (''b = ('' @ [CHR 0x0C] @ ''y = 2'' @ [CHR 0x0A]) ''hybrid''
     = Inr (Some (''passy = 2'' @ [CHR 0x0A]), [1])"
  by code_simp

end
