(* ===== verification/Regex_Cost.thy ===== *)
theory Regex_Cost
  imports Py_Values
begin

text \<open>
  The structural analysis of regular expressions of \<open>ast_scanner.py\<close> (CWE-1333). The parser of
  \<open>re\<close> is an argument; the tree it returns is a list of operations. The semantics of the
  operations, for text of ASCII characters and no flags, is given below as sets of texts, to say what the
  analysis' character sets mean and which repeats are ambiguous.
\<close>

section \<open>Parsed expressions\<close>

datatype member = Member_Literal nat | Member_Range nat nat | Member_Digit | Member_Other

datatype re_op =
    Literal nat
  | In "member list"
  | Subpattern "re_op list"
  | Repeat nat nat "re_op list"  \<comment> \<open>greedy, lazy or possessive: minimum, maximum, body\<close>
  | Branch "re_op list list"
  | At
  | Other_Op

definition multiplying_bound :: nat where
  "multiplying_bound = 10"

definition parse_depth_limit :: nat where
  "parse_depth_limit = 32"

definition digit_chars :: "nat set" where
  "digit_chars = {48..57}"

section \<open>First and last characters\<close>

definition union_opt :: "nat set option \<Rightarrow> nat set option \<Rightarrow> nat set option" where
  "union_opt a b = (case (a, b) of (Some x, Some y) \<Rightarrow> Some (x \<union> y) | _ \<Rightarrow> None)"

definition member_chars :: "bool \<Rightarrow> member \<Rightarrow> nat set option" where
  "member_chars digits m =
     (case m of
        Member_Literal c \<Rightarrow> Some {c}
      | Member_Range a b \<Rightarrow> if int b - int a \<le> 512 then Some {a..b} else None
      | Member_Digit \<Rightarrow> if digits then Some digit_chars else None
      | Member_Other \<Rightarrow> None)"

definition class_chars :: "bool \<Rightarrow> member list \<Rightarrow> nat set option" where
  "class_chars digits ms = foldr (\<lambda>m acc. union_opt (member_chars digits m) acc) ms (Some {})"

fun regex_first_chars :: "re_op list \<Rightarrow> nat set option" where
  "regex_first_chars [] = Some {}"
| "regex_first_chars (Literal c # ts) = Some {c}"
| "regex_first_chars (In ms # ts) = class_chars True ms"
| "regex_first_chars (Subpattern b # ts) = regex_first_chars b"
| "regex_first_chars (Repeat l u b # ts) = regex_first_chars b"
| "regex_first_chars (Branch bs # ts) = foldr union_opt (map regex_first_chars bs) (Some {})"
| "regex_first_chars (At # ts) = regex_first_chars ts"
| "regex_first_chars (Other_Op # ts) = None"

fun regex_trailing_separator :: "re_op list \<Rightarrow> nat set option" where
  "regex_trailing_separator [] = None"
| "regex_trailing_separator (t # u # ts) = regex_trailing_separator (u # ts)"
| "regex_trailing_separator [Literal c] = Some {c}"
| "regex_trailing_separator [In ms] =
     (case class_chars False ms of Some s \<Rightarrow> if s = {} then None else Some s | None \<Rightarrow> None)"
| "regex_trailing_separator [Subpattern b] = regex_trailing_separator b"
| "regex_trailing_separator [t] = None"

section \<open>The walk\<close>

definition meets :: "nat set option \<Rightarrow> nat set option \<Rightarrow> bool" where
  "meets a b = (case (a, b) of (Some x, Some y) \<Rightarrow> x \<inter> y \<noteq> {} | _ \<Rightarrow> False)"

text \<open>Both sets are known and have no character in common.\<close>

definition pinned_by :: "nat set option \<Rightarrow> nat set option \<Rightarrow> bool" where
  "pinned_by a b = (case (a, b) of (Some x, Some y) \<Rightarrow> x \<inter> y = {} | _ \<Rightarrow> False)"

definition delimited :: "re_op list \<Rightarrow> bool" where
  "delimited body = pinned_by (regex_trailing_separator body) (regex_first_chars body)"

text \<open>What the loop remembers: the characters and the separator of the repeats just before, the single character before.\<close>

type_synonym walk_state = "nat set option \<times> nat set option \<times> nat set option"

fun meets_pairwise :: "nat set option list \<Rightarrow> bool" where
  "meets_pairwise [] = False"
| "meets_pairwise (s # ss) = (list_ex (meets s) ss \<or> meets_pairwise ss)"

definition adjacent_repeat :: "walk_state \<Rightarrow> nat set option \<Rightarrow> bool" where
  "adjacent_repeat st cur =
     (case st of (prev, sep, single) \<Rightarrow>
        prev \<noteq> None \<and> \<not> pinned_by sep cur \<and> (cur = None \<or> meets prev cur))"

definition after_repeat :: "walk_state \<Rightarrow> nat \<Rightarrow> re_op list \<Rightarrow> walk_state" where
  "after_repeat st l body =
     (case st of (prev, sep, single) \<Rightarrow>
        let cur = regex_first_chars body in
        if 0 < l \<or> prev = None then (cur, if delimited body then regex_trailing_separator body else None, single)
        else (case cur of Some c \<Rightarrow> (map_option (\<lambda>p. p \<union> c) prev, sep, single) | None \<Rightarrow> st))"

lemma alternative_size: "b \<in> set bs \<Longrightarrow> size_list size b \<le> size_list (size_list size) bs"
  by (induction bs) auto

function regex_catastrophic :: "nat \<Rightarrow> bool \<Rightarrow> walk_state \<Rightarrow> re_op list \<Rightarrow> bool" where
  "regex_catastrophic depth inside st [] = False"
| "regex_catastrophic depth inside st (t # ts) =
     (if parse_depth_limit < depth then False
      else
        (case t of
           Repeat l u body \<Rightarrow>
             (inside \<and> multiplying_bound \<le> u \<and> \<not> delimited body)
             \<or> (\<not> delimited body
                \<and> regex_catastrophic (Suc depth) (inside \<or> multiplying_bound \<le> u) (None, None, None) body)
             \<or> adjacent_repeat st (regex_first_chars body)
             \<or> regex_catastrophic depth inside (after_repeat st l body) ts
         | Subpattern body \<Rightarrow>
             regex_catastrophic (Suc depth) inside (None, None, None) body
             \<or> regex_catastrophic depth inside (None, None, snd (snd st)) ts
         | Branch bs \<Rightarrow>
             (inside \<and> list_ex (\<lambda>b. meets (regex_first_chars b) (snd (snd st))) bs)
             \<or> (inside \<and> meets_pairwise (map regex_first_chars bs))
             \<or> list_ex (\<lambda>b. regex_catastrophic (Suc depth) inside (None, None, None) b) bs
             \<or> regex_catastrophic depth inside (None, None, snd (snd st)) ts
         | Literal c \<Rightarrow> regex_catastrophic depth inside (None, None, regex_first_chars [t]) ts
         | In ms \<Rightarrow> regex_catastrophic depth inside (None, None, regex_first_chars [t]) ts
         | At \<Rightarrow> regex_catastrophic depth inside (None, None, None) ts
         | Other_Op \<Rightarrow> regex_catastrophic depth inside (None, None, None) ts))"
  by pat_completeness auto
termination
  by (relation "measure (\<lambda>(d, i, st, ts). size_list size ts)") (auto dest: alternative_size)

definition is_redos_vulnerable_pattern :: "(string \<Rightarrow> re_op list option) \<Rightarrow> pyval \<Rightarrow> bool" where
  "is_redos_vulnerable_pattern parse_re v =
     (case v of
        PStr s \<Rightarrow> s \<noteq> [] \<and> (case parse_re s of Some ts \<Rightarrow> regex_catastrophic 0 False (None, None, None) ts | None \<Rightarrow> False)
      | _ \<Rightarrow> False)"

section \<open>What the expressions match\<close>

definition max_repeat :: nat where
  "max_repeat = 4294967295"

definition seq_lang :: "nat list set \<Rightarrow> nat list set \<Rightarrow> nat list set" where
  "seq_lang A B = {x @ y |x y. x \<in> A \<and> y \<in> B}"

fun power_lang :: "nat list set \<Rightarrow> nat \<Rightarrow> nat list set" where
  "power_lang A 0 = {[]}"
| "power_lang A (Suc n) = seq_lang A (power_lang A n)"

definition in_member :: "nat \<Rightarrow> member \<Rightarrow> bool" where
  "in_member c m =
     (case m of Member_Literal d \<Rightarrow> c = d | Member_Range a b \<Rightarrow> a \<le> c \<and> c \<le> b | Member_Digit \<Rightarrow> c \<in> digit_chars | Member_Other \<Rightarrow> True)"

text \<open>A maximum of \<open>MAXREPEAT\<close> is no bound; an operation of another kind may match any text.\<close>

function lang :: "re_op list \<Rightarrow> nat list set" where
  "lang [] = {[]}"
| "lang (t # ts) =
     seq_lang
       (case t of
          Literal c \<Rightarrow> {[c]}
        | In ms \<Rightarrow> {[c] |c. \<exists>m \<in> set ms. in_member c m}
        | Subpattern b \<Rightarrow> lang b
        | Repeat l u b \<Rightarrow> (\<Union>n \<in> {n. l \<le> n \<and> (n \<le> u \<or> u = max_repeat)}. power_lang (lang b) n)
        | Branch bs \<Rightarrow> (\<Union>b \<in> set bs. lang b)
        | At \<Rightarrow> {[]}
        | Other_Op \<Rightarrow> UNIV)
       (lang ts)"
  by pat_completeness auto
termination
  by (relation "measure (size_list size)") (auto dest: alternative_size)

text \<open>The decisive operation of a sequence cannot match the empty text.\<close>

fun starts_firmly :: "re_op list \<Rightarrow> bool" where
  "starts_firmly [] = False"
| "starts_firmly (Literal c # ts) = True"
| "starts_firmly (In ms # ts) = True"
| "starts_firmly (Subpattern b # ts) = starts_firmly b"
| "starts_firmly (Repeat l u b # ts) = (0 < l \<and> starts_firmly b)"
| "starts_firmly (Branch bs # ts) = list_all starts_firmly bs"
| "starts_firmly (At # ts) = starts_firmly ts"
| "starts_firmly (Other_Op # ts) = False"

lemma seq_lang_mem: "w \<in> seq_lang A B \<longleftrightarrow> (\<exists>x \<in> A. \<exists>y \<in> B. w = x @ y)"
  by (auto simp: seq_lang_def)

lemma seq_langI: "x \<in> A \<Longrightarrow> y \<in> B \<Longrightarrow> x @ y \<in> seq_lang A B"
  by (auto simp: seq_lang_mem)

lemma member_chars_sound: "member_chars digits m = Some s \<Longrightarrow> in_member c m \<Longrightarrow> c \<in> s"
  by (auto simp: member_chars_def in_member_def split: member.splits if_splits)

lemma class_chars_sound: "class_chars digits ms = Some s \<Longrightarrow> m \<in> set ms \<Longrightarrow> in_member c m \<Longrightarrow> c \<in> s"
  unfolding class_chars_def
  by (induction ms arbitrary: s) (auto simp: union_opt_def split: option.splits dest: member_chars_sound)

lemma branch_chars: "foldr union_opt xs (Some {}) = Some s \<Longrightarrow> x \<in> set xs \<Longrightarrow> \<exists>t. x = Some t \<and> t \<subseteq> s"
  by (induction xs arbitrary: s) (fastforce simp: union_opt_def split: option.splits)+

lemma first_chars_lang:
  "starts_firmly ts \<Longrightarrow> regex_first_chars ts = Some s \<Longrightarrow> w \<in> lang ts \<Longrightarrow> w \<noteq> [] \<and> hd w \<in> s"
proof (induction ts arbitrary: s w rule: starts_firmly.induct)
  case (3 ms ts)
  then show ?case by (auto simp: seq_lang_mem dest: class_chars_sound)
next
  case (4 b ts)
  then show ?case by (fastforce simp: seq_lang_mem)
next
  case (5 l u b ts)
  then obtain n x y where n: "l \<le> n" "x \<in> power_lang (lang b) n" "w = x @ y" by (auto simp: seq_lang_mem)
  from 5 n(1) obtain k where "n = Suc k" by (cases n) auto
  with n(2) obtain x1 x2 where "x = x1 @ x2" "x1 \<in> lang b" by (auto simp: seq_lang_mem)
  with "5.IH" [of s x1] "5.prems" n(3) show ?case by auto
next
  case (6 bs ts)
  then obtain b x y where b: "b \<in> set bs" "x \<in> lang b" "w = x @ y" by (auto simp: seq_lang_mem)
  with 6 obtain t where t: "regex_first_chars b = Some t" "t \<subseteq> s"
    using branch_chars [of "map regex_first_chars bs" s "regex_first_chars b"] by auto
  with "6.IH" [OF b(1) _ t(1) b(2)] "6.prems"(1) b show ?case by (auto simp: list_all_iff)
next
  case (7 ts)
  then show ?case by (auto simp: seq_lang_mem)
qed (auto simp: seq_lang_mem)

lemma separator_lang:
  "regex_trailing_separator ts = Some s \<Longrightarrow> w \<in> lang ts \<Longrightarrow> w \<noteq> [] \<and> last w \<in> s"
proof (induction ts arbitrary: s w rule: regex_trailing_separator.induct)
  case (2 t u ts)
  then obtain x y where "w = x @ y" "y \<in> lang (u # ts)" unfolding lang.simps(2) [of t] seq_lang_mem by blast
  with "2.IH" [of s y] "2.prems" show ?case by (simp del: lang.simps)
next
  case (4 ms)
  then show ?case by (auto simp: seq_lang_mem split: option.splits if_splits dest: class_chars_sound)
qed (auto simp: seq_lang_mem)

text \<open>
  The character sets mean what they say: where the first operation that counts cannot match the
  empty text, every match begins with one of the first characters; and every match ends with one
  of the characters of a trailing separator.
\<close>

theorem character_sets_sound:
  assumes "w \<in> lang ts"
  shows "(starts_firmly ts \<and> regex_first_chars ts = Some s \<longrightarrow> w \<noteq> [] \<and> hd w \<in> s)
    \<and> (regex_trailing_separator ts = Some s \<longrightarrow> w \<noteq> [] \<and> last w \<in> s)"
  using assms first_chars_lang separator_lang by blast

section \<open>Which repeats are ambiguous\<close>

text \<open>The ways to read a text as a sequence of iterations of a body.\<close>

definition splits :: "nat list set \<Rightarrow> nat list \<Rightarrow> nat list list set" where
  "splits L w = {ws. concat ws = w \<and> (\<forall>v \<in> set ws. v \<in> L \<and> v \<noteq> [])}"

lemma split_at_separator:
  assumes "\<And>v. v \<in> L \<Longrightarrow> v \<noteq> [] \<and> last v \<in> s \<and> set (butlast v) \<inter> s = {}"
    and "set ws \<subseteq> L" "set vs \<subseteq> L" "concat ws = concat vs"
  shows "ws = vs"
  using assms(2-4)
proof (induction ws arbitrary: vs)
  case Nil
  then show ?case using assms(1) by (cases vs) auto
next
  case (Cons w ws)
  from Cons.prems assms(1) [of w] obtain v vs' where vs: "vs = v # vs'" by (cases vs) auto
  have cut: "takeWhile (\<lambda>c. c \<notin> s) (u @ rest) = butlast u" if "u \<in> L" for u rest
  proof -
    have "u @ rest = butlast u @ last u # rest"
      using assms(1) [OF that] by (metis append.assoc append_Cons append_Nil append_butlast_last_id)
    moreover have "takeWhile (\<lambda>c. c \<notin> s) (butlast u @ last u # rest) = butlast u"
      using assms(1) [OF that] by (subst takeWhile_append2) auto
    ultimately show ?thesis by (simp only:)
  qed
  have L: "w \<in> L" "v \<in> L" using Cons.prems vs by auto
  have eq: "w @ concat ws = v @ concat vs'" using Cons.prems vs by simp
  then have "butlast w = butlast v" using cut [OF L(1)] cut [OF L(2)] by metis
  moreover have "butlast w @ [last w] @ concat ws = butlast v @ [last v] @ concat vs'"
    using eq assms(1) [OF L(1)] assms(1) [OF L(2)] by (metis append.assoc append_butlast_last_id)
  ultimately have "butlast w = butlast v" "last w = last v" by simp_all
  then have "w = v" using assms(1) [OF L(1)] assms(1) [OF L(2)] by (metis append_butlast_last_id)
  with eq have "concat ws = concat vs'" by simp
  with Cons vs \<open>w = v\<close> show ?case by auto
qed

text \<open>
  A repeat whose body ends with a separator that does not occur inside of the body is read in
  one way only: two sequences of iterations that spell the same text are the same sequence.
\<close>

theorem separated_repeat_unambiguous:
  assumes "regex_trailing_separator body = Some s" "\<forall>w \<in> lang body. set (butlast w) \<inter> s = {}"
    and "ws \<in> splits (lang body) text" "vs \<in> splits (lang body) text"
  shows "ws = vs"
  by (rule split_at_separator [of "lang body" s])
    (use assms separator_lang [OF assms(1)] in \<open>auto simp: splits_def\<close>)

text \<open>A text that repeats a unit all of whose powers are iterations has exponentially many readings.\<close>

lemma power_splits:
  assumes "u \<noteq> []" "\<And>k. concat (replicate (Suc k) u) \<in> L"
  shows "\<exists>A. A \<subseteq> splits L (concat (replicate (Suc n) u)) \<and> card A = 2 ^ n
    \<and> (\<forall>ws \<in> A. ws \<noteq> [] \<and> (\<forall>v \<in> set ws. \<exists>k. v = concat (replicate (Suc k) u)))"
proof (induction n)
  case 0
  have "{[u]} \<subseteq> splits L (concat (replicate (Suc 0) u))" using assms assms(2) [of 0] by (simp add: splits_def)
  moreover have "\<exists>k. u = concat (replicate (Suc k) u)" by (rule exI [of _ 0]) simp
  ultimately show ?case by (intro exI [of _ "{[u]}"]) simp
next
  case (Suc n)
  then obtain A where A: "A \<subseteq> splits L (concat (replicate (Suc n) u))" "card A = 2 ^ n"
    and pow: "\<And>ws. ws \<in> A \<Longrightarrow> ws \<noteq> [] \<and> (\<forall>v \<in> set ws. \<exists>k. v = concat (replicate (Suc k) u))" by blast
  have fin: "finite A" using A(2) by (metis card.infinite power_not_zero zero_neq_numeral)
  let ?f = "\<lambda>ws. u # ws" and ?g = "\<lambda>ws. (u @ hd ws) # tl ws"
  have unit: "\<exists>k. u = concat (replicate (Suc k) u)" by (rule exI [of _ 0]) simp
  have grow: "\<exists>k. u @ v = concat (replicate (Suc k) u)" if "\<exists>k. v = concat (replicate (Suc k) u)" for v
    using that by (metis concat.simps(2) replicate_Suc)
  have in_L: "v \<in> L \<and> v \<noteq> []" if "\<exists>k. v = concat (replicate (Suc k) u)" for v
    using that assms by auto
  have f: "?f ws \<in> splits L (concat (replicate (Suc (Suc n)) u))" "\<forall>v \<in> set (?f ws). \<exists>k. v = concat (replicate (Suc k) u)"
    if "ws \<in> A" for ws
    using that A(1) pow [OF that] in_L [OF unit] unit by (auto simp: splits_def)
  have g: "?g ws \<in> splits L (concat (replicate (Suc (Suc n)) u))" "\<forall>v \<in> set (?g ws). \<exists>k. v = concat (replicate (Suc k) u)"
    if mem: "ws \<in> A" for ws
  proof -
    obtain w rest where ws: "ws = w # rest" using pow [OF mem] by (cases ws) auto
    have new: "\<exists>k. u @ w = concat (replicate (Suc k) u)" using grow [of w] pow [OF mem] ws by simp
    have "ws \<in> splits L (concat (replicate (Suc n) u))" using mem A(1) by blast
    then have "w @ concat rest = concat (replicate (Suc n) u)" "\<forall>v \<in> set rest. v \<in> L \<and> v \<noteq> []"
      by (simp_all add: splits_def ws)
    then show "?g ws \<in> splits L (concat (replicate (Suc (Suc n)) u))"
      using in_L [OF new] by (simp add: splits_def ws)
    show "\<forall>v \<in> set (?g ws). \<exists>k. v = concat (replicate (Suc k) u)"
      using pow [OF mem] new by (simp only: ws list.sel set_simps) blast
  qed
  have "inj_on ?f A" "inj_on ?g A" using pow by (auto simp: inj_on_def intro: list.expand)
  moreover have "?f ` A \<inter> ?g ` A = {}"
  proof -
    have "u # ws \<noteq> (u @ hd vs) # tl vs" if mem: "vs \<in> A" for ws vs
    proof -
      obtain w rest where "vs = w # rest" using pow [OF mem] by (cases vs) auto
      then have "hd vs \<noteq> []" using pow [OF mem] in_L [of w] by auto
      then show ?thesis by simp
    qed
    then show ?thesis by blast
  qed
  ultimately have "card (?f ` A \<union> ?g ` A) = 2 ^ Suc n"
    using fin A(2) by (simp add: card_Un_disjoint card_image)
  moreover have "?f ` A \<union> ?g ` A \<subseteq> splits L (concat (replicate (Suc (Suc n)) u))" using f(1) g(1) by blast
  moreover have "\<forall>ws \<in> ?f ` A \<union> ?g ` A. ws \<noteq> [] \<and> (\<forall>v \<in> set ws. \<exists>k. v = concat (replicate (Suc k) u))"
    using f(2) g(2) by blast
  ultimately show ?case by blast
qed

lemma lang_class: "lang [In ms] = {[c] |c. \<exists>m \<in> set ms. in_member c m}"
  by (auto simp: seq_lang_mem)

lemma class_power: "\<forall>c \<in> set w. \<exists>m \<in> set ms. in_member c m \<Longrightarrow> w \<in> power_lang (lang [In ms]) (length w)"
proof (induction w)
  case (Cons c w)
  then have "[c] \<in> lang [In ms]" "w \<in> power_lang (lang [In ms]) (length w)" unfolding lang_class by simp_all
  then show ?case unfolding list.size power_lang.simps seq_lang_mem by (metis Nat.add_0_right add_Suc_right append_Cons append_Nil plus_1_eq_Suc power_lang.simps(2) seq_lang_mem)
qed simp

text \<open>\<open>(a[a,]+,)+\<close>: the body ends with a comma and does not start with one, but contains one.\<close>

definition comma_body :: "re_op list" where
  "comma_body = [Literal 97, Repeat 1 max_repeat [In [Member_Literal 97, Member_Literal 44]], Literal 44]"

lemma comma_powers: "concat (replicate (Suc k) [97, 44, 44]) \<in> lang comma_body"
proof -
  let ?mid = "[44 :: nat] @ concat (replicate k [44, 97, 44])"
  have split: "concat (replicate (Suc k) [97, 44, 44]) = [97] @ ([44] @ concat (replicate k [44, 97, 44])) @ [44 :: nat]" for k
  proof (induction k)
    case (Suc k)
    have "concat (replicate (Suc (Suc k)) [97, 44, 44]) = [97, 44, 44] @ ([97] @ ([44] @ concat (replicate k [44, 97, 44])) @ [44 :: nat])"
      using Suc.IH by (simp only: replicate_Suc [of "Suc k"] concat.simps)
    then show ?case by simp
  qed simp
  have "?mid \<in> power_lang (lang [In [Member_Literal 97, Member_Literal 44]]) (length ?mid)"
    by (rule class_power) (auto simp: in_member_def)
  then have "?mid \<in> (\<Union>n \<in> {n. 1 \<le> n \<and> (n \<le> max_repeat \<or> max_repeat = max_repeat)}. power_lang (lang [In [Member_Literal 97, Member_Literal 44]]) n)"
    by (intro UN_I [of "length ?mid"]) simp_all
  moreover have "[44] \<in> lang [Literal 44]" by (simp add: seq_lang_mem)
  ultimately have "?mid @ [44] \<in> lang [Repeat 1 max_repeat [In [Member_Literal 97, Member_Literal 44]], Literal 44]"
    unfolding lang.simps(2) [of "Repeat _ _ _"] re_op.case by (rule seq_langI)
  then have "[97] @ ?mid @ [44] \<in> lang comma_body"
    unfolding comma_body_def lang.simps(2) [of "Literal 97"] re_op.case by (intro seq_langI) simp_all
  then show ?thesis by (simp only: split)
qed

text \<open>\<open>(a*b+b)+\<close>: the body starts with \<open>a\<close> or, without one, with the \<open>b\<close> it ends with.\<close>

definition optional_head_body :: "re_op list" where
  "optional_head_body = [Repeat 0 max_repeat [Literal 97], Repeat 1 max_repeat [Literal 98], Literal 98]"

lemma literal_power: "replicate n c \<in> power_lang (lang [Literal c]) n"
proof (induction n)
  case (Suc n)
  have "[c] @ replicate n c \<in> seq_lang (lang [Literal c]) (power_lang (lang [Literal c]) n)"
    by (rule seq_langI [OF _ Suc]) (simp add: seq_lang_mem)
  then show ?case by simp
qed simp

lemma repeat_literal: "l \<le> n \<Longrightarrow> w \<in> lang ts \<Longrightarrow> replicate n c @ w \<in> lang (Repeat l max_repeat [Literal c] # ts)"
  unfolding lang.simps(2) [of "Repeat _ _ _"] re_op.case
  by (rule seq_langI) (use literal_power [of n c] in \<open>auto simp del: lang.simps\<close>)

lemma optional_head_powers: "concat (replicate (Suc k) [98, 98]) \<in> lang optional_head_body"
proof -
  have flat: "concat (replicate k [98, 98]) = replicate (2 * k) (98 :: nat)" for k by (induction k) simp_all
  have "[98] \<in> lang [Literal 98]" by (simp add: seq_lang_mem)
  from repeat_literal [OF _ repeat_literal [OF _ this, of 1 "Suc (2 * k)" 98], of 0 0 97]
  have "replicate (Suc (2 * k)) 98 @ [98] \<in> lang optional_head_body" by (simp add: optional_head_body_def del: lang.simps replicate_Suc)
  moreover have "replicate (Suc (2 * k)) 98 @ [98] = replicate (2 * Suc k) (98 :: nat)"
    by (simp add: replicate_append_same)
  ultimately show ?thesis by (simp only: flat)
qed

text \<open>
  The analysis calls a repeat delimited when its body ends with a character it cannot start with.
  It looks neither inside of the body nor behind an optional head: of \<open>(a[a,]+,)+\<close> and
  \<open>(a*b+b)+\<close> neither is reported, and each has texts of 3n and 2n characters with at least
  \<open>2 ^ (n - 1)\<close> readings.
\<close>

theorem delimited_yet_exponential:
  "\<not> regex_catastrophic 0 False (None, None, None) [Repeat 1 max_repeat comma_body]
   \<and> (\<exists>A. A \<subseteq> splits (lang comma_body) (concat (replicate (Suc n) [97, 44, 44])) \<and> card A = 2 ^ n)
   \<and> \<not> regex_catastrophic 0 False (None, None, None) [Repeat 1 max_repeat optional_head_body]
   \<and> (\<exists>A. A \<subseteq> splits (lang optional_head_body) (concat (replicate (Suc n) [98, 98])) \<and> card A = 2 ^ n)"
proof -
  have "\<not> regex_catastrophic 0 False (None, None, None) [Repeat 1 max_repeat comma_body]"
    "\<not> regex_catastrophic 0 False (None, None, None) [Repeat 1 max_repeat optional_head_body]"
    by (simp_all add: comma_body_def optional_head_body_def delimited_def pinned_by_def class_chars_def member_chars_def
        union_opt_def adjacent_repeat_def parse_depth_limit_def)
  then show ?thesis
    using power_splits [of "[97, 44, 44]" "lang comma_body" n] power_splits [of "[98, 98]" "lang optional_head_body" n]
      comma_powers optional_head_powers by blast
qed

section \<open>What is reported\<close>

text \<open>A body inside of \<open>n\<close> groups.\<close>

fun grouped :: "nat \<Rightarrow> re_op list \<Rightarrow> re_op list" where
  "grouped 0 ts = ts"
| "grouped (Suc n) ts = [Subpattern (grouped n ts)]"

lemma deep_walk: "parse_depth_limit < d \<Longrightarrow> \<not> regex_catastrophic d inside st ts"
  by (cases ts) simp_all

lemma grouped_walk:
  assumes "multiplying_bound \<le> u" "\<not> delimited b"
  shows "regex_catastrophic d True (None, None, None) (grouped n [Repeat l u b]) \<longleftrightarrow> d + n \<le> parse_depth_limit"
proof (induction n arbitrary: d)
  case 0
  then show ?case
    using assms deep_walk [of "Suc d" True "(None, None, None)" b] by (simp add: adjacent_repeat_def not_less)
next
  case (Suc n)
  then show ?case by (simp add: not_less)
qed

lemma grouped_repeat_separator: "regex_trailing_separator (grouped n [Repeat l u b]) = None"
  by (induction n) simp_all


fun repeat_free :: "re_op list \<Rightarrow> bool" where
  "repeat_free [] = True"
| "repeat_free (t # ts) =
     ((case t of Repeat l u b \<Rightarrow> False | Subpattern b \<Rightarrow> repeat_free b | Branch bs \<Rightarrow> list_all repeat_free bs | _ \<Rightarrow> True)
      \<and> repeat_free ts)"

lemma repeat_free_walk: "repeat_free ts \<Longrightarrow> \<not> regex_catastrophic d False st ts"
proof (induction d False st ts rule: regex_catastrophic.induct)
  case (2 depth st t ts)
  show ?case
  proof (cases t)
    case (Branch bs)
    with 2 show ?thesis by (auto simp: list_ex_iff list_all_iff)
  qed (use 2 in auto)
qed simp

text \<open>
  Only a text that parses to an expression with a repeat is ever reported: other values, the
  empty text, texts \<open>re\<close> rejects and expressions without a repeat are not.
\<close>

theorem report_needs_repeat:
  "is_redos_vulnerable_pattern parse_re v \<Longrightarrow> \<exists>s ts. v = PStr s \<and> s \<noteq> [] \<and> parse_re s = Some ts \<and> \<not> repeat_free ts"
  by (auto simp: is_redos_vulnerable_pattern_def split: pyval.splits option.splits dest: repeat_free_walk)

text \<open>
  Two adjacent repeats are reported for their characters alone, whatever their bounds: the
  fixed-length \<open>[0-9]{3}[0-9]{4}\<close>, which has no two readings, counts as catastrophic.
\<close>

theorem fixed_length_reported:
  "regex_catastrophic 0 False (None, None, None) [Repeat 3 3 [In [Member_Digit]], Repeat 4 4 [In [Member_Digit]]]
   \<and> 4 < multiplying_bound"
  by code_simp

section \<open>Samples\<close>

text \<open>\<open>[0-9],\<close>, the body of \<open>([0-9],)*\<close>.\<close>

definition digit_comma :: "re_op list" where
  "digit_comma = [In [Member_Digit], Literal 44]"

lemma digit_comma_lang: "lang digit_comma = {[c, 44] |c. c \<in> digit_chars}"
  by (auto simp: digit_comma_def seq_lang_mem in_member_def)

theorem character_sets_sound_witness: "hd [49, 44] \<in> digit_chars \<and> last [49, 44] \<in> {44 :: nat}"
proof -
  have mem: "[49, 44] \<in> lang digit_comma" by (simp add: digit_comma_lang digit_chars_def)
  have "starts_firmly digit_comma" "regex_first_chars digit_comma = Some digit_chars"
    "regex_trailing_separator digit_comma = Some {44}"
    by (simp_all add: digit_comma_def class_chars_def member_chars_def union_opt_def)
  then show ?thesis
    using character_sets_sound [OF mem, of digit_chars] character_sets_sound [OF mem, of "{44}"] by simp
qed

theorem separated_repeat_unambiguous_witness: "splits (lang digit_comma) [49, 44, 50, 44] = {[[49, 44], [50, 44]]}"
proof -
  have sep: "regex_trailing_separator digit_comma = Some {44}" by (simp add: digit_comma_def)
  have inside: "\<forall>w \<in> lang digit_comma. set (butlast w) \<inter> {44} = {}"
    by (auto simp: digit_comma_lang digit_chars_def)
  have one: "[[49, 44], [50, 44]] \<in> splits (lang digit_comma) [49, 44, 50, 44]"
    by (simp add: splits_def digit_comma_lang digit_chars_def)
  show ?thesis
    using separated_repeat_unambiguous [OF sep inside _ one] one by blast
qed

lemma letter_not_delimited: "\<not> delimited [Literal 97]"
  by (simp add: delimited_def pinned_by_def)


theorem report_needs_repeat_witness:
  "\<exists>s ts. PStr ''(a+)+'' = PStr s \<and> s \<noteq> [] \<and> Some [Repeat 1 99 [Repeat 1 99 [Literal 97]]] = Some ts \<and> \<not> repeat_free ts"
proof -
  have "is_redos_vulnerable_pattern (\<lambda>s. Some [Repeat 1 99 [Repeat 1 99 [Literal 97]]]) (PStr ''(a+)+'')"
    by (simp add: is_redos_vulnerable_pattern_def parse_depth_limit_def multiplying_bound_def delimited_def pinned_by_def)
  from report_needs_repeat [OF this] show ?thesis .
qed

end
