(* ===== verification/Proof_Graph.thy ===== *)
theory Proof_Graph
  imports Complex_Main Py_Values Text_Lines
begin

text \<open>
  The evidence of \<open>ast_scanner.py\<close>: where a value comes from (\<open>compose_path_provenance\<close>), the
  taint of a value at a point where branches meet (\<open>merge_taints\<close>), and the proof graphs of a
  finding (\<open>_build_proof_graph\<close>, \<open>_build_cwe22_proof_graph\<close>). A confidence is a rational number.
  What a proof uses of a syntax tree is its position and what \<open>ast.unparse\<close> makes of it.
\<close>

section \<open>Provenance of paths\<close>

datatype provenance_state = STATIC | INTERNAL_DYNAMIC | UNKNOWN_ORIGIN | TAINTED_ORIGIN

record provenance =
  pv_state :: provenance_state
  pv_confidence :: rat
  pv_source :: "string option"
  pv_trace :: "string list"
  pv_origin :: "nat option"  \<comment> \<open>the node it comes from\<close>

definition composition_table :: "((provenance_state \<times> provenance_state) \<times> provenance_state) list" where
  "composition_table =
     [((STATIC, STATIC), STATIC), ((STATIC, INTERNAL_DYNAMIC), INTERNAL_DYNAMIC),
      ((STATIC, UNKNOWN_ORIGIN), UNKNOWN_ORIGIN), ((STATIC, TAINTED_ORIGIN), TAINTED_ORIGIN),
      ((INTERNAL_DYNAMIC, STATIC), INTERNAL_DYNAMIC), ((INTERNAL_DYNAMIC, INTERNAL_DYNAMIC), INTERNAL_DYNAMIC),
      ((INTERNAL_DYNAMIC, UNKNOWN_ORIGIN), UNKNOWN_ORIGIN), ((INTERNAL_DYNAMIC, TAINTED_ORIGIN), TAINTED_ORIGIN),
      ((UNKNOWN_ORIGIN, STATIC), UNKNOWN_ORIGIN), ((UNKNOWN_ORIGIN, INTERNAL_DYNAMIC), UNKNOWN_ORIGIN),
      ((UNKNOWN_ORIGIN, UNKNOWN_ORIGIN), UNKNOWN_ORIGIN), ((UNKNOWN_ORIGIN, TAINTED_ORIGIN), TAINTED_ORIGIN),
      ((TAINTED_ORIGIN, STATIC), TAINTED_ORIGIN), ((TAINTED_ORIGIN, INTERNAL_DYNAMIC), TAINTED_ORIGIN),
      ((TAINTED_ORIGIN, UNKNOWN_ORIGIN), TAINTED_ORIGIN), ((TAINTED_ORIGIN, TAINTED_ORIGIN), TAINTED_ORIGIN)]"

text \<open>\<open>a or b\<close> on optional texts and on nodes, which are always true.\<close>

definition text_or :: "string option \<Rightarrow> string option \<Rightarrow> string option" where
  "text_or a b = (case a of Some (c # cs) \<Rightarrow> a | _ \<Rightarrow> b)"

definition node_or :: "nat option \<Rightarrow> nat option \<Rightarrow> nat option" where
  "node_or a b = (case a of Some n \<Rightarrow> a | None \<Rightarrow> b)"

definition joined_trace :: "string \<Rightarrow> provenance \<Rightarrow> provenance \<Rightarrow> string list" where
  "joined_trace operator l r = pv_trace l @ [''['' @ operator @ '']''] @ pv_trace r"

definition compose_path_provenance :: "provenance \<Rightarrow> provenance \<Rightarrow> string \<Rightarrow> error + provenance" where
  "compose_path_provenance l r operator =
     (case map_of composition_table (pv_state l, pv_state r) of
        None \<Rightarrow> Inl (ValueError ''Unmapped provenance composition pair'')
      | Some state \<Rightarrow>
          (let (confidence, source, trace) =
             (case state of
                TAINTED_ORIGIN \<Rightarrow>
                  if pv_state l = TAINTED_ORIGIN \<and> pv_state r = TAINTED_ORIGIN
                  then (max (pv_confidence l) (pv_confidence r), text_or (pv_source l) (pv_source r), joined_trace operator l r)
                  else if pv_state l = TAINTED_ORIGIN then (pv_confidence l, pv_source l, pv_trace l)
                  else (pv_confidence r, pv_source r, pv_trace r)
              | UNKNOWN_ORIGIN \<Rightarrow> (1 / 2, text_or (pv_source l) (pv_source r), joined_trace operator l r)
              | INTERNAL_DYNAMIC \<Rightarrow> (min (pv_confidence l) (pv_confidence r), None, joined_trace operator l r)
              | STATIC \<Rightarrow> (1, None, joined_trace operator l r))
           in Inr \<lparr>pv_state = state, pv_confidence = confidence, pv_source = source, pv_trace = trace,
                   pv_origin = node_or (pv_origin r) (pv_origin l)\<rparr>))"

section \<open>Nodes and edges of a proof\<close>

datatype proof_kind = SOURCE | ASSIGNMENT | PARAM_BINDING | CALL_SITE | TRANSFORM | SANITIZER | SINK

definition kind_value :: "proof_kind \<Rightarrow> string" where
  "kind_value k =
     (case k of
        SOURCE \<Rightarrow> ''SOURCE'' | ASSIGNMENT \<Rightarrow> ''ASSIGNMENT'' | PARAM_BINDING \<Rightarrow> ''PARAM_BINDING'' | CALL_SITE \<Rightarrow> ''CALL_SITE''
      | TRANSFORM \<Rightarrow> ''TRANSFORM'' | SANITIZER \<Rightarrow> ''SANITIZER'' | SINK \<Rightarrow> ''SINK'')"

record proof_node =
  pn_id :: string
  pn_step :: nat
  pn_kind :: proof_kind
  pn_file :: string
  pn_start :: int
  pn_end :: int
  pn_symbol :: string
  pn_snippet :: string
  pn_scope :: string

record proof_edge =
  pe_from :: string
  pe_to :: string
  pe_type :: string

record proof_graph =
  pg_finding :: string
  pg_cwe :: string
  pg_confidence :: rat
  pg_nodes :: "proof_node list"
  pg_edges :: "proof_edge list"

text \<open>Position and text of a syntax tree; None where it has no such attribute, or \<open>unparse\<close> raises.\<close>

record tree_node =
  tn_line :: "int option"
  tn_end_line :: "int option"
  tn_col :: "nat option"
  tn_end_col :: "nat option"
  tn_unparsed :: "string option"

record source_info =
  src_id :: string
  src_symbol :: string
  src_file :: string
  src_line :: int

record function_info =
  fn_name :: string
  fn_args :: "string list"
  fn_node :: tree_node
  fn_line :: int

record assignment_info =
  as_scope :: string
  as_node :: tree_node
  as_line :: int

text \<open>What the proofs read of the tracker: its files, sources, functions and assignments in table order.\<close>

record tracker_view =
  view_files :: "(string \<times> string) list"
  view_sources :: "source_info list"
  view_functions :: "(string \<times> function_info) list"
  view_assignments :: "((string \<times> string) \<times> assignment_info list) list"

definition single_line_slice :: "string list \<Rightarrow> int \<Rightarrow> tree_node \<Rightarrow> string" where
  "single_line_slice lines start n =
     (case (tn_line n, tn_end_line n, tn_col n, tn_end_col n) of
        (Some l, Some e, Some a, Some b) \<Rightarrow>
          (let text = lines ! nat (start - 1) in
           if l = e \<and> e = start \<and> a < b \<and> b \<le> length text then py_strip (drop a (take b text)) else [])
      | _ \<Rightarrow> [])"

definition get_source_snippet :: "tracker_view \<Rightarrow> string \<Rightarrow> int \<Rightarrow> int \<Rightarrow> tree_node option \<Rightarrow> string" where
  "get_source_snippet tr path start stop node =
     (let fallback = (case node of Some n \<Rightarrow> (case tn_unparsed n of Some s \<Rightarrow> py_strip s | None \<Rightarrow> []) | None \<Rightarrow> []) in
      case map_of (view_files tr) path of
        None \<Rightarrow> fallback
      | Some code \<Rightarrow>
          (let lines = py_splitlines code in
           if 1 \<le> start \<and> start \<le> int (length lines)
           then
             (let upto = min (if start \<le> stop then stop else start) (int (length lines));
                  slice = (case node of Some n \<Rightarrow> single_line_slice lines start n | None \<Rightarrow> []);
                  snippet = py_strip (py_join [CHR 0x0A] (drop (nat (start - 1)) (take (nat upto) lines)))
              in if slice \<noteq> [] then slice else if snippet \<noteq> [] then snippet else fallback)
           else fallback))"

definition or_text :: "string \<Rightarrow> string \<Rightarrow> string" where
  "or_text a b = (if a = [] then b else a)"

text \<open>\<open>lineno or ...\<close>: no line is given as 0. The end line is never given.\<close>

definition create_proof_node ::
    "tracker_view \<Rightarrow> nat \<Rightarrow> proof_kind \<Rightarrow> string \<Rightarrow> tree_node option \<Rightarrow> string \<Rightarrow> string \<Rightarrow> int \<Rightarrow> string \<Rightarrow> proof_node" where
  "create_proof_node tr step kind path node symbol scope lineno given =
     (let attr = (\<lambda>f d. case node of Some n \<Rightarrow> (case f n of Some l \<Rightarrow> l | None \<Rightarrow> d) | None \<Rightarrow> d);
          start = (if lineno \<noteq> 0 then lineno else attr tn_line 1);
          stop = attr tn_end_line start
      in \<lparr>pn_id = py_lower (kind_value kind) @ '':'' @ path @ '':'' @ int_str start @ '':'' @ symbol @ ''#'' @ nat_str step,
          pn_step = step, pn_kind = kind, pn_file = path, pn_start = start, pn_end = stop, pn_symbol = symbol,
          pn_snippet = (if given \<noteq> [] then given else get_source_snippet tr path start stop node), pn_scope = scope\<rparr>)"

section \<open>Meeting branches\<close>

datatype taint_state = CLEAN | TAINTED | UNKNOWN

record taint_value =
  tv_state :: taint_state
  tv_source :: "string option"
  tv_confidence :: rat
  tv_path :: "string list"
  tv_operation :: "string option"
  tv_nodes :: "proof_node list"
  tv_edges :: "proof_edge list"

definition clean_taint :: taint_value where
  "clean_taint = \<lparr>tv_state = CLEAN, tv_source = None, tv_confidence = 1, tv_path = [], tv_operation = None, tv_nodes = [], tv_edges = []\<rparr>"

text \<open>The elements of a list with a new key, in order.\<close>

fun add_unseen :: "('a \<Rightarrow> 'k) \<Rightarrow> 'a list \<Rightarrow> 'a list \<Rightarrow> 'a list" where
  "add_unseen key acc [] = acc"
| "add_unseen key acc (x # xs) = add_unseen key (if key x \<in> key ` set acc then acc else acc @ [x]) xs"

definition merge_file :: "string \<Rightarrow> string" where
  "merge_file node_id = (if CHR '':'' \<in> set node_id then hd (py_split (CHR '':'') node_id) else ''target.py'')"

definition merge_symbol :: "string \<Rightarrow> string" where
  "merge_symbol node_id = (if CHR '':'' \<in> set node_id then last (py_split (CHR '':'') node_id) else node_id)"

definition merge_node :: "string \<Rightarrow> nat \<Rightarrow> proof_node" where
  "merge_node node_id step =
     (let f = merge_file node_id; s = merge_symbol node_id in
      \<lparr>pn_id = ''assignment:'' @ f @ '':0:'' @ s @ ''#'' @ nat_str step, pn_step = step,
       pn_kind = (if py_startswith s ''return'' then TRANSFORM else ASSIGNMENT), pn_file = f, pn_start = 1, pn_end = 1,
       pn_symbol = s, pn_snippet = ''merge('' @ s @ '')'', pn_scope = f\<rparr>)"

definition branch_edge :: "proof_node \<Rightarrow> taint_value \<Rightarrow> proof_edge list" where
  "branch_edge m t =
     (if tv_nodes t = [] then []
      else [\<lparr>pe_from = pn_id (last (tv_nodes t)), pe_to = pn_id m, pe_type = ''BRANCH_MERGE''\<rparr>])"

definition merge_taints :: "taint_value list \<Rightarrow> string \<Rightarrow> taint_value" where
  "merge_taints taints node_id =
     (if taints = [] then clean_taint
      else
        (let active = filter (\<lambda>t. tv_state t \<noteq> CLEAN) taints in
         if active = [] then clean_taint\<lparr>tv_operation := Some (''clean:'' @ node_id)\<rparr>
         else
           (let first = hd active;
                path = concat (map tv_path active) @ [node_id];
                nodes = add_unseen pn_id [] (concat (map tv_nodes active));
                merge = merge_node node_id (length nodes);
                edges = add_unseen (\<lambda>e. e) [] (concat (map tv_edges active) @ concat (map (branch_edge merge) active));
                all_tainted = list_all (\<lambda>t. tv_state t = TAINTED) taints
            in \<lparr>tv_state = (if all_tainted then TAINTED else UNKNOWN), tv_source = tv_source first,
                tv_confidence = (if all_tainted then Min (tv_confidence ` set taints) else 1 / 2), tv_path = path,
                tv_operation = Some ((if all_tainted then ''merged:'' else ''path_dependent:'') @ node_id),
                tv_nodes = nodes @ [merge], tv_edges = edges\<rparr>)))"

section \<open>The graph of a finding\<close>

record sink_info =
  snk_id :: string
  snk_symbol :: string
  snk_file :: string

record sink_use =
  use_node :: tree_node
  use_line :: int
  use_scope :: string

definition source_proof :: "tracker_view \<Rightarrow> source_info \<Rightarrow> string \<Rightarrow> proof_node" where
  "source_proof tr s given =
     create_proof_node tr 0 SOURCE (src_file s) None (src_symbol s) (src_file s @ '':global'') (src_line s) given"

definition source_text :: "tracker_view \<Rightarrow> source_info \<Rightarrow> string" where
  "source_text tr s = or_text (get_source_snippet tr (src_file s) (src_line s) (src_line s) None) (''Source: '' @ src_symbol s)"

definition names_arg :: "string \<Rightarrow> string \<Rightarrow> bool" where
  "names_arg p a = (py_endswith p ('':'' @ a) \<or> p = a)"

text \<open>The parameter the path names first; else the first one that is not the receiver.\<close>

definition matched_param :: "string list \<Rightarrow> function_info \<Rightarrow> string option" where
  "matched_param path f =
     (case fn_args f of
        [] \<Rightarrow> None
      | a # as \<Rightarrow>
          (case find (\<lambda>p. list_ex (names_arg p) (a # as)) path of
             Some p \<Rightarrow> find (names_arg p) (a # as)
           | None \<Rightarrow> Some (if a \<notin> {''self'', ''cls''} then a else (case as of b # _ \<Rightarrow> b | [] \<Rightarrow> a))))"

definition scope_tail :: "string \<Rightarrow> string" where
  "scope_tail scope =
     (let l = last (py_split (CHR '':'') scope) in
      if scope \<noteq> [] \<and> CHR '':'' \<in> set scope \<and> l \<noteq> ''global'' then l else ''handler'')"

text \<open>The source node a graph without one is given.\<close>

definition assumed_source :: "tracker_view \<Rightarrow> string list \<Rightarrow> string \<Rightarrow> sink_use \<Rightarrow> proof_node" where
  "assumed_source tr path file use =
     (case map_of (view_functions tr) (use_scope use) of
        None \<Rightarrow>
          (let text = ''user_input ('' @ scope_tail (use_scope use) @ '')'' in
           create_proof_node tr 0 SOURCE file None text (use_scope use) (max 1 (use_line use - 1)) text)
      | Some f \<Rightarrow>
          (case matched_param path f of
             None \<Rightarrow>
               (let text = ''user_input ('' @ fn_name f @ '')'' in
                create_proof_node tr 0 SOURCE file None text (use_scope use) (max 1 (use_line use - 1)) text)
           | Some a \<Rightarrow>
               create_proof_node tr 0 SOURCE file (Some (fn_node f)) (a @ '' ('' @ fn_name f @ '')'') (use_scope use) (fn_line f)
                 (or_text (get_source_snippet tr file (fn_line f) (fn_line f) (Some (fn_node f)))
                    (''def '' @ fn_name f @ ''(..., '' @ a @ '', ...)''))))"

definition with_source :: "tracker_view \<Rightarrow> string list \<Rightarrow> string \<Rightarrow> sink_use \<Rightarrow> proof_node list \<Rightarrow> proof_node list" where
  "with_source tr path file use nodes =
     (if list_ex (\<lambda>n. pn_kind n = SOURCE) nodes then nodes else assumed_source tr path file use # nodes)"

definition sink_proof :: "tracker_view \<Rightarrow> sink_info \<Rightarrow> sink_use \<Rightarrow> nat \<Rightarrow> proof_node" where
  "sink_proof tr sink use step =
     create_proof_node tr step SINK (snk_file sink) (Some (use_node use)) (snk_symbol sink) (use_scope use) (use_line use)
       (or_text (get_source_snippet tr (snk_file sink) (use_line use) (use_line use) (Some (use_node use)))
          (snk_symbol sink @ ''(...)''))"

definition reindexed :: "proof_node list \<Rightarrow> proof_node list" where
  "reindexed nodes = map (\<lambda>(i, n). n\<lparr>pn_step := i\<rparr>) (zip [0..<length nodes] nodes)"

definition link :: "proof_node \<Rightarrow> proof_node \<Rightarrow> proof_edge" where
  "link a b = \<lparr>pe_from = pn_id a, pe_to = pn_id b, pe_type = kind_value (pn_kind b)\<rparr>"

fun chain :: "proof_node list \<Rightarrow> proof_edge list" where
  "chain (a # b # ns) = link a b # chain (b # ns)"
| "chain _ = []"

text \<open>The edges of a taint, completed by one into the sink and one out of the first node.\<close>

definition completed_edges :: "proof_node list \<Rightarrow> proof_edge list \<Rightarrow> proof_edge list" where
  "completed_edges nodes edges =
     (if length nodes < 2 then edges
      else
        (let into = \<lparr>pe_from = pn_id (nodes ! (length nodes - 2)), pe_to = pn_id (last nodes), pe_type = ''SINK''\<rparr>;
             es = (if into \<in> set edges then edges else edges @ [into])
         in if list_ex (\<lambda>e. pe_from e = pn_id (hd nodes)) es then es else link (nodes ! 0) (nodes ! 1) # es))"

definition build_proof_graph :: "tracker_view \<Rightarrow> taint_value \<Rightarrow> sink_info \<Rightarrow> sink_use \<Rightarrow> string \<Rightarrow> proof_graph" where
  "build_proof_graph tr taint sink use cwe =
     (let own = tv_nodes taint;
          starts = (own \<noteq> [] \<and> pn_kind (hd own) = SOURCE);
          known = find (\<lambda>s. tv_source taint = Some (src_id s)) (view_sources tr);
          body = (if starts then own else (case known of Some s \<Rightarrow> [source_proof tr s (source_text tr s)] | None \<Rightarrow> []) @ own);
          nodes = reindexed (with_source tr (tv_path taint) (snk_file sink) use body @ [sink_proof tr sink use (length own)])
      in \<lparr>pg_finding = ''TimeCodeSecurity-IR-'' @ snk_id sink, pg_cwe = or_text cwe ''UNKNOWN_CWE'',
          pg_confidence = tv_confidence taint, pg_nodes = nodes,
          pg_edges = (if tv_edges taint \<noteq> [] then completed_edges nodes (tv_edges taint) else chain nodes)\<rparr>)"

section \<open>The graph of a path traversal\<close>

definition assignment_proof :: "tracker_view \<Rightarrow> string \<Rightarrow> string \<Rightarrow> nat \<Rightarrow> assignment_info \<Rightarrow> proof_node" where
  "assignment_proof tr file var step r =
     create_proof_node tr step ASSIGNMENT file (Some (as_node r)) var (as_scope r) (as_line r)
       (or_text (get_source_snippet tr file (as_line r) (as_line r) None) (var @ '' = ...''))"

definition add_assignment :: "tracker_view \<Rightarrow> string \<Rightarrow> string \<Rightarrow> int \<Rightarrow> proof_node list \<Rightarrow> assignment_info \<Rightarrow> proof_node list" where
  "add_assignment tr file var limit nodes r =
     (if as_line r \<le> limit \<and> \<not> list_ex (\<lambda>n. pn_symbol n = var \<and> pn_start n = as_line r) nodes
      then nodes @ [assignment_proof tr file var (length nodes) r] else nodes)"

definition add_traced :: "tracker_view \<Rightarrow> int \<Rightarrow> proof_node list \<Rightarrow> string \<Rightarrow> proof_node list" where
  "add_traced tr limit nodes item =
     (if CHR '':'' \<in> set item \<and> \<not> py_startswith item ''[''
      then
        (let (file, var) = split_once (CHR '':'') item in
         foldl (add_assignment tr file var limit) nodes
           (concat (map snd (filter (\<lambda>((scope, name), rs). name = var) (view_assignments tr)))))
      else nodes)"

definition kind_order :: "proof_kind \<Rightarrow> nat" where
  "kind_order k =
     (case k of SOURCE \<Rightarrow> 0 | PARAM_BINDING \<Rightarrow> 1 | ASSIGNMENT \<Rightarrow> 2 | CALL_SITE \<Rightarrow> 3 | TRANSFORM \<Rightarrow> 4 | SANITIZER \<Rightarrow> 5 | SINK \<Rightarrow> 6)"

definition build_cwe22_proof_graph :: "tracker_view \<Rightarrow> provenance \<Rightarrow> sink_info \<Rightarrow> sink_use \<Rightarrow> proof_graph" where
  "build_cwe22_proof_graph tr prov sink use =
     (let known = (case find (\<lambda>s. pv_source prov = Some (src_id s)) (view_sources tr) of Some s \<Rightarrow> [source_proof tr s []] | None \<Rightarrow> []);
          traced = foldl (add_traced tr (use_line use)) known (pv_trace prov);
          body = with_source tr (pv_trace prov) (snk_file sink) use traced;
          nodes = reindexed (sort_key (\<lambda>n. (pn_start n, kind_order (pn_kind n))) (body @ [sink_proof tr sink use (length body)]))
      in \<lparr>pg_finding = ''TimeCodeSecurity-IR-'' @ snk_id sink, pg_cwe = ''CWE-22'', pg_confidence = pv_confidence prov,
          pg_nodes = nodes, pg_edges = chain nodes\<rparr>)"

section \<open>Provenance composes like a maximum\<close>

definition state_rank :: "provenance_state \<Rightarrow> nat" where
  "state_rank s = (case s of STATIC \<Rightarrow> 0 | INTERNAL_DYNAMIC \<Rightarrow> 1 | UNKNOWN_ORIGIN \<Rightarrow> 2 | TAINTED_ORIGIN \<Rightarrow> 3)"

text \<open>
  Composition never raises, and its state is the worse of the two: nothing that is joined with a
  tainted part stops being tainted. When one part alone is tainted, the confidence, the source
  and the trace of the result are those of that part.
\<close>

theorem composition_is_maximum:
  "\<exists>p. compose_path_provenance l r operator = Inr p
     \<and> state_rank (pv_state p) = max (state_rank (pv_state l)) (state_rank (pv_state r))
     \<and> (pv_state l = TAINTED_ORIGIN \<and> pv_state r \<noteq> TAINTED_ORIGIN \<longrightarrow>
          pv_confidence p = pv_confidence l \<and> pv_source p = pv_source l \<and> pv_trace p = pv_trace l)
     \<and> (pv_state r = TAINTED_ORIGIN \<and> pv_state l \<noteq> TAINTED_ORIGIN \<longrightarrow>
          pv_confidence p = pv_confidence r \<and> pv_source p = pv_source r \<and> pv_trace p = pv_trace r)"
  by (cases "pv_state l"; cases "pv_state r")
    (simp_all add: compose_path_provenance_def composition_table_def state_rank_def)

section \<open>Merged evidence\<close>

text \<open>
  Branches that meet are clean when all of them are, tainted when all of them are, and unknown
  otherwise: a taint of one branch is never lost, and never asserted for all. The confidence of a
  merged taint is the least one, of an unknown one a half; the source is that of the first branch
  that is not clean.
\<close>

theorem merge_keeps_taint:
  "(tv_state (merge_taints taints node_id) = CLEAN \<longleftrightarrow> (\<forall>t \<in> set taints. tv_state t = CLEAN))
   \<and> (tv_state (merge_taints taints node_id) = TAINTED \<longleftrightarrow> taints \<noteq> [] \<and> (\<forall>t \<in> set taints. tv_state t = TAINTED))
   \<and> (tv_state (merge_taints taints node_id) = TAINTED \<longrightarrow>
        (\<forall>t \<in> set taints. tv_confidence (merge_taints taints node_id) \<le> tv_confidence t))
   \<and> (tv_state (merge_taints taints node_id) = UNKNOWN \<longrightarrow> tv_confidence (merge_taints taints node_id) = 1 / 2)
   \<and> (\<forall>t ts us. taints = us @ t # ts \<and> tv_state t \<noteq> CLEAN \<and> (\<forall>u \<in> set us. tv_state u = CLEAN) \<longrightarrow>
        tv_source (merge_taints taints node_id) = tv_source t)"
proof (cases "filter (\<lambda>t. tv_state t \<noteq> CLEAN) taints = []")
  case True
  then show ?thesis by (auto simp: merge_taints_def clean_taint_def filter_empty_conv Let_def neq_Nil_conv)
next
  case False
  let ?m = "merge_taints taints node_id" and ?tainted = "list_all (\<lambda>t. tv_state t = TAINTED) taints"
  have ne: "taints \<noteq> []" using False by auto
  have m: "tv_state ?m = (if ?tainted then TAINTED else UNKNOWN)"
    "tv_confidence ?m = (if ?tainted then Min (tv_confidence ` set taints) else 1 / 2)"
    "tv_source ?m = tv_source (hd (filter (\<lambda>t. tv_state t \<noteq> CLEAN) taints))"
    using False ne by (simp_all add: merge_taints_def Let_def)
  from False have some: "\<exists>t \<in> set taints. tv_state t \<noteq> CLEAN" by (simp add: filter_empty_conv)
  have "tv_source ?m = tv_source t" if "taints = us @ t # ts" "tv_state t \<noteq> CLEAN" "\<forall>u \<in> set us. tv_state u = CLEAN" for t ts us
  proof -
    have "filter (\<lambda>t. tv_state t \<noteq> CLEAN) us = []" using that(3) by simp
    then show ?thesis using that m(3) by simp
  qed
  then show ?thesis using some ne by (auto simp: m list_all_iff)
qed

definition closed_graph :: "proof_node list \<Rightarrow> proof_edge list \<Rightarrow> bool" where
  "closed_graph nodes edges =
     list_all (\<lambda>e. pe_from e \<in> pn_id ` set nodes \<and> pe_to e \<in> pn_id ` set nodes) edges"

lemma add_unseen_keys: "key ` set (add_unseen key acc xs) = key ` set acc \<union> key ` set xs"
  by (induction xs arbitrary: acc) auto

lemma add_unseen_subset: "set (add_unseen key acc xs) \<subseteq> set acc \<union> set xs"
  by (induction xs arbitrary: acc) (fastforce split: if_splits)+

lemma add_unseen_distinct: "distinct (map key acc) \<Longrightarrow> distinct (map key (add_unseen key acc xs))"
  by (induction xs arbitrary: acc) auto

lemma merge_edges: "set (add_unseen (\<lambda>e. e) [] es) = set es"
  using add_unseen_keys [of "\<lambda>e. e" "[]" es] by simp

text \<open>
  The evidence of a merge is a graph: when the edges of every branch join nodes of that branch,
  the merged edges join merged nodes. Its nodes are those of the branches that are not clean, each
  once, and the node of the merge, into which every such branch has an edge from its last node.
\<close>

theorem merged_graph_closed:
  assumes "\<forall>t \<in> set taints. closed_graph (tv_nodes t) (tv_edges t)" "\<exists>t \<in> set taints. tv_state t \<noteq> CLEAN"
  shows "closed_graph (tv_nodes (merge_taints taints node_id)) (tv_edges (merge_taints taints node_id))
    \<and> pn_id ` set (butlast (tv_nodes (merge_taints taints node_id)))
        = (\<Union>t \<in> {t \<in> set taints. tv_state t \<noteq> CLEAN}. pn_id ` set (tv_nodes t))
    \<and> distinct (map pn_id (butlast (tv_nodes (merge_taints taints node_id))))
    \<and> (\<forall>t \<in> set taints. tv_state t \<noteq> CLEAN \<and> tv_nodes t \<noteq> [] \<longrightarrow>
          (\<exists>e \<in> set (tv_edges (merge_taints taints node_id)).
             pe_from e = pn_id (last (tv_nodes t)) \<and> pe_to e = pn_id (last (tv_nodes (merge_taints taints node_id)))))"
proof -
  let ?active = "filter (\<lambda>t. tv_state t \<noteq> CLEAN) taints" and ?m = "merge_taints taints node_id"
  define nodes where "nodes = add_unseen pn_id [] (concat (map tv_nodes ?active))"
  define merge where "merge = merge_node node_id (length nodes)"
  have ne: "taints \<noteq> []" "?active \<noteq> []" using assms(2) by (auto simp: filter_empty_conv)
  have m: "tv_nodes ?m = nodes @ [merge]"
    "tv_edges ?m = add_unseen (\<lambda>e. e) [] (concat (map tv_edges ?active) @ concat (map (branch_edge merge) ?active))"
    using ne by (simp_all add: merge_taints_def Let_def nodes_def merge_def)
  have ids: "pn_id ` set nodes = (\<Union>t \<in> set ?active. pn_id ` set (tv_nodes t))"
    unfolding nodes_def add_unseen_keys by auto
  have edges: "set (tv_edges ?m) = (\<Union>t \<in> set ?active. set (tv_edges t) \<union> set (branch_edge merge t))"
    unfolding m merge_edges by auto
  have "closed_graph (tv_nodes ?m) (tv_edges ?m)"
    unfolding closed_graph_def list_all_iff edges
  proof (intro ballI)
    fix e assume "e \<in> (\<Union>t \<in> set ?active. set (tv_edges t) \<union> set (branch_edge merge t))"
    then obtain t where t: "t \<in> set ?active" "e \<in> set (tv_edges t) \<or> e \<in> set (branch_edge merge t)" by blast
    have sub: "pn_id ` set (tv_nodes t) \<subseteq> pn_id ` set nodes" using t(1) ids by blast
    from t(2) show "pe_from e \<in> pn_id ` set (tv_nodes ?m) \<and> pe_to e \<in> pn_id ` set (tv_nodes ?m)"
    proof
      assume "e \<in> set (tv_edges t)"
      with assms(1) t(1) have "pe_from e \<in> pn_id ` set (tv_nodes t) \<and> pe_to e \<in> pn_id ` set (tv_nodes t)"
        by (simp add: closed_graph_def list_all_iff)
      with sub show ?thesis by (auto simp: m)
    next
      assume "e \<in> set (branch_edge merge t)"
      then have "tv_nodes t \<noteq> []" "pe_from e = pn_id (last (tv_nodes t))" "pe_to e = pn_id merge"
        by (auto simp: branch_edge_def split: if_splits)
      moreover from this(1) have "pn_id (last (tv_nodes t)) \<in> pn_id ` set nodes" using sub by (meson imageI last_in_set subsetD)
      ultimately show ?thesis by (auto simp: m)
    qed
  qed
  moreover have "distinct (map pn_id nodes)" unfolding nodes_def by (rule add_unseen_distinct) simp
  moreover have "\<exists>e \<in> set (tv_edges ?m). pe_from e = pn_id (last (tv_nodes t)) \<and> pe_to e = pn_id (last (tv_nodes ?m))"
    if "t \<in> set taints" "tv_state t \<noteq> CLEAN" "tv_nodes t \<noteq> []" for t
    using that by (intro bexI [of _ "hd (branch_edge merge t)"]) (auto simp: edges m(1) branch_edge_def)
  ultimately show ?thesis using ids by (simp add: m(1))
qed

section \<open>What a proof graph shows\<close>

lemma reindexed_simps [simp]:
  "length (reindexed ns) = length ns" "i < length ns \<Longrightarrow> reindexed ns ! i = (ns ! i)\<lparr>pn_step := i\<rparr>"
  "map pn_id (reindexed ns) = map pn_id ns" "map pn_kind (reindexed ns) = map pn_kind ns"
  by (auto simp: reindexed_def intro!: nth_equalityI)

lemma reindexed_ids [simp]: "pn_id ` set (reindexed ns) = pn_id ` set ns"
  by (metis list.set_map reindexed_simps(3))

lemma reindexed_append: "reindexed (ns @ [n]) = reindexed ns @ [n\<lparr>pn_step := length ns\<rparr>]"
  by (simp add: reindexed_def zip_append1 zip_append)

lemma create_kind [simp]: "pn_kind (create_proof_node tr step kind path node symbol scope lineno given) = kind"
  "pn_symbol (create_proof_node tr step kind path node symbol scope lineno given) = symbol"
  by (simp_all add: create_proof_node_def Let_def)

lemma assumed_source_kind [simp]: "pn_kind (assumed_source tr path file use) = SOURCE"
  by (simp add: assumed_source_def Let_def split: option.split)

lemma with_source_has: "\<exists>n \<in> set (with_source tr path file use nodes). pn_kind n = SOURCE"
  by (auto simp: with_source_def list_ex_iff)

lemma with_source_keeps: "set nodes \<subseteq> set (with_source tr path file use nodes)"
  by (auto simp: with_source_def)

lemma with_source_ne: "with_source tr path file use nodes \<noteq> []"
  by (auto simp: with_source_def)

lemma chain_length: "length (chain ns) = length ns - 1"
  by (induction ns rule: chain.induct) auto

lemma chain_nth: "Suc i < length ns \<Longrightarrow> chain ns ! i = link (ns ! i) (ns ! Suc i)"
proof (induction ns arbitrary: i rule: chain.induct)
  case (1 a b ns)
  then show ?case by (cases i) auto
qed auto

lemma link_simps [simp]: "pe_from (link a b) = pn_id a" "pe_to (link a b) = pn_id b" "pe_type (link a b) = kind_value (pn_kind b)"
  by (simp_all add: link_def)

lemma chain_closed: "closed_graph ns (chain ns)"
  unfolding closed_graph_def list_all_length
  by (auto simp: chain_length chain_nth)

text \<open>A graph whose edges join its nodes, with one out of the first node and one into the last.\<close>

definition anchored :: "proof_node list \<Rightarrow> proof_edge list \<Rightarrow> bool" where
  "anchored nodes edges =
     (closed_graph nodes edges
      \<and> list_ex (\<lambda>e. pe_from e = pn_id (hd nodes)) edges \<and> list_ex (\<lambda>e. pe_to e = pn_id (last nodes)) edges)"

lemma chain_anchored:
  assumes "2 \<le> length ns"
  shows "anchored ns (chain ns)"
proof -
  from assms obtain a b rest where ns: "ns = a # b # rest" by (cases ns rule: chain.cases) auto
  have "chain ns ! (length ns - 2) = link (ns ! (length ns - 2)) (last ns)"
    using assms chain_nth [of "length ns - 2" ns] by (simp add: last_conv_nth Suc_diff_Suc numeral_2_eq_2 ns)
  moreover have "length ns - 2 < length (chain ns)" using assms by (simp add: chain_length)
  ultimately have "\<exists>e \<in> set (chain ns). pe_to e = pn_id (last ns)" by (metis link_simps(2) nth_mem)
  then show ?thesis using chain_closed [of ns] by (simp add: anchored_def list_ex_iff ns)
qed

lemma completed_anchored:
  assumes "2 \<le> length nodes" "closed_graph nodes edges"
  shows "anchored nodes (completed_edges nodes edges)"
proof -
  let ?into = "\<lparr>pe_from = pn_id (nodes ! (length nodes - 2)), pe_to = pn_id (last nodes), pe_type = ''SINK''\<rparr>"
  let ?es = "if ?into \<in> set edges then edges else edges @ [?into]"
  have es: "closed_graph nodes ?es" "\<exists>e \<in> set ?es. pe_to e = pn_id (last nodes)"
  proof -
    have "nodes \<noteq> []" using assms(1) by auto
    then have "last nodes \<in> set nodes" "nodes ! (length nodes - 2) \<in> set nodes" by simp_all
    then show "closed_graph nodes ?es" using assms(2) by (simp add: closed_graph_def)
    have "?into \<in> set ?es" by simp
    then show "\<exists>e \<in> set ?es. pe_to e = pn_id (last nodes)" by (metis proof_edge.select_convs(2))
  qed
  have comp: "completed_edges nodes edges = (if list_ex (\<lambda>e. pe_from e = pn_id (hd nodes)) ?es then ?es else link (nodes ! 0) (nodes ! 1) # ?es)"
    using assms(1) by (simp add: completed_edges_def Let_def)
  have "hd nodes = nodes ! 0" using assms(1) by (cases nodes) simp_all
  moreover have "nodes ! 0 \<in> set nodes" "nodes ! 1 \<in> set nodes"
    using assms(1) by (auto simp: Suc_le_eq numeral_2_eq_2 intro: nth_mem)
  ultimately show ?thesis unfolding comp anchored_def using es by (auto simp: closed_graph_def list_ex_iff)
qed


definition proof_key :: "proof_node \<Rightarrow> int \<times> nat" where
  "proof_key n = (pn_start n, kind_order (pn_kind n))"

text \<open>
  The graph of a path traversal is one chain through a source, the traced assignments and the
  sink, numbered in order and sorted by line and kind.
\<close>

theorem traversal_graph_ordered:
  "sorted (map proof_key (pg_nodes (build_cwe22_proof_graph tr prov sink use)))
    \<and> map pn_step (pg_nodes (build_cwe22_proof_graph tr prov sink use)) = [0..<length (pg_nodes (build_cwe22_proof_graph tr prov sink use))]
    \<and> SOURCE \<in> set (map pn_kind (pg_nodes (build_cwe22_proof_graph tr prov sink use)))
    \<and> SINK \<in> set (map pn_kind (pg_nodes (build_cwe22_proof_graph tr prov sink use)))
    \<and> anchored (pg_nodes (build_cwe22_proof_graph tr prov sink use)) (pg_edges (build_cwe22_proof_graph tr prov sink use))"
proof -
  let ?g = "build_cwe22_proof_graph tr prov sink use"
  obtain body step where g: "pg_nodes ?g = reindexed (sort_key proof_key (with_source tr (pv_trace prov) (snk_file sink) use body @ [sink_proof tr sink use step]))"
      "pg_edges ?g = chain (pg_nodes ?g)"
    by (auto simp: build_cwe22_proof_graph_def proof_key_def [abs_def] Let_def)
  let ?w = "with_source tr (pv_trace prov) (snk_file sink) use body" and ?s = "sink_proof tr sink use step"
  have "map proof_key (pg_nodes ?g) = map proof_key (sort_key proof_key (?w @ [?s]))"
    by (rule nth_equalityI) (simp_all add: g(1) proof_key_def)
  then have "sorted (map proof_key (pg_nodes ?g))" by (metis sorted_sort_key)
  moreover have "map pn_step (pg_nodes ?g) = [0..<length (pg_nodes ?g)]"
    by (rule nth_equalityI) (simp_all add: g(1) del: upt_Suc)
  moreover have kinds: "set (map pn_kind (pg_nodes ?g)) = pn_kind ` (set ?w \<union> {?s})"
    unfolding g(1) reindexed_simps by simp
  then have "SOURCE \<in> set (map pn_kind (pg_nodes ?g))" "SINK \<in> set (map pn_kind (pg_nodes ?g))"
    using with_source_has [of tr "pv_trace prov" "snk_file sink" "use" body] by (force simp: sink_proof_def)+
  moreover have "2 \<le> length (pg_nodes ?g)" using with_source_ne by (simp add: g(1) Suc_le_eq)
  then have "anchored (pg_nodes ?g) (pg_edges ?g)" unfolding g(2) by (rule chain_anchored)
  ultimately show ?thesis by blast
qed

section \<open>Samples\<close>

definition no_tree :: tree_node where
  "no_tree = \<lparr>tn_line = None, tn_end_line = None, tn_col = None, tn_end_col = None, tn_unparsed = None\<rparr>"

definition sample_view :: tracker_view where
  "sample_view =
     \<lparr>view_files = [(''a.py'', ''x = request.args'' @ [CHR 0x0A] @ ''open(x)'' @ [CHR 0x0A])],
      view_sources = [\<lparr>src_id = ''SRC-1'', src_symbol = ''request.args'', src_file = ''b.py'', src_line = 90\<rparr>],
      view_functions = [], view_assignments = []\<rparr>"

definition sample_sink :: sink_info where
  "sample_sink = \<lparr>snk_id = ''SNK-1'', snk_symbol = ''open'', snk_file = ''a.py''\<rparr>"

definition sample_use :: sink_use where
  "sample_use = \<lparr>use_node = no_tree, use_line = 2, use_scope = ''a:global''\<rparr>"

definition branch_taint :: "taint_state \<Rightarrow> string option \<Rightarrow> proof_kind \<Rightarrow> taint_value" where
  "branch_taint state src kind =
     \<lparr>tv_state = state, tv_source = src, tv_confidence = 1, tv_path = [], tv_operation = None,
      tv_nodes = [create_proof_node sample_view 0 kind ''a.py'' None ''x'' ''a:global'' 1 ''x''], tv_edges = []\<rparr>"

definition sample_branches :: "taint_value list" where
  "sample_branches = [branch_taint UNKNOWN None PARAM_BINDING, branch_taint TAINTED (Some ''SRC-1'') SOURCE]"

theorem merge_keeps_taint_witness: "tv_state (merge_taints sample_branches ''a.py:x'') \<noteq> CLEAN"
proof -
  have "branch_taint TAINTED (Some ''SRC-1'') SOURCE \<in> set sample_branches" "tv_state (branch_taint TAINTED (Some ''SRC-1'') SOURCE) \<noteq> CLEAN"
    by (simp_all add: sample_branches_def branch_taint_def)
  then show ?thesis using merge_keeps_taint [of sample_branches "''a.py:x''"] by blast
qed

theorem composition_is_maximum_witness:
  "\<exists>p. compose_path_provenance \<lparr>pv_state = STATIC, pv_confidence = 1, pv_source = None, pv_trace = [], pv_origin = None\<rparr>
        \<lparr>pv_state = TAINTED_ORIGIN, pv_confidence = 1 / 2, pv_source = Some ''SRC-1'', pv_trace = [''SRC-1''], pv_origin = None\<rparr> ''path_join'' = Inr p
      \<and> pv_confidence p = 1 / 2 \<and> pv_source p = Some ''SRC-1''"
  using composition_is_maximum [of "\<lparr>pv_state = STATIC, pv_confidence = 1, pv_source = None, pv_trace = [], pv_origin = None\<rparr>"
        "\<lparr>pv_state = TAINTED_ORIGIN, pv_confidence = 1 / 2, pv_source = Some ''SRC-1'', pv_trace = [''SRC-1''], pv_origin = None\<rparr>" "''path_join''"]
  by auto

lemma sample_branches_closed: "\<forall>t \<in> set sample_branches. closed_graph (tv_nodes t) (tv_edges t)"
  by (simp add: sample_branches_def branch_taint_def closed_graph_def)

theorem merged_graph_closed_witness:
  "closed_graph (tv_nodes (merge_taints sample_branches ''a.py:x'')) (tv_edges (merge_taints sample_branches ''a.py:x''))"
proof -
  have "\<exists>t \<in> set sample_branches. tv_state t \<noteq> CLEAN" by (simp add: sample_branches_def branch_taint_def)
  from merged_graph_closed [OF sample_branches_closed this, of "''a.py:x''"] show ?thesis by blast
qed


text \<open>
  The stated invariant that a proof graph has a source at index 0 does not hold: two branches,
  the first of unknown origin, merge into evidence that starts with a parameter, and as a source
  occurs further on none is put in front. Nor does a traversal graph end at its sink: a source
  in another file, on a later line, is sorted behind it.
\<close>

theorem source_not_first:
  "map pn_kind (pg_nodes (build_proof_graph sample_view (merge_taints sample_branches ''a.py:x'') sample_sink sample_use ''CWE-22''))
     = [PARAM_BINDING, SOURCE, ASSIGNMENT, SINK]
   \<and> map pn_kind (pg_nodes (build_cwe22_proof_graph sample_view
        \<lparr>pv_state = TAINTED_ORIGIN, pv_confidence = 1, pv_source = Some ''SRC-1'', pv_trace = [], pv_origin = None\<rparr> sample_sink sample_use))
     = [SINK, SOURCE]"
  by code_simp

end
