(* ===== verification/Const_Timeline.thy ===== *)
theory Const_Timeline
  imports Py_Values
begin

text \<open>
  The cross-scope fallback of the constant evaluation of \<open>ast_scanner.py\<close>
  (\<open>_build_cross_scope_triage\<close>, \<open>_CrossScopeTriage\<close>): the records written to one name in all
  scopes are swept once into a timeline that a query on a line reads by binary search. What the
  expression of a record is on its own (a literal, something to be folded later, neither) is given
  with the record; values that agree are equal.
\<close>

section \<open>Records and their lines\<close>

datatype 'v shape = Literal_Value 'v | Foldable | Unfoldable

record 'v written =
  wr_id :: nat
  wr_line :: nat
  wr_shape :: "'v shape"

text \<open>\<open>suffix_min\<close>: the earliest line of a list of records, None when it is empty.\<close>

fun suffix_min :: "'v written list \<Rightarrow> nat option" where
  "suffix_min [] = None"
| "suffix_min (r # rs) = (case suffix_min rs of None \<Rightarrow> Some (wr_line r) | Some later \<Rightarrow> Some (if wr_line r < later then wr_line r else later))"

datatype 'v payload = Lit_Payload 'v | Alias_Payload nat

type_synonym 'v span = "nat \<times> nat option \<times> 'v payload"

definition payload_of :: "'v written \<Rightarrow> 'v payload option" where
  "payload_of r =
     (case wr_shape r of Literal_Value v \<Rightarrow> Some (Lit_Payload v) | Foldable \<Rightarrow> Some (Alias_Payload (wr_id r)) | Unfoldable \<Rightarrow> None)"

fun record_spans :: "'v written list \<Rightarrow> 'v span list" where
  "record_spans [] = []"
| "record_spans (r # rs) =
     (let upper = suffix_min rs;
          shadowed = (case upper of Some u \<Rightarrow> u \<le> wr_line r | None \<Rightarrow> False)
      in (if shadowed then [] else (case payload_of r of Some p \<Rightarrow> [(wr_line r, upper, p)] | None \<Rightarrow> [])) @ record_spans rs)"

definition all_spans :: "'v written list list \<Rightarrow> 'v span list" where
  "all_spans buckets = concat (map record_spans buckets)"

section \<open>The sweep\<close>

type_synonym 'v timeline_event = "bool \<times> 'v payload"  \<comment> \<open>whether the span begins\<close>

definition events_at :: "'v span list \<Rightarrow> nat \<Rightarrow> 'v timeline_event list" where
  "events_at spans point =
     concat (map (\<lambda>(lower, upper, p). (if lower = point then [(True, p)] else []) @ (if upper = Some point then [(False, p)] else [])) spans)"

definition points :: "'v span list \<Rightarrow> nat list" where
  "points spans = sort (remdups (concat (map (\<lambda>(lower, upper, p). lower # (case upper of Some u \<Rightarrow> [u] | None \<Rightarrow> [])) spans)))"

text \<open>The live literals with how many scopes write them, and the live aliases.\<close>

type_synonym 'v live = "('v \<times> int) list \<times> nat list"

fun count_add :: "'v \<Rightarrow> int \<Rightarrow> ('v \<times> int) list \<Rightarrow> ('v \<times> int) list" where
  "count_add v d [] = [(v, d)]"
| "count_add v d ((w, n) # m) = (if v = w then (w, n + d) # m else (w, n) # count_add v d m)"

definition live_event :: "'v live \<Rightarrow> 'v timeline_event \<Rightarrow> 'v live" where
  "live_event st e =
     (case (st, e) of
        ((lits, als), (begins, Lit_Payload v)) \<Rightarrow> (count_add v (if begins then 1 else - 1) lits, als)
      | ((lits, als), (begins, Alias_Payload i)) \<Rightarrow>
          (lits, if begins then (if i \<in> set als then als else als @ [i]) else filter (\<lambda>j. j \<noteq> i) als))"

datatype 'v timeline_verdict = No_Literal | One_Literal 'v | Literal_Conflict

definition verdict_of :: "('v \<times> int) list \<Rightarrow> 'v timeline_verdict" where
  "verdict_of lits = (case lits of [] \<Rightarrow> No_Literal | [(v, n)] \<Rightarrow> One_Literal v | _ \<Rightarrow> Literal_Conflict)"

definition alias_budget :: nat where
  "alias_budget = 20"

definition alias_snapshot :: "nat list \<Rightarrow> nat list option" where
  "alias_snapshot als = (if length als \<le> alias_budget then Some als else None)"

fun timeline_sweep :: "'v span list \<Rightarrow> 'v live \<Rightarrow> nat list \<Rightarrow> ('v timeline_verdict \<times> nat list option) list" where
  "timeline_sweep spans st [] = []"
| "timeline_sweep spans st (p # ps) =
     (let st' = foldl live_event st (events_at spans p) in (verdict_of (fst st'), alias_snapshot (snd st')) # timeline_sweep spans st' ps)"

record 'v triage =
  breaks :: "nat list"
  answers :: "('v timeline_verdict \<times> nat list option) list"

definition build_triage :: "'v written list list \<Rightarrow> 'v triage" where
  "build_triage buckets =
     (let spans = all_spans buckets in \<lparr>breaks = points spans, answers = timeline_sweep spans ([], []) (points spans)\<rparr>)"

section \<open>Queries\<close>

text \<open>The binary search: the number of breaks up to a line.\<close>

function bisect :: "nat list \<Rightarrow> nat \<Rightarrow> nat \<Rightarrow> nat \<Rightarrow> nat" where
  "bisect bs lineno low high =
     (if low < high
      then (let mid = (low + high) div 2 in
            if bs ! mid \<le> lineno then bisect bs lineno (Suc mid) high else bisect bs lineno low mid)
      else low)"
  by pat_completeness auto
termination
  by (relation "measure (\<lambda>(bs, lineno, low, high). high - low)") auto

definition triage_at :: "'v triage \<Rightarrow> nat \<Rightarrow> 'v timeline_verdict \<times> nat list option" where
  "triage_at t lineno =
     (if breaks t = [] then (No_Literal, Some [])
      else if lineno = 0 then last (answers t)
      else (let low = bisect (breaks t) lineno 0 (length (breaks t)) in
            if low = 0 then (No_Literal, Some []) else answers t ! (low - 1)))"

declare bisect.simps [simp del]

section \<open>The reference: the last write at or before a line\<close>

definition chosen :: "nat \<Rightarrow> 'v written list \<Rightarrow> 'v written option" where
  "chosen l rs = (case filter (\<lambda>r. wr_line r \<le> l) rs of [] \<Rightarrow> None | xs \<Rightarrow> Some (last xs))"

lemma chosen_simps [simp]:
  "chosen l [] = None"
  "chosen l (r # rs) = (case chosen l rs of Some x \<Rightarrow> Some x | None \<Rightarrow> if wr_line r \<le> l then Some r else None)"
  by (auto simp: chosen_def split: list.splits)

lemma suffix_min_chosen: "chosen l rs = None \<longleftrightarrow> (case suffix_min rs of None \<Rightarrow> True | Some u \<Rightarrow> l < u)"
  by (induction rs) (auto split: option.splits)

definition covers_line :: "nat \<Rightarrow> 'v span \<Rightarrow> bool" where
  "covers_line l s = (case s of (lower, upper, p) \<Rightarrow> lower \<le> l \<and> (case upper of None \<Rightarrow> True | Some u \<Rightarrow> l < u))"

lemma record_spans_live:
  "(\<exists>s \<in> set (record_spans rs). covers_line l s \<and> snd (snd s) = p) \<longleftrightarrow> (\<exists>r. chosen l rs = Some r \<and> payload_of r = Some p)"
proof (induction rs)
  case (Cons r rs)
  have head: "(\<exists>s \<in> set (if (case suffix_min rs of Some u \<Rightarrow> u \<le> wr_line r | None \<Rightarrow> False) then []
        else (case payload_of r of Some p \<Rightarrow> [(wr_line r, suffix_min rs, p)] | None \<Rightarrow> [])). covers_line l s \<and> snd (snd s) = p)
      \<longleftrightarrow> chosen l rs = None \<and> wr_line r \<le> l \<and> payload_of r = Some p"
    unfolding suffix_min_chosen by (auto simp: covers_line_def split: option.splits)
  have "(\<exists>s \<in> set (record_spans (r # rs)). covers_line l s \<and> snd (snd s) = p)
      \<longleftrightarrow> (chosen l rs = None \<and> wr_line r \<le> l \<and> payload_of r = Some p) \<or> (\<exists>x. chosen l rs = Some x \<and> payload_of x = Some p)"
    unfolding record_spans.simps Let_def set_append bex_Un head Cons.IH ..
  then show ?case by (auto split: option.split)
qed simp

lemma record_spans_proper: "(lower, Some u, p) \<in> set (record_spans rs) \<Longrightarrow> lower < u"
  by (induction rs) (auto simp: Let_def split: option.splits if_splits)

section \<open>The binary search\<close>

lemma bisect_bounds:
  assumes "sorted bs" "low \<le> high" "high \<le> length bs" "\<forall>i < low. bs ! i \<le> l" "\<forall>i < length bs. high \<le> i \<longrightarrow> l < bs ! i"
  shows "low \<le> bisect bs l low high \<and> bisect bs l low high \<le> high
    \<and> (\<forall>i < bisect bs l low high. bs ! i \<le> l) \<and> (\<forall>i < length bs. bisect bs l low high \<le> i \<longrightarrow> l < bs ! i)"
  using assms
proof (induction bs l low high rule: bisect.induct)
  case (1 bs l low high)
  show ?case
  proof (cases "low < high")
    case False
    with "1.prems" show ?thesis by (subst (1 2 3 4) bisect.simps) auto
  next
    case True
    define mid where "mid = (low + high) div 2"
    have mid: "low \<le> mid" "mid < high" using True by (simp_all add: mid_def)
    show ?thesis
    proof (cases "bs ! mid \<le> l")
      case le: True
      have "\<forall>i < Suc mid. bs ! i \<le> l"
        using le "1.prems"(1,3) mid by (metis less_Suc_eq_le order_le_less_trans order_trans sorted_nth_mono order.strict_trans2)
      then have "Suc mid \<le> bisect bs l (Suc mid) high \<and> bisect bs l (Suc mid) high \<le> high
          \<and> (\<forall>i < bisect bs l (Suc mid) high. bs ! i \<le> l) \<and> (\<forall>i < length bs. bisect bs l (Suc mid) high \<le> i \<longrightarrow> l < bs ! i)"
        using "1.IH"(1) [OF True mid_def le] "1.prems" mid by simp
      moreover have "bisect bs l low high = bisect bs l (Suc mid) high"
        using True le by (subst bisect.simps) (simp add: mid_def Let_def)
      ultimately show ?thesis using mid by simp
    next
      case gt: False
      have above: "\<forall>i < length bs. mid \<le> i \<longrightarrow> l < bs ! i"
        using gt "1.prems"(1) by (metis not_le order_trans sorted_nth_mono)
      have "mid \<le> length bs" using mid "1.prems"(3) by simp
      then have "low \<le> bisect bs l low mid \<and> bisect bs l low mid \<le> mid
          \<and> (\<forall>i < bisect bs l low mid. bs ! i \<le> l) \<and> (\<forall>i < length bs. bisect bs l low mid \<le> i \<longrightarrow> l < bs ! i)"
        by (rule "1.IH"(2) [OF True mid_def gt "1.prems"(1) mid(1) _ "1.prems"(4) above])
      moreover have "bisect bs l low high = bisect bs l low mid"
        using True gt by (subst bisect.simps) (simp add: mid_def Let_def)
      ultimately show ?thesis using mid by simp
    qed
  qed
qed

lemma filter_prefix:
  assumes "n \<le> length bs" "\<forall>i < n. P (bs ! i)" "\<forall>i < length bs. n \<le> i \<longrightarrow> \<not> P (bs ! i)"
  shows "filter P bs = take n bs"
proof -
  have "filter P bs = filter P (take n bs) @ filter P (drop n bs)" by (metis append_take_drop_id filter_append)
  moreover have "filter P (take n bs) = take n bs" using assms(1,2) by (auto simp: filter_id_conv in_set_conv_nth)
  moreover have "filter P (drop n bs) = []" using assms by (auto simp: filter_empty_conv in_set_conv_nth)
  ultimately show ?thesis by simp
qed

text \<open>
  The search that a query makes finds what a scan of the breaks finds, in a sorted list of any
  length: how many of them are at or before the line.
\<close>

theorem bisect_counts:
  assumes "sorted bs"
  shows "bisect bs l 0 (length bs) = length (filter (\<lambda>b. b \<le> l) bs) \<and> take (bisect bs l 0 (length bs)) bs = filter (\<lambda>b. b \<le> l) bs"
proof -
  note b = bisect_bounds [OF assms, of 0 "length bs" l]
  have "filter (\<lambda>b. b \<le> l) bs = take (bisect bs l 0 (length bs)) bs"
    by (rule filter_prefix) (use b in \<open>auto simp: not_le\<close>)
  with b show ?thesis by simp
qed

section \<open>What a timeline remembers\<close>

lemma count_add_keys: "map fst (count_add v d m) = (if v \<in> fst ` set m then map fst m else map fst m @ [v])"
  by (induction v d m rule: count_add.induct) auto

lemma live_events_keys:
  "distinct (map fst (fst st)) \<Longrightarrow> distinct (map fst (fst (foldl live_event st evs)))
     \<and> fst ` set (fst (foldl live_event st evs)) = fst ` set (fst st) \<union> {v. \<exists>b. (b, Lit_Payload v) \<in> set evs}"
proof (induction evs arbitrary: st)
  case (Cons e evs)
  obtain lits als b p where st: "st = (lits, als)" and e: "e = (b, p)" by (cases st; cases e)
  show ?case
  proof (cases p)
    case (Lit_Payload v)
    let ?lits = "count_add v (if b then 1 else - 1) lits"
    have step: "live_event st e = (?lits, als)" by (simp add: live_event_def st e Lit_Payload)
    have "distinct (map fst ?lits)" using Cons.prems by (auto simp: st count_add_keys)
    moreover have "fst ` set ?lits = insert v (fst ` set lits)"
    proof -
      have "fst ` set ?lits = set (map fst ?lits)" by simp
      also have "\<dots> = insert v (fst ` set lits)" unfolding count_add_keys by auto
      finally show ?thesis .
    qed
    ultimately show ?thesis using Cons.IH [of "(?lits, als)"] unfolding foldl_Cons step by (auto simp: st e Lit_Payload)
  next
    case (Alias_Payload i)
    then have "fst (live_event st e) = fst st" by (simp add: live_event_def st e)
    then show ?thesis using Cons.IH [of "live_event st e"] Cons.prems by (auto simp: e Alias_Payload)
  qed
qed simp

definition judges :: "'v set \<Rightarrow> 'v timeline_verdict \<Rightarrow> bool" where
  "judges S d = (case d of No_Literal \<Rightarrow> S = {} | One_Literal v \<Rightarrow> S = {v} | Literal_Conflict \<Rightarrow> \<not> (S = {} \<or> (\<exists>v. S = {v})))"

lemma verdict_judges: "distinct (map fst lits) \<Longrightarrow> judges (fst ` set lits) (verdict_of lits)"
  by (auto simp: verdict_of_def judges_def split: list.split)

lemma timeline_sweep_nth: "k < length ps \<Longrightarrow> fst (timeline_sweep spans st ps ! k) = verdict_of (fst (foldl live_event st (concat (map (events_at spans) (take (Suc k) ps)))))"
proof (induction ps arbitrary: st k)
  case (Cons p ps)
  then show ?case by (cases k) (auto simp: Let_def)
qed simp

lemma timeline_sweep_length [simp]: "length (timeline_sweep spans st ps) = length ps"
  by (induction ps arbitrary: st) (simp_all add: Let_def)

lemma event_spans: "(b, p) \<in> set (events_at spans pt) \<longleftrightarrow>
    (\<exists>lower upper. (lower, upper, p) \<in> set spans \<and> (b \<and> lower = pt \<or> \<not> b \<and> upper = Some pt))"
  by (auto simp: events_at_def split: if_splits)

lemma points_mem: "pt \<in> set (points spans) \<longleftrightarrow> (\<exists>lower upper p. (lower, upper, p) \<in> set spans \<and> (lower = pt \<or> upper = Some pt))"
  by (auto simp: points_def split: option.splits)

lemma points_sorted: "sorted (points spans)"
  by (simp add: points_def)

lemma spans_proper: "(lower, Some u, p) \<in> set (all_spans buckets) \<Longrightarrow> lower < u"
  by (auto simp: all_spans_def dest: record_spans_proper)

lemma span_literal:
  "(\<exists>lower upper. (lower, upper, Lit_Payload v) \<in> set (all_spans buckets) \<and> lower \<le> l)
     \<longleftrightarrow> (\<exists>rs \<in> set buckets. \<exists>k \<le> l. \<exists>r. chosen k rs = Some r \<and> wr_shape r = Literal_Value v)"
proof -
  have shape: "payload_of r = Some (Lit_Payload v) \<longleftrightarrow> wr_shape r = Literal_Value v" for r
    by (auto simp: payload_of_def split: shape.split)
  have "(\<exists>s \<in> set (record_spans rs). snd (snd s) = Lit_Payload v \<and> fst s \<le> l)
      \<longleftrightarrow> (\<exists>k \<le> l. \<exists>s \<in> set (record_spans rs). covers_line k s \<and> snd (snd s) = Lit_Payload v)" for rs
  proof
    assume "\<exists>s \<in> set (record_spans rs). snd (snd s) = Lit_Payload v \<and> fst s \<le> l"
    then obtain lower upper where s: "(lower, upper, Lit_Payload v) \<in> set (record_spans rs)" "lower \<le> l" by auto
    have "covers_line lower (lower, upper, Lit_Payload v)"
      using record_spans_proper [of lower _ "Lit_Payload v" rs] s(1) by (auto simp: covers_line_def split: option.split)
    with s show "\<exists>k \<le> l. \<exists>s \<in> set (record_spans rs). covers_line k s \<and> snd (snd s) = Lit_Payload v" by force
  qed (force simp: covers_line_def)
  then show ?thesis
    unfolding record_spans_live shape by (fastforce simp: all_spans_def)
qed

lemma event_keys: "fst ` set (fst (foldl live_event ([], []) (concat (map (events_at spans) ps)))) =
      {v. \<exists>lower upper pt. pt \<in> set ps \<and> (lower, upper, Lit_Payload v) \<in> set spans \<and> (lower = pt \<or> upper = Some pt)}"
  (is "?L = ?R")
proof -
  have "?L = {v. \<exists>b. (b, Lit_Payload v) \<in> set (concat (map (events_at spans) ps))}"
    using live_events_keys [of "([], [])" "concat (map (events_at spans) ps)"] by simp
  also have "\<dots> = ?R" by (auto simp: event_spans)
  finally show ?thesis .
qed

text \<open>
  What a timeline answers on a line: no literal, one or a conflict, judged by every literal that
  was visible on this line or on an earlier one. A literal that was overwritten is never forgotten.
\<close>

theorem timeline_remembers_literals:
  assumes "0 < l"
  shows "judges {v. \<exists>rs \<in> set buckets. \<exists>k \<le> l. \<exists>r. chosen k rs = Some r \<and> wr_shape r = Literal_Value v}
    (fst (triage_at (build_triage buckets) l))"
proof -
  let ?spans = "all_spans buckets"
  let ?ps = "points ?spans"
  let ?early = "filter (\<lambda>b. b \<le> l) ?ps"
  have t: "breaks (build_triage buckets) = ?ps" "answers (build_triage buckets) = timeline_sweep ?spans ([], []) ?ps"
    by (simp_all add: build_triage_def Let_def)
  have S: "{v. \<exists>rs \<in> set buckets. \<exists>k \<le> l. \<exists>r. chosen k rs = Some r \<and> wr_shape r = Literal_Value v}
      = {v. \<exists>lower upper pt. pt \<in> set ?early \<and> (lower, upper, Lit_Payload v) \<in> set ?spans \<and> (lower = pt \<or> upper = Some pt)}"
    unfolding span_literal [symmetric]
  proof (intro Collect_cong iffI)
    fix v assume "\<exists>lower upper. (lower, upper, Lit_Payload v) \<in> set ?spans \<and> lower \<le> l"
    then obtain lower upper where s: "(lower, upper, Lit_Payload v) \<in> set ?spans" "lower \<le> l" by blast
    then have "lower \<in> set ?early" by (auto simp: points_mem)
    with s(1) show "\<exists>lower upper pt. pt \<in> set ?early \<and> (lower, upper, Lit_Payload v) \<in> set ?spans \<and> (lower = pt \<or> upper = Some pt)" by blast
  next
    fix v assume "\<exists>lower upper pt. pt \<in> set ?early \<and> (lower, upper, Lit_Payload v) \<in> set ?spans \<and> (lower = pt \<or> upper = Some pt)"
    then obtain lower upper pt where "pt \<le> l" "(lower, upper, Lit_Payload v) \<in> set ?spans" "lower = pt \<or> upper = Some pt" by auto
    then show "\<exists>lower upper. (lower, upper, Lit_Payload v) \<in> set ?spans \<and> lower \<le> l"
      using spans_proper [of lower pt "Lit_Payload v" buckets] by fastforce
  qed
  have judged: "judges {v. \<exists>lower upper pt. pt \<in> set ?early \<and> (lower, upper, Lit_Payload v) \<in> set ?spans \<and> (lower = pt \<or> upper = Some pt)}
      (verdict_of (fst (foldl live_event ([], []) (concat (map (events_at ?spans) ?early)))))"
    unfolding event_keys [symmetric]
    by (rule verdict_judges) (use live_events_keys [of "([], [])" "concat (map (events_at ?spans) ?early)"] in simp)
  define low where "low = bisect ?ps l 0 (length ?ps)"
  have low: "take low ?ps = ?early" "low = length ?early" "low \<le> length ?ps"
    using bisect_counts [OF points_sorted [of ?spans], of l] unfolding low_def [symmetric] by (blast, blast, metis length_filter_le)
  have "fst (triage_at (build_triage buckets) l) = verdict_of (fst (foldl live_event ([], []) (concat (map (events_at ?spans) ?early))))"
  proof (cases "low = 0")
    case True
    then have "?early = []" using low(2) by simp
    then show ?thesis using True assms by (simp add: triage_at_def t low_def [symmetric] verdict_of_def)
  next
    case False
    then have "low - 1 < length ?ps" "Suc (low - 1) = low" using low(3) by linarith+
    moreover from this(1) have "?ps \<noteq> []" by auto
    ultimately show ?thesis
      using False assms timeline_sweep_nth [of "low - 1" ?ps ?spans "([], [])"]
      by (simp add: triage_at_def t low_def [symmetric] low(1))
  qed
  with judged S show ?thesis by simp
qed

text \<open>
  Where no scope writes the name twice the timeline agrees with the reference, the last write of
  every scope at or before the line.
\<close>

theorem timeline_agrees_on_single_writes:
  assumes "0 < l" "\<forall>rs \<in> set buckets. length rs \<le> 1"
  shows "judges {v. \<exists>rs \<in> set buckets. \<exists>r. chosen l rs = Some r \<and> wr_shape r = Literal_Value v}
    (fst (triage_at (build_triage buckets) l))"
proof -
  have "(\<exists>k \<le> l. \<exists>r. chosen k rs = Some r \<and> wr_shape r = Literal_Value v) \<longleftrightarrow> (\<exists>r. chosen l rs = Some r \<and> wr_shape r = Literal_Value v)"
    if "rs \<in> set buckets" for rs v
  proof -
    from assms(2) that have "length rs \<le> 1" by blast
    then consider "rs = []" | r where "rs = [r]" by (cases rs) auto
    then show ?thesis by cases auto
  qed
  then have "{v. \<exists>rs \<in> set buckets. \<exists>r. chosen l rs = Some r \<and> wr_shape r = Literal_Value v}
      = {v. \<exists>rs \<in> set buckets. \<exists>k \<le> l. \<exists>r. chosen k rs = Some r \<and> wr_shape r = Literal_Value v}" by blast
  with timeline_remembers_literals [OF assms(1), of buckets] show ?thesis by simp
qed

section \<open>Samples\<close>

definition literal_write :: "nat \<Rightarrow> string \<Rightarrow> string written" where
  "literal_write line v = \<lparr>wr_id = line, wr_line = line, wr_shape = Literal_Value v\<rparr>"

definition input_write :: "nat \<Rightarrow> string written" where
  "input_write line = \<lparr>wr_id = line, wr_line = line, wr_shape = Unfoldable\<rparr>"

text \<open>
  The counts of overwritten literals stay in the table at zero. A name assigned a constant on line
  1 and the user's input on line 5 still answers with the constant on line 9, where the last write
  is the input; a name that is given a second constant answers with a conflict.
\<close>

theorem overwritten_constant_answers:
  "fst (triage_at (build_triage [[literal_write 1 ''ls'', input_write 5]]) 9) = One_Literal ''ls''
   \<and> map_option wr_line (chosen 9 [literal_write 1 ''ls'', input_write 5]) = Some 5
   \<and> fst (triage_at (build_triage [[literal_write 1 ''ls'', literal_write 5 ''ps'']]) 9) = Literal_Conflict"
  by code_simp

theorem bisect_counts_witness: "bisect [1, 4, 9] 5 0 3 = 2"
  using bisect_counts [of "[1, 4, 9]" 5] by (simp add: numeral_eq_Suc)

theorem timeline_remembers_literals_witness:
  "judges {v. \<exists>k \<le> 9. \<exists>r. chosen k [literal_write 1 ''ls'', input_write 5] = Some r \<and> wr_shape r = Literal_Value v} (One_Literal ''ls'')"
proof -
  have "fst (triage_at (build_triage [[literal_write 1 ''ls'', input_write 5]]) 9) = One_Literal ''ls''" by code_simp
  then show ?thesis
    using timeline_remembers_literals [of 9 "[[literal_write 1 ''ls'', input_write 5]]"] by simp
qed

theorem timeline_agrees_on_single_writes_witness:
  "judges {v. \<exists>rs \<in> {[literal_write 1 ''ls''], [literal_write 7 ''ls'']}. \<exists>r. chosen 9 rs = Some r \<and> wr_shape r = Literal_Value v} (One_Literal ''ls'')"
proof -
  have "fst (triage_at (build_triage [[literal_write 1 ''ls''], [literal_write 7 ''ls'']]) 9) = One_Literal ''ls''" by code_simp
  then show ?thesis
    using timeline_agrees_on_single_writes [of 9 "[[literal_write 1 ''ls''], [literal_write 7 ''ls'']]"] by simp
qed

end
