(* ===== verification/Assign_Table.thy ===== *)
theory Assign_Table
  imports Py_Values
begin

text \<open>
  The assignment table of \<open>ast_scanner.py\<close>: a dictionary from a scope and a name to the records
  of what is assigned there, with the side indexes its writers maintain (\<open>AssignmentNameTable\<close>),
  its assembly from tables built by parallel workers (\<open>graft\<close>), and the walk out of a scope
  that finds the writes to a name. A bucket of the index by name shares the list of records with
  the table, so it is given by the keys.
\<close>

section \<open>Scopes\<close>

definition is_letter :: "char \<Rightarrow> bool" where
  "is_letter c = (let n = code_of c in (65 \<le> n \<and> n \<le> 90) \<or> (97 \<le> n \<and> n \<le> 122))"

definition scope_module :: "string \<Rightarrow> string" where
  "scope_module scope =
     (if scope = [] then []
      else (case py_split (CHR '':'') scope of
              a # b # rest \<Rightarrow> if length a = 1 \<and> list_all is_letter a \<and> py_startswith b ''.'' then a @ '':'' @ b else a
            | a # rest \<Rightarrow> a
            | [] \<Rightarrow> []))"

section \<open>The table and its indexes\<close>

type_synonym table_key = "string \<times> string"

record assignment_record =
  target_name :: string
  value_node :: nat  \<comment> \<open>the identity of the assigned expression\<close>
  line_number :: nat
  record_scope :: string
  is_conditional :: bool

record assign_table =
  entries :: "(table_key \<times> assignment_record list) list"
  names_by_module :: "(string \<times> string list) list"
  names_by_scope :: "(string \<times> string list) list option"
  records_by_name :: "(string \<times> table_key list) list"

definition empty_table :: assign_table where
  "empty_table = \<lparr>entries = [], names_by_module = [], names_by_scope = Some [], records_by_name = []\<rparr>"

text \<open>\<open>d.setdefault(k, set()).add(x)\<close> and \<open>d.setdefault(k, []).append(x)\<close>.\<close>

fun set_add :: "string \<Rightarrow> 'a \<Rightarrow> (string \<times> 'a list) list \<Rightarrow> (string \<times> 'a list) list" where
  "set_add k x [] = [(k, [x])]"
| "set_add k x ((k', xs) # d) =
     (if k = k' then (k', if x \<in> set xs then xs else xs @ [x]) # d else (k', xs) # set_add k x d)"

fun list_add :: "'k \<Rightarrow> 'a list \<Rightarrow> ('k \<times> 'a list) list \<Rightarrow> ('k \<times> 'a list) list" where
  "list_add k xs [] = [(k, xs)]"
| "list_add k xs ((k', ys) # d) = (if k = k' then (k', ys @ xs) # d else (k', ys) # list_add k xs d)"

definition index_key :: "table_key \<Rightarrow> assign_table \<Rightarrow> assign_table" where
  "index_key key t =
     t\<lparr>names_by_module := set_add (scope_module (fst key)) (snd key) (names_by_module t),
       names_by_scope := map_option (set_add (fst key) (snd key)) (names_by_scope t)\<rparr>"

definition index_records :: "table_key \<Rightarrow> assign_table \<Rightarrow> assign_table" where
  "index_records key t = t\<lparr>records_by_name := list_add (snd key) [key] (records_by_name t)\<rparr>"

definition has_key :: "table_key \<Rightarrow> assign_table \<Rightarrow> bool" where
  "has_key key t = (key \<in> fst ` set (entries t))"

text \<open>\<open>table.setdefault(key, []).extend(records)\<close>.\<close>

definition extend_records :: "table_key \<Rightarrow> assignment_record list \<Rightarrow> assign_table \<Rightarrow> assign_table" where
  "extend_records key rs t =
     (let fresh = (\<not> has_key key t);
          t1 = (if fresh then index_key key t else t);
          t2 = t1\<lparr>entries := list_add key rs (entries t1)\<rparr>
      in if fresh then index_records key t2 else t2)"

definition add_record :: "assign_table \<Rightarrow> table_key \<times> assignment_record \<Rightarrow> assign_table" where
  "add_record t kr = extend_records (fst kr) [snd kr] t"

definition graft :: "assign_table \<Rightarrow> assign_table \<Rightarrow> assign_table" where
  "graft t other = foldl (\<lambda>u (key, rs). extend_records key rs u) t (entries other)"

definition release_scratch_indexes :: "assign_table \<Rightarrow> assign_table" where
  "release_scratch_indexes t = t\<lparr>names_by_scope := None\<rparr>"

definition rebuild_scope_index :: "assign_table \<Rightarrow> assign_table" where
  "rebuild_scope_index t = t\<lparr>names_by_scope := Some (foldl (\<lambda>ix ((scope, name), rs). set_add scope name ix) [] (entries t))\<rparr>"

definition names_in_scope :: "string \<Rightarrow> assign_table \<Rightarrow> string list \<times> assign_table" where
  "names_in_scope scope t =
     (let t' = (if names_by_scope t = None then rebuild_scope_index t else t) in
      (case names_by_scope t' of
         Some ix \<Rightarrow> (case map_of ix scope of Some ns \<Rightarrow> ns | None \<Rightarrow> [])
       | None \<Rightarrow> [], t'))"

definition build_table :: "(table_key \<times> assignment_record) list \<Rightarrow> assign_table" where
  "build_table log = foldl add_record empty_table log"

section \<open>The walk out of a scope\<close>

definition outer_scope :: "string \<Rightarrow> string \<Rightarrow> string option" where
  "outer_scope glob current =
     (if CHR ''.'' \<in> set current \<and> py_contains current ''function'' then Some (fst (rsplit_once (CHR ''.'') current))
      else if py_contains current '':function'' then Some glob
      else if current \<noteq> glob then Some glob
      else None)"

lemma rsplit_shorter: "c \<in> set s \<Longrightarrow> length (fst (rsplit_once c s)) < length s"
proof -
  assume "c \<in> set s"
  then have "dropWhile (\<lambda>d. d \<noteq> c) (rev s) \<noteq> []" by (auto simp: dropWhile_eq_Nil_conv)
  moreover have "length (dropWhile (\<lambda>d. d \<noteq> c) (rev s)) \<le> length s" by (metis length_dropWhile_le length_rev)
  ultimately show ?thesis by (cases "dropWhile (\<lambda>d. d \<noteq> c) (rev s)") (auto simp: rsplit_once_def)
qed

function scope_walk :: "string \<Rightarrow> string list \<Rightarrow> string \<Rightarrow> string list" where
  "scope_walk glob walked current =
     (if current = [] \<or> current \<in> set walked then []
      else current # (case outer_scope glob current of
                        Some next \<Rightarrow> scope_walk glob (current # walked) next
                      | None \<Rightarrow> []))"
  by pat_completeness auto
termination
proof (relation "measures [\<lambda>(glob, walked, current). if glob \<in> set walked then 0 else if current = glob then 1 else 2,
      \<lambda>(glob, walked, current). if current \<in> set walked then 0 else Suc (length current)]", goal_cases)
  case (2 glob walked current nxt)
  then show ?case by (auto simp: outer_scope_def rsplit_shorter split: if_splits)
qed simp

definition scope_chain :: "string \<Rightarrow> string list" where
  "scope_chain scope = scope_walk (scope_module scope @ '':global'') [] scope"

definition visible :: "nat \<Rightarrow> assignment_record list \<Rightarrow> assignment_record list" where
  "visible lineno rs = (if lineno = 0 then rs else filter (\<lambda>r. line_number r \<le> lineno) rs)"

definition records_at :: "assign_table \<Rightarrow> table_key \<Rightarrow> assignment_record list" where
  "records_at t key = (case map_of (entries t) key of Some rs \<Rightarrow> rs | None \<Rightarrow> [])"

definition assignment_records :: "assign_table \<Rightarrow> string \<Rightarrow> string \<Rightarrow> nat \<Rightarrow> assignment_record list" where
  "assignment_records t name scope lineno =
     (case find (\<lambda>c. visible lineno (records_at t (c, name)) \<noteq> []) (scope_chain scope) of
        Some c \<Rightarrow> visible lineno (records_at t (c, name))
      | None \<Rightarrow> [])"

definition preferred :: "assignment_record list \<Rightarrow> assignment_record" where
  "preferred rs = (let uncond = filter (\<lambda>r. \<not> is_conditional r) rs in last (if uncond \<noteq> [] then uncond else rs))"

definition latest_assignment :: "assign_table \<Rightarrow> string \<Rightarrow> string \<Rightarrow> nat \<Rightarrow> assignment_record option" where
  "latest_assignment t name scope before =
     map_option (\<lambda>c. preferred (visible before (records_at t (c, name))))
       (find (\<lambda>c. visible before (records_at t (c, name)) \<noteq> []) (scope_chain scope))"

declare scope_walk.simps [simp del]

section \<open>The indexes say what the table says\<close>

definition bucket_at :: "('k \<times> 'a list) list \<Rightarrow> 'k \<Rightarrow> 'a list" where
  "bucket_at d k = (case map_of d k of Some xs \<Rightarrow> xs | None \<Rightarrow> [])"

definition table_keys :: "assign_table \<Rightarrow> table_key list" where
  "table_keys t = map fst (entries t)"

definition table_ok :: "assign_table \<Rightarrow> bool" where
  "table_ok t =
     (distinct (table_keys t)
      \<and> (\<forall>m. set (bucket_at (names_by_module t) m) = {n. \<exists>s. (s, n) \<in> set (table_keys t) \<and> scope_module s = m})
      \<and> (\<forall>ix. names_by_scope t = Some ix \<longrightarrow> (\<forall>s. set (bucket_at ix s) = {n. (s, n) \<in> set (table_keys t)}))
      \<and> (\<forall>n. bucket_at (records_by_name t) n = filter (\<lambda>k. snd k = n) (table_keys t)))"

lemma bucket_at_simps [simp]: "bucket_at [] k = []" "bucket_at ((k', xs) # d) k = (if k = k' then xs else bucket_at d k)"
  by (simp_all add: bucket_at_def)

lemma bucket_set_add: "set (bucket_at (set_add k x d) k') = (if k = k' then insert x (set (bucket_at d k)) else set (bucket_at d k'))"
  by (cases "k = k'"; induction k x d rule: set_add.induct) (simp_all add: insert_absorb)

lemma bucket_list_add: "bucket_at (list_add k xs d) k' = (if k = k' then bucket_at d k @ xs else bucket_at d k')"
  by (cases "k = k'"; induction k xs d rule: list_add.induct) auto

lemma keys_list_add: "map fst (list_add k xs d) = (if k \<in> fst ` set d then map fst d else map fst d @ [k])"
  by (induction k xs d rule: list_add.induct) auto

lemma extend_known:
  assumes "has_key key t"
  shows "extend_records key rs t = t\<lparr>entries := list_add key rs (entries t)\<rparr>"
  using assms by (simp add: extend_records_def)

lemma extend_new:
  assumes "\<not> has_key key t"
  shows "extend_records key rs t =
    t\<lparr>entries := list_add key rs (entries t), names_by_module := set_add (scope_module (fst key)) (snd key) (names_by_module t),
      names_by_scope := map_option (set_add (fst key) (snd key)) (names_by_scope t),
      records_by_name := list_add (snd key) [key] (records_by_name t)\<rparr>"
  using assms by (simp add: extend_records_def index_key_def index_records_def)

lemma extend_entries: "entries (extend_records key rs t) = list_add key rs (entries t)"
  by (cases "has_key key t") (simp_all add: extend_known extend_new)

lemma extend_keys: "table_keys (extend_records key rs t) = (if has_key key t then table_keys t else table_keys t @ [key])"
  unfolding table_keys_def extend_entries keys_list_add has_key_def ..

lemma extend_ok:
  assumes "table_ok t"
  shows "table_ok (extend_records key rs t)"
proof (cases "has_key key t")
  case True
  with assms show ?thesis
    using extend_keys [of key rs t] by (simp add: table_ok_def extend_known)
next
  case False
  obtain s n where key: "key = (s, n)" by (cases key)
  have new: "(s, n) \<notin> set (table_keys t)" using False by (auto simp: key has_key_def table_keys_def)
  have keys: "table_keys (extend_records (s, n) rs t) = table_keys t @ [(s, n)]"
    using False extend_keys [of key rs t] by (simp add: key)
  have fresh: "names_by_module (extend_records (s, n) rs t) = set_add (scope_module s) n (names_by_module t)"
    "names_by_scope (extend_records (s, n) rs t) = map_option (set_add s n) (names_by_scope t)"
    "records_by_name (extend_records (s, n) rs t) = list_add n [(s, n)] (records_by_name t)"
    using False by (simp_all add: extend_new key)
  have "set (bucket_at (names_by_module (extend_records (s, n) rs t)) m)
      = {n'. \<exists>s'. (s', n') \<in> set (table_keys (extend_records (s, n) rs t)) \<and> scope_module s' = m}" for m
    using assms by (auto simp: table_ok_def fresh(1) bucket_set_add keys)
  moreover have "set (bucket_at ix s') = {n'. (s', n') \<in> set (table_keys (extend_records (s, n) rs t))}"
    if "names_by_scope (extend_records (s, n) rs t) = Some ix" for ix s'
    using that assms by (auto simp: table_ok_def fresh(2) bucket_set_add keys split: if_splits)
  moreover have "bucket_at (records_by_name (extend_records (s, n) rs t)) n' = filter (\<lambda>k. snd k = n') (table_keys (extend_records (s, n) rs t))" for n'
    using assms by (simp add: table_ok_def fresh(3) bucket_list_add keys)
  moreover have "distinct (table_keys (extend_records (s, n) rs t))" using assms new by (simp add: table_ok_def keys)
  ultimately show ?thesis unfolding table_ok_def key by blast
qed

lemma graft_ok: "table_ok t \<Longrightarrow> table_ok (graft t other)"
  unfolding graft_def by (rule foldl_invariant [where P = table_ok]) (auto intro: extend_ok)

lemma rebuild_bucket:
  "set (bucket_at (foldl (\<lambda>ix ((scope, name), rs). set_add scope name ix) ix0 es) s) = set (bucket_at ix0 s) \<union> {n. (s, n) \<in> fst ` set es}"
proof (induction es arbitrary: ix0)
  case (Cons e es)
  obtain sc n rs where e: "e = ((sc, n), rs)" by (metis prod.exhaust)
  show ?case unfolding e foldl_Cons Cons.IH by (auto simp: Cons.IH bucket_set_add)
qed simp

lemma rebuild_ok: "table_ok t \<Longrightarrow> table_ok (rebuild_scope_index t)"
  by (simp add: table_ok_def rebuild_scope_index_def rebuild_bucket table_keys_def)

text \<open>The tables the program can reach: records, grafts, releases and queries in any order.\<close>

inductive reachable_table :: "assign_table \<Rightarrow> bool" where
  reach_empty: "reachable_table empty_table"
| reach_extend: "reachable_table t \<Longrightarrow> reachable_table (extend_records key rs t)"
| reach_graft: "reachable_table t \<Longrightarrow> reachable_table u \<Longrightarrow> reachable_table (graft t u)"
| reach_release: "reachable_table t \<Longrightarrow> reachable_table (release_scratch_indexes t)"
| reach_query: "reachable_table t \<Longrightarrow> reachable_table (snd (names_in_scope scope t))"

lemma reachable_table_ok: "reachable_table t \<Longrightarrow> table_ok t"
proof (induction rule: reachable_table.induct)
  case reach_empty
  show ?case by (simp add: table_ok_def empty_table_def table_keys_def)
next
  case (reach_query t scope)
  then show ?case by (simp add: names_in_scope_def Let_def rebuild_ok)
qed (auto simp: extend_ok graft_ok, simp add: table_ok_def release_scratch_indexes_def table_keys_def)

text \<open>
  In every table the program can reach the side indexes answer what a scan of the table's keys
  would: the names of a scope, also after the index was released, the names of a module, and the
  keys of a name, in the order of the table. Asking changes no entry.
\<close>

theorem indexes_answer_scans:
  assumes "reachable_table t" "names_in_scope scope t = (ns, t')"
  shows "set ns = {n. (scope, n) \<in> set (table_keys t)} \<and> entries t' = entries t
    \<and> set (bucket_at (names_by_module t) m) = {n. \<exists>s. (s, n) \<in> set (table_keys t) \<and> scope_module s = m}
    \<and> bucket_at (records_by_name t) name = filter (\<lambda>k. snd k = name) (table_keys t)"
proof -
  have ok: "table_ok t" by (rule reachable_table_ok [OF assms(1)])
  have "set ns = {n. (scope, n) \<in> set (table_keys t)} \<and> entries t' = entries t"
  proof (cases "names_by_scope t")
    case None
    with assms(2) rebuild_bucket [of "[]" "entries t" scope] show ?thesis
      by (auto simp: names_in_scope_def rebuild_scope_index_def bucket_at_def [symmetric] table_keys_def)
  next
    case (Some ix)
    with assms(2) ok show ?thesis by (auto simp: names_in_scope_def bucket_at_def [symmetric] table_ok_def)
  qed
  with ok show ?thesis by (simp add: table_ok_def)
qed

section \<open>Parallel workers build the serial table\<close>

lemma list_add_assoc: "list_add k ys (list_add k xs d) = list_add k (xs @ ys) d"
  by (induction k xs d rule: list_add.induct) auto

lemma list_add_commute: "k \<noteq> k' \<Longrightarrow> k \<in> fst ` set d \<Longrightarrow> list_add k xs (list_add k' ys d) = list_add k' ys (list_add k xs d)"
  by (induction k' ys d rule: list_add.induct) auto

lemma extend_has_key: "has_key k (extend_records k' rs t) \<longleftrightarrow> k = k' \<or> has_key k t"
  using arg_cong [OF extend_keys [of k' rs t], of "\<lambda>ks. k \<in> set ks"]
  by (auto simp: has_key_def table_keys_def split: if_splits)

lemma has_key_entries [simp]: "has_key k (t\<lparr>entries := list_add k' rs d\<rparr>) \<longleftrightarrow> k = k' \<or> k \<in> fst ` set d"
proof -
  have "k \<in> fst ` set (list_add k' rs d) \<longleftrightarrow> k \<in> set (map fst (list_add k' rs d))" by simp
  also have "\<dots> \<longleftrightarrow> k = k' \<or> k \<in> fst ` set d" unfolding keys_list_add by auto
  finally show ?thesis by (simp add: has_key_def)
qed

lemma extend_twice: "extend_records k ys (extend_records k xs t) = extend_records k (xs @ ys) t"
proof -
  have "has_key k (extend_records k xs t)" by (simp add: extend_has_key)
  then show ?thesis
    by (cases "has_key k t") (simp_all add: extend_known extend_new list_add_assoc)
qed

lemma extend_commute:
  assumes "has_key k t" "k \<noteq> k'"
  shows "extend_records k xs (extend_records k' ys t) = extend_records k' ys (extend_records k xs t)"
proof -
  have mem: "k \<in> fst ` set (entries t)" using assms(1) by (simp only: has_key_def)
  note swap = list_add_commute [OF assms(2) mem, of xs ys]
  have known: "has_key k (extend_records k' ys t)" using assms by (simp add: extend_has_key)
  show ?thesis
  proof (cases "has_key k' t")
    case True
    then have "has_key k' (extend_records k xs t)" by (simp add: extend_has_key)
    with True known assms(1) show ?thesis by (simp add: extend_known swap)
  next
    case False
    then have "\<not> has_key k' (extend_records k xs t)" using assms(2) by (simp add: extend_has_key)
    with False known assms(1) show ?thesis by (simp add: extend_known extend_new swap)
  qed
qed

lemma graft_list_add:
  assumes "distinct (map fst es)"
  shows "foldl (\<lambda>u (key, rs). extend_records key rs u) t (list_add k rs es)
    = extend_records k rs (foldl (\<lambda>u (key, rs). extend_records key rs u) t es)"
  using assms
proof (induction es arbitrary: t)
  case (Cons e es)
  obtain k' ys where e: "e = (k', ys)" by (cases e)
  show ?case
  proof (cases "k = k'")
    case True
    have "has_key k u \<Longrightarrow> k \<notin> fst ` set ds \<Longrightarrow> foldl (\<lambda>u (key, rs). extend_records key rs u) (extend_records k rs u) ds
        = extend_records k rs (foldl (\<lambda>u (key, rs). extend_records key rs u) u ds)" for u ds
    proof (induction ds arbitrary: u)
      case (Cons d ds)
      obtain k'' zs where d: "d = (k'', zs)" by (cases d)
      with Cons.prems have "k \<noteq> k''" "k \<notin> fst ` set ds" by auto
      with Cons.IH [of "extend_records k'' zs u"] Cons.prems(1) show ?case
        by (simp add: d extend_commute [symmetric] extend_has_key)
    qed simp
    from this [of "extend_records k ys t" es] Cons.prems True show ?thesis
      by (simp add: e extend_twice [symmetric] extend_has_key)
  next
    case False
    with Cons show ?thesis by (simp add: e)
  qed
qed simp

lemma build_ok: "table_ok (build_table log)"
proof -
  have "reachable_table (build_table log)"
    unfolding build_table_def
    by (rule foldl_invariant [where P = reachable_table]) (auto simp: add_record_def intro: reachable_table.intros)
  then show ?thesis by (rule reachable_table_ok)
qed

lemma graft_build: "graft t (build_table log) = foldl add_record t log"
proof (induction log rule: rev_induct)
  case Nil
  then show ?case by (simp add: build_table_def graft_def empty_table_def)
next
  case (snoc kr log)
  have "distinct (map fst (entries (build_table log)))"
    using build_ok [of log] by (simp add: table_ok_def table_keys_def)
  then show ?case
    using snoc by (simp add: build_table_def graft_def add_record_def extend_entries graft_list_add)
qed

text \<open>
  C23: grafting the tables of the workers, in any number and in the order of their logs, gives exactly
  the table one worker builds from the concatenated log: the same records in the same order, and
  the same side indexes.
\<close>

theorem parallel_equals_serial:
  "foldl graft empty_table (map build_table logs) = build_table (concat logs)"
proof -
  have "foldl graft t (map build_table logs) = foldl add_record t (concat logs)" for t
    by (induction logs arbitrary: t) (simp_all add: graft_build)
  then show ?thesis by (simp add: build_table_def)
qed

section \<open>The writes to a name\<close>

text \<open>
  Both lookups walk out of the same scopes, and the walk visits none twice: the latest assignment
  is the last unconditional one of the visible records of the first scope that has any, or the
  last one when all are conditional.
\<close>

lemma scope_walk_distinct: "distinct (scope_walk glob walked current) \<and> set (scope_walk glob walked current) \<inter> set walked = {}"
proof (induction glob walked current rule: scope_walk.induct)
  case (1 glob walked current)
  show ?case
  proof (cases "current = [] \<or> current \<in> set walked")
    case True
    then show ?thesis by (subst (1 2) scope_walk.simps) auto
  next
    case False
    show ?thesis
    proof (cases "outer_scope glob current")
      case None
      with False show ?thesis by (subst (1 2) scope_walk.simps) simp
    next
      case (Some nxt)
      have step: "scope_walk glob walked current = current # scope_walk glob (current # walked) nxt"
        using False Some by (subst scope_walk.simps) simp
      from "1.IH" [OF False Some] False show ?thesis unfolding step by auto
    qed
  qed
qed

theorem latest_assignment_visible:
  "distinct (scope_chain scope)
   \<and> latest_assignment t name scope lineno =
       (case assignment_records t name scope lineno of [] \<Rightarrow> None | rs \<Rightarrow> Some (preferred rs))"
proof -
  have "distinct (scope_chain scope)" using scope_walk_distinct by (simp add: scope_chain_def)
  moreover have "latest_assignment t name scope lineno =
       (case assignment_records t name scope lineno of [] \<Rightarrow> None | rs \<Rightarrow> Some (preferred rs))"
  proof (cases "find (\<lambda>c. visible lineno (records_at t (c, name)) \<noteq> []) (scope_chain scope)")
    case None
    then show ?thesis by (simp add: latest_assignment_def assignment_records_def)
  next
    case (Some c)
    from found_in [OF this] have "visible lineno (records_at t (c, name)) \<noteq> []" by blast
    with Some show ?thesis
      by (cases "visible lineno (records_at t (c, name))") (simp_all add: latest_assignment_def assignment_records_def)
  qed
  ultimately show ?thesis by blast
qed

section \<open>Samples\<close>

definition sample_log :: "(table_key \<times> assignment_record) list" where
  "sample_log =
     map (\<lambda>(s, n, l, c). ((s, n), \<lparr>target_name = n, value_node = l, line_number = l, record_scope = s, is_conditional = c\<rparr>))
       [(''app:global'', ''key'', 1, False), (''app:function:f'', ''key'', 4, True), (''app:function:f'', ''iv'', 5, False)]"

theorem indexes_answer_scans_witness:
  "set (fst (names_in_scope ''app:function:f'' (release_scratch_indexes (build_table sample_log)))) = {''key'', ''iv''}"
proof -
  have "reachable_table (build_table sample_log)"
    unfolding build_table_def
    by (rule foldl_invariant [where P = reachable_table]) (auto simp: add_record_def intro: reachable_table.intros)
  then have reach: "reachable_table (release_scratch_indexes (build_table sample_log))" by (rule reach_release)
  have keys: "table_keys (release_scratch_indexes (build_table sample_log)) = [(''app:global'', ''key''), (''app:function:f'', ''key''), (''app:function:f'', ''iv'')]"
    by code_simp
  show ?thesis
    using indexes_answer_scans [OF reach surjective_pairing, of "''app:function:f''"] unfolding keys by auto
qed

end
