(* ===== verification/Sink_Index.thy ===== *)
theory Sink_Index
  imports Assign_Table "HOL-Library.Sublist"
begin

text \<open>
  The incremental indexes of \<open>ast_scanner.py\<close> over the lists of sink records and sink nodes.
  Each remembers the list it was built from, how much of it was absorbed and which object stood at
  the end, and is rebuilt when one of the three no longer fits. Lists and objects have identities;
  a list is changed by appending a new object, by removing an object in place, and by binding
  the attribute to a new list.
\<close>

section \<open>Records\<close>

record code_location =
  loc_file :: string
  loc_line :: int
  loc_line_end :: int
  loc_column :: int
  loc_column_end :: int

record security_node =
  node_ref :: nat  \<comment> \<open>the identity of the object\<close>
  node_id :: string
  location :: code_location
  node_cwe :: "string option"  \<comment> \<open>\<open>metadata.get("cwe")\<close>\<close>

record sink_record =
  record_ref :: nat
  ast_ref :: nat  \<comment> \<open>the identity of the syntax tree node\<close>
  ast_is_call :: bool
  sec_node :: security_node

section \<open>The cache\<close>

record 'i cache =
  cached_list :: "nat option"
  absorbed :: nat
  cached_tail :: "nat option"
  cached_index :: 'i

definition stale :: "('r \<Rightarrow> nat) \<Rightarrow> nat \<Rightarrow> 'r list \<Rightarrow> 'i cache \<Rightarrow> bool" where
  "stale rid lid rs c =
     (cached_list c \<noteq> Some lid \<or> length rs < absorbed c
      \<or> 0 < absorbed c \<and> Some (rid (rs ! (absorbed c - 1))) \<noteq> cached_tail c)"

definition refresh :: "('r \<Rightarrow> nat) \<Rightarrow> ('i \<Rightarrow> 'r \<Rightarrow> 'i) \<Rightarrow> 'i \<Rightarrow> nat \<Rightarrow> 'r list \<Rightarrow> 'i cache \<Rightarrow> 'i cache" where
  "refresh rid add none lid rs c =
     (let old = stale rid lid rs c;
          start = (if old then 0 else absorbed c);
          index = (if old then none else cached_index c)
      in \<lparr>cached_list = Some lid, absorbed = length rs,
          cached_tail = (if rs = [] then None else Some (rid (last rs))),
          cached_index = foldl add index (drop start rs)\<rparr>)"

definition no_cache :: "'i \<Rightarrow> 'i cache" where
  "no_cache none = \<lparr>cached_list = None, absorbed = 0, cached_tail = None, cached_index = none\<rparr>"

section \<open>The five indexes\<close>

type_synonym sink_key = "string \<times> int \<times> string"

definition sink_index_key :: "sink_record \<Rightarrow> sink_key option" where
  "sink_index_key r =
     (case node_cwe (sec_node r) of
        None \<Rightarrow> None
      | Some cwe \<Rightarrow> Some (loc_file (location (sec_node r)), loc_line (location (sec_node r)), cwe))"

definition add_sink_key :: "(sink_key \<times> security_node) list \<Rightarrow> sink_record \<Rightarrow> (sink_key \<times> security_node) list" where
  "add_sink_key ix r =
     (case sink_index_key r of
        None \<Rightarrow> ix
      | Some k \<Rightarrow> if k \<in> fst ` set ix then ix else ix @ [(k, sec_node r)])"

type_synonym line_buckets = "((string \<times> int) \<times> security_node list) list"

definition bucket_key :: "sink_record \<Rightarrow> string \<times> int" where
  "bucket_key r =
     ((case node_cwe (sec_node r) of Some cwe \<Rightarrow> cwe | None \<Rightarrow> []), loc_line (location (sec_node r)))"

fun add_cwe_bucket :: "(string \<times> line_buckets) list \<Rightarrow> sink_record \<Rightarrow> (string \<times> line_buckets) list" where
  "add_cwe_bucket [] r = [(loc_file (location (sec_node r)), [(bucket_key r, [sec_node r])])]"
| "add_cwe_bucket ((f, d) # ix) r =
     (if f = loc_file (location (sec_node r)) then (f, list_add (bucket_key r) [sec_node r] d) # ix
      else (f, d) # add_cwe_bucket ix r)"

definition record_line :: "sink_record \<Rightarrow> string \<times> int" where
  "record_line r = (loc_file (location (sec_node r)), loc_line (location (sec_node r)))"

definition add_line :: "((string \<times> int) \<times> sink_record list) list \<Rightarrow> sink_record \<Rightarrow> ((string \<times> int) \<times> sink_record list) list" where
  "add_line ix r = list_add (record_line r) [r] ix"

definition add_ast :: "(nat \<times> sink_record list) list \<Rightarrow> sink_record \<Rightarrow> (nat \<times> sink_record list) list" where
  "add_ast ix r = list_add (ast_ref r) [r] ix"

definition sink_node_line :: "security_node \<Rightarrow> string \<times> int" where
  "sink_node_line n = (loc_file (location n), loc_line (location n))"

definition add_node_line :: "((string \<times> int) \<times> security_node list) list \<Rightarrow> security_node \<Rightarrow> ((string \<times> int) \<times> security_node list) list" where
  "add_node_line ix n = list_add (sink_node_line n) [n] ix"

section \<open>The lookups\<close>

text \<open>A list attribute with one of its indexes: the identity of the list, its items, the cache.\<close>

record ('r, 'i) indexed =
  list_ref :: nat
  items :: "'r list"
  cache_of :: "'i cache"

definition refreshed :: "('r \<Rightarrow> nat) \<Rightarrow> ('i \<Rightarrow> 'r \<Rightarrow> 'i) \<Rightarrow> 'i \<Rightarrow> ('r, 'i) indexed \<Rightarrow> ('r, 'i) indexed" where
  "refreshed rid add none s = s\<lparr>cache_of := refresh rid add none (list_ref s) (items s) (cache_of s)\<rparr>"

definition held_index :: "('r, 'i) indexed \<Rightarrow> 'i" where
  "held_index s = cached_index (cache_of s)"

type_synonym 'i record_index = "(sink_record, 'i) indexed"

definition sink_index_find ::
    "(sink_key \<times> security_node) list record_index \<Rightarrow> sink_key \<Rightarrow> security_node option \<times> (sink_key \<times> security_node) list record_index" where
  "sink_index_find s q = (let s' = refreshed record_ref add_sink_key [] s in (map_of (held_index s') q, s'))"

definition sink_cwe_line_buckets ::
    "(string \<times> line_buckets) list record_index \<Rightarrow> string \<Rightarrow> line_buckets \<times> (string \<times> line_buckets) list record_index" where
  "sink_cwe_line_buckets s f = (let s' = refreshed record_ref add_cwe_bucket [] s in (bucket_at (held_index s') f, s'))"

type_synonym line_index = "((string \<times> int) \<times> sink_record list) list record_index"

definition sink_line_bucket :: "line_index \<Rightarrow> string \<times> int \<Rightarrow> sink_record list \<times> line_index" where
  "sink_line_bucket s q = (let s' = refreshed record_ref add_line [] s in (bucket_at (held_index s') q, s'))"

definition with_cwe :: "string option \<Rightarrow> sink_record list \<Rightarrow> sink_record list" where
  "with_cwe cwe rs = (case cwe of None \<Rightarrow> rs | Some c \<Rightarrow> filter (\<lambda>r. node_cwe (sec_node r) = Some c) rs)"

definition sink_records_at :: "line_index \<Rightarrow> code_location \<Rightarrow> string option \<Rightarrow> sink_record list \<times> line_index" where
  "sink_records_at s l cwe =
     (let (rs, s') = sink_line_bucket s (loc_file l, loc_line l) in (with_cwe cwe (filter (\<lambda>r. location (sec_node r) = l) rs), s'))"

definition sink_records_on_line :: "line_index \<Rightarrow> string \<times> int \<Rightarrow> string option \<Rightarrow> sink_record list \<times> line_index" where
  "sink_records_on_line s q cwe = (let (rs, s') = sink_line_bucket s q in (with_cwe cwe rs, s'))"

definition first_record :: "'a list \<Rightarrow> 'a option" where
  "first_record xs = (case xs of [] \<Rightarrow> None | x # _ \<Rightarrow> Some x)"

definition sink_record_at :: "line_index \<Rightarrow> code_location \<Rightarrow> string option \<Rightarrow> sink_record option" where
  "sink_record_at s l cwe = first_record (fst (sink_records_at s l cwe))"

definition sink_node_at :: "line_index \<Rightarrow> code_location \<Rightarrow> string option \<Rightarrow> security_node option" where
  "sink_node_at s l cwe = map_option sec_node (sink_record_at s l cwe)"

definition sink_record_on_line :: "line_index \<Rightarrow> string \<times> int \<Rightarrow> string option \<Rightarrow> sink_record option" where
  "sink_record_on_line s q cwe = first_record (fst (sink_records_on_line s q cwe))"

definition sink_record_for_node :: "line_index \<Rightarrow> security_node \<Rightarrow> sink_record option" where
  "sink_record_for_node s n =
     find (\<lambda>r. node_ref (sec_node r) = node_ref n \<and> ast_is_call r) (fst (sink_line_bucket s (loc_file (location n), loc_line (location n))))"

type_synonym ast_index = "(nat \<times> sink_record list) list record_index"

definition sink_node_records :: "ast_index \<Rightarrow> nat \<Rightarrow> sink_record list \<times> ast_index" where
  "sink_node_records s a =
     (let s' = refreshed record_ref add_ast [] s in (filter (\<lambda>r. ast_ref r = a) (bucket_at (held_index s') a), s'))"

type_synonym node_index = "(security_node, ((string \<times> int) \<times> security_node list) list) indexed"

definition sink_nodes_on_line :: "node_index \<Rightarrow> string \<times> int \<Rightarrow> security_node list \<times> node_index" where
  "sink_nodes_on_line s q = (let s' = refreshed node_ref add_node_line [] s in (bucket_at (held_index s') q, s'))"

section \<open>What happens to a list between two lookups\<close>

definition drop_nth :: "nat \<Rightarrow> 'a list \<Rightarrow> 'a list" where
  "drop_nth i xs = take i xs @ drop (Suc i) xs"

text \<open>
  The histories of a list attribute with one index: the identities used so far, lists and objects, come
  along, so that what is new is new.
\<close>

inductive history ::
    "('r \<Rightarrow> nat) \<Rightarrow> ('i \<Rightarrow> 'r \<Rightarrow> 'i) \<Rightarrow> 'i \<Rightarrow> nat set \<Rightarrow> nat set \<Rightarrow> ('r, 'i) indexed \<Rightarrow> bool"
  for rid :: "'r \<Rightarrow> nat" and add :: "'i \<Rightarrow> 'r \<Rightarrow> 'i" and none :: 'i where
  created: "history rid add none {lid} {} \<lparr>list_ref = lid, items = [], cache_of = no_cache none\<rparr>"
| appended: "history rid add none lids objs s \<Longrightarrow> rid r \<notin> objs \<Longrightarrow>
    history rid add none lids (insert (rid r) objs) (s\<lparr>items := items s @ [r]\<rparr>)"
| removed: "history rid add none lids objs s \<Longrightarrow>
    history rid add none lids objs (s\<lparr>items := drop_nth i (items s)\<rparr>)"
| rebound: "history rid add none lids objs s \<Longrightarrow> lid \<notin> lids \<Longrightarrow>
    history rid add none (insert lid lids) objs (s\<lparr>list_ref := lid, items := filter P (items s)\<rparr>)"
| asked: "history rid add none lids objs s \<Longrightarrow>
    history rid add none lids objs (refreshed rid add none s)"

section \<open>A refreshed cache holds the index of the whole list\<close>

text \<open>
  What is left of the absorbed list is a subsequence of it, and what follows is new. So either
  nothing was removed, or the object at the last absorbed place is not the remembered one.
\<close>

definition fits :: "('r \<Rightarrow> nat) \<Rightarrow> ('i \<Rightarrow> 'r \<Rightarrow> 'i) \<Rightarrow> 'i \<Rightarrow> nat set \<Rightarrow> 'r list \<Rightarrow> 'i cache \<Rightarrow> bool" where
  "fits rid add none objs rs c =
     (\<exists>built kept new. rs = kept @ new \<and> subseq kept built \<and> cached_index c = foldl add none built
        \<and> absorbed c = length built
        \<and> cached_tail c = (if built = [] then None else Some (rid (last built)))
        \<and> rid ` set built \<subseteq> objs \<and> rid ` set new \<inter> rid ` set built = {})"

definition sound_cache :: "('r \<Rightarrow> nat) \<Rightarrow> ('i \<Rightarrow> 'r \<Rightarrow> 'i) \<Rightarrow> 'i \<Rightarrow> nat set \<Rightarrow> nat set \<Rightarrow> ('r, 'i) indexed \<Rightarrow> bool" where
  "sound_cache rid add none lids objs s =
     (list_ref s \<in> lids \<and> set_option (cached_list (cache_of s)) \<subseteq> lids \<and> rid ` set (items s) \<subseteq> objs
      \<and> (cached_list (cache_of s) = Some (list_ref s) \<longrightarrow> fits rid add none objs (items s) (cache_of s)))"

lemma subseq_drop_nth: "subseq (drop_nth i xs) xs"
proof -
  have "suffix (drop (Suc i) xs) (drop i xs)"
    by (metis drop_Suc suffix_drop suffix_tl tl_drop suffix_order.refl)
  then have "subseq (take i xs @ drop (Suc i) xs) (take i xs @ drop i xs)"
    by (intro list_emb_append_mono subseq_order.order_refl suffix_imp_subseq)
  then show ?thesis unfolding drop_nth_def append_take_drop_id .
qed

lemma set_drop_nth: "set (drop_nth i xs) \<subseteq> set xs"
  by (auto simp: drop_nth_def dest: in_set_takeD in_set_dropD)

lemma drop_nth_append:
  "drop_nth i (xs @ ys) = (if i < length xs then drop_nth i xs @ ys else xs @ drop_nth (i - length xs) ys)"
  by (auto simp: drop_nth_def Suc_diff_le)

lemma fits_whole: 
  "rid ` set rs \<subseteq> objs \<Longrightarrow>
   fits rid add none objs rs \<lparr>cached_list = l, absorbed = length rs,
      cached_tail = (if rs = [] then None else Some (rid (last rs))), cached_index = foldl add none rs\<rparr>"
  unfolding fits_def by (rule exI[of _ rs], rule exI[of _ rs], rule exI[of _ "[]"]) simp

lemma fits_append:
  assumes "fits rid add none objs rs c" and "rid r \<notin> objs"
  shows "fits rid add none (insert (rid r) objs) (rs @ [r]) c"
proof -
  obtain built kept new where f: "rs = kept @ new" "subseq kept built" "cached_index c = foldl add none built"
      "absorbed c = length built" "cached_tail c = (if built = [] then None else Some (rid (last built)))"
      "rid ` set built \<subseteq> objs" "rid ` set new \<inter> rid ` set built = {}"
    using assms(1) unfolding fits_def by blast
  then have "rs @ [r] = kept @ (new @ [r])" "rid ` set built \<subseteq> insert (rid r) objs"
      "rid ` set (new @ [r]) \<inter> rid ` set built = {}"
    using assms(2) by auto
  with f show ?thesis unfolding fits_def by blast
qed

lemma fits_removal:
  assumes "fits rid add none objs rs c"
  shows "fits rid add none objs (drop_nth i rs) c"
proof -
  obtain built kept new where f: "rs = kept @ new" "subseq kept built" "cached_index c = foldl add none built"
      "absorbed c = length built" "cached_tail c = (if built = [] then None else Some (rid (last built)))"
      "rid ` set built \<subseteq> objs" "rid ` set new \<inter> rid ` set built = {}"
    using assms unfolding fits_def by blast
  show ?thesis
  proof (cases "i < length kept")
    case True
    then have "drop_nth i rs = drop_nth i kept @ new" by (simp add: f(1) drop_nth_append)
    moreover have "subseq (drop_nth i kept) built"
      using subseq_drop_nth f(2) subseq_order.order_trans by blast
    ultimately show ?thesis using f(3-7) unfolding fits_def by blast
  next
    case False
    then have "drop_nth i rs = kept @ drop_nth (i - length kept) new" by (simp add: f(1) drop_nth_append)
    moreover have "rid ` set (drop_nth (i - length kept) new) \<inter> rid ` set built = {}"
      using f(7) set_drop_nth[of "i - length kept" new] by auto
    ultimately show ?thesis using f(2-6) unfolding fits_def by blast
  qed
qed

lemma fresh_means_intact:
  assumes "fits rid add none objs rs c" and "\<not> stale rid l rs c"
  obtains built new where "rs = built @ new" "cached_index c = foldl add none built" "absorbed c = length built"
proof -
  obtain built kept new where f: "rs = kept @ new" "subseq kept built" "cached_index c = foldl add none built"
      "absorbed c = length built" "cached_tail c = (if built = [] then None else Some (rid (last built)))"
      "rid ` set new \<inter> rid ` set built = {}"
    using assms(1) unfolding fits_def by blast
  have "kept = built"
  proof (rule ccontr)
    assume "kept \<noteq> built"
    with f(2) have short: "length kept < length built"
      by (metis list_emb_length nat_less_le subseq_same_length)
    then have "built \<noteq> []" by auto
    have enough: "length built \<le> length rs" and tail: "rid (rs ! (length built - 1)) = rid (last built)"
      using assms(2) short f(4,5) \<open>built \<noteq> []\<close> by (auto simp: stale_def)
    have "rs ! (length built - 1) = new ! (length built - 1 - length kept)"
      using short by (auto simp: f(1) nth_append)
    moreover have "length built - 1 - length kept < length new" using enough short by (simp add: f(1))
    ultimately have "rid (last built) \<in> rid ` set new" using tail by (metis imageI nth_mem)
    moreover have "rid (last built) \<in> rid ` set built" using \<open>built \<noteq> []\<close> by simp
    ultimately show False using f(6) by blast
  qed
  with f that show thesis by blast
qed

lemma refresh_builds:
  assumes "sound_cache rid add none lids objs s"
  shows "refresh rid add none (list_ref s) (items s) (cache_of s) =
           \<lparr>cached_list = Some (list_ref s), absorbed = length (items s),
            cached_tail = (if items s = [] then None else Some (rid (last (items s)))),
            cached_index = foldl add none (items s)\<rparr>"
proof (cases "stale rid (list_ref s) (items s) (cache_of s)")
  case True
  then show ?thesis by (simp add: refresh_def)
next
  case False
  then have "cached_list (cache_of s) = Some (list_ref s)" by (simp add: stale_def)
  with assms have "fits rid add none objs (items s) (cache_of s)" by (simp add: sound_cache_def)
  then obtain built new where "items s = built @ new" "cached_index (cache_of s) = foldl add none built"
      "absorbed (cache_of s) = length built"
    using fresh_means_intact False by metis
  with False show ?thesis by (simp add: refresh_def)
qed

lemma history_sound: "history rid add none lids objs s \<Longrightarrow> sound_cache rid add none lids objs s"
proof (induction rule: history.induct)
  case (created lid)
  then show ?case by (simp add: sound_cache_def no_cache_def)
next
  case (appended lids objs s r)
  then show ?case using fits_append by (auto simp: sound_cache_def)
next
  case (removed lids objs s i)
  then show ?case using fits_removal set_drop_nth[of i "items s"] by (fastforce simp: sound_cache_def)
next
  case (rebound lids objs s lid P)
  then show ?case by (auto simp: sound_cache_def)
next
  case (asked lids objs s)
  then have "cache_of (refreshed rid add none s) =
     \<lparr>cached_list = Some (list_ref s), absorbed = length (items s),
      cached_tail = (if items s = [] then None else Some (rid (last (items s)))),
      cached_index = foldl add none (items s)\<rparr>"
    using refresh_builds[OF asked.IH] by (simp add: refreshed_def)
  moreover have "rid ` set (items s) \<subseteq> objs" using asked.IH by (simp add: sound_cache_def)
  ultimately have "fits rid add none objs (items s) (cache_of (refreshed rid add none s))"
    by (simp only: fits_whole)
  then show ?case using asked.IH by (simp add: sound_cache_def refreshed_def refresh_def Let_def)
qed

lemma index_of_history: "history rid add none lids objs s \<Longrightarrow> held_index (refreshed rid add none s) = foldl add none (items s)"
  by (drule history_sound, drule refresh_builds) (simp add: held_index_def refreshed_def)

section \<open>What an index promises\<close>

locale incremental_index =
  fixes rid :: "'r \<Rightarrow> nat"
    and add :: "'i \<Rightarrow> 'r \<Rightarrow> 'i"
    and none :: 'i
    and look :: "'i \<Rightarrow> 'q \<Rightarrow> 'a"
    and scan :: "'r list \<Rightarrow> 'q \<Rightarrow> 'a"
  assumes built_index: "look (foldl add none rs) q = scan rs q"
begin

lemma answers_scan: "history rid add none lids objs s \<Longrightarrow> look (held_index (refreshed rid add none s)) q = scan (items s) q"
  by (simp add: index_of_history built_index)

end

lemma bucket_fold: "bucket_at (foldl (\<lambda>ix r. list_add (key r) [val r] ix) d rs) k = bucket_at d k @ map val (filter (\<lambda>r. key r = k) rs)"
  by (induction rs arbitrary: d) (auto simp: bucket_list_add)

lemma find_first_key:
  "map_of (foldl add_sink_key ix rs) k =
     (case map_of ix k of Some n \<Rightarrow> Some n | None \<Rightarrow> map_option sec_node (find (\<lambda>r. sink_index_key r = Some k) rs))"
proof (induction rs arbitrary: ix)
  case (Cons r rs)
  have step: "map_of (add_sink_key ix r) k =
     (case map_of ix k of Some n \<Rightarrow> Some n | None \<Rightarrow> if sink_index_key r = Some k then Some (sec_node r) else None)"
    by (auto simp: add_sink_key_def map_add_def map_of_eq_None_iff split: option.splits dest: map_of_SomeD intro: rev_image_eqI)
  show ?case unfolding foldl_Cons Cons.IH step by (simp split: option.split)
qed (simp split: option.split)

lemma add_cwe_bucket_bucket:
  "bucket_at (bucket_at (add_cwe_bucket ix r) f) k =
     bucket_at (bucket_at ix f) k @ (if loc_file (location (sec_node r)) = f \<and> bucket_key r = k then [sec_node r] else [])"
  by (induction ix r rule: add_cwe_bucket.induct) (auto simp: bucket_list_add)

lemma cwe_buckets_fold:
  "bucket_at (bucket_at (foldl add_cwe_bucket ix rs) f) k =
     bucket_at (bucket_at ix f) k @ map sec_node (filter (\<lambda>r. loc_file (location (sec_node r)) = f \<and> bucket_key r = k) rs)"
  by (induction rs arbitrary: ix) (auto simp: add_cwe_bucket_bucket)

interpretation by_key: incremental_index record_ref add_sink_key "[]" map_of
    "\<lambda>rs k. map_option sec_node (find (\<lambda>r. sink_index_key r = Some k) rs)"
  by unfold_locales (simp add: find_first_key)

interpretation by_cwe_line: incremental_index record_ref add_cwe_bucket "[]" "\<lambda>ix (f, k). bucket_at (bucket_at ix f) k"
    "\<lambda>rs (f, k). map sec_node (filter (\<lambda>r. loc_file (location (sec_node r)) = f \<and> bucket_key r = k) rs)"
  by unfold_locales (auto simp: cwe_buckets_fold)

interpretation by_line: incremental_index record_ref add_line "[]" bucket_at "\<lambda>rs q. filter (\<lambda>r. record_line r = q) rs"
  by unfold_locales (simp add: add_line_def [abs_def] bucket_fold [where val = "\<lambda>r. r"])

interpretation by_ast: incremental_index record_ref add_ast "[]" bucket_at "\<lambda>rs a. filter (\<lambda>r. ast_ref r = a) rs"
  by unfold_locales (simp add: add_ast_def [abs_def] bucket_fold [where val = "\<lambda>r. r"])

interpretation by_node_line: incremental_index node_ref add_node_line "[]" bucket_at "\<lambda>ns q. filter (\<lambda>n. sink_node_line n = q) ns"
  by unfold_locales (simp add: add_node_line_def [abs_def] bucket_fold [where val = "\<lambda>r. r"])

section \<open>Every lookup answers what a scan of the list would\<close>

lemma find_filtered: "find P (filter Q xs) = find (\<lambda>x. Q x \<and> P x) xs"
  by (induction xs) auto

lemma with_cwe_filter: "with_cwe cwe (filter P rs) = filter (\<lambda>r. P r \<and> (cwe = None \<or> node_cwe (sec_node r) = cwe)) rs"
  by (cases cwe) (auto simp: with_cwe_def intro: filter_cong)

definition sample_location :: "int \<Rightarrow> code_location" where
  "sample_location n = \<lparr>loc_file = ''a.py'', loc_line = n, loc_line_end = n, loc_column = 0, loc_column_end = 9\<rparr>"

definition sample_sink_record :: "nat \<Rightarrow> int \<Rightarrow> sink_record" where
  "sample_sink_record i n =
     \<lparr>record_ref = i, ast_ref = i, ast_is_call = True,
      sec_node = \<lparr>node_ref = i, node_id = ''SNK'', location = sample_location n, node_cwe = Some ''CWE-78''\<rparr>\<rparr>"

text \<open>Two records on a line are absorbed, the first one is removed in place, a third one fills its place.\<close>

definition refilled :: "('i \<Rightarrow> sink_record \<Rightarrow> 'i) \<Rightarrow> 'i \<Rightarrow> 'i record_index" where
  "refilled add none =
     (let s0 = \<lparr>list_ref = 0, items = [sample_sink_record 1 7, sample_sink_record 2 7], cache_of = no_cache none\<rparr>;
          s1 = refreshed record_ref add none s0;
          s2 = s1\<lparr>items := drop_nth 0 (items s1)\<rparr>
      in s2\<lparr>items := items s2 @ [sample_sink_record 3 7]\<rparr>)"

lemma refilled_history: "history record_ref add none {0} {3, 2, 1} (refilled add none)"
proof -
  let ?s0 = "\<lparr>list_ref = 0, items = [], cache_of = no_cache none\<rparr>"
  have h1: "history record_ref add none {0} {1} (?s0\<lparr>items := [sample_sink_record 1 7]\<rparr>)"
    using history.appended[OF history.created [of record_ref add none 0], of "sample_sink_record 1 7"]
    by (simp add: sample_sink_record_def)
  have h2: "history record_ref add none {0} {2, 1} (?s0\<lparr>items := [sample_sink_record 1 7, sample_sink_record 2 7]\<rparr>)"
    using history.appended[OF h1, of "sample_sink_record 2 7"] by (simp add: sample_sink_record_def)
  show ?thesis
    using history.appended[OF history.removed[OF history.asked[OF h2]], of "sample_sink_record 3 7" 0]
    by (simp add: refilled_def sample_sink_record_def Let_def)
qed

text \<open>C26: In every history of the list, the index by file, line and CWE returns the node of the first
  record that has them, as the linear walk did.\<close>

theorem sink_index_answers_scan:
  assumes "history record_ref add_sink_key [] lids objs s"
  shows "fst (sink_index_find s (f, l, cwe)) =
           map_option sec_node (find (\<lambda>r. loc_file (location (sec_node r)) = f \<and> loc_line (location (sec_node r)) = l
                                          \<and> node_cwe (sec_node r) = Some cwe) (items s))"
proof -
  have "sink_index_key r = Some (f, l, cwe) \<longleftrightarrow>
      loc_file (location (sec_node r)) = f \<and> loc_line (location (sec_node r)) = l \<and> node_cwe (sec_node r) = Some cwe" for r
    by (auto simp: sink_index_key_def split: option.split)
  then show ?thesis using by_key.answers_scan[OF assms, of "(f, l, cwe)"] by (simp add: sink_index_find_def)
qed

theorem sink_index_answers_scan_witness:
  "fst (sink_index_find (refilled add_sink_key []) (''a.py'', 7, ''CWE-78'')) = Some (sec_node (sample_sink_record 2 7))"
  using sink_index_answers_scan[OF refilled_history, of "''a.py''" 7 "''CWE-78''"]
  by (simp add: refilled_def refreshed_def drop_nth_def sample_sink_record_def sample_location_def Let_def)

text \<open>In every history, the lookups by line return the records a scan with the caller's comparison
  returns, in the order of the list: those at exactly a location, those on a line, both with an optional CWE.\<close>

theorem line_lookups_answer_scan:
  assumes "history record_ref add_line [] lids objs s"
  shows "fst (sink_records_at s loc cwe) =
           filter (\<lambda>r. location (sec_node r) = loc \<and> (cwe = None \<or> node_cwe (sec_node r) = cwe)) (items s)
         \<and> fst (sink_records_on_line s (f, l) cwe) =
           filter (\<lambda>r. loc_file (location (sec_node r)) = f \<and> loc_line (location (sec_node r)) = l
                       \<and> (cwe = None \<or> node_cwe (sec_node r) = cwe)) (items s)"
proof
  have b: "fst (sink_line_bucket s q) = filter (\<lambda>r. record_line r = q) (items s)" for q
    using by_line.answers_scan[OF assms] by (simp add: sink_line_bucket_def)
  have exact: "record_line r = (loc_file loc, loc_line loc) \<and> location (sec_node r) = loc \<longleftrightarrow> location (sec_node r) = loc" for r
    by (auto simp: record_line_def)
  show "fst (sink_records_at s loc cwe) =
      filter (\<lambda>r. location (sec_node r) = loc \<and> (cwe = None \<or> node_cwe (sec_node r) = cwe)) (items s)"
    by (simp add: sink_records_at_def split_beta b with_cwe_filter conj_assoc [symmetric] exact)
  show "fst (sink_records_on_line s (f, l) cwe) =
      filter (\<lambda>r. loc_file (location (sec_node r)) = f \<and> loc_line (location (sec_node r)) = l
                  \<and> (cwe = None \<or> node_cwe (sec_node r) = cwe)) (items s)"
    by (simp add: sink_records_on_line_def split_beta b with_cwe_filter record_line_def conj_assoc)
qed

theorem line_lookups_answer_scan_witness:
  "map record_ref (fst (sink_records_at (refilled add_line []) (sample_location 7) (Some ''CWE-78''))) = [2, 3]"
  using line_lookups_answer_scan[OF refilled_history, of "sample_location 7" "Some ''CWE-78''"]
  by (simp add: refilled_def refreshed_def drop_nth_def sample_sink_record_def Let_def)

text \<open>In every history, the buckets of a file hold under a CWE and a line the nodes of the
  records of that file with that CWE (the empty one for none) and line, in the order of the list.\<close>

theorem cwe_buckets_answer_scan:
  assumes "history record_ref add_cwe_bucket [] lids objs s"
  shows "bucket_at (fst (sink_cwe_line_buckets s f)) (cwe, l) =
           map sec_node (filter (\<lambda>r. loc_file (location (sec_node r)) = f \<and> loc_line (location (sec_node r)) = l
                                     \<and> (node_cwe (sec_node r) = Some cwe \<or> cwe = [] \<and> node_cwe (sec_node r) = None)) (items s))"
proof -
  have "bucket_key r = (cwe, l) \<longleftrightarrow> loc_line (location (sec_node r)) = l
      \<and> (node_cwe (sec_node r) = Some cwe \<or> cwe = [] \<and> node_cwe (sec_node r) = None)" for r
    by (auto simp: bucket_key_def split: option.split)
  then show ?thesis using by_cwe_line.answers_scan[OF assms, of "(f, (cwe, l))"] by (simp add: sink_cwe_line_buckets_def Let_def)
qed

theorem cwe_buckets_answer_scan_witness:
  "map node_ref (bucket_at (fst (sink_cwe_line_buckets (refilled add_cwe_bucket []) ''a.py'')) (''CWE-78'', 7)) = [2, 3]"
  using cwe_buckets_answer_scan[OF refilled_history, of "''a.py''" "''CWE-78''" 7]
  by (simp add: refilled_def refreshed_def drop_nth_def sample_sink_record_def sample_location_def Let_def)

text \<open>In every history, the record of a sink node is the first record of a call that was made for it
  anywhere in the list, where a node has one location.\<close>

theorem record_for_node_answers_scan:
  assumes "history record_ref add_line [] lids objs s"
    and "\<And>r. r \<in> set (items s) \<Longrightarrow> node_ref (sec_node r) = node_ref n \<Longrightarrow> location (sec_node r) = location n"
  shows "sink_record_for_node s n = find (\<lambda>r. node_ref (sec_node r) = node_ref n \<and> ast_is_call r) (items s)"
proof -
  have "fst (sink_line_bucket s q) = filter (\<lambda>r. record_line r = q) (items s)" for q
    using by_line.answers_scan[OF assms(1)] by (simp add: sink_line_bucket_def)
  moreover have "find (\<lambda>r. record_line r = sink_node_line n \<and> node_ref (sec_node r) = node_ref n \<and> ast_is_call r) (items s) =
      find (\<lambda>r. node_ref (sec_node r) = node_ref n \<and> ast_is_call r) (items s)"
    using assms(2) by (intro find_cong) (auto simp: record_line_def sink_node_line_def)
  ultimately show ?thesis by (simp add: sink_record_for_node_def find_filtered sink_node_line_def)
qed

theorem record_for_node_answers_scan_witness:
  "map_option record_ref (sink_record_for_node (refilled add_line []) (sec_node (sample_sink_record 3 7))) = Some 3"
proof -
  have "location (sec_node r) = location (sec_node (sample_sink_record 3 7))" if "r \<in> set (items (refilled add_line []))" for r
    using that by (auto simp: refilled_def refreshed_def drop_nth_def sample_sink_record_def Let_def)
  then show ?thesis
    using record_for_node_answers_scan[OF refilled_history, of "sec_node (sample_sink_record 3 7)"]
    by (simp add: refilled_def refreshed_def drop_nth_def sample_sink_record_def Let_def)
qed

text \<open>In every history, the records of a syntax tree node and the sink nodes on a line are those a scan finds.\<close>

theorem node_lookups_answer_scan:
  assumes "history record_ref add_ast [] lids objs s" and "history node_ref add_node_line [] lids' objs' t"
  shows "fst (sink_node_records s a) = filter (\<lambda>r. ast_ref r = a) (items s)
         \<and> fst (sink_nodes_on_line t (f, l)) = filter (\<lambda>n. loc_file (location n) = f \<and> loc_line (location n) = l) (items t)"
  using by_ast.answers_scan[OF assms(1), of a] by_node_line.answers_scan[OF assms(2), of "(f, l)"]
  by (simp add: sink_node_records_def sink_nodes_on_line_def sink_node_line_def)

theorem node_lookups_answer_scan_witness:
  "map record_ref (fst (sink_node_records (refilled add_ast []) 3)) = [3]
   \<and> fst (sink_nodes_on_line \<lparr>list_ref = 0, items = [], cache_of = no_cache []\<rparr> (''a.py'', 7)) = []"
  using node_lookups_answer_scan[OF refilled_history history.created [of node_ref add_node_line "[]" 0], of 3 "''a.py''" 7]
  by (simp add: refilled_def refreshed_def drop_nth_def sample_sink_record_def Let_def)

end
