(* ===== verification/Text_Replace.thy ===== *)
theory Text_Replace
  imports Rx "HOL-Library.Sublist"
begin

text \<open>
  \<open>str.replace\<close> and \<open>str.find\<close> for a pattern that is not empty, on lists of any elements, and the text
  of a list of symbols some of which stand for a longer text.
\<close>

section \<open>Replacing and finding\<close>

function str_replace :: "'a list \<Rightarrow> 'a list \<Rightarrow> 'a list \<Rightarrow> 'a list" where
  "str_replace p t [] = []"
| "str_replace p t (c # cs) =
     (if p \<noteq> [] \<and> prefix p (c # cs) then t @ str_replace p t (drop (length p - 1) cs) else c # str_replace p t cs)"
  by pat_completeness auto
termination
  by (relation "measure (\<lambda>(p, t, xs). length xs)") auto

declare str_replace.simps(2) [simp del]

definition occurs :: "'a list \<Rightarrow> 'a list \<Rightarrow> bool" where
  "occurs p xs = (\<exists>a b. xs = a @ p @ b)"

fun find_at :: "'a list \<Rightarrow> 'a list \<Rightarrow> nat option" where
  "find_at p [] = (if p = [] then Some 0 else None)"
| "find_at p (c # cs) = (if prefix p (c # cs) then Some 0 else map_option Suc (find_at p cs))"

lemma occurs_simps [simp]: "occurs p [] \<longleftrightarrow> p = []" "occurs p (c # cs) \<longleftrightarrow> prefix p (c # cs) \<or> occurs p cs"
proof -
  show "occurs p (c # cs) \<longleftrightarrow> prefix p (c # cs) \<or> occurs p cs"
  proof
    assume "occurs p (c # cs)"
    then obtain a b where "c # cs = a @ p @ b" by (auto simp: occurs_def)
    then show "prefix p (c # cs) \<or> occurs p cs" by (cases a) (auto simp: prefix_def occurs_def)
  next
    assume "prefix p (c # cs) \<or> occurs p cs"
    then show "occurs p (c # cs)"
    proof
      assume "prefix p (c # cs)"
      then show ?thesis unfolding occurs_def prefix_def by (metis append_Nil)
    next
      assume "occurs p cs"
      then show ?thesis unfolding occurs_def by (metis append_Cons)
    qed
  qed
qed (auto simp: occurs_def)

lemma startswith_prefix: "py_startswith s p \<longleftrightarrow> prefix p s"
  by (induction s p rule: py_startswith.induct) auto

lemma contains_occurs: "py_contains s p \<longleftrightarrow> occurs p s"
  by (induction s p rule: py_contains.induct) (auto simp: startswith_prefix)

lemma occurs_trans: "occurs a b \<Longrightarrow> occurs b c \<Longrightarrow> occurs a c"
  unfolding occurs_def by (metis append.assoc)

lemma occurs_prefix: "occurs p a \<Longrightarrow> prefix a b \<Longrightarrow> occurs p b"
  unfolding occurs_def prefix_def by (metis append.assoc)

lemma occurs_later: "occurs p b \<Longrightarrow> occurs p (a @ b)"
  unfolding occurs_def by (metis append.assoc)

lemma find_at_None: "find_at p xs = None \<longleftrightarrow> \<not> occurs p xs"
  by (induction p xs rule: find_at.induct) auto

lemma replace_absent: "\<not> occurs p xs \<Longrightarrow> str_replace p t xs = xs"
  by (induction xs) (simp_all add: str_replace.simps)

lemma replace_hit: "p \<noteq> [] \<Longrightarrow> str_replace p t (p @ xs) = t @ str_replace p t xs"
  by (cases p) (simp_all add: str_replace.simps)

lemma replace_miss: "\<not> prefix p (c # cs) \<Longrightarrow> str_replace p t (c # cs) = c # str_replace p t cs"
  by (simp add: str_replace.simps)

lemma replace_induct [consumes 1, case_names none hit miss]:
  assumes "p \<noteq> []" and "P []" and "\<And>ys. P ys \<Longrightarrow> P (p @ ys)" and "\<And>c cs. \<not> prefix p (c # cs) \<Longrightarrow> P cs \<Longrightarrow> P (c # cs)"
  shows "P xs"
proof (induction xs rule: length_induct)
  case (1 xs)
  show ?case
  proof (cases xs)
    case (Cons c cs)
    show ?thesis
    proof (cases "prefix p xs")
      case True
      then obtain ys where "xs = p @ ys" by (auto simp: prefix_def)
      with 1 assms(1,3) show ?thesis by simp
    next
      case False
      with 1 Cons assms(4) show ?thesis by simp
    qed
  qed (simp add: assms(2))
qed

text \<open>A block in which no match begins is passed over.\<close>

lemma replace_pass:
  "(\<And>u. suffix u x \<Longrightarrow> u \<noteq> [] \<Longrightarrow> \<not> prefix p (u @ y)) \<Longrightarrow> str_replace p t (x @ y) = x @ str_replace p t y"
proof (induction x)
  case (Cons c x)
  have "\<not> prefix p ((c # x) @ y)" using Cons.prems[of "c # x"] by simp
  moreover have "str_replace p t (x @ y) = x @ str_replace p t y"
    using Cons.IH Cons.prems by (metis suffix_ConsI)
  ultimately show ?case by (simp add: replace_miss)
qed simp

section \<open>Literals in expressions\<close>

lemma ends_lit: "ends (lit p) s i g = (if prefix p (drop i s) then [(i + length p, g)] else [])"
proof (induction p arbitrary: i rule: lit.induct)
  case (2 c)
  then show ?case by (cases "i < length s") (auto simp: lit1_def in_set_def code_of_def Cons_nth_drop_Suc[symmetric] le_antisym intro: of_char_eq_iff)
next
  case (3 c d cs)
  have "ends (lit1 c) s i g = (if i < length s \<and> s ! i = c then [(Suc i, g)] else [])"
    by (auto simp: lit1_def in_set_def code_of_def dest: le_antisym)
  then show ?case
    using "3.IH"[of "Suc i"] by (cases "i < length s") (auto simp: Cons_nth_drop_Suc[symmetric] simp del: ends.simps(2))
qed simp

section \<open>Symbols that stand for texts\<close>

text \<open>A symbol is a character or the number of a block.\<close>

type_synonym 'c symbols = "('c + nat) list"

definition spelled :: "(nat \<Rightarrow> 'c list) \<Rightarrow> 'c symbols \<Rightarrow> 'c list" where
  "spelled f xs = concat (map (\<lambda>x. case x of Inl c \<Rightarrow> [c] | Inr k \<Rightarrow> f k) xs)"

definition blocks :: "'c symbols \<Rightarrow> nat set" where
  "blocks xs = {k. Inr k \<in> set xs}"

lemma spelled_simps [simp]:
  "spelled f [] = []" "spelled f (Inl c # xs) = c # spelled f xs" "spelled f (Inr k # xs) = f k @ spelled f xs"
  "spelled f (xs @ ys) = spelled f xs @ spelled f ys" "spelled f (map Inl s) = s"
proof -
  show "spelled f (map Inl s) = s" by (induction s) (simp_all add: spelled_def)
qed (simp_all add: spelled_def)

lemma blocks_simps [simp]:
  "blocks [] = {}" "blocks (Inl c # xs) = blocks xs" "blocks (Inr k # xs) = insert k (blocks xs)"
  "blocks (xs @ ys) = blocks xs \<union> blocks ys" "blocks (map Inl s) = {}"
  by (auto simp: blocks_def)

lemma no_blocks: "blocks xs = {} \<Longrightarrow> \<exists>s. xs = map Inl s"
proof (induction xs)
  case (Cons x xs)
  then obtain c where "x = Inl c" by (cases x) auto
  with Cons show ?case by (metis blocks_simps(2) list.simps(9))
qed simp

lemma run_occurs: "prefix (map Inl r) xs \<Longrightarrow> prefix r (spelled f xs)"
  by (auto simp: prefix_def)

text \<open>The symbols up to the first block.\<close>

lemma leading_run:
  obtains (whole) r where "xs = map Inl r" | (block) r k ys where "xs = map Inl r @ Inr k # ys"
proof (induction xs arbitrary: thesis)
  case (Cons x xs)
  show ?case
  proof (cases x)
    case (Inr k)
    then show ?thesis using Cons.prems(2)[of "[]"] by simp
  next
    case (Inl c)
    show ?thesis
    proof (rule Cons.IH)
      fix r assume "xs = map Inl r"
      then show thesis using Cons.prems(1)[of "c # r"] Inl by simp
    next
      fix r k ys assume "xs = map Inl r @ Inr k # ys"
      then show thesis using Cons.prems(2)[of "c # r"] Inl by simp
    qed
  qed
qed auto

lemma replace_keeps_run:
  fixes xs :: "'c symbols"
  assumes "p \<noteq> []"
  shows "prefix (map Inl w) (str_replace p [Inr i] xs) \<Longrightarrow> prefix (map Inl w) xs"
  using assms
proof (induction xs arbitrary: w rule: replace_induct)
  case (hit ys)
  then show ?case by (cases w) (simp_all add: replace_hit[OF assms])
next
  case (miss c cs)
  then show ?case by (cases w) (auto simp: replace_miss)
qed simp

lemma replace_keeps_absent:
  fixes xs :: "'c symbols"
  assumes "p \<noteq> []" "w \<noteq> []"
  shows "\<not> occurs (map Inl w) xs \<Longrightarrow> \<not> occurs (map Inl w) (str_replace p [Inr i] xs)"
  using assms(1)
proof (induction xs rule: replace_induct)
  case (hit ys)
  have "\<not> occurs (map Inl w) ys" using hit.prems unfolding occurs_def by (metis append.assoc)
  with hit assms show ?case by (cases w) (simp_all add: replace_hit[OF assms(1)])
next
  case (miss c cs)
  then show ?case using replace_keeps_run[OF assms(1), of w i "c # cs"] by (auto simp: replace_miss)
qed (use assms in simp)

lemma replace_removes:
  fixes xs :: "'c symbols"
  assumes "s \<noteq> []"
  shows "\<not> occurs (map Inl s) (str_replace (map Inl s) [Inr i] xs)"
proof -
  have "map Inl s \<noteq> []" using assms by simp
  then show ?thesis
  proof (induction xs rule: replace_induct)
    case (hit ys)
    moreover have "\<not> prefix (map Inl s) ([Inr i] @ xs')" for xs' :: "'c symbols" using assms by (cases s) auto
    ultimately show ?case using assms by (simp add: replace_hit)
  next
    case (miss c cs)
    then show ?case using replace_keeps_run[of "map Inl s" s i "c # cs"] assms by (auto simp: replace_miss)
  qed (use assms in simp)
qed

lemma replace_spelled_same:
  fixes xs :: "'c symbols"
  assumes "s \<noteq> []" "f i = s"
  shows "spelled f (str_replace (map Inl s) [Inr i] xs) = spelled f xs"
proof -
  have "map Inl s \<noteq> []" using assms by simp
  then show ?thesis
  proof (induction xs rule: replace_induct)
    case (hit ys)
    with assms show ?case by (simp add: replace_hit)
  next
    case (miss c cs)
    then show ?case by (cases c) (simp_all add: replace_miss)
  qed simp
qed

lemma replace_blocks:
  fixes xs :: "'c symbols"
  assumes "s \<noteq> []"
  shows "blocks (str_replace (map Inl s) [Inr i] xs) \<subseteq> insert i (blocks xs)"
proof -
  have "map Inl s \<noteq> []" using assms by simp
  then show ?thesis
  proof (induction xs rule: replace_induct)
    case (hit ys)
    with assms show ?case by (simp add: replace_hit)
  next
    case (miss c cs)
    then show ?case by (cases c) (auto simp: replace_miss)
  qed simp
qed

definition spell_out :: "(nat \<Rightarrow> 'c list) \<Rightarrow> nat \<Rightarrow> 'c symbols \<Rightarrow> 'c symbols" where
  "spell_out f i xs = concat (map (\<lambda>x. if x = Inr i then map Inl (f i) else [x]) xs)"

lemma spell_out_simps [simp]:
  "spell_out f i [] = []" "spell_out f i (Inl c # xs) = Inl c # spell_out f i xs"
  "spell_out f i (Inr k # xs) = (if k = i then map Inl (f i) else [Inr k]) @ spell_out f i xs"
  by (simp_all add: spell_out_def)

lemma expand_spelled: "spelled f (spell_out f i xs) = spelled f xs"
proof (induction xs)
  case (Cons x xs)
  then show ?case by (cases x) auto
qed simp

lemma expand_blocks: "blocks (spell_out f i xs) = blocks xs - {i}"
proof (induction xs)
  case (Cons x xs)
  then show ?case by (cases x) auto
qed simp

text \<open>The intervals of the spelled text that the blocks cover, from an offset on.\<close>

fun spans :: "(nat \<Rightarrow> 'c list) \<Rightarrow> nat \<Rightarrow> 'c symbols \<Rightarrow> (nat \<times> nat) list" where
  "spans f n [] = []"
| "spans f n (Inl c # xs) = spans f (Suc n) xs"
| "spans f n (Inr k # xs) = (n, n + length (f k)) # spans f (n + length (f k)) xs"

lemma spans_append [simp]: "spans f n (xs @ ys) = spans f n xs @ spans f (n + length (spelled f xs)) ys"
  by (induction f n xs rule: spans.induct) (simp_all add: add.assoc)

lemma spans_run [simp]: "spans f n (map Inl s) = []"
  by (induction s arbitrary: n) simp_all

lemma replace_keeps_spans:
  assumes "s \<noteq> []" "f i = s"
  shows "set (spans f n xs) \<subseteq> set (spans f n (str_replace (map Inl s) [Inr i] xs))"
proof -
  from assms(1) have "(map Inl s :: 'a symbols) \<noteq> []" by simp
  then show ?thesis
  proof (induction xs arbitrary: n rule: replace_induct)
    case (hit ys)
    have "set (spans f (n + length s) ys) \<subseteq> set (spans f (n + length s) (str_replace (map Inl s) [Inr i] ys))" by (rule hit)
    with assms show ?case by (auto simp: replace_hit)
  next
    case (miss c cs)
    then show ?case by (cases c) (auto simp: replace_miss)
  qed simp
qed

text \<open>
  An occurrence of a word is met by a block when a block that stands for a text at least as long
  shares a character with it.
\<close>

definition met :: "(nat \<Rightarrow> 'c list) \<Rightarrow> nat \<Rightarrow> 'c symbols \<Rightarrow> nat \<Rightarrow> nat \<Rightarrow> bool" where
  "met f n xs q l = (\<exists>(a, b) \<in> set (spans f n xs). a < q + l \<and> q < b \<and> l \<le> b - a)"

lemma met_mono: "set (spans f n xs) \<subseteq> set (spans f n ys) \<Longrightarrow> met f n xs q l \<Longrightarrow> met f n ys q l"
  unfolding met_def by blast

lemma no_block_ahead:
  assumes "prefix s (spelled f xs)" "\<not> prefix (map Inl s) xs" "\<forall>k \<in> blocks xs. length s \<le> length (f k)"
    and "\<forall>k \<in> blocks xs. f k \<noteq> []"
  shows "\<exists>(a, b) \<in> set (spans f n xs). a < n + length s \<and> n < b \<and> length s \<le> b - a"
proof (cases xs rule: leading_run)
  case (whole r)
  with assms(1,2) show ?thesis by (simp add: map_mono_prefix)
next
  case (block r k ys)
  have "length r < length s"
  proof (rule ccontr)
    assume "\<not> length r < length s"
    with assms(1) block have "prefix s r" by (auto simp: prefix_append intro: prefix_length_prefix)
    with assms(2) block show False by (simp add: map_mono_prefix prefix_prefix)
  qed
  with block assms(3,4) show ?thesis by (auto intro!: bexI [of _ "(n + length r, n + length r + length (f k))"])
qed

text \<open>After the replacement of a word every occurrence of it is met, when the older blocks are not shorter.\<close>

lemma replace_meets:
  assumes "s \<noteq> []" "f i = s" "\<forall>k \<in> blocks xs. length s \<le> length (f k)" "prefix s (drop q (spelled f xs))"
  shows "met f n (str_replace (map Inl s) [Inr i] xs) (n + q) (length s)"
proof -
  from assms(1) have "(map Inl s :: 'a symbols) \<noteq> []" by simp
  then show ?thesis
    using assms(3,4)
  proof (induction xs arbitrary: n q rule: replace_induct)
    case none
    with assms(1) show ?case by simp
  next
    case (hit ys)
    show ?case
    proof (cases "q < length s")
      case True
      with assms show ?thesis by (auto simp: replace_hit met_def)
    next
      case False
      with hit.prems have "met f (n + length s) (str_replace (map Inl s) [Inr i] ys) ((n + length s) + (q - length s)) (length s)"
        by (intro hit.IH) auto
      with False assms(1,2) show ?thesis by (auto simp: replace_hit met_def)
    qed
  next
    case (miss c cs)
    show ?case
    proof (cases "q = 0")
      case True
      have "met f n (c # cs) n (length s)"
        unfolding met_def using miss.prems True assms(1) miss.hyps by (intro no_block_ahead) auto
      with met_mono [OF replace_keeps_spans [where f = f, OF assms(1,2)]] show ?thesis by (simp add: True)
    next
      case q: False
      show ?thesis
      proof (cases c)
        case (Inl a)
        with miss.prems q have "met f (Suc n) (str_replace (map Inl s) [Inr i] cs) (Suc n + (q - 1)) (length s)"
          by (intro miss.IH) (auto simp: drop_Cons')
        with Inl q miss.hyps show ?thesis by (simp add: replace_miss met_def)
      next
        case (Inr k)
        show ?thesis
        proof (cases "q < length (f k)")
          case True
          with Inr miss.hyps miss.prems assms(1) show ?thesis by (auto simp: replace_miss met_def)
        next
          case False
          with Inr miss.prems have "met f (n + length (f k)) (str_replace (map Inl s) [Inr i] cs)
              ((n + length (f k)) + (q - length (f k))) (length s)"
            by (intro miss.IH) auto
          with Inr False miss.hyps show ?thesis by (auto simp: replace_miss met_def)
        qed
      qed
    qed
  qed
qed

end
