(* ===== verification/Secret_Vault.thy ===== *)
theory Secret_Vault
  imports Complex_Main Text_Replace Py_Ast "HOL-Library.Product_Lexorder"
begin

text \<open>
  The vault of \<open>secret_scanner.py\<close> (\<open>SecretVault\<close>): which texts of a source count as secrets, their
  replacement by numbered tokens before the source is sent to a model, and the way back. Entropy is
  the real number that the floating point computation approximates. Python's parser is an argument.
\<close>

section \<open>Provider patterns\<close>

definition char_class :: "string \<Rightarrow> rx" where
  "char_class cs = CSet False (map (\<lambda>c. (c, c)) cs)"

definition upper_digit :: rx where
  "upper_digit = CSet False [(CHR ''0'', CHR ''9''), (CHR ''A'', CHR ''Z'')]"

definition alnum :: rx where
  "alnum = CSet False [(CHR ''0'', CHR ''9''), (CHR ''a'', CHR ''z''), (CHR ''A'', CHR ''Z'')]"

definition alnum_dash :: rx where
  "alnum_dash = CSet False [(CHR ''0'', CHR ''9''), (CHR ''a'', CHR ''z''), (CHR ''A'', CHR ''Z''), (CHR ''-'', CHR ''-''), (CHR ''_'', CHR ''_'')]"

definition quote :: rx where
  "quote = char_class [CHR 0x27, CHR 0x22]"

definition aws_access_key_rx :: rx where
  "aws_access_key_rx = seqs [WordB, alts (map lit [''AKIA'', ''ASIA'', ''ABIA'', ''ACCA'']), rep_range 14 16 upper_digit, WordB]"

definition aws_secret_key_rx :: rx where
  "aws_secret_key_rx =
     seqs [alts (map lit_i [''aws_secret_access_key'', ''aws_secret'', ''secret_key'', ''secret_access_key'']),
           Star rx_space, char_class '':='', Star rx_space, opt quote,
           Grp 1 (rep 40 (CSet False [(CHR ''A'', CHR ''Z''), (CHR ''a'', CHR ''z''), (CHR ''0'', CHR ''9''), (CHR ''/'', CHR ''/''),
                                      (CHR ''+'', CHR ''+''), (CHR ''='', CHR ''='')])),
           opt quote]"

definition github_vault_rx :: rx where
  "github_vault_rx =
     seqs [WordB,
           Alt (seqs [alts (map lit [''ghp'', ''gho'', ''ghu'', ''ghs'', ''ghr'']), lit ''_'', rep 36 alnum])
               (seqs [lit ''github_pat_'', at_least 82 rx_word]),
           WordB]"

definition stripe_vault_rx :: rx where
  "stripe_vault_rx =
     seqs [WordB, alts (map lit [''sk'', ''pk'', ''rk'']), lit ''_'', alts (map lit [''live'', ''test'']), lit ''_'', at_least 24 alnum, WordB]"

definition slack_vault_rx :: rx where
  "slack_vault_rx =
     seqs [WordB, lit ''xox'', char_class ''baprs'', lit ''-'', rep_range 10 48 alnum,
           Star (seqs [lit ''-'', rep_range 10 48 alnum]), WordB]"

definition google_key_rx :: rx where
  "google_key_rx = seqs [WordB, lit ''AIza'', rep 35 alnum_dash, WordB]"

definition key_kinds :: "string list" where
  "key_kinds = [''RSA'', ''EC'', ''DSA'', ''OPENSSH'']"

definition pem_rx :: rx where
  "pem_rx =
     (let kind = opt (seqs [alts (map lit key_kinds), lit '' '']) in
      Alt (seqs [lit ''-----BEGIN '', kind, lit ''PRIVATE KEY-----'', Lazy (CSet True []),
                 lit ''-----END '', kind, lit ''PRIVATE KEY-----''])
          (seqs [lit ''-----BEGIN '', alts (map lit (key_kinds @ [''PRIVATE''])), opt (lit '' PRIVATE''), lit '' KEY-----'']))"

definition secret_patterns :: "(string \<times> rx) list" where
  "secret_patterns =
     [(''AWS Access Key'', aws_access_key_rx), (''AWS Secret Key'', aws_secret_key_rx), (''GitHub Token'', github_vault_rx),
      (''Stripe API Key'', stripe_vault_rx), (''Slack API Token'', slack_vault_rx), (''Google API Key'', google_key_rx),
      (''Asymmetric Private Key'', pem_rx)]"

section \<open>Entropy\<close>

definition char_counts :: "string \<Rightarrow> nat list" where
  "char_counts s = map (count_list s) (remdups s)"

definition calculate_shannon_entropy :: "string \<Rightarrow> real" where
  "calculate_shannon_entropy s =
     (if length s \<le> 1 then 0
      else - sum_list (map (\<lambda>n. real n / real (length s) * log 2 (real n / real (length s))) (char_counts s)))"

definition hex_rx :: rx where
  "hex_rx = seqs [Bos, at_least 1 (CSet False [(CHR ''0'', CHR ''9''), (CHR ''a'', CHR ''f''), (CHR ''A'', CHR ''F'')]), Eos]"

definition is_adaptive_high_entropy_secret :: "string \<Rightarrow> bool" where
  "is_adaptive_high_entropy_secret s =
     (if s = [] then False
      else if match_at hex_rx s 0 \<noteq> None then 24 \<le> length s \<and> 3 \<le> calculate_shannon_entropy s
      else 16 \<le> length s \<and> 43 / 10 \<le> calculate_shannon_entropy s)"

text \<open>Whether the entropy reaches \<open>a / b\<close> is decided by integers.\<close>

definition entropy_reaches :: "nat \<Rightarrow> nat \<Rightarrow> string \<Rightarrow> bool" where
  "entropy_reaches a b s =
     (2 ^ (a * length s) * prod_list (map (\<lambda>n. int n ^ n) (char_counts s)) ^ b \<le> int (length s) ^ (b * length s))"

lemma char_counts_sum: "sum_list (char_counts s) = length s"
proof -
  have "sum_list (map (count_list s) (remdups s)) = (\<Sum>c \<in> set s. count_list s c)"
    by (simp add: sum_list_distinct_conv_sum_set)
  then show ?thesis by (simp add: char_counts_def sum_count_set)
qed

lemma char_counts_pos: "n \<in> set (char_counts s) \<Longrightarrow> 0 < n"
  by (auto simp: char_counts_def count_list_0_iff intro: gr0I)

lemma log_counts: "(\<And>n. n \<in> set ns \<Longrightarrow> 0 < n) \<Longrightarrow>
    log 2 (real_of_int (prod_list (map (\<lambda>n. int n ^ n) ns))) = sum_list (map (\<lambda>n. real n * log 2 (real n)) ns)
    \<and> 0 < prod_list (map (\<lambda>n. int n ^ n) ns)"
proof (induction ns)
  case (Cons n ns)
  then have "0 < n" "0 < prod_list (map (\<lambda>n. int n ^ n) ns)" by auto
  with Cons show ?case by (simp add: log_mult log_nat_power)
qed simp

lemma sum_list_minus:
  "sum_list (map (\<lambda>n. f n - real n * c) ns) = sum_list (map f ns) - real (sum_list ns) * c"
  by (induction ns) (simp_all add: algebra_simps)

lemma entropy_sum:
  assumes "1 < length s"
  shows "real (length s) * calculate_shannon_entropy s =
     real (length s) * log 2 (real (length s)) - sum_list (map (\<lambda>n. real n * log 2 (real n)) (char_counts s))"
proof -
  let ?N = "real (length s)"
  have N: "0 < ?N" using assms by auto
  have step: "?N * (real n / ?N * log 2 (real n / ?N)) = real n * log 2 (real n) - real n * log 2 ?N"
    if "n \<in> set (char_counts s)" for n
    using char_counts_pos[OF that] N by (simp add: log_divide algebra_simps)
  have "?N * sum_list (map (\<lambda>n. real n / ?N * log 2 (real n / ?N)) (char_counts s)) =
      sum_list (map (\<lambda>n. real n * log 2 (real n) - real n * log 2 ?N) (char_counts s))"
    unfolding sum_list_const_mult[symmetric] using step by (intro arg_cong[where f = sum_list] map_cong) auto
  also have "\<dots> = sum_list (map (\<lambda>n. real n * log 2 (real n)) (char_counts s)) - real (sum_list (char_counts s)) * log 2 ?N"
    by (rule sum_list_minus)
  finally show ?thesis using assms by (auto simp: calculate_shannon_entropy_def char_counts_sum)
qed

lemma entropy_decided:
  assumes "1 < length s" and "0 < b"
  shows "real a / real b \<le> calculate_shannon_entropy s \<longleftrightarrow> entropy_reaches a b s"
proof -
  let ?N = "length s" and ?P = "prod_list (map (\<lambda>n. int n ^ n) (char_counts s))"
    and ?S = "sum_list (map (\<lambda>n. real n * log 2 (real n)) (char_counts s))"
  have N: "0 < real ?N" using assms(1) by auto
  have P: "log 2 (real_of_int ?P) = ?S" "0 < ?P" using log_counts char_counts_pos by blast+
  have "real a / real b \<le> calculate_shannon_entropy s \<longleftrightarrow> real a * real ?N \<le> real b * (real ?N * calculate_shannon_entropy s)"
    using assms(2) N by (simp add: divide_le_eq mult.commute mult.left_commute)
  also have "\<dots> \<longleftrightarrow> real (a * ?N) + real b * ?S \<le> real (b * ?N) * log 2 (real ?N)"
    unfolding entropy_sum[OF assms(1)] by (simp add: algebra_simps)
  also have "\<dots> \<longleftrightarrow> log 2 (2 ^ (a * ?N) * real_of_int ?P ^ b) \<le> log 2 (real ?N ^ (b * ?N))"
    using N P by (simp add: log_mult log_nat_power)
  also have "\<dots> \<longleftrightarrow> 2 ^ (a * ?N) * real_of_int ?P ^ b \<le> real ?N ^ (b * ?N)"
    using N P(2) by simp
  also have "\<dots> \<longleftrightarrow> real_of_int (2 ^ (a * ?N) * ?P ^ b) \<le> real_of_int (int ?N ^ (b * ?N))" by simp
  also have "\<dots> \<longleftrightarrow> entropy_reaches a b s" unfolding entropy_reaches_def of_int_le_iff ..
  finally show ?thesis .
qed

lemma is_adaptive_code [code]:
  "is_adaptive_high_entropy_secret s =
     (if s = [] then False
      else if match_at hex_rx s 0 \<noteq> None then 24 \<le> length s \<and> entropy_reaches 3 1 s
      else 16 \<le> length s \<and> entropy_reaches 43 10 s)"
  using entropy_decided[of s 1 3] entropy_decided[of s 10 43] by (auto simp: is_adaptive_high_entropy_secret_def)

section \<open>What counts as a secret\<close>

definition vault_keywords :: "string list" where
  "vault_keywords = [''secret'', ''token'', ''key'', ''password'', ''auth'', ''cred'']"

definition simple_targets :: "ast \<Rightarrow> string list" where
  "simple_targets node =
     (case node of
        Assign l ts v \<Rightarrow> concat (map (\<lambda>t. case t of Name m x \<Rightarrow> [x] | _ \<Rightarrow> []) ts)
      | AnnAssign l (Name m x) an v \<Rightarrow> [x]
      | _ \<Rightarrow> [])"

definition assigned_text :: "ast \<Rightarrow> string option" where
  "assigned_text node =
     (case node of
        Assign l ts (Constant m (CStr s)) \<Rightarrow> Some s
      | AnnAssign l t an (Some (Constant m (CStr s))) \<Rightarrow> Some s
      | _ \<Rightarrow> None)"

definition find_high_entropy_secrets_ast :: "(string \<Rightarrow> ast option) \<Rightarrow> string \<Rightarrow> string list" where
  "find_high_entropy_secrets_ast parse code =
     (case parse code of
        None \<Rightarrow> []
      | Some tree \<Rightarrow>
          concat (map (\<lambda>node.
            (case assigned_text node of
               Some s \<Rightarrow>
                 if 16 \<le> length s
                    \<and> list_ex (\<lambda>x. list_ex (py_contains (py_lower x)) vault_keywords \<and> is_adaptive_high_entropy_secret s) (simple_targets node)
                 then [s] else []
             | None \<Rightarrow> [])) (ast_walk tree)))"

definition high_entropy_assign_rx :: rx where
  "high_entropy_assign_rx =
     seqs [WordB, Grp 1 (seqs [Star rx_word, alts (map lit_i vault_keywords), Star rx_word]), Star rx_space, char_class '':='', Star rx_space,
           quote, Grp 2 (at_least 16 (CSet True [(CHR 0x27, CHR 0x27), (CHR 0x22, CHR 0x22)])), quote]"

definition find_high_entropy_secrets_regex :: "string \<Rightarrow> string list" where
  "find_high_entropy_secrets_regex code =
     filter is_adaptive_high_entropy_secret
       (concat (map (\<lambda>(a, b, g). case group_text 2 code g of Some s \<Rightarrow> [s] | None \<Rightarrow> []) (rx_finditer high_entropy_assign_rx code)))"

definition token_start :: string where
  "token_start = ''__TCS_VAULT_TOKEN_''"

definition provider_secrets :: "string \<Rightarrow> string list" where
  "provider_secrets code =
     concat (map (\<lambda>(n, r). map (\<lambda>(a, b, g).
       if n = ''AWS Secret Key''
       then (case group_text 1 code g of Some s \<Rightarrow> if s = [] then text_cut a b code else s | None \<Rightarrow> text_cut a b code)
       else text_cut a b code) (rx_finditer r code)) secret_patterns)"

text \<open>The set of detected secrets is a list without repetition, by falling length.\<close>

definition find_all_secrets :: "(string \<Rightarrow> ast option) \<Rightarrow> string \<Rightarrow> string list" where
  "find_all_secrets parse code =
     (if code = [] then []
      else sort_key (\<lambda>s. - int (length s))
        (remdups (filter (\<lambda>s. s \<noteq> [] \<and> \<not> py_startswith s token_start)
          (provider_secrets code @ find_high_entropy_secrets_ast parse code @ find_high_entropy_secrets_regex code))))"

section \<open>Redaction\<close>

type_synonym vault = "(string \<times> string) list"

definition vault_token :: "nat \<Rightarrow> string" where
  "vault_token i = token_start @ nat_str i @ ''__''"

definition appearance_key :: "string \<Rightarrow> string \<Rightarrow> nat \<times> int \<times> string" where
  "appearance_key code s = (case find_at s code of Some p \<Rightarrow> p | None \<Rightarrow> 999999999, - int (length s), s)"

definition number_secrets :: "string list \<Rightarrow> (string \<times> nat) list" where
  "number_secrets ss =
     foldl (\<lambda>m (i, s). if s \<in> fst ` set m then m else m @ [(s, i)]) [] (zip [1..<Suc (length ss)] ss)"

definition by_length :: "(string \<times> 'b) list \<Rightarrow> (string \<times> 'b) list" where
  "by_length m = sort_key (\<lambda>(k, v). - int (length k)) m"

definition put_tokens :: "(string \<times> nat) list \<Rightarrow> string \<Rightarrow> string" where
  "put_tokens m code = foldl (\<lambda>t (s, i). str_replace s (vault_token i) t) code (by_length m)"

definition redact_with :: "string list \<Rightarrow> string \<Rightarrow> string \<times> vault" where
  "redact_with secrets code =
     (if code = [] then ([], [])
      else if secrets = [] then (code, [])
      else (let m = number_secrets (sort_key (appearance_key code) secrets)
            in (put_tokens m code, map (\<lambda>(s, i). (vault_token i, s)) m)))"

definition redact :: "(string \<Rightarrow> ast option) \<Rightarrow> string \<Rightarrow> string \<times> vault" where
  "redact parse code = redact_with (find_all_secrets parse code) code"

section \<open>Restoration\<close>

datatype vault_error = VaultRestorationError "string list"

definition residual_rx :: rx where
  "residual_rx = seqs [lit token_start, at_least 1 rx_word, lit ''__'']"

definition put_secrets :: "vault \<Rightarrow> string \<Rightarrow> string" where
  "put_secrets v code = foldl (\<lambda>t (tok, s). str_replace tok s t) code (by_length v)"

definition left_over :: "vault \<Rightarrow> string \<Rightarrow> string list" where
  "left_over v t = rev (remdups (rev (filter (py_contains t) (map fst v) @ rx_findall residual_rx t)))"

definition restore :: "string \<Rightarrow> vault \<Rightarrow> bool \<Rightarrow> vault_error + string" where
  "restore redacted v fallback_on_error =
     (if redacted = [] then Inr []
      else (let t = put_secrets v redacted; remaining = left_over v t
            in if remaining = [] \<or> fallback_on_error then Inr t else Inl (VaultRestorationError remaining)))"

text \<open>The object: its map, updated by every redaction.\<close>

definition vault_update :: "vault \<Rightarrow> vault \<Rightarrow> vault" where
  "vault_update v w = foldl (\<lambda>d (k, s). if k \<in> fst ` set d then map (\<lambda>(k', s'). (k', if k' = k then s else s')) d else d @ [(k, s)]) v w"

definition redact_code :: "(string \<Rightarrow> ast option) \<Rightarrow> string \<Rightarrow> vault \<Rightarrow> string \<times> vault" where
  "redact_code parse code v = (let (t, w) = redact parse code in (t, vault_update v w))"

definition restore_code :: "string \<Rightarrow> bool \<Rightarrow> vault \<Rightarrow> vault_error + string" where
  "restore_code t fallback_on_error v = restore t v fallback_on_error"

section \<open>Tokens in a text\<close>

definition token_core :: string where
  "token_core = ''TCS_VAULT_TOKEN_''"

definition token_char :: "char \<Rightarrow> bool" where
  "token_char c = (c \<in> set ''_TCSVAULTOKEN'' \<or> is_digit c)"

text \<open>
  A secret that cannot be confused with a token: it neither begins nor ends with an underscore, holds
  no two of them in a row, and has a character that no token has.
\<close>

definition neat :: "string \<Rightarrow> bool" where
  "neat s = (s \<noteq> [] \<and> hd s \<noteq> CHR ''_'' \<and> last s \<noteq> CHR ''_'' \<and> \<not> py_contains s ''__'' \<and> list_ex (\<lambda>c. \<not> token_char c) s)"

definition vault_safe :: "string \<Rightarrow> string list \<Rightarrow> bool" where
  "vault_safe code secrets = (\<not> py_contains code token_core \<and> list_all neat secrets)"

lemma token_shape: "vault_token i = CHR ''_'' # CHR ''_'' # token_core @ nat_str i @ ''__''"
  by (simp add: vault_token_def token_start_def token_core_def)

lemma nat_str_nonempty [simp]: "nat_str n \<noteq> []"
  by (subst nat_str.simps) simp

lemma token_chars: "c \<in> set (vault_token i) \<Longrightarrow> token_char c"
  using nat_str_digits[of i] by (auto simp: token_shape token_core_def token_char_def list_all_iff)

lemma token_core_within: "occurs token_core (vault_token i)"
  unfolding occurs_def token_shape by (metis append_Cons append_Nil)

lemma underscore_not_digit: "\<not> is_digit (CHR ''_'')"
  by (simp add: is_digit_def code_of_def Let_def)

lemma two_underscores: "occurs ''__'' s \<Longrightarrow> \<not> neat s"
  by (simp add: neat_def contains_occurs)

text \<open>Of a neat secret no end begins a token, and no beginning ends one.\<close>

lemma neat_before_token: "neat (r @ q) \<Longrightarrow> q \<noteq> [] \<Longrightarrow> \<not> prefix q (vault_token k @ z)"
proof
  assume n: "neat (r @ q)" "q \<noteq> []" and p: "prefix q (vault_token k @ z)"
  then obtain q' where q: "q = CHR ''_'' # q'" "prefix q' (CHR ''_'' # token_core @ nat_str k @ ''__'' @ z)"
    by (cases q) (auto simp: token_shape)
  show False
  proof (cases q')
    case Nil
    with n q show False by (simp add: neat_def)
  next
    case (Cons c q'')
    with q have "q = ''__'' @ q''" by simp
    then have "occurs ''__'' (r @ q)" unfolding occurs_def by blast
    with n two_underscores show False by blast
  qed
qed

lemma neat_after_token:
  assumes "neat s" and "suffix u (vault_token k)" and "u \<noteq> []"
  shows "\<not> prefix s (u @ z)"
proof
  assume "prefix s (u @ z)"
  then consider "prefix s u" | q where "s = u @ q" by (auto simp: prefix_append)
  then show False
  proof cases
    case 1
    then have "set s \<subseteq> set (vault_token k)" using assms(2) by (auto dest: set_mono_prefix set_mono_suffix)
    with assms(1) token_chars show False by (auto simp: neat_def list_ex_iff)
  next
    case 2
    have "suffix u ((token_start @ nat_str k) @ ''__'')" using assms(2) by (simp add: vault_token_def)
    then consider "suffix u ''__''" | v where "u = v @ ''__''" unfolding suffix_append by blast
    then show False
    proof cases
      case 1
      then have "u = ''_'' \<or> u = ''__''" using assms(3) by (auto simp: suffix_Cons)
      with 2 assms(1) show False by (auto simp: neat_def)
    next
      case (2 v)
      with \<open>s = u @ q\<close> have "occurs ''__'' s" unfolding occurs_def by (metis append.assoc)
      with assms(1) two_underscores show False by blast
    qed
  qed
qed

lemma neat_starts: "neat s \<Longrightarrow> prefix s (spelled vault_token xs) \<longleftrightarrow> prefix (map Inl s) xs"
proof
  assume n: "neat s" and p: "prefix s (spelled vault_token xs)"
  show "prefix (map Inl s) xs"
  proof (cases xs rule: leading_run)
    case (whole r)
    with p show ?thesis by (simp add: map_mono_prefix)
  next
    case (block r k ys)
    then have "prefix s (r @ vault_token k @ spelled vault_token ys)" using p by simp
    then consider "prefix s r" | q where "s = r @ q" "prefix q (vault_token k @ spelled vault_token ys)"
      unfolding prefix_append by blast
    then show ?thesis
    proof cases
      case 1
      then show ?thesis using block by (simp add: map_mono_prefix prefix_prefix)
    next
      case 2
      then have "q = []" using n neat_before_token by blast
      with 2 block show ?thesis by simp
    qed
  qed
qed (rule run_occurs)

lemma redaction_step:
  assumes "neat s"
  shows "str_replace s (vault_token i) (spelled vault_token xs) = spelled vault_token (str_replace (map Inl s) [Inr i] xs)"
proof -
  have "s \<noteq> []" using assms by (simp add: neat_def)
  then have "(map Inl s :: char symbols) \<noteq> []" by simp
  then show ?thesis
  proof (induction xs rule: replace_induct)
    case (hit ys)
    with \<open>s \<noteq> []\<close> show ?case by (simp add: replace_hit)
  next
    case (miss c cs)
    show ?case
    proof (cases c)
      case (Inl a)
      have "\<not> prefix s (spelled vault_token (c # cs))" using miss.hyps assms neat_starts by blast
      with miss Inl show ?thesis by (simp add: replace_miss)
    next
      case (Inr k)
      have "str_replace s (vault_token i) (vault_token k @ spelled vault_token cs) =
          vault_token k @ str_replace s (vault_token i) (spelled vault_token cs)"
        by (rule replace_pass) (use assms neat_after_token in blast)
      with miss Inr show ?thesis by (simp add: replace_miss)
    qed
  qed simp
qed

section \<open>Tokens stand only where tokens were put\<close>

lemma token_rest_start:
  assumes "take 3 (drop n token_start @ d @ ''__'') = ''__T''" and "n < 18" and "d \<noteq> []" and "list_all is_digit d"
  shows "n = 0"
proof -
  obtain c d' where d: "d = c # d'" "c \<noteq> CHR ''_''"
    using assms(3,4) underscore_not_digit by (cases d) auto
  have "n \<in> set [0..<18]" using assms(2) by simp
  then have "n \<in> {0, 1, 2, 3, 4, 5, 6, 7, 8, 9, 10, 11, 12, 13, 14, 15, 16, 17}"
    by (simp add: upt_rec numeral_eq_Suc)
  then show ?thesis using assms(1) d by (auto simp: token_start_def)
qed

lemma same_digits:
  assumes "prefix (a @ CHR ''_'' # x) (b @ CHR ''_'' # y)" and "list_all is_digit a" and "list_all is_digit b"
  shows "a = b"
proof -
  obtain z where "b @ CHR ''_'' # y = a @ CHR ''_'' # x @ z" using assms(1) by (auto simp: prefix_def)
  moreover have "takeWhile is_digit (b @ CHR ''_'' # y) = b" "takeWhile is_digit (a @ CHR ''_'' # x @ z) = a"
    using assms(2,3) underscore_not_digit by (simp_all add: list_all_iff)
  ultimately show ?thesis by simp
qed

lemma token_only_there:
  assumes "prefix (drop j (vault_token i)) (spelled vault_token ys)" and "j \<le> 2" and "\<not> occurs token_core (spelled f ys)"
  shows "j = 0 \<and> (\<exists>zs. ys = Inr i # zs)"
proof -
  let ?w = "drop j (vault_token i)"
  have w: "?w = drop j token_start @ nat_str i @ ''__''" using assms(2)
    by (simp add: vault_token_def token_start_def drop_append del: append.simps)
  have j: "j = 0 \<or> j = 1 \<or> j = 2" using assms(2) by auto
  then have core: "occurs token_core (drop j token_start)"
    by (auto simp: token_start_def token_core_def)
  have no_run: "\<not> occurs token_core r" if "prefix (map Inl r) ys" for r
    using assms(3) occurs_prefix run_occurs[OF that] by blast
  have in_run: "\<not> prefix ?w r" if "prefix (map Inl r) ys" for r
    using no_run[OF that] core occurs_prefix w by (metis prefixI)
  show ?thesis
  proof (cases ys rule: leading_run)
    case (whole r)
    with assms(1) in_run[of r] show ?thesis by simp
  next
    case (block r k zs)
    then have "prefix ?w (r @ vault_token k @ spelled vault_token zs)" "prefix (map Inl r) ys" using assms(1) by simp_all
    then obtain q where q: "?w = r @ q" "prefix q (vault_token k @ spelled vault_token zs)"
      using in_run unfolding prefix_append by blast
    have "\<not> prefix (drop j token_start) r"
      using no_run core occurs_prefix \<open>prefix (map Inl r) ys\<close> by blast
    moreover have "prefix r (drop j token_start) \<or> prefix (drop j token_start) r"
      using q(1) w by (metis prefixI prefix_same_cases)
    ultimately have "strict_prefix r (drop j token_start)" by (auto simp: strict_prefix_def)
    then obtain z where z: "drop j token_start = r @ z" "z \<noteq> []" by (auto simp: strict_prefix_def prefix_def)
    define n where "n = j + length r"
    have len: "length token_start = 18" by (simp add: token_start_def)
    have "z = drop n token_start" unfolding n_def by (metis z(1) append_eq_conv_conj drop_drop add.commute)
    moreover have "n < 18" using z len calculation by (metis drop_all not_le)
    ultimately have qn: "q = drop n token_start @ nat_str i @ ''__''" "n < 18" using q(1) w z(1) by auto
    have "take 3 q = ''__T''"
    proof -
      have "3 \<le> length q" using qn by (cases "nat_str i") (auto simp: len)
      moreover have "take 3 (vault_token k @ spelled vault_token zs) = ''__T''"
        by (simp add: token_shape token_core_def numeral_3_eq_3)
      ultimately show ?thesis using q(2) by (metis prefix_def take_append diff_is_0_eq take0 append_Nil2)
    qed
    then have "n = 0" using token_rest_start qn nat_str_digits by auto
    then have 0: "j = 0" "r = []" by (simp_all add: n_def)
    have "prefix (token_start @ nat_str i @ ''__'') (token_start @ nat_str k @ ''__'' @ spelled vault_token zs)"
      using q(2) qn(1) \<open>n = 0\<close> by (simp add: vault_token_def)
    then have "nat_str i = nat_str k" using same_digits[of "nat_str i" "''_''" "nat_str k"] nat_str_digits by simp
    then have "i = k" using nat_str_inj by simp
    with 0 block show ?thesis by simp
  qed
qed

lemma inner_suffix:
  assumes "suffix u (vault_token k)" and "u \<noteq> []" and "u \<noteq> vault_token k"
  shows "u = ''_'' \<or> u = ''__'' \<or> 3 \<le> length u \<and> take 3 u \<noteq> ''__T''"
proof -
  have len: "length token_start = 18" by (simp add: token_start_def)
  obtain a where a: "vault_token k = a @ u" using assms(1) by (auto simp: suffix_def)
  then have u: "u = drop (length a) (token_start @ nat_str k @ ''__'')" and a0: "length a \<noteq> 0"
    using assms(3) by (auto simp: vault_token_def)
  show ?thesis
  proof (cases "length a < 18")
    case True
    then have eq: "u = drop (length a) token_start @ nat_str k @ ''__''" using u len by simp
    have "3 \<le> length u" unfolding eq using True len by (cases "nat_str k") auto
    moreover have "take 3 u \<noteq> ''__T''" unfolding eq using token_rest_start[OF _ True nat_str_nonempty nat_str_digits] a0 by blast
    ultimately show ?thesis by blast
  next
    case False
    define d where "d = drop (length a - 18) (nat_str k)"
    show ?thesis
    proof (cases "d = []")
      case True
      then have "suffix u ''__''" using u len False by (simp add: d_def suffix_drop)
      then show ?thesis using assms(2) by (auto simp: suffix_Cons)
    next
      case nonempty: False
      then have eq: "u = d @ ''__''" using u len False by (simp add: d_def)
      have "hd d \<noteq> CHR ''_''"
        using nonempty nat_str_digits[of k] underscore_not_digit unfolding d_def list_all_iff
        by (metis hd_in_set in_set_dropD)
      with nonempty eq show ?thesis by (cases d) (auto simp: numeral_3_eq_3)
    qed
  qed
qed

lemma restoration_step:
  assumes "\<not> occurs token_core (spelled f xs)"
  shows "str_replace (vault_token i) (f i) (spelled vault_token xs) = spelled vault_token (spell_out f i xs)"
  using assms
proof (induction xs)
  case (Cons x xs)
  have tail: "\<not> occurs token_core (spelled f xs)"
    using Cons.prems by (cases x) (auto dest: occurs_later)
  have tok: "vault_token i \<noteq> []" by (simp add: token_shape)
  show ?case
  proof (cases x)
    case (Inl c)
    have "\<not> prefix (vault_token i) (spelled vault_token (x # xs))"
      using token_only_there[of 0 i "x # xs" f] Cons.prems Inl by auto
    with Cons.IH[OF tail] Inl show ?thesis by (simp add: replace_miss)
  next
    case (Inr k)
    show ?thesis
    proof (cases "k = i")
      case True
      with Cons.IH[OF tail] Inr tok show ?thesis by (simp add: replace_hit)
    next
      case False
      have "\<not> prefix (vault_token i) (u @ spelled vault_token xs)" if sub: "suffix u (vault_token k)" and ne: "u \<noteq> []" for u
      proof
        assume p: "prefix (vault_token i) (u @ spelled vault_token xs)"
        obtain a where a: "vault_token k = a @ u" using sub by (auto simp: suffix_def)
        show False
        proof (cases "a = []")
          case True
          with p a Inr have "prefix (drop 0 (vault_token i)) (spelled vault_token (x # xs))" by simp
          from token_only_there[OF this _ Cons.prems] False Inr show False by simp
        next
          case nonempty: False
          then have "u \<noteq> vault_token k" using a by auto
          with sub ne consider "u = ''_''" | "u = ''__''" | "3 \<le> length u" "take 3 u \<noteq> ''__T''"
            using inner_suffix by blast
          then show False
          proof cases
            case 1
            with p have "prefix (drop 1 (vault_token i)) (spelled vault_token xs)" by (simp add: token_shape)
            from token_only_there[OF this _ tail] show False by simp
          next
            case 2
            with p have "prefix (drop 2 (vault_token i)) (spelled vault_token xs)" by (simp add: token_shape)
            from token_only_there[OF this _ tail] show False by simp
          next
            case 3
            obtain w where "u @ spelled vault_token xs = vault_token i @ w" using p by (auto simp: prefix_def)
            then have "take 3 (u @ spelled vault_token xs) = take 3 (vault_token i @ w)" by simp
            with 3 show False by (simp add: token_shape token_core_def numeral_3_eq_3)
          qed
        qed
      qed
      then have "str_replace (vault_token i) (f i) (vault_token k @ spelled vault_token xs) =
          vault_token k @ str_replace (vault_token i) (f i) (spelled vault_token xs)"
        by (rule replace_pass)
      with Cons.IH[OF tail] Inr False show ?thesis by simp
    qed
  qed
qed simp

section \<open>The numbered secrets\<close>

definition numbering_ok :: "(string \<times> nat) list \<Rightarrow> bool" where
  "numbering_ok m = (distinct (map fst m) \<and> distinct (map snd m))"

lemma number_step:
  fixes m :: "(string \<times> nat) list"
  assumes "numbering_ok m" and "\<forall>(s, i) \<in> set m. i < k" and "sorted_wrt (<) (map fst ps)" and "\<forall>(i, s) \<in> set ps. k \<le> i"
  shows "let m' = foldl (\<lambda>m (i, s). if s \<in> fst ` set m then m else m @ [(s, i)]) m ps
         in numbering_ok m' \<and> fst ` set m' = fst ` set m \<union> snd ` set ps"
  using assms
proof (induction ps arbitrary: m k)
  case (Cons p ps)
  obtain i s where p: "p = (i, s)" by (cases p)
  let ?m = "if s \<in> fst ` set m then m else m @ [(s, i)]"
  have "numbering_ok ?m" using Cons.prems(1,2,4) by (force simp: numbering_ok_def p)
  have "j < Suc i" if "(t, j) \<in> set ?m" for t j
    using that Cons.prems(2,4) by (fastforce simp: p split: if_splits)
  then have "\<forall>(s, j) \<in> set ?m. j < Suc i" by blast
  moreover have "\<forall>(j, s) \<in> set ps. Suc i \<le> j" using Cons.prems(3) by (force simp: p)
  ultimately have "let m' = foldl (\<lambda>m (i, s). if s \<in> fst ` set m then m else m @ [(s, i)]) ?m ps
         in numbering_ok m' \<and> fst ` set m' = fst ` set ?m \<union> snd ` set ps"
    using Cons.IH[of ?m "Suc i"] Cons.prems(3) \<open>numbering_ok ?m\<close> by (simp add: p)
  then show ?case by (auto simp: p Let_def)
qed (simp add: Let_def)

lemma number_secrets_ok: "numbering_ok (number_secrets ss)" "fst ` set (number_secrets ss) = set ss"
proof -
  let ?ps = "zip [1..<Suc (length ss)] ss"
  have "length [1..<Suc (length ss)] = length ss" by (simp del: upt_Suc)
  then have "map fst ?ps = [1..<Suc (length ss)]" "map snd ?ps = ss" by (simp_all only: map_fst_zip map_snd_zip)
  then have "sorted_wrt (<) (map fst ?ps)" "snd ` set ?ps = set ss" by (simp_all only: sorted_wrt_upt set_map flip: list.set_map)
  then show "numbering_ok (number_secrets ss)" "fst ` set (number_secrets ss) = set ss"
    using number_step[of "[]" 0 ?ps] by (auto simp: number_secrets_def numbering_ok_def Let_def)
qed

definition secret_of :: "(string \<times> nat) list \<Rightarrow> nat \<Rightarrow> string" where
  "secret_of m i = (case map_of (map (\<lambda>(s, i). (i, s)) m) i of Some s \<Rightarrow> s | None \<Rightarrow> [])"

lemma secret_of_member: "numbering_ok m \<Longrightarrow> (s, i) \<in> set m \<Longrightarrow> secret_of m i = s"
proof -
  assume m: "numbering_ok m" "(s, i) \<in> set m"
  then have "map_of (map (\<lambda>(s, i). (i, s)) m) i = Some s"
    by (intro map_of_is_SomeI) (auto simp: numbering_ok_def comp_def case_prod_beta intro: rev_image_eqI)
  then show ?thesis by (simp add: secret_of_def)
qed

definition put_symbols :: "(string \<times> nat) list \<Rightarrow> char symbols \<Rightarrow> char symbols" where
  "put_symbols l xs = foldl (\<lambda>t (s, i). str_replace (map Inl s) [Inr i] t) xs l"

lemma put_symbols_spec:
  assumes "\<forall>(s, i) \<in> set l. neat s \<and> f i = s"
  shows "foldl (\<lambda>t (s, i). str_replace s (vault_token i) t) (spelled vault_token xs) l = spelled vault_token (put_symbols l xs)
       \<and> spelled f (put_symbols l xs) = spelled f xs \<and> blocks (put_symbols l xs) \<subseteq> blocks xs \<union> snd ` set l
       \<and> (\<forall>w. w \<noteq> [] \<and> (w \<in> fst ` set l \<or> \<not> occurs (map Inl w) xs) \<longrightarrow> \<not> occurs (map Inl w) (put_symbols l xs))"
  using assms
proof (induction l arbitrary: xs)
  case (Cons p l)
  obtain s i where p: "p = (s, i)" by (cases p)
  then have s: "neat s" "f i = s" "s \<noteq> []" using Cons.prems by (auto simp: neat_def)
  let ?xs = "str_replace (map Inl s) [Inr i] xs"
  have rest: "\<forall>(s, i) \<in> set l. neat s \<and> f i = s" using Cons.prems by auto
  note IH = Cons.IH[OF rest, of ?xs]
  have "\<not> occurs (map Inl w) (put_symbols l ?xs)" if "w \<noteq> []" "w \<in> fst ` set (p # l) \<or> \<not> occurs (map Inl w) xs" for w
  proof -
    have "\<not> occurs (map Inl w) ?xs" if "w = s \<or> \<not> occurs (map Inl w) xs"
      using that replace_removes[OF s(3)] replace_keeps_absent[of "map Inl s" w xs i] s(3) \<open>w \<noteq> []\<close> by auto
    with that IH p show ?thesis by auto
  qed
  moreover have "spelled f (put_symbols l ?xs) = spelled f xs"
    using IH replace_spelled_same[of s f i xs] s by simp
  moreover have "blocks (put_symbols l ?xs) \<subseteq> blocks xs \<union> snd ` set (p # l)"
    using IH replace_blocks[OF s(3), of i xs] p by auto
  moreover have "foldl (\<lambda>t (s, i). str_replace s (vault_token i) t) (spelled vault_token xs) (p # l) =
      spelled vault_token (put_symbols l ?xs)"
    using IH by (simp add: p redaction_step[OF s(1)])
  moreover have "put_symbols (p # l) xs = put_symbols l ?xs" by (simp add: put_symbols_def p)
  ultimately show ?case by simp
qed (simp add: put_symbols_def)

text \<open>Every occurrence of a replaced secret is met, when longer secrets are replaced before shorter ones.\<close>

lemma put_symbols_met:
  assumes "sorted_wrt (\<lambda>(s, i) (s', i'). length s' \<le> length s) l" "\<forall>(s, i) \<in> set l. s \<noteq> [] \<and> f i = s"
    and "\<forall>k \<in> blocks xs. \<forall>(s, i) \<in> set l. length s \<le> length (f k)"
  shows "set (spans f 0 xs) \<subseteq> set (spans f 0 (put_symbols l xs))
    \<and> (\<forall>(s, i) \<in> set l. \<forall>q. prefix s (drop q (spelled f xs)) \<longrightarrow> met f 0 (put_symbols l xs) q (length s))"
  using assms
proof (induction l arbitrary: xs)
  case (Cons p l)
  obtain s i where p: "p = (s, i)" by (cases p)
  then have s: "s \<noteq> []" "f i = s" using Cons.prems by auto
  let ?xs = "str_replace (map Inl s) [Inr i] xs"
  have put: "put_symbols (p # l) xs = put_symbols l ?xs" by (simp add: put_symbols_def p)
  have same: "spelled f ?xs = spelled f xs" by (rule replace_spelled_same [where f = f, OF s])
  have "\<forall>k \<in> blocks ?xs. \<forall>(s, i) \<in> set l. length s \<le> length (f k)"
    using replace_blocks [OF s(1), of i xs] Cons.prems p s(2) by fastforce
  moreover have "sorted_wrt (\<lambda>(s, i) (s', i'). length s' \<le> length s) l" "\<forall>(s, i) \<in> set l. s \<noteq> [] \<and> f i = s"
    using Cons.prems by auto
  ultimately have IH: "set (spans f 0 ?xs) \<subseteq> set (spans f 0 (put_symbols l ?xs))"
      "\<forall>(s, i) \<in> set l. \<forall>q. prefix s (drop q (spelled f xs)) \<longrightarrow> met f 0 (put_symbols l ?xs) q (length s)"
    using Cons.IH [of ?xs] unfolding same by blast+
  have "met f 0 (put_symbols l ?xs) q (length s)" if "prefix s (drop q (spelled f xs))" for q
  proof -
    have "met f 0 ?xs (0 + q) (length s)"
      using Cons.prems(3) p that by (intro replace_meets [where f = f, OF s]) auto
    with met_mono [OF IH(1)] show ?thesis by simp
  qed
  moreover have "set (spans f 0 xs) \<subseteq> set (spans f 0 ?xs)" by (rule replace_keeps_spans [where f = f, OF s])
  ultimately show ?case using IH by (auto simp: p put [unfolded p])
qed (simp add: put_symbols_def)

lemma put_secrets_spec:
  assumes "\<forall>(t, s) \<in> set l. \<exists>i. t = vault_token i \<and> f i = s" and "\<not> occurs token_core (spelled f xs)"
  shows "\<exists>ys. foldl (\<lambda>t (tok, s). str_replace tok s t) (spelled vault_token xs) l = spelled vault_token ys
       \<and> spelled f ys = spelled f xs \<and> blocks ys = blocks xs - {i. vault_token i \<in> fst ` set l}"
  using assms
proof (induction l arbitrary: xs)
  case (Cons p l)
  then obtain i where p: "p = (vault_token i, f i)" by (cases p) auto
  have "\<not> occurs token_core (spelled f (spell_out f i xs))" using Cons.prems(2) by (simp add: expand_spelled)
  moreover have "\<forall>(t, s) \<in> set l. \<exists>i. t = vault_token i \<and> f i = s" using Cons.prems(1) by auto
  ultimately obtain ys where "foldl (\<lambda>t (tok, s). str_replace tok s t) (spelled vault_token (spell_out f i xs)) l = spelled vault_token ys"
      "spelled f ys = spelled f xs" "blocks ys = blocks xs - {i} - {i. vault_token i \<in> fst ` set l}"
    using Cons.IH[of "spell_out f i xs"] by (auto simp: expand_spelled expand_blocks)
  moreover have "vault_token j = vault_token i \<longleftrightarrow> j = i" for j
    by (auto simp: token_shape nat_str_inj)
  ultimately show ?case
    using restoration_step[OF Cons.prems(2), of i] by (intro exI[of _ ys]) (auto simp: p)
qed auto

lemma by_length_set [simp]: "set (by_length m) = set m"
  by (simp add: by_length_def)

lemma by_length_falling: "sorted_wrt (\<lambda>(s, i) (s', i'). length s' \<le> length s) (by_length m)"
proof -
  have "sorted (map (\<lambda>(k, v). - int (length k)) (by_length m))" unfolding by_length_def by (rule sorted_sort_key)
  then show ?thesis unfolding sorted_map by (rule sorted_wrt_mono_rel [rotated]) (auto split: prod.splits)
qed

section \<open>What redaction and restoration promise\<close>

lemma redaction_symbols:
  assumes "list_all neat secrets" and "m = number_secrets (sort_key (appearance_key code) secrets)"
  obtains xs where "put_tokens m code = spelled vault_token xs" and "spelled (secret_of m) xs = code"
    and "blocks xs \<subseteq> snd ` set m" and "\<And>s. s \<in> set secrets \<Longrightarrow> \<not> occurs (map Inl s) xs"
    and "\<And>s q. s \<in> set secrets \<Longrightarrow> prefix s (drop q code) \<Longrightarrow> met (secret_of m) 0 xs q (length s)"
proof -
  have ok: "numbering_ok m" "fst ` set m = set secrets" using number_secrets_ok assms(2) by simp_all
  then have "neat s \<and> secret_of m i = s" if "(s, i) \<in> set m" for s i
    using that assms(1) secret_of_member[OF ok(1) that] by (force simp: list_all_iff)
  then have l: "\<forall>(s, i) \<in> set (by_length m). neat s \<and> secret_of m i = s" by auto
  have "s \<noteq> []" if "s \<in> set secrets" for s using that assms(1) by (auto simp: list_all_iff neat_def)
  have "\<forall>(s, i) \<in> set (by_length m). s \<noteq> [] \<and> secret_of m i = s" using l by (auto simp: neat_def)
  note spec = by_length_falling [of m] this
  have "met (secret_of m) 0 (put_symbols (by_length m) (map Inl code)) q (length s)"
    if "s \<in> set secrets" "prefix s (drop q code)" for s q
  proof -
    have "s \<in> fst ` set (by_length m)" using that(1) ok(2) by simp
    then obtain i where "(s, i) \<in> set (by_length m)" by auto
    with put_symbols_met [OF spec, of "map Inl code"] that(2) show ?thesis by fastforce
  qed
  with \<open>\<And>s. s \<in> set secrets \<Longrightarrow> s \<noteq> []\<close> show thesis
    using that[of "put_symbols (by_length m) (map Inl code)"] put_symbols_spec[OF l, of "map Inl code"] ok(2)
    by (simp add: put_tokens_def)
qed

text \<open>What the map holds under the token with a number.\<close>

definition vaulted :: "vault \<Rightarrow> nat \<Rightarrow> string" where
  "vaulted v i = (case map_of v (vault_token i) of Some s \<Rightarrow> s | None \<Rightarrow> [])"

lemma vaulted_secret: "vaulted (map (\<lambda>(s, i). (vault_token i, s)) m) = secret_of m"
proof
  fix i
  have inj: "vault_token j = vault_token k \<longleftrightarrow> j = k" for j k
    by (auto simp: token_shape nat_str_inj)
  have "map_of (map (\<lambda>(s, i). (vault_token i, s)) m) (vault_token i) = map_of (map (\<lambda>(s, i). (i, s)) m) i"
    by (induction m) (auto simp: inj)
  then show "vaulted (map (\<lambda>(s, i). (vault_token i, s)) m) i = secret_of m i"
    by (simp add: vaulted_def secret_of_def)
qed

lemma starts_occurs: "occurs s (spelled vault_token xs) \<Longrightarrow> neat s \<Longrightarrow> occurs (map Inl s) xs"
proof (induction xs)
  case (Cons x xs)
  show ?case
  proof (cases x)
    case (Inl c)
    with Cons neat_starts[OF Cons.prems(2), of "x # xs"] show ?thesis by auto
  next
    case (Inr k)
    have "occurs s (u @ spelled vault_token xs) \<Longrightarrow> occurs s (spelled vault_token xs)" if "suffix u (vault_token k)" for u
      using that
    proof (induction u)
      case (Cons a u)
      have "\<not> prefix s ((a # u) @ spelled vault_token xs)"
        using Cons.prems \<open>neat s\<close> by (intro neat_after_token) auto
      with Cons show ?case by (auto dest: suffix_ConsD)
    qed simp
    with Cons Inr show ?thesis by auto
  qed
qed (auto simp: neat_def)

lemma no_residual: "\<not> occurs token_core t \<Longrightarrow> rx_findall residual_rx t = []"
proof -
  assume no: "\<not> occurs token_core t"
  have "ends residual_rx t i [] = []" if "i \<le> length t" for i
  proof -
    have "\<not> prefix token_start (drop i t)"
    proof
      assume "prefix token_start (drop i t)"
      moreover have "occurs token_core token_start"
        unfolding occurs_def token_core_def token_start_def by (metis append_Cons append_Nil append_Nil2)
      ultimately have "occurs token_core (drop i t)" by (rule occurs_prefix[rotated])
      then have "occurs token_core (take i t @ drop i t)" by (rule occurs_later)
      with no show False by simp
    qed
    then show ?thesis by (simp add: residual_rx_def ends_lit)
  qed
  then have "search_from residual_rx t [0..<Suc (length t)] = None"
    by (simp add: search_from_None del: upt_Suc)
  then show ?thesis by (simp add: rx_findall_def rx_finditer_def finditer_from.simps del: upt_Suc)
qed

lemma put_secrets_nothing: "put_secrets v [] = []"
proof -
  have "foldl (\<lambda>t (tok, s). str_replace tok s t) [] l = []" for l :: vault
    by (induction l) auto
  then show ?thesis by (simp add: put_secrets_def)
qed



text \<open>
  C33: redaction depends only on which secrets were found, not on the order in which a set of them is
  iterated: the text, its hash and the map are the same.
\<close>

theorem vault_deterministic:
  assumes "distinct ss" and "distinct ts" and "set ss = set ts"
  shows "redact_with ss code = redact_with ts code"
proof -
  let ?k = "appearance_key code"
  have inj: "inj ?k" by (auto simp: inj_def appearance_key_def)
  then have "sort_key ?k ss = sort_key ?k ts"
    using assms by (intro map_sorted_distinct_set_unique[of ?k]) (auto simp: distinct_map inj_on_def)
  moreover have "length ss = length ts" using assms by (metis distinct_card)
  ultimately show ?thesis using assms(3) by (auto simp: redact_with_def)
qed

text \<open>
  A source that names a token is not restored: its own text is replaced by the secret, and no error is raised.
\<close>

definition sample_secret :: string where
  "sample_secret = ''AKIAABCDEFGHIJKLMN''"

definition other_secret :: string where
  "other_secret = ''AKIAZZZZZZZZZZZZZZ''"

theorem vault_corrupts:
  "(case redact_with [sample_secret] (''x = __TCS_VAULT_TOKEN_1__; k = '' @ sample_secret) of (t, v) \<Rightarrow> restore t v False) =
     Inr (''x = '' @ sample_secret @ ''; k = '' @ sample_secret)"
  by code_simp

text \<open>
  A vault that redacts a second source forgets the secrets of the first one: what it restores for the first
  holds the secret of the second.
\<close>

theorem vault_forgets:
  "(let (t1, v1) = redact_with [sample_secret] (''k = '' @ sample_secret);
        (t2, v2) = redact_with [other_secret] (''k = '' @ other_secret)
    in restore_code t1 False (vault_update v1 v2)) = Inr (''k = '' @ other_secret)"
  by code_simp



theorem vault_deterministic_witness:
  "redact_with [''AKIAABCDEFGHIJKLMN'', ''AKIAZZZZZZZZZZZZZZ''] ''k'' = redact_with [''AKIAZZZZZZZZZZZZZZ'', ''AKIAABCDEFGHIJKLMN''] ''k''"
  by (rule vault_deterministic) auto

end
