(* ===== verification/Glob.thy ===== *)
theory Glob
  imports Rx
begin

text \<open>
  \<open>fnmatch\<close> of the standard library on 8-bit texts: the patterns of path exclusions.
\<close>

text \<open>\<open>fnmatch.fnmatch\<close>: \<open>*\<close>, \<open>?\<close>, and sets with ranges, where a set that is not closed is a bracket.\<close>

fun set_ranges :: "string \<Rightarrow> (char \<times> char) list" where
  "set_ranges (a # b # c # cs) = (if b = CHR ''-'' then (a, c) # set_ranges cs else (a, a) # set_ranges (b # c # cs))"
| "set_ranges cs = map (\<lambda>c. (c, c)) cs"

text \<open>The set after a bracket: negated, its contents, the rest of the pattern. A first \<open>]\<close> belongs to it.\<close>

definition glob_set :: "string \<Rightarrow> (bool \<times> string \<times> string) option" where
  "glob_set p =
     (let (neg, q) = (case p of c # q \<Rightarrow> if c = CHR ''!'' then (True, q) else (False, p) | [] \<Rightarrow> (False, []));
          (front, q') = (case q of c # r \<Rightarrow> if c = CHR '']'' then ([c], r) else ([], q) | [] \<Rightarrow> ([], []));
          inside = takeWhile (\<lambda>c. c \<noteq> CHR '']'') q'
      in case dropWhile (\<lambda>c. c \<noteq> CHR '']'') q' of [] \<Rightarrow> None | _ # rest \<Rightarrow> Some (neg, front @ inside, rest))"

lemma glob_set_shorter: "glob_set p = Some (neg, s, rest) \<Longrightarrow> length rest < length p"
proof -
  have drop: "dropWhile (\<lambda>c. c \<noteq> CHR '']'') q = x # rest \<Longrightarrow> length rest < length q" for q x
    by (metis length_Cons length_dropWhile_le Suc_le_eq)
  show "glob_set p = Some (neg, s, rest) \<Longrightarrow> length rest < length p"
    by (auto simp: glob_set_def Let_def split: list.splits if_splits dest!: drop)
qed

function glob :: "string \<Rightarrow> string \<Rightarrow> bool" where
  "glob [] s = (s = [])"
| "glob (p # ps) s =
     (if p = CHR ''*'' then glob ps s \<or> (case s of [] \<Rightarrow> False | _ # s' \<Rightarrow> glob (p # ps) s')
      else if p = CHR ''?'' then s \<noteq> [] \<and> glob ps (tl s)
      else if p = CHR ''['' then
        (case glob_set ps of
           None \<Rightarrow> s \<noteq> [] \<and> hd s = p \<and> glob ps (tl s)
         | Some (neg, cs, rest) \<Rightarrow> s \<noteq> [] \<and> in_set neg (set_ranges cs) (hd s) \<and> glob rest (tl s))
      else s \<noteq> [] \<and> hd s = p \<and> glob ps (tl s))"
  by pat_completeness auto
termination
  by (relation "measure (\<lambda>(p, s). length p + length s)") (auto dest!: glob_set_shorter simp: neq_Nil_conv)

end
