(* ===== verification/Secret_Filter.thy ===== *)
theory Secret_Filter
  imports Secret_Scan Glob "HOL-Library.Multiset"
begin

text \<open>
  \<open>secret_filters.py\<close>: which candidate findings are suppressed and for which reason. Patterns of the
  configuration are expressions; the allowlist expressions of the bank are given by what \<open>search\<close> says of a text, and the
  lines of a file on disk by an argument.
\<close>

section \<open>Configuration\<close>

record filter_config =
  ignored_paths :: "string list"
  ignored_filenames :: "string list"
  ignored_extensions :: "string list"
  dummy_patterns :: "rx list"
  mock_context_patterns :: "rx list"
  allowlisted_entries :: "string list"
  ignore_test_paths :: bool
  ignore_templates :: bool
  ignore_dummies :: bool
  ignore_mock_contexts :: bool
  gitleaks_stopwords :: "string list"
  gitleaks_allowlist :: "(string \<Rightarrow> bool) list"
  ignore_gitleaks_allowlist :: bool

definition dash :: rx where
  "dash = CSet False [(CHR ''a'', CHR ''z''), (CHR ''A'', CHR ''Z''), (CHR ''0'', CHR ''9''), (CHR ''_'', CHR ''_''), (CHR ''-'', CHR ''-'')]"

definition default_dummies :: "rx list" where
  "default_dummies =
     [seqs [WordB, Grp 1 (any_i [''dummy'', ''fake'', ''placeholder'', ''example'', ''test'', ''sample'', ''change_me'', ''your_token_here'',
              ''my_secret_token'', ''your_password_here'', ''your_secret_here'', ''your_api_key_here'', ''your_key_here'']), Star rx_word],
      seqs [lit ''<'', at_least 1 (CSet True [(CHR ''>'', CHR ''>'')]), lit ''>''],
      seqs [WordB, lit_i ''insert'', char_class ''_-'', Star dash, WordB],
      seqs [WordB, Grp 1 (alts [at_least 5 (lit ''0''), at_least 5 (lit ''1''), at_least 6 (lit_i ''x''), lit_i ''abcdef'']), WordB],
      seqs [lit ''AKIA'', at_least 10 (lit ''0'')], seqs [lit ''ghp_'', at_least 10 (lit ''0'')],
      seqs [lit ''xox'', char_class ''baprs'', lit ''-'', at_least 10 (lit ''0'')]]"

definition default_mocks :: "rx list" where
  "default_mocks =
     [seqs [WordB, Grp 1 (any_i [''mock.patch'', ''@patch'', ''pytest.fixture'', ''unittest.mock'', ''magicmock'', ''responses.add'', ''httpretty'',
                                 ''requests_mock'']), WordB]]"

definition default_config :: "string list \<Rightarrow> (string \<Rightarrow> bool) list \<Rightarrow> filter_config" where
  "default_config stopwords allowed =
     \<lparr>ignored_paths = [''tests/'', ''test/'', ''spec/'', ''specs/'', ''fixtures/'', ''fixture/'', ''mock/'', ''mocks/'', ''vendor/'', ''.git/'',
                       ''node_modules/'', ''docs/'', ''doc/''],
      ignored_filenames = [''.env.example'', ''.env.sample'', ''.env.template'', ''.env.test'', ''sample.env'', ''example.env'', ''docker-compose.test.yml''],
      ignored_extensions = [''.md'', ''.rst'', ''.example'', ''.sample''],
      dummy_patterns = default_dummies, mock_context_patterns = default_mocks, allowlisted_entries = [],
      ignore_test_paths = True, ignore_templates = True, ignore_dummies = True, ignore_mock_contexts = True,
      gitleaks_stopwords = stopwords, gitleaks_allowlist = allowed, ignore_gitleaks_allowlist = True\<rparr>"

section \<open>Paths\<close>

definition normalize_path :: "string \<Rightarrow> string" where
  "normalize_path path =
     (let n = py_lower (map (\<lambda>c. if c = CHR 0x5C then CHR ''/'' else c) path) in if py_startswith n ''./'' then drop 2 n else n)"

definition base_name :: "string \<Rightarrow> string" where
  "base_name path = rev (takeWhile (\<lambda>c. c \<noteq> CHR ''/'') (rev path))"

definition is_path_ignored :: "string \<Rightarrow> filter_config \<Rightarrow> (string \<times> string) option" where
  "is_path_ignored path cfg =
     (let n = normalize_path path; b = base_name n in
      if ignore_templates cfg \<and> b \<in> set (ignored_filenames cfg) then Some (''PathFilter'', ''ignored_filename'')
      else if ignore_templates cfg \<and> list_ex (py_endswith b) (ignored_extensions cfg) then Some (''PathFilter'', ''ignored_extension'')
      else if ignore_test_paths cfg
              \<and> list_ex (\<lambda>p. let q = py_lower p in
                    py_startswith n q \<or> py_contains (CHR ''/'' # n) (CHR ''/'' # q) \<or> CHR ''*'' \<in> set q \<and> glob q n) (ignored_paths cfg)
           then Some (''PathFilter'', ''ignored_path'')
      else None)"

section \<open>Placeholders\<close>

definition has_context :: "secret_finding \<Rightarrow> (string \<Rightarrow> bool) \<Rightarrow> bool" where
  "has_context f P = (case sf_context f of Some c \<Rightarrow> c \<noteq> [] \<and> P c | None \<Rightarrow> False)"

definition key_context_rx :: rx where
  "key_context_rx = seqs [WordB, any_i [''aws_secret_access_key'', ''jwt_bearer_token''], WordB]"

definition repeated_tail_rx :: "nat \<Rightarrow> rx" where
  "repeated_tail_rx n = Seq (alts [at_least n (lit ''0''), at_least n (lit ''1''), at_least n (lit_i ''x'')]) Eos"

definition stars :: "nat \<Rightarrow> nat \<Rightarrow> rx" where
  "stars m n = rep_range m n (lit ''*'')"

definition short_creds_rx :: rx where
  "short_creds_rx = seqs [lit ''://'', opt (seqs [stars 1 4, lit '':'']), stars 1 4, lit ''@'']"

definition known_creds_rx :: rx where
  "known_creds_rx =
     (let pair = (\<lambda>m. lit (m @ '':'' @ m)) in
      seqs [lit ''://'', alts (map pair [''p******s'', ''a***n'', ''g***t'', ''r**t'']), lit ''@''])"

definition dev_context_rx :: rx where
  "dev_context_rx = seqs [WordB, Grp 1 (any_i [''dev'', ''development'', ''test'', ''dummy'', ''sample'', ''staging'']), Star rx_word]"

definition local_context_rx :: rx where
  "local_context_rx =
     seqs [WordB, Grp 1 (Alt (seqs [lit_i ''local_'', at_least 1 rx_word]) (seqs [at_least 1 rx_word, lit_i ''_local'']))  , WordB]"

definition dev_database_rx :: rx where
  "dev_database_rx =
     seqs [lit ''/'', Grp 1 (alts (map lit [''db'', ''dev'', ''test'', ''testdb''])),
           Alt (CSet False [(CHR 0x22, CHR 0x22), (CHR 0x27, CHR 0x27), (CHR '';'', CHR '';''), (CHR 0x09, CHR 0x0D), (CHR 0x1C, CHR 0x20)]) Eos]"

definition default_pairs_rx :: rx where
  "default_pairs_rx =
     seqs [WordB, Grp 1 (any_i [''user:pass'', ''root:root'', ''admin:admin'', ''postgres:postgres'', ''guest:guest'', ''test:test'']), WordB]"

definition is_dummy_connection :: "secret_finding \<Rightarrow> bool" where
  "is_dummy_connection f =
     (let low = py_lower (masked_value f) in
      list_ex (\<lambda>h. py_contains low (CHR ''@'' # h)) [''localhost'', ''127.0.0.1'', ''0.0.0.0'', ''::1'']
      \<and> (rx_found short_creds_rx (masked_value f) \<or> rx_found known_creds_rx low
         \<or> has_context f (rx_found dev_context_rx) \<or> has_context f (rx_found local_context_rx)
         \<or> rx_found dev_database_rx low \<or> has_context f (rx_found default_pairs_rx)))"

definition is_dummy_value :: "secret_finding \<Rightarrow> filter_config \<Rightarrow> bool" where
  "is_dummy_value f cfg =
     (if \<not> ignore_dummies cfg then False
      else if has_context f (rx_found key_context_rx) then rx_found (repeated_tail_rx 8) (masked_value f)
      else if secret_type f = ''jwt_token'' then False
      else if secret_type f = ''slack_webhook_url'' then False
      else if rx_found (repeated_tail_rx 4) (masked_value f) then True
      else if list_ex (\<lambda>r. rx_found r (masked_value f)) (dummy_patterns cfg) then True
      else if list_ex (\<lambda>r. has_context f (rx_found r)) (dummy_patterns cfg) then True
      else if secret_type f = ''database_connection_string'' then is_dummy_connection f
      else False)"

definition gitleaks_exempt_types :: "string list" where
  "gitleaks_exempt_types = [''private_key'', ''jwt_token'', ''slack_webhook_url'', ''database_connection_string'']"

definition is_gitleaks_suppressed :: "secret_finding \<Rightarrow> filter_config \<Rightarrow> bool" where
  "is_gitleaks_suppressed f cfg =
     (if \<not> ignore_gitleaks_allowlist cfg then False
      else if secret_type f \<in> set gitleaks_exempt_types then False
      else if set (masked_value f) \<subseteq> {CHR ''*''} then False
      else list_ex (\<lambda>w. w \<noteq> [] \<and> py_contains (masked_value f) w) (gitleaks_stopwords cfg)
           \<or> list_ex (\<lambda>found. found (masked_value f)) (gitleaks_allowlist cfg))"

section \<open>Contexts and allowlists\<close>

text \<open>The lines of a regular file that can be read: an argument.\<close>

definition is_mock_context :: "(string \<Rightarrow> string list option) \<Rightarrow> secret_finding \<Rightarrow> string \<Rightarrow> filter_config \<Rightarrow> bool" where
  "is_mock_context readlines f path cfg =
     (let hit = (\<lambda>text. list_ex (\<lambda>r. rx_found r text) (mock_context_patterns cfg)) in
      if \<not> ignore_mock_contexts cfg then False
      else if has_context f hit then True
      else if path = [] then False
      else (case readlines path of
              None \<Rightarrow> False
            | Some lines \<Rightarrow>
                list_ex (\<lambda>k. k < sf_line f \<and> sf_line f - 1 - k < length lines \<and> hit (lines ! (sf_line f - 1 - k))) [1, 2, 3]))"

definition is_allowlisted :: "secret_finding \<Rightarrow> string \<Rightarrow> filter_config \<Rightarrow> bool" where
  "is_allowlisted f path cfg =
     (let n = normalize_path path; place = '':'' @ nat_str (sf_line f) in
      list_ex (\<lambda>e. e \<in> set (allowlisted_entries cfg)) [masked_value f, n @ place, base_name n @ place, sf_detector f @ '':'' @ masked_value f])"

section \<open>Evaluation\<close>

record suppressed_finding =
  sp_finding :: secret_finding
  sp_reason :: string
  sp_filter :: string

record filter_result =
  retained :: "secret_finding list"
  suppressed :: "suppressed_finding list"

definition finding_verdict :: "(string \<Rightarrow> string list option) \<Rightarrow> string \<Rightarrow> filter_config \<Rightarrow> secret_finding \<Rightarrow> (string \<times> string) option" where
  "finding_verdict readlines path cfg f =
     (if is_allowlisted f path cfg then Some (''AllowlistFilter'', ''allowlisted'')
      else if is_dummy_value f cfg then Some (''DummyValueFilter'', ''dummy_or_placeholder_value'')
      else if is_gitleaks_suppressed f cfg then Some (''GitleaksAllowlistFilter'', ''gitleaks_allowlist_or_stopword'')
      else if is_mock_context readlines f path cfg then Some (''ContextFilter'', ''mocking_or_test_fixture'')
      else None)"

definition suppress :: "secret_finding \<Rightarrow> string \<times> string \<Rightarrow> suppressed_finding" where
  "suppress f v = \<lparr>sp_finding = f, sp_reason = snd v, sp_filter = fst v\<rparr>"

definition evaluate_one :: "(string \<Rightarrow> string list option) \<Rightarrow> string \<Rightarrow> filter_config \<Rightarrow> filter_result \<Rightarrow> secret_finding \<Rightarrow> filter_result" where
  "evaluate_one readlines path cfg r f =
     (case finding_verdict readlines path cfg f of
        Some v \<Rightarrow> r\<lparr>suppressed := suppressed r @ [suppress f v]\<rparr>
      | None \<Rightarrow> r\<lparr>retained := retained r @ [f]\<rparr>)"

definition evaluate_findings :: "(string \<Rightarrow> string list option) \<Rightarrow> secret_finding list \<Rightarrow> string \<Rightarrow> filter_config \<Rightarrow> filter_result" where
  "evaluate_findings readlines fs path cfg =
     (case is_path_ignored path cfg of
        Some v \<Rightarrow> \<lparr>retained = [], suppressed = map (\<lambda>f. suppress f v) fs\<rparr>
      | None \<Rightarrow> foldl (evaluate_one readlines path cfg) \<lparr>retained = [], suppressed = []\<rparr> fs)"

definition filter_findings :: "(string \<Rightarrow> string list option) \<Rightarrow> secret_finding list \<Rightarrow> string \<Rightarrow> filter_config \<Rightarrow> secret_finding list" where
  "filter_findings readlines fs path cfg = retained (evaluate_findings readlines fs path cfg)"

section \<open>Nothing is lost, and what is structural is not suppressed by stopwords\<close>

lemma evaluate_fold:
  "foldl (evaluate_one rl path cfg) r fs =
     \<lparr>retained = retained r @ filter (\<lambda>f. finding_verdict rl path cfg f = None) fs,
      suppressed = suppressed r @ concat (map (\<lambda>f. case finding_verdict rl path cfg f of Some v \<Rightarrow> [suppress f v] | None \<Rightarrow> []) fs)\<rparr>"
  by (induction fs arbitrary: r) (auto simp: evaluate_one_def split: option.split)

lemma findings_partitioned_aux:
  "s \<in> set (suppressed (evaluate_findings rl fs path cfg)) \<Longrightarrow> is_path_ignored path cfg = None \<Longrightarrow>
   finding_verdict rl path cfg (sp_finding s) = Some (sp_filter s, sp_reason s)"
  by (auto simp: evaluate_findings_def evaluate_fold suppress_def split: option.splits)

text \<open>
  Every finding is retained or suppressed, once and in order. It is retained exactly if neither the path nor a
  filter takes it, and suppressed with the name of the first filter that does.
\<close>

theorem findings_partitioned:
  "filter_findings rl fs path cfg =
     (if is_path_ignored path cfg \<noteq> None then [] else filter (\<lambda>f. finding_verdict rl path cfg f = None) fs)
   \<and> mset (retained (evaluate_findings rl fs path cfg)) + mset (map sp_finding (suppressed (evaluate_findings rl fs path cfg))) = mset fs
   \<and> (\<forall>s \<in> set (suppressed (evaluate_findings rl fs path cfg)).
        Some (sp_filter s, sp_reason s) =
          (case is_path_ignored path cfg of Some v \<Rightarrow> Some v | None \<Rightarrow> finding_verdict rl path cfg (sp_finding s)))"
proof (cases "is_path_ignored path cfg")
  case (Some v)
  then show ?thesis by (auto simp: filter_findings_def evaluate_findings_def suppress_def comp_def)
next
  case None
  have "mset (filter (\<lambda>f. finding_verdict rl path cfg f = None) fs)
      + mset (map sp_finding (concat (map (\<lambda>f. case finding_verdict rl path cfg f of Some v \<Rightarrow> [suppress f v] | None \<Rightarrow> []) fs))) = mset fs"
    by (induction fs) (auto simp: suppress_def split: option.splits)
  with None show ?thesis
    by (auto simp: filter_findings_def evaluate_findings_def evaluate_fold suppress_def split: option.splits)
qed

text \<open>
  A private key, a web token, a webhook address and a connection string are never suppressed by a stopword or the
  allowlist of the bank, and neither is a secret of which the mask shows nothing, whatever the bank holds.
\<close>

theorem exempt_from_stopwords:
  assumes "secret_type f \<in> set gitleaks_exempt_types \<or> (\<exists>v. masked_value f = mask_secret v \<and> length v \<le> 4)"
    and "s \<in> set (suppressed (evaluate_findings rl fs path cfg))" and "sp_finding s = f" and "is_path_ignored path cfg = None"
  shows "sp_filter s \<noteq> ''GitleaksAllowlistFilter''"
proof -
  have "\<not> is_gitleaks_suppressed f cfg"
    using assms(1) by (auto simp: is_gitleaks_suppressed_def mask_secret_def Let_def set_replicate_conv_if split: if_splits)
  moreover have "finding_verdict rl path cfg f = Some (sp_filter s, sp_reason s)"
    using findings_partitioned_aux[of s rl fs path cfg] assms(2-4) by simp
  ultimately show ?thesis by (auto simp: finding_verdict_def split: if_splits)
qed

definition filter_finding :: "string \<Rightarrow> string \<Rightarrow> secret_finding" where
  "filter_finding ty masked =
     \<lparr>secret_type = ty, masked_value = masked, sf_file = ''a.py'', sf_line = 3, column_start = 1, column_end = 9, sf_detector = ty, sf_context = None\<rparr>"

definition filter_setup :: filter_config where
  "filter_setup = default_config [''abc''] []"

definition no_files :: "string \<Rightarrow> string list option" where
  "no_files path = None"

lemma sample_suppressed:
  "is_path_ignored ''src/a.py'' filter_setup = None"
  "suppressed (evaluate_findings no_files [filter_finding ''private_key'' ''abc*0000''] ''src/a.py'' filter_setup) =
     [suppress (filter_finding ''private_key'' ''abc*0000'') (''DummyValueFilter'', ''dummy_or_placeholder_value'')]"
  by code_simp+

theorem findings_partitioned_witness:
  "size (mset (retained (evaluate_findings no_files [filter_finding ''private_key'' ''abc*0000''] ''src/a.py'' filter_setup))) = 0"
proof -
  have "mset (map sp_finding (suppressed (evaluate_findings no_files [filter_finding ''private_key'' ''abc*0000''] ''src/a.py'' filter_setup)))
      = {#filter_finding ''private_key'' ''abc*0000''#}"
    by (simp add: sample_suppressed suppress_def)
  then show ?thesis
    using findings_partitioned[of no_files "[filter_finding ''private_key'' ''abc*0000'']" "''src/a.py''" filter_setup] by simp
qed

theorem exempt_from_stopwords_witness:
  "sp_filter (suppress (filter_finding ''private_key'' ''abc*0000'') (''DummyValueFilter'', ''dummy_or_placeholder_value'')) \<noteq> ''GitleaksAllowlistFilter''"
proof (rule exempt_from_stopwords)
  show "is_path_ignored ''src/a.py'' filter_setup = None" by (rule sample_suppressed)
  show "suppress (filter_finding ''private_key'' ''abc*0000'') (''DummyValueFilter'', ''dummy_or_placeholder_value'')
      \<in> set (suppressed (evaluate_findings no_files [filter_finding ''private_key'' ''abc*0000''] ''src/a.py'' filter_setup))"
    by (simp add: sample_suppressed)
qed (simp_all add: suppress_def filter_finding_def gitleaks_exempt_types_def)

end
