(* ===== verification/Yaml_Doc.thy ===== *)
theory Yaml_Doc
  imports Prelude
begin

text \<open>
  What PyYAML's \<open>safe_load\<close> yields, and what the readers of the two configuration files ask of it. A mapping is the list
  of its items, with one item for a key.
\<close>

datatype yaml =
    YNull
  | YBool bool
  | YInt int
  | YFloat string
  | YStr string
  | YList "yaml list"
  | YMap "(yaml \<times> yaml) list"
  | YOther string string  \<comment> \<open>type name, text\<close>

fun yaml_type :: "yaml \<Rightarrow> string" where
  "yaml_type YNull = ''NoneType''"
| "yaml_type (YBool b) = ''bool''"
| "yaml_type (YInt i) = ''int''"
| "yaml_type (YFloat s) = ''float''"
| "yaml_type (YStr s) = ''str''"
| "yaml_type (YList ys) = ''list''"
| "yaml_type (YMap m) = ''dict''"
| "yaml_type (YOther t s) = t"

fun yaml_text :: "yaml \<Rightarrow> string" where
  "yaml_text YNull = ''None''"
| "yaml_text (YBool b) = (if b then ''True'' else ''False'')"
| "yaml_text (YInt i) = int_str i"
| "yaml_text (YFloat s) = s"
| "yaml_text (YStr s) = s"
| "yaml_text (YList ys) = ''[...]''"
| "yaml_text (YMap m) = ''{...}''"
| "yaml_text (YOther t s) = s"

fun yaml_truthy :: "yaml \<Rightarrow> bool" where
  "yaml_truthy YNull = False"
| "yaml_truthy (YBool b) = b"
| "yaml_truthy (YInt i) = (i \<noteq> 0)"
| "yaml_truthy (YFloat s) = (s \<noteq> ''0.0'' \<and> s \<noteq> ''-0.0'')"
| "yaml_truthy (YStr s) = (s \<noteq> [])"
| "yaml_truthy (YList ys) = (ys \<noteq> [])"
| "yaml_truthy (YMap m) = (m \<noteq> [])"
| "yaml_truthy (YOther t s) = True"

text \<open>What \<open>sorted\<close> can compare: texts with texts, numbers with numbers, others with their own type.\<close>

fun order_class :: "yaml \<Rightarrow> string" where
  "order_class (YStr s) = ''str''"
| "order_class (YBool b) = ''number''"
| "order_class (YInt i) = ''number''"
| "order_class (YFloat s) = ''number''"
| "order_class (YOther t s) = t"
| "order_class _ = ''none''"

definition sortable :: "yaml list \<Rightarrow> bool" where
  "sortable ks = (length ks \<le> 1 \<or> length (remdups (map order_class ks)) = 1)"

definition unknown_keys :: "string list \<Rightarrow> (yaml \<times> yaml) list \<Rightarrow> yaml list" where
  "unknown_keys allowed m = filter (\<lambda>k. k \<notin> YStr ` set allowed) (map fst m)"

lemma sortable_Nil [simp]: "sortable []"
  by (simp add: sortable_def)

end
