(* ===== verification/Path_Config.thy ===== *)
theory Path_Config
  imports Report Glob Text_Lines Text_Replace Yaml_Doc
begin

text \<open>
  \<open>tcs_config.py\<close>: the exclusions of \<open>.tcs.yaml\<close>, how they are read, which paths they select, and the filter of
  \<open>cli.py\<close> that applies them to findings. The YAML parser is an argument, and so is the text of the file.
\<close>

section \<open>Patterns\<close>

definition forward_slashes :: "string \<Rightarrow> string" where
  "forward_slashes s = map (\<lambda>c. if c = CHR 0x5C then CHR ''/'' else c) s"

fun drop_dot_slash :: "string \<Rightarrow> string" where
  "drop_dot_slash (a # b # s) = (if a = CHR ''.'' \<and> b = CHR ''/'' then drop_dot_slash s else a # b # s)"
| "drop_dot_slash s = s"

definition normalize_pattern :: "string \<Rightarrow> string" where
  "normalize_pattern p = strip_char (CHR ''/'') (drop_dot_slash (py_strip (forward_slashes p)))"

definition path_segments :: "string \<Rightarrow> string list" where
  "path_segments t = filter (\<lambda>part. part \<noteq> [] \<and> part \<noteq> ''.'') (py_split (CHR ''/'') t)"

function match_parts :: "string list \<Rightarrow> string list \<Rightarrow> bool" where
  "match_parts ps [] = (ps = [])"
| "match_parts ps (h # hs) =
     (if h = ''**'' then match_parts ps hs \<or> (case ps of [] \<Rightarrow> False | _ # qs \<Rightarrow> match_parts qs (h # hs))
      else (case ps of [] \<Rightarrow> False | p # qs \<Rightarrow> glob h p \<and> match_parts qs hs))"
  by pat_completeness auto
termination
  by (relation "measure (\<lambda>(ps, hs). length ps + length hs)") auto

definition path_matches :: "string \<Rightarrow> string \<Rightarrow> bool" where
  "path_matches key p =
     (let n = normalize_pattern p; parts = path_segments (forward_slashes key) in
      if n = [] then False
      else if CHR ''/'' \<notin> set n then list_ex (glob n) parts
      else match_parts parts (path_segments n))"

definition without_root_prefix :: "string \<Rightarrow> string option \<Rightarrow> string" where
  "without_root_prefix path root =
     (let key = forward_slashes path; rs = path_segments (normalize_pattern (case root of None \<Rightarrow> [] | Some r \<Rightarrow> r)); parts = path_segments key in
      if rs = [] then key
      else if take (length rs) parts \<noteq> rs then key
      else py_join ''/'' (drop (length rs) parts))"

definition anchored_patterns :: "string list \<Rightarrow> string list" where
  "anchored_patterns ps = filter (\<lambda>p. let t = normalize_pattern p in CHR ''/'' \<in> set t \<and> \<not> py_startswith t ''**/'') ps"

section \<open>The configuration\<close>

record tcs_config =
  exclude_paths :: "string list"
  rule_excludes :: "(string \<times> string list) list"

definition selects :: "string list option \<Rightarrow> string \<Rightarrow> string option \<Rightarrow> bool" where
  "selects patterns key root =
     (case patterns of
        None \<Rightarrow> False
      | Some ps \<Rightarrow>
          if ps = [] then False
          else if list_ex (path_matches key) ps then True
          else if root = None \<or> root = Some [] then False
          else if anchored_patterns ps = [] then False
          else (let stripped = without_root_prefix key root in
                if stripped = key \<or> stripped = [] then False else list_ex (path_matches stripped) (anchored_patterns ps)))"

definition excludes_path :: "tcs_config \<Rightarrow> string \<Rightarrow> string option \<Rightarrow> bool" where
  "excludes_path cfg key root = selects (Some (exclude_paths cfg)) key root"

definition rule_excluded :: "tcs_config \<Rightarrow> string \<Rightarrow> string \<Rightarrow> string option \<Rightarrow> bool" where
  "rule_excluded cfg cwe key root = selects (map_of (rule_excludes cfg) (py_upper cwe)) key root"

definition apply_config_filters :: "row list \<Rightarrow> tcs_config option \<Rightarrow> bool \<Rightarrow> string option \<Rightarrow> row list" where
  "apply_config_filters rows config path_excludes root =
     (case config of
        None \<Rightarrow> rows
      | Some cfg \<Rightarrow>
          filter (\<lambda>r. \<not> (path_excludes \<and> excludes_path cfg (r_file r) root) \<and> \<not> rule_excluded cfg (r_cwe r) (r_file r) root) rows)"

section \<open>Reading the file\<close>

datatype config_error =
    Yaml_Missing
  | Yaml_Malformed
  | Top_Not_Mapping
  | Unknown_Keys "string list"
  | Unknown_Rule_Keys yaml "string list"
  | Not_String_List string
  | Rules_Not_Mapping
  | Not_A_Cwe yaml
  | Rule_Not_Mapping yaml
  | Unsortable_Keys  \<comment> \<open>a \<open>TypeError\<close>, every other one is a \<open>ValueError\<close>\<close>

definition normalize_rule_id :: "string \<Rightarrow> string option" where
  "normalize_rule_id value =
     (let t = py_upper (py_strip value) in
      if py_startswith t ''CWE-'' \<and> py_isdigit (drop 4 t) then Some t
      else if py_startswith t ''CWE'' \<and> py_isdigit (strip_char (CHR ''-'') (drop 3 t)) then Some (''CWE-'' @ strip_char (CHR ''-'') (drop 3 t))
      else if py_isdigit t then Some (''CWE-'' @ t)
      else None)"

fun all_strings :: "yaml list \<Rightarrow> string list option" where
  "all_strings [] = Some []"
| "all_strings (YStr s # ys) = map_option (\<lambda>ss. s # ss) (all_strings ys)"
| "all_strings (_ # ys) = None"

definition string_list :: "yaml option \<Rightarrow> string \<Rightarrow> config_error + string list" where
  "string_list v key =
     (case v of
        None \<Rightarrow> Inr []
      | Some YNull \<Rightarrow> Inr []
      | Some (YList ys) \<Rightarrow> (case all_strings ys of None \<Rightarrow> Inl (Not_String_List key) | Some ss \<Rightarrow> Inr (filter (\<lambda>s. py_strip s \<noteq> []) ss))
      | Some _ \<Rightarrow> Inl (Not_String_List key))"

text \<open>\<open>sorted(set(m) - allowed)\<close> and the error for what it lists (here in the order of the file); it raises on its own
  for keys that do not compare.\<close>

definition reject_unknown :: "string list \<Rightarrow> (string list \<Rightarrow> config_error) \<Rightarrow> (yaml \<times> yaml) list \<Rightarrow> config_error + unit" where
  "reject_unknown allowed e m =
     (let ks = unknown_keys allowed m in
      if \<not> sortable ks then Inl Unsortable_Keys else if ks \<noteq> [] then Inl (e (map yaml_text ks)) else Inr ())"

fun read_rules :: "(yaml \<times> yaml) list \<Rightarrow> (string \<times> string list) list \<Rightarrow> config_error + (string \<times> string list) list" where
  "read_rules [] acc = Inr acc"
| "read_rules ((rid, settings) # rest) acc =
     (case normalize_rule_id (yaml_text rid) of
        None \<Rightarrow> Inl (Not_A_Cwe rid)
      | Some cwe \<Rightarrow>
          (case settings of
             YMap m \<Rightarrow>
               res_bind (reject_unknown [''exclude''] (Unknown_Rule_Keys rid) m) (\<lambda>_.
               res_bind (string_list (map_of m (YStr ''exclude'')) (''rules.'' @ yaml_text rid @ ''.exclude'')) (\<lambda>ps.
                 read_rules rest (AList.update cwe ps acc)))
           | _ \<Rightarrow> Inl (Rule_Not_Mapping rid)))"

definition rules_section :: "(yaml \<times> yaml) list \<Rightarrow> yaml" where
  "rules_section m = (case map_of m (YStr ''rules'') of None \<Rightarrow> YMap [] | Some r \<Rightarrow> if yaml_truthy r then r else YMap [])"

definition parse_tcs_config :: "yaml \<Rightarrow> config_error + tcs_config" where
  "parse_tcs_config v =
     (case (if v = YNull then YMap [] else v) of
        YMap m \<Rightarrow>
          res_bind (reject_unknown [''exclude_paths'', ''rules''] Unknown_Keys m) (\<lambda>_.
          res_bind (string_list (map_of m (YStr ''exclude_paths'')) ''exclude_paths'') (\<lambda>paths.
            case rules_section m of
              YMap rules \<Rightarrow> res_bind (read_rules rules []) (\<lambda>ex. Inr \<lparr>exclude_paths = paths, rule_excludes = ex\<rparr>)
            | _ \<Rightarrow> Inl Rules_Not_Mapping))
      | _ \<Rightarrow> Inl Top_Not_Mapping)"

text \<open>\<open>file\<close> is the text of \<open>.tcs.yaml\<close>, if there is one; the parser is \<open>None\<close> where PyYAML is not installed.\<close>

definition load_tcs_config :: "(string \<Rightarrow> yaml option) option \<Rightarrow> string option \<Rightarrow> config_error + tcs_config option" where
  "load_tcs_config parser file_text =
     (case file_text of
        None \<Rightarrow> Inr None
      | Some s \<Rightarrow>
          (case parser of
             None \<Rightarrow> Inl Yaml_Missing
           | Some parse \<Rightarrow>
               (case parse s of
                  None \<Rightarrow> Inl Yaml_Malformed
                | Some v \<Rightarrow> res_bind (parse_tcs_config v) (\<lambda>cfg. Inr (Some cfg)))))"

section \<open>What a pattern selects\<close>

definition fills :: "string \<Rightarrow> string list \<Rightarrow> bool" where
  "fills h b = (h = ''**'' \<or> (\<exists>p. b = [p] \<and> glob h p))"

text \<open>A pattern selects the paths that are made of one block per segment: any block for \<open>**\<close>, one segment otherwise.\<close>
theorem pattern_selects_iff: "match_parts ps hs \<longleftrightarrow> (\<exists>bs. list_all2 fills hs bs \<and> concat bs = ps)"
proof (induction ps hs rule: match_parts.induct)
  case (2 ps h hs)
  show ?case
  proof (cases "h = ''**''")
    case True
    have spread: "(\<exists>bs. list_all2 fills (h # hs) bs \<and> concat bs = qs) \<longleftrightarrow> (\<exists>b bs. list_all2 fills hs bs \<and> b @ concat bs = qs)" for qs
      by (simp add: list_all2_Cons1 True fills_def) (metis concat.simps(2))
    have "(\<exists>b bs. list_all2 fills hs bs \<and> b @ concat bs = ps) \<longleftrightarrow> (\<exists>bs. list_all2 fills hs bs \<and> concat bs = ps)
        \<or> (\<exists>q qs b bs. ps = q # qs \<and> list_all2 fills hs bs \<and> b @ concat bs = qs)"
    proof
      assume "\<exists>b bs. list_all2 fills hs bs \<and> b @ concat bs = ps"
      then obtain b bs where "list_all2 fills hs bs" "b @ concat bs = ps" by blast
      then show "(\<exists>bs. list_all2 fills hs bs \<and> concat bs = ps)
        \<or> (\<exists>q qs b bs. ps = q # qs \<and> list_all2 fills hs bs \<and> b @ concat bs = qs)"
        by (cases b) (force, metis append_Cons)
    next
      assume "(\<exists>bs. list_all2 fills hs bs \<and> concat bs = ps)
        \<or> (\<exists>q qs b bs. ps = q # qs \<and> list_all2 fills hs bs \<and> b @ concat bs = qs)"
      then show "\<exists>b bs. list_all2 fills hs bs \<and> b @ concat bs = ps"
      proof (elim disjE exE conjE)
        fix bs
        assume "list_all2 fills hs bs" "concat bs = ps"
        then show ?thesis by (intro exI [of _ "[]"] exI [of _ bs]) simp
      next
        fix q qs b bs
        assume "ps = q # qs" "list_all2 fills hs bs" "b @ concat bs = qs"
        then show ?thesis by (intro exI [of _ "q # b"] exI [of _ bs]) simp
      qed
    qed
    moreover have "match_parts ps (h # hs) \<longleftrightarrow> match_parts ps hs \<or> (\<exists>q qs. ps = q # qs \<and> match_parts qs (h # hs))"
      by (cases ps) (simp_all add: True)
    ultimately show ?thesis using 2(1) 2(2) True unfolding spread by (metis list.distinct(1))
  next
    case False
    have "(\<exists>bs. list_all2 fills (h # hs) bs \<and> concat bs = ps) \<longleftrightarrow> (\<exists>q bs. glob h q \<and> list_all2 fills hs bs \<and> q # concat bs = ps)"
      by (simp add: list_all2_Cons1 False fills_def) (metis append_Cons append_Nil concat.simps(2))
    then show ?thesis using 2(3) False by (auto split: list.splits)
  qed
qed auto

lemma split_unbroken: "d \<notin> set x \<Longrightarrow> py_split d x = [x]"
  by (induction x) auto

lemma split_append: "d \<notin> set x \<Longrightarrow> py_split d (x @ d # y) = x # py_split d y"
  by (induction x) auto

lemma split_no_separator: "w \<in> set (py_split d s) \<Longrightarrow> d \<notin> set w"
proof (induction s arbitrary: w)
  case (Cons c s)
  show ?case
  proof (cases "py_split d s")
    case Nil
    then show ?thesis using Cons.prems by (auto split: if_splits)
  next
    case (Cons v vs)
    then have "d \<notin> set v" "\<And>w. w \<in> set vs \<Longrightarrow> d \<notin> set w"
      using Cons.IH by auto
    with Cons Cons.prems show ?thesis by (auto split: if_splits)
  qed
qed simp

lemma segment_shape: "w \<in> set (path_segments t) \<Longrightarrow> w \<noteq> [] \<and> w \<noteq> ''.'' \<and> CHR ''/'' \<notin> set w"
  by (auto simp: path_segments_def dest: split_no_separator)

lemma segments_of_join:
  "(\<And>w. w \<in> set ws \<Longrightarrow> w \<noteq> [] \<and> w \<noteq> ''.'' \<and> CHR ''/'' \<notin> set w) \<Longrightarrow> path_segments (py_join ''/'' ws) = ws"
proof (induction "''/''" ws rule: py_join.induct)
  case 1
  then show ?case by (simp add: path_segments_def)
next
  case (2 x)
  then show ?case by (simp add: path_segments_def split_unbroken)
next
  case (3 x y ys)
  then show ?case by (simp add: path_segments_def split_append)
qed

lemma split_subset: "w \<in> set (py_split d s) \<Longrightarrow> set w \<subseteq> set s"
proof (induction s arbitrary: w)
  case (Cons c s)
  show ?case
  proof (cases "py_split d s")
    case Nil
    then show ?thesis using Cons.prems by (auto split: if_splits)
  next
    case (Cons v vs)
    then have "set v \<subseteq> set s" "\<And>w. w \<in> set vs \<Longrightarrow> set w \<subseteq> set s"
      using Cons.IH by auto
    with Cons Cons.prems show ?thesis by (auto split: if_splits)
  qed
qed simp

lemma forward_slashes_id: "CHR 0x5C \<notin> set s \<Longrightarrow> forward_slashes s = s"
  by (induction s) (auto simp: forward_slashes_def)

lemma no_backslash: "CHR 0x5C \<notin> set (forward_slashes s)"
  by (auto simp: forward_slashes_def)

lemma set_join: "set (py_join sep ws) \<subseteq> set sep \<union> \<Union> (set ` set ws)"
  by (induction sep ws rule: py_join.induct) auto

lemma rejoined_segments:
  assumes "set ws \<subseteq> set (path_segments (forward_slashes key))"
  shows "path_segments (forward_slashes (py_join ''/'' ws)) = ws"
proof -
  have "set w \<subseteq> set (forward_slashes key)" if "w \<in> set ws" for w
    using that assms split_subset by (fastforce simp: path_segments_def)
  then have "CHR 0x5C \<notin> set (py_join ''/'' ws)"
    using set_join [of "''/''" ws] no_backslash [of key] by auto
  then have "forward_slashes (py_join ''/'' ws) = py_join ''/'' ws"
    by (rule forward_slashes_id)
  moreover have "path_segments (py_join ''/'' ws) = ws"
    by (rule segments_of_join) (use assms segment_shape in blast)
  ultimately show ?thesis by simp
qed

lemma without_root_segments:
  "\<exists>n. path_segments (forward_slashes (without_root_prefix key root)) = drop n (path_segments (forward_slashes key))"
proof -
  let ?parts = "path_segments (forward_slashes key)"
  have "path_segments (forward_slashes (py_join ''/'' (drop n ?parts))) = drop n ?parts" for n
    by (rule rejoined_segments) (rule set_drop_subset)
  moreover have "path_segments (forward_slashes (forward_slashes key)) = drop 0 ?parts"
    by (simp add: forward_slashes_id [OF no_backslash])
  ultimately show ?thesis
    by (simp only: without_root_prefix_def Let_def split: if_split) blast
qed

lemma fills_drop:
  "match_parts (drop n ps) (''**'' # hs) \<Longrightarrow> match_parts ps (''**'' # hs)"
  by (induction ps arbitrary: n) (auto simp: drop_Cons' split: if_splits)

lemma segments_prefixed: "py_startswith t ''**/'' \<Longrightarrow> \<exists>hs. path_segments t = ''**'' # hs"
proof -
  assume "py_startswith t ''**/''"
  then obtain u where "t = ''**'' @ CHR ''/'' # u"
    by (cases t; cases "tl t"; cases "tl (tl t)") auto
  then show ?thesis by (simp add: path_segments_def)
qed

text \<open>A pattern that is not anchored and selects the rest of a path selects the whole path.\<close>

lemma unanchored_selects:
  assumes "path_matches (without_root_prefix key root) p" and "p \<notin> set (anchored_patterns [p])"
  shows "path_matches key p"
proof -
  obtain n where n: "path_segments (forward_slashes (without_root_prefix key root)) = drop n (path_segments (forward_slashes key))"
    using without_root_segments by blast
  show ?thesis
  proof (cases "CHR ''/'' \<in> set (normalize_pattern p)")
    case True
    then obtain hs where "path_segments (normalize_pattern p) = ''**'' # hs"
      using assms(2) segments_prefixed by (auto simp: anchored_patterns_def Let_def split: if_splits)
    then show ?thesis using assms(1) True fills_drop n by (auto simp: path_matches_def Let_def simp del: match_parts.simps)
  next
    case False
    then show ?thesis
      using assms(1) n by (auto simp: path_matches_def Let_def list_ex_iff dest: in_set_dropD split: if_splits)
  qed
qed

lemma same_segments: "path_matches (forward_slashes key) p = path_matches key p"
  by (simp add: path_matches_def forward_slashes_id [OF no_backslash])

lemma without_root_none: "root = None \<or> root = Some [] \<Longrightarrow> without_root_prefix key root = forward_slashes key"
  by (auto simp: without_root_prefix_def normalize_pattern_def forward_slashes_def path_segments_def strip_char_def py_strip_def
      py_lstrip_def py_rstrip_def)

lemma in_anchored: "p \<in> set (anchored_patterns ps) \<longleftrightarrow> p \<in> set ps \<and> p \<in> set (anchored_patterns [p])"
  by (auto simp: anchored_patterns_def)

text \<open>C27: trying the anchored patterns only, a second time and inside the root, loses nothing: a path is selected when a
  pattern selects it as it is, or as it is seen from the root.\<close>
theorem selection_exact:
  "selects (Some ps) key root \<longleftrightarrow>
     (\<exists>p \<in> set ps. path_matches key p)
     \<or> (without_root_prefix key root \<noteq> [] \<and> (\<exists>p \<in> set ps. path_matches (without_root_prefix key root) p))"
proof (cases "list_ex (path_matches key) ps")
  case True
  then show ?thesis by (auto simp: selects_def list_ex_iff)
next
  case False
  let ?s = "without_root_prefix key root"
  have unanchored: "p \<in> set (anchored_patterns ps)" if "p \<in> set ps" "path_matches ?s p" for p
    using that False unanchored_selects in_anchored by (metis list_ex_iff)
  have anchored: "p \<in> set ps" if "p \<in> set (anchored_patterns ps)" for p
    using that in_anchored by blast
  have rootless: "\<not> path_matches ?s p" if "p \<in> set ps" "root = None \<or> root = Some []" for p
    using that False by (simp add: without_root_none same_segments list_ex_iff)
  have same: "\<not> path_matches ?s p" if "p \<in> set ps" "?s = key" for p
    using that False by (simp add: list_ex_iff)
  have "selects (Some ps) key root \<longleftrightarrow> \<not> (root = None \<or> root = Some []) \<and> ?s \<noteq> key \<and> ?s \<noteq> [] \<and> list_ex (path_matches ?s) (anchored_patterns ps)"
    using False by (auto simp: selects_def Let_def anchored_patterns_def)
  also have "\<dots> \<longleftrightarrow> ?s \<noteq> [] \<and> (\<exists>p \<in> set ps. path_matches ?s p)"
    using unanchored anchored rootless same unfolding list_ex_iff by metis
  finally show ?thesis using False by (auto simp: list_ex_iff)
qed

section \<open>Rule identifiers\<close>

lemma digits_upper: "list_all is_digit d \<Longrightarrow> py_upper d = d"
  by (induction d) (auto simp: py_upper_def upper_char_def is_digit_def Let_def)

lemma digit_not_space: "is_digit c \<Longrightarrow> \<not> is_space c"
  by (simp add: is_digit_def is_space_def Let_def)

lemma rule_id_fixed:
  assumes "py_isdigit d"
  shows "normalize_rule_id (''CWE-'' @ d) = Some (''CWE-'' @ d)"
proof -
  have d: "list_all is_digit d" "d \<noteq> []" using assms by (auto simp: py_isdigit_def)
  then have "\<not> is_space (last d)" by (auto simp: list_all_iff digit_not_space)
  then have "py_strip (''CWE-'' @ d) = ''CWE-'' @ d"
    using d by (cases d rule: rev_cases) (auto simp: py_strip_def py_lstrip_def py_rstrip_def is_space_def Let_def code_of_bits)
  moreover have "py_upper (''CWE-'' @ d) = ''CWE-'' @ d"
    using digits_upper [OF d(1)] by (simp add: py_upper_def upper_char_def Let_def code_of_bits)
  ultimately show ?thesis using assms by (simp add: normalize_rule_id_def Let_def)
qed

lemma rule_id_shape: "normalize_rule_id s = Some c \<Longrightarrow> \<exists>d. c = ''CWE-'' @ d \<and> py_isdigit d"
  by (simp add: normalize_rule_id_def Let_def startswith_prefix prefix_def split: if_splits) (metis append_Cons append_Nil drop_append)+

text \<open>A rule identifier is brought to one spelling, and that spelling is kept.\<close>
theorem rule_id_idempotent: "normalize_rule_id s = Some c \<Longrightarrow> normalize_rule_id c = Some c"
  using rule_id_shape rule_id_fixed by blast

theorem rule_id_idempotent_witness:
  "normalize_rule_id '' cwe79 '' = Some ''CWE-79'' \<and> normalize_rule_id ''CWE-79'' = Some ''CWE-79''"
proof -
  have "normalize_rule_id '' cwe79 '' = Some ''CWE-79''" by code_simp
  with rule_id_idempotent [OF this] show ?thesis by simp
qed

section \<open>What is read from a file\<close>

fun entry_id :: "yaml \<times> yaml \<Rightarrow> string option" where
  "entry_id (rid, settings) = normalize_rule_id (yaml_text rid)"

fun entry_patterns :: "yaml \<times> yaml \<Rightarrow> config_error + string list" where
  "entry_patterns (rid, YMap m) = string_list (map_of m (YStr ''exclude'')) (''rules.'' @ yaml_text rid @ ''.exclude'')"
| "entry_patterns (rid, _) = Inl (Rule_Not_Mapping rid)"

lemma read_rules_step:
  "read_rules (e # rest) acc = Inr ex \<Longrightarrow>
     \<exists>cwe ps. entry_id e = Some cwe \<and> entry_patterns e = Inr ps \<and> read_rules rest (AList.update cwe ps acc) = Inr ex"
  by (cases e) (auto simp: res_bind_Inr_iff split: option.splits yaml.splits)

lemma read_rules_exact:
  "read_rules rs acc = Inr ex \<Longrightarrow>
     map_of ex cwe = (case find (\<lambda>e. entry_id e = Some cwe) (rev rs) of
                        None \<Rightarrow> map_of acc cwe
                      | Some e \<Rightarrow> (case entry_patterns e of Inr ps \<Rightarrow> Some ps | Inl _ \<Rightarrow> None))"
proof (induction rs arbitrary: acc)
  case (Cons e rest)
  then obtain c ps where step: "entry_id e = Some c" "entry_patterns e = Inr ps" "read_rules rest (AList.update c ps acc) = Inr ex"
    using read_rules_step by blast
  show ?case
    using Cons.IH [OF step(3)] step by (auto simp: find_in_append update_conv' split: option.splits)
qed simp

definition written_paths :: "yaml \<Rightarrow> yaml list" where
  "written_paths v = (case v of YMap m \<Rightarrow> (case map_of m (YStr ''exclude_paths'') of Some (YList ys) \<Rightarrow> ys | _ \<Rightarrow> []) | _ \<Rightarrow> [])"

definition written_rules :: "yaml \<Rightarrow> (yaml \<times> yaml) list" where
  "written_rules v = (case v of YMap m \<Rightarrow> (case map_of m (YStr ''rules'') of Some (YMap rs) \<Rightarrow> rs | _ \<Rightarrow> []) | _ \<Rightarrow> [])"

lemma all_strings_Some: "all_strings ys = Some ss \<longleftrightarrow> ys = map YStr ss"
proof (induction ys arbitrary: ss)
  case (Cons y ys)
  then show ?case by (cases y; cases ss) auto
qed auto

lemma string_list_Inr:
  "string_list x key = Inr ss \<Longrightarrow> \<exists>ys. (case x of Some (YList ys) \<Rightarrow> ys | _ \<Rightarrow> []) = map YStr ys \<and> ss = filter (\<lambda>s. py_strip s \<noteq> []) ys"
  by (auto simp: string_list_def all_strings_Some split: option.splits yaml.splits)

lemma parse_shape:
  assumes "parse_tcs_config v = Inr cfg"
  obtains m where "v = YNull \<or> v = YMap m" and "v = YNull \<Longrightarrow> m = []"
    and "reject_unknown [''exclude_paths'', ''rules''] Unknown_Keys m = Inr ()"
    and "string_list (map_of m (YStr ''exclude_paths'')) ''exclude_paths'' = Inr (exclude_paths cfg)"
    and "read_rules (written_rules v) [] = Inr (rule_excludes cfg)"
proof -
  obtain m where m: "(if v = YNull then YMap [] else v) = YMap m"
    using assms by (auto simp: parse_tcs_config_def split: yaml.splits)
  have "res_bind (reject_unknown [''exclude_paths'', ''rules''] Unknown_Keys m) (\<lambda>_.
          res_bind (string_list (map_of m (YStr ''exclude_paths'')) ''exclude_paths'') (\<lambda>paths.
            case rules_section m of
              YMap rules \<Rightarrow> res_bind (read_rules rules []) (\<lambda>ex. Inr \<lparr>exclude_paths = paths, rule_excludes = ex\<rparr>)
            | _ \<Rightarrow> Inl Rules_Not_Mapping)) = Inr cfg"
    using assms by (simp add: parse_tcs_config_def m)
  then obtain rules where rules: "reject_unknown [''exclude_paths'', ''rules''] Unknown_Keys m = Inr ()"
    "string_list (map_of m (YStr ''exclude_paths'')) ''exclude_paths'' = Inr (exclude_paths cfg)"
    "rules_section m = YMap rules" "read_rules rules [] = Inr (rule_excludes cfg)"
    by (cases "rules_section m") (auto simp: res_bind_Inr_iff)
  have "written_rules v = rules"
    using rules(3) m by (auto simp: written_rules_def rules_section_def split: option.splits if_splits yaml.splits)
  with m rules show thesis by (intro that [of m]) (auto split: if_splits)
qed

text \<open>The exclusions of a file that is accepted are the texts of its lists that are not blank; of two entries of one rule
  the last one counts.\<close>
theorem exclusions_read_exactly:
  assumes "parse_tcs_config v = Inr cfg"
  shows "map YStr (exclude_paths cfg) = filter (\<lambda>y. py_strip (yaml_text y) \<noteq> []) (written_paths v)
    \<and> map_of (rule_excludes cfg) cwe =
        (case find (\<lambda>e. entry_id e = Some cwe) (rev (written_rules v)) of
           None \<Rightarrow> None
         | Some e \<Rightarrow> (case entry_patterns e of Inr ps \<Rightarrow> Some ps | Inl _ \<Rightarrow> None))"
proof -
  obtain m where m: "v = YNull \<or> v = YMap m" "v = YNull \<Longrightarrow> m = []"
    "string_list (map_of m (YStr ''exclude_paths'')) ''exclude_paths'' = Inr (exclude_paths cfg)"
    "read_rules (written_rules v) [] = Inr (rule_excludes cfg)"
    using parse_shape [OF assms] by blast
  have "written_paths v = (case map_of m (YStr ''exclude_paths'') of Some (YList ys) \<Rightarrow> ys | _ \<Rightarrow> [])"
    using m(1,2) by (auto simp: written_paths_def)
  then obtain ys where "written_paths v = map YStr ys" "exclude_paths cfg = filter (\<lambda>s. py_strip s \<noteq> []) ys"
    using string_list_Inr [OF m(3)] by metis
  then have "map YStr (exclude_paths cfg) = filter (\<lambda>y. py_strip (yaml_text y) \<noteq> []) (written_paths v)"
    by (simp add: filter_map comp_def)
  moreover have "map_of (rule_excludes cfg) cwe =
      (case find (\<lambda>e. entry_id e = Some cwe) (rev (written_rules v)) of
         None \<Rightarrow> None
       | Some e \<Rightarrow> (case entry_patterns e of Inr ps \<Rightarrow> Some ps | Inl _ \<Rightarrow> None))"
    unfolding read_rules_exact [OF m(4), of cwe] by (simp split: option.splits)
  ultimately show ?thesis ..
qed

definition known_entry :: "yaml \<times> yaml \<Rightarrow> bool" where
  "known_entry e = (entry_id e \<noteq> None \<and> \<not> isl (entry_patterns e) \<and> (case snd e of YMap m \<Rightarrow> unknown_keys [''exclude''] m = [] | _ \<Rightarrow> False))"

lemma reject_unknown_Inr: "reject_unknown allowed e m = Inr u \<longleftrightarrow> unknown_keys allowed m = []"
  by (auto simp: reject_unknown_def Let_def sortable_def)

lemma read_rules_known: "read_rules rs acc = Inr ex \<Longrightarrow> list_all known_entry rs"
proof (induction rs arbitrary: acc)
  case (Cons e rest)
  obtain rid settings where e: "e = (rid, settings)" by (cases e)
  then obtain m where m: "settings = YMap m"
    using Cons.prems by (auto split: option.splits yaml.splits)
  have "known_entry e"
    using Cons.prems by (auto simp: e m known_entry_def res_bind_Inr_iff reject_unknown_Inr split: option.splits)
  moreover have "list_all known_entry rest"
    using read_rules_step [OF Cons.prems] Cons.IH by blast
  ultimately show ?case by simp
qed simp

text \<open>A file with a key that is not known, with a rule that is no CWE, or with a list of anything but texts is not
  accepted.\<close>
theorem typos_rejected:
  assumes "parse_tcs_config v = Inr cfg"
  shows "(case v of YNull \<Rightarrow> True | YMap m \<Rightarrow> unknown_keys [''exclude_paths'', ''rules''] m = [] | _ \<Rightarrow> False)
    \<and> list_all known_entry (written_rules v)"
proof (rule parse_shape [OF assms])
  fix m
  assume "v = YNull \<or> v = YMap m" "reject_unknown [''exclude_paths'', ''rules''] Unknown_Keys m = Inr ()"
    "read_rules (written_rules v) [] = Inr (rule_excludes cfg)"
  then show ?thesis using read_rules_known by (auto simp: reject_unknown_Inr)
qed

section \<open>A file, and three that are not read as they are written\<close>

definition one_rule :: "yaml \<Rightarrow> string \<Rightarrow> yaml \<times> yaml" where
  "one_rule rid p = (rid, YMap [(YStr ''exclude'', YList [YStr p])])"

definition arena_file :: yaml where
  "arena_file = YMap [(YStr ''exclude_paths'', YList [YStr ''docs/**'', YStr '' '']), (YStr ''rules'', YMap [one_rule (YInt 338) ''**/demo/**''])]"

definition arena_config :: tcs_config where
  "arena_config = \<lparr>exclude_paths = [''docs/**''], rule_excludes = [(''CWE-338'', [''**/demo/**''])]\<rparr>"

lemma arena_read: "parse_tcs_config arena_file = Inr arena_config"
  by code_simp

theorem exclusions_read_exactly_witness:
  "map YStr (exclude_paths arena_config) = [YStr ''docs/**''] \<and> map_of (rule_excludes arena_config) ''CWE-338'' = Some [''**/demo/**'']"
proof -
  have "filter (\<lambda>y. py_strip (yaml_text y) \<noteq> []) (written_paths arena_file) = [YStr ''docs/**'']" by code_simp
  moreover have "(case find (\<lambda>e. entry_id e = Some ''CWE-338'') (rev (written_rules arena_file)) of
           None \<Rightarrow> None
         | Some e \<Rightarrow> (case entry_patterns e of Inr ps \<Rightarrow> Some ps | Inl _ \<Rightarrow> None)) = Some [''**/demo/**'']" by code_simp
  ultimately show ?thesis using exclusions_read_exactly [OF arena_read, of "''CWE-338''"] by metis
qed

theorem typos_rejected_witness: "list_all known_entry (written_rules arena_file) \<and> length (written_rules arena_file) = 1"
proof -
  have "length (written_rules arena_file) = 1" by code_simp
  with typos_rejected [OF arena_read] show ?thesis by blast
qed

lemma exclusions_applied:
  "excludes_path arena_config ''arena/docs/a.md'' (Some ''arena'') \<and> \<not> excludes_path arena_config ''arena/docs/a.md'' None
   \<and> rule_excluded arena_config ''cwe-338'' ''x/demo/y/z.py'' None"
  by code_simp

text \<open>A rule that is written in two ways keeps the exclusions of the second entry only, without an error.\<close>
theorem rule_written_twice:
  "parse_tcs_config (YMap [(YStr ''rules'', YMap [one_rule (YStr ''CWE-338'') ''tests/**'', one_rule (YInt 338) ''docs/**''])])
     = Inr \<lparr>exclude_paths = [], rule_excludes = [(''CWE-338'', [''docs/**''])]\<rparr>"
  by code_simp

text \<open>A rule with a leading zero is accepted and never applies.\<close>
theorem zero_padded_rule:
  "parse_tcs_config (YMap [(YStr ''rules'', YMap [one_rule (YStr ''CWE-022'') ''**'' ])])
     = Inr \<lparr>exclude_paths = [], rule_excludes = [(''CWE-022'', [''**''])]\<rparr>
   \<and> \<not> rule_excluded \<lparr>exclude_paths = [], rule_excludes = [(''CWE-022'', [''**''])]\<rparr> ''CWE-22'' ''a.py'' None"
  by code_simp

text \<open>Two unknown keys of different types end in a \<open>TypeError\<close>, which the command line does not catch.\<close>
theorem keys_of_two_types:
  "parse_tcs_config (YMap [(YStr ''exclude'', YNull), (YInt 22, YNull)]) = Inl Unsortable_Keys"
  by code_simp

end
