(* ===== verification/Config_File.thy ===== *)
theory Config_File
  imports Yaml_Doc
begin

text \<open>
  \<open>config_loader.py\<close>: the settings of \<open>.tcs.yml\<close>, their validation against the schema, and which rules they leave
  active. The YAML parser and the file system are arguments.
\<close>

section \<open>Settings\<close>

record rules_config =
  rules_enabled :: "string set"
  rules_disabled :: "string set"

record scan_config =
  scan_sca :: bool
  scan_secrets :: bool

record suppression_config =
  suppression_enabled :: bool

record output_config =
  output_format :: string

record settings =
  cfg_version :: int
  cfg_rules :: rules_config
  cfg_scan :: scan_config
  cfg_suppression :: suppression_config
  cfg_output :: output_config
  config_path :: "string option"

definition supported_rules :: "string set" where
  "supported_rules = {''CWE-22'', ''CWE-78'', ''CWE-89'', ''CWE-95'', ''CWE-502'', ''CWE-1336''}"

definition supported_formats :: "string set" where
  "supported_formats = {''table'', ''json'', ''sarif''}"

definition supported_version :: int where
  "supported_version = 1"

definition effective_rules :: "settings \<Rightarrow> string set" where
  "effective_rules cfg =
     (if rules_enabled (cfg_rules cfg) \<noteq> {} then rules_enabled (cfg_rules cfg) else supported_rules) - rules_disabled (cfg_rules cfg)"

definition is_rule_enabled :: "settings \<Rightarrow> string \<Rightarrow> bool" where
  "is_rule_enabled cfg cwe =
     (if rules_enabled (cfg_rules cfg) = {} \<and> rules_disabled (cfg_rules cfg) = {} then True
      else py_upper (py_strip cwe) \<in> effective_rules cfg)"

definition default_settings :: settings where
  "default_settings =
     \<lparr>cfg_version = supported_version, cfg_rules = \<lparr>rules_enabled = {}, rules_disabled = {}\<rparr>,
      cfg_scan = \<lparr>scan_sca = False, scan_secrets = False\<rparr>, cfg_suppression = \<lparr>suppression_enabled = True\<rparr>,
      cfg_output = \<lparr>output_format = ''table''\<rparr>, config_path = None\<rparr>"

section \<open>Validation\<close>

datatype settings_error =
    Parser_Missing
  | Malformed
  | Empty_Document
  | Root_Not_Mapping string
  | Unknown_Setting string "string list"
  | Missing_Version
  | Unsupported_Version yaml
  | Section_Not_Mapping string string
  | Rules_Not_List string string
  | Rule_Not_Text string string
  | Unknown_Rule string string
  | Contradictory "string set"
  | Not_Boolean string string
  | Invalid_Format yaml
  | Not_Found string
  | Unreadable string
  | Incomparable_Keys  \<comment> \<open>a \<open>TypeError\<close>; every other one is a \<open>ConfigValidationError\<close>\<close>

definition check_keys :: "string \<Rightarrow> string list \<Rightarrow> (yaml \<times> yaml) list \<Rightarrow> settings_error + unit" where
  "check_keys place allowed m =
     (let ks = unknown_keys allowed m in
      if ks = [] then Inr () else if \<not> sortable ks then Inl Incomparable_Keys else Inl (Unknown_Setting place (map yaml_text ks)))"

definition section_of :: "string \<Rightarrow> (yaml \<times> yaml) list \<Rightarrow> settings_error + (yaml \<times> yaml) list" where
  "section_of name m =
     (case map_of m (YStr name) of
        None \<Rightarrow> Inr []
      | Some YNull \<Rightarrow> Inr []
      | Some (YMap x) \<Rightarrow> Inr x
      | Some v \<Rightarrow> Inl (Section_Not_Mapping name (yaml_type v)))"

fun rule_items :: "string \<Rightarrow> yaml list \<Rightarrow> string set \<Rightarrow> settings_error + string set" where
  "rule_items place [] acc = Inr acc"
| "rule_items place (YStr s # items) acc =
     (let norm = py_upper (py_strip s) in
      if norm \<notin> supported_rules then Inl (Unknown_Rule place s) else rule_items place items (insert norm acc))"
| "rule_items place (y # items) acc = Inl (Rule_Not_Text place (yaml_type y))"

definition rule_set :: "string \<Rightarrow> string \<Rightarrow> (yaml \<times> yaml) list \<Rightarrow> settings_error + string set" where
  "rule_set place key m =
     (case map_of m (YStr key) of
        None \<Rightarrow> rule_items place [] {}
      | Some YNull \<Rightarrow> rule_items place [] {}
      | Some (YList ys) \<Rightarrow> rule_items place ys {}
      | Some v \<Rightarrow> Inl (Rules_Not_List place (yaml_type v)))"

definition bool_setting :: "string \<Rightarrow> string \<Rightarrow> bool \<Rightarrow> (yaml \<times> yaml) list \<Rightarrow> settings_error + bool" where
  "bool_setting place key default_value m =
     (case map_of m (YStr key) of
        None \<Rightarrow> Inr default_value
      | Some (YBool b) \<Rightarrow> Inr b
      | Some v \<Rightarrow> Inl (Not_Boolean place (yaml_type v)))"

definition format_setting :: "(yaml \<times> yaml) list \<Rightarrow> settings_error + string" where
  "format_setting m =
     (case map_of m (YStr ''format'') of
        None \<Rightarrow> Inr ''table''
      | Some (YStr s) \<Rightarrow> if py_lower s \<notin> supported_formats then Inl (Invalid_Format (YStr s)) else Inr (py_lower s)
      | Some v \<Rightarrow> Inl (Invalid_Format v))"

definition version_setting :: "(yaml \<times> yaml) list \<Rightarrow> settings_error + int" where
  "version_setting m =
     (case map_of m (YStr ''version'') of
        None \<Rightarrow> Inl Missing_Version
      | Some (YInt i) \<Rightarrow> if i \<noteq> supported_version then Inl (Unsupported_Version (YInt i)) else Inr i
      | Some v \<Rightarrow> Inl (Unsupported_Version v))"

definition rules_of :: "(yaml \<times> yaml) list \<Rightarrow> settings_error + rules_config" where
  "rules_of m =
     res_bind (section_of ''rules'' m) (\<lambda>r.
     res_bind (check_keys ''rules'' [''enabled'', ''disabled''] r) (\<lambda>_.
     res_bind (rule_set ''rules.enabled'' ''enabled'' r) (\<lambda>en.
     res_bind (rule_set ''rules.disabled'' ''disabled'' r) (\<lambda>dis.
       if en \<inter> dis \<noteq> {} then Inl (Contradictory (en \<inter> dis)) else Inr \<lparr>rules_enabled = en, rules_disabled = dis\<rparr>))))"

definition scan_of :: "(yaml \<times> yaml) list \<Rightarrow> settings_error + scan_config" where
  "scan_of m =
     res_bind (section_of ''scan'' m) (\<lambda>s.
     res_bind (check_keys ''scan'' [''sca'', ''secrets''] s) (\<lambda>_.
     res_bind (bool_setting ''scan.sca'' ''sca'' False s) (\<lambda>sca.
     res_bind (bool_setting ''scan.secrets'' ''secrets'' False s) (\<lambda>secrets.
       Inr \<lparr>scan_sca = sca, scan_secrets = secrets\<rparr>))))"

definition suppression_of :: "(yaml \<times> yaml) list \<Rightarrow> settings_error + suppression_config" where
  "suppression_of m =
     res_bind (section_of ''suppression'' m) (\<lambda>s.
     res_bind (check_keys ''suppression'' [''enabled''] s) (\<lambda>_.
     res_bind (bool_setting ''suppression.enabled'' ''enabled'' True s) (\<lambda>on.
       Inr \<lparr>suppression_enabled = on\<rparr>)))"

definition output_of :: "(yaml \<times> yaml) list \<Rightarrow> settings_error + output_config" where
  "output_of m =
     res_bind (section_of ''output'' m) (\<lambda>s.
     res_bind (check_keys ''output'' [''format''] s) (\<lambda>_.
     res_bind (format_setting s) (\<lambda>fmt. Inr \<lparr>output_format = fmt\<rparr>)))"

definition parse_document :: "string option \<Rightarrow> yaml \<Rightarrow> settings_error + settings" where
  "parse_document path v =
     (case v of
        YNull \<Rightarrow> Inl Empty_Document
      | YMap m \<Rightarrow>
          res_bind (check_keys ''top-level'' [''version'', ''rules'', ''scan'', ''suppression'', ''output''] m) (\<lambda>_.
          res_bind (version_setting m) (\<lambda>ver.
          res_bind (rules_of m) (\<lambda>rules.
          res_bind (scan_of m) (\<lambda>scan.
          res_bind (suppression_of m) (\<lambda>supp.
          res_bind (output_of m) (\<lambda>out.
            Inr \<lparr>cfg_version = ver, cfg_rules = rules, cfg_scan = scan, cfg_suppression = supp, cfg_output = out, config_path = path\<rparr>))))))
      | _ \<Rightarrow> Inl (Root_Not_Mapping (yaml_type v)))"

text \<open>\<open>parser\<close> is \<open>None\<close> where PyYAML is not installed; it yields \<open>None\<close> for a text that it rejects.\<close>

definition parse_config :: "(string \<Rightarrow> yaml option) option \<Rightarrow> string \<Rightarrow> string option \<Rightarrow> settings_error + settings" where
  "parse_config parser raw path =
     (case parser of
        None \<Rightarrow> Inl Parser_Missing
      | Some parse \<Rightarrow> (case parse raw of None \<Rightarrow> Inl Malformed | Some v \<Rightarrow> parse_document path v))"

section \<open>Loading\<close>

text \<open>The file at a path: missing, not readable as UTF-8, or its text.\<close>

datatype file_at = Missing | Undecodable | Contents string

text \<open>\<open>resolve\<close> is \<open>Path(expanduser(p)).resolve()\<close>; \<open>base\<close> is the resolved directory that is looked into.\<close>

definition load_config ::
  "(string \<Rightarrow> yaml option) option \<Rightarrow> (string \<Rightarrow> string) \<Rightarrow> (string \<Rightarrow> file_at) \<Rightarrow> string option \<Rightarrow> string \<Rightarrow> settings_error + settings" where
  "load_config parser resolve disk path base =
     (case path of
        Some p \<Rightarrow>
          (case disk (resolve p) of
             Missing \<Rightarrow> Inl (Not_Found p)
           | Undecodable \<Rightarrow> Inl (Unreadable p)
           | Contents s \<Rightarrow> parse_config parser s (Some (resolve p)))
      | None \<Rightarrow>
          (let f = base @ ''/.tcs.yml'' in
           case disk f of
             Missing \<Rightarrow> Inr default_settings
           | Undecodable \<Rightarrow> Inl (Unreadable f)
           | Contents s \<Rightarrow> parse_config parser s (Some f)))"

section \<open>What an accepted file says\<close>

definition valid_settings :: "settings \<Rightarrow> bool" where
  "valid_settings cfg =
     (cfg_version cfg = supported_version \<and> output_format (cfg_output cfg) \<in> supported_formats
      \<and> rules_enabled (cfg_rules cfg) \<subseteq> supported_rules \<and> rules_disabled (cfg_rules cfg) \<subseteq> supported_rules
      \<and> rules_enabled (cfg_rules cfg) \<inter> rules_disabled (cfg_rules cfg) = {})"

definition rule_ok :: "yaml \<Rightarrow> bool" where
  "rule_ok y = (case y of YStr s \<Rightarrow> py_upper (py_strip s) \<in> supported_rules | _ \<Rightarrow> False)"

definition rule_name :: "yaml \<Rightarrow> string" where
  "rule_name y = py_upper (py_strip (yaml_text y))"

lemma rule_items_exact: "rule_items place ys acc = Inr rs \<longleftrightarrow> list_all rule_ok ys \<and> rs = acc \<union> rule_name ` set ys"
  by (induction place ys acc rule: rule_items.induct) (auto simp: Let_def rule_ok_def rule_name_def)

lemma rule_names_supported: "list_all rule_ok ys \<Longrightarrow> rule_name ` set ys \<subseteq> supported_rules"
proof (induction ys)
  case (Cons y ys)
  then show ?case by (cases y) (auto simp: rule_ok_def rule_name_def)
qed simp

lemma rule_set_supported: "rule_set place key m = Inr rs \<Longrightarrow> rs \<subseteq> supported_rules"
  using rule_names_supported by (fastforce simp: rule_set_def rule_items_exact split: option.splits yaml.splits)

lemma rules_of_valid:
  "rules_of m = Inr r \<Longrightarrow> rules_enabled r \<subseteq> supported_rules \<and> rules_disabled r \<subseteq> supported_rules \<and> rules_enabled r \<inter> rules_disabled r = {}"
proof -
  assume "rules_of m = Inr r"
  then obtain s en dis where "rule_set ''rules.enabled'' ''enabled'' s = Inr en" "rule_set ''rules.disabled'' ''disabled'' s = Inr dis"
    and r: "(if en \<inter> dis \<noteq> {} then Inl (Contradictory (en \<inter> dis)) else Inr \<lparr>rules_enabled = en, rules_disabled = dis\<rparr>) = Inr r"
    unfolding rules_of_def res_bind_Inr_iff by blast
  then have "en \<subseteq> supported_rules" "dis \<subseteq> supported_rules" by (blast dest: rule_set_supported)+
  then show ?thesis using r by (cases "en \<inter> dis = {}") auto
qed

lemma version_valid: "version_setting m = Inr i \<Longrightarrow> i = supported_version"
  by (auto simp: version_setting_def split: option.splits yaml.splits if_splits)

lemma table_supported: "''table'' \<in> supported_formats"
  by (simp add: supported_formats_def)

lemma format_valid: "format_setting s = Inr f \<Longrightarrow> f \<in> supported_formats"
  using table_supported by (auto simp: format_setting_def split: option.splits yaml.splits if_splits)

lemma output_valid: "output_of m = Inr out \<Longrightarrow> output_format out \<in> supported_formats"
  unfolding output_of_def res_bind_Inr_iff using format_valid by fastforce

lemma document_valid: "parse_document path v = Inr cfg \<Longrightarrow> valid_settings cfg"
proof -
  assume doc: "parse_document path v = Inr cfg"
  obtain m where m: "v = YMap m"
  proof (cases v)
    case (YMap m)
    then show thesis by (rule that)
  qed (use doc in \<open>simp_all add: parse_document_def\<close>)
  obtain ver rules scan supp out where "version_setting m = Inr ver" "rules_of m = Inr rules" "output_of m = Inr out"
    "Inr \<lparr>cfg_version = ver, cfg_rules = rules, cfg_scan = scan, cfg_suppression = supp, cfg_output = out, config_path = path\<rparr> = (Inr cfg :: settings_error + settings)"
    using doc unfolding parse_document_def m yaml.case res_bind_Inr_iff by blast
  then show ?thesis using version_valid [of m] rules_of_valid [of m] output_valid [of m] by (auto simp: valid_settings_def)
qed

lemma default_valid: "valid_settings default_settings"
  by (simp add: valid_settings_def default_settings_def supported_formats_def)

text \<open>Settings that are loaded are valid: the one version, a known format, known rules, none of them enabled and disabled.\<close>
theorem loaded_settings_valid: "load_config parser resolve disk path base = Inr cfg \<Longrightarrow> valid_settings cfg"
  by (auto simp: load_config_def parse_config_def Let_def default_valid split: option.splits file_at.splits dest: document_valid)

text \<open>The value of a setting in a document, where its section is a mapping.\<close>

definition written_setting :: "string \<Rightarrow> string \<Rightarrow> (yaml \<times> yaml) list \<Rightarrow> yaml option" where
  "written_setting name key m = (case map_of m (YStr name) of Some (YMap s) \<Rightarrow> map_of s (YStr key) | _ \<Rightarrow> None)"

definition section_ok :: "string \<Rightarrow> string list \<Rightarrow> (yaml \<times> yaml) list \<Rightarrow> bool" where
  "section_ok name allowed m =
     (case map_of m (YStr name) of None \<Rightarrow> True | Some YNull \<Rightarrow> True | Some (YMap s) \<Rightarrow> unknown_keys allowed s = [] | _ \<Rightarrow> False)"

definition bool_ok :: "yaml option \<Rightarrow> bool" where
  "bool_ok x = (case x of None \<Rightarrow> True | Some (YBool b) \<Rightarrow> True | _ \<Rightarrow> False)"

definition rules_ok :: "yaml option \<Rightarrow> bool" where
  "rules_ok x = (case x of None \<Rightarrow> True | Some YNull \<Rightarrow> True | Some (YList ys) \<Rightarrow> list_all rule_ok ys | _ \<Rightarrow> False)"

definition rule_names :: "yaml option \<Rightarrow> string set" where
  "rule_names x = (case x of Some (YList ys) \<Rightarrow> rule_name ` set ys | _ \<Rightarrow> {})"

definition format_ok :: "yaml option \<Rightarrow> bool" where
  "format_ok x = (case x of None \<Rightarrow> True | Some (YStr s) \<Rightarrow> py_lower s \<in> supported_formats | _ \<Rightarrow> False)"

definition valid_document :: "(yaml \<times> yaml) list \<Rightarrow> bool" where
  "valid_document m =
     (unknown_keys [''version'', ''rules'', ''scan'', ''suppression'', ''output''] m = [] \<and> map_of m (YStr ''version'') = Some (YInt supported_version)
      \<and> section_ok ''rules'' [''enabled'', ''disabled''] m \<and> section_ok ''scan'' [''sca'', ''secrets''] m
      \<and> section_ok ''suppression'' [''enabled''] m \<and> section_ok ''output'' [''format''] m
      \<and> rules_ok (written_setting ''rules'' ''enabled'' m) \<and> rules_ok (written_setting ''rules'' ''disabled'' m)
      \<and> rule_names (written_setting ''rules'' ''enabled'' m) \<inter> rule_names (written_setting ''rules'' ''disabled'' m) = {}
      \<and> bool_ok (written_setting ''scan'' ''sca'' m) \<and> bool_ok (written_setting ''scan'' ''secrets'' m)
      \<and> bool_ok (written_setting ''suppression'' ''enabled'' m) \<and> format_ok (written_setting ''output'' ''format'' m))"

lemma check_keys_Inr: "check_keys place allowed m = Inr u \<longleftrightarrow> unknown_keys allowed m = []"
  by (auto simp: check_keys_def Let_def)

lemma section_checked:
  "section_of name m = Inr s \<and> check_keys place allowed s = Inr u \<longleftrightarrow>
     section_ok name allowed m \<and> s = (case map_of m (YStr name) of Some (YMap x) \<Rightarrow> x | _ \<Rightarrow> [])"
  by (auto simp: section_of_def section_ok_def check_keys_Inr unknown_keys_def split: option.splits yaml.splits)

lemma written_in: "map_of (case map_of m (YStr name) of Some (YMap x) \<Rightarrow> x | _ \<Rightarrow> []) (YStr key) = written_setting name key m"
  by (auto simp: written_setting_def split: option.splits yaml.splits)

lemma rule_set_ok: "rule_set place key s = Inr rs \<longleftrightarrow> rules_ok (map_of s (YStr key)) \<and> rs = rule_names (map_of s (YStr key))"
  by (auto simp: rule_set_def rules_ok_def rule_names_def rule_items_exact split: option.splits yaml.splits)

lemma bool_setting_ok: "(\<exists>b. bool_setting place key d s = Inr b) \<longleftrightarrow> bool_ok (map_of s (YStr key))"
  by (auto simp: bool_setting_def bool_ok_def split: option.splits yaml.splits)

lemma format_setting_ok: "(\<exists>f. format_setting s = Inr f) \<longleftrightarrow> format_ok (map_of s (YStr ''format''))"
  by (auto simp: format_setting_def format_ok_def split: option.splits yaml.splits)

lemma version_setting_ok: "(\<exists>i. version_setting m = Inr i) \<longleftrightarrow> map_of m (YStr ''version'') = Some (YInt supported_version)"
  by (auto simp: version_setting_def split: option.splits yaml.splits)

lemma in_section:
  "(\<exists>x. res_bind (section_of name m) (\<lambda>s. res_bind (check_keys place allowed s) (\<lambda>_. f s)) = Inr x) \<longleftrightarrow>
     section_ok name allowed m \<and> (\<exists>x. f (case map_of m (YStr name) of Some (YMap s) \<Rightarrow> s | _ \<Rightarrow> []) = Inr x)"
proof -
  have "(\<exists>x. res_bind (section_of name m) (\<lambda>s. res_bind (check_keys place allowed s) (\<lambda>_. f s)) = Inr x) \<longleftrightarrow>
      (\<exists>s x. (section_of name m = Inr s \<and> check_keys place allowed s = Inr ()) \<and> f s = Inr x)"
    unfolding res_bind_Inr_iff by (metis old.unit.exhaust)
  then show ?thesis unfolding section_checked by simp
qed

lemma rules_of_ok:
  "(\<exists>r. rules_of m = Inr r) \<longleftrightarrow>
     section_ok ''rules'' [''enabled'', ''disabled''] m \<and> rules_ok (written_setting ''rules'' ''enabled'' m) \<and> rules_ok (written_setting ''rules'' ''disabled'' m)
     \<and> rule_names (written_setting ''rules'' ''enabled'' m) \<inter> rule_names (written_setting ''rules'' ''disabled'' m) = {}"
  unfolding rules_of_def in_section by (auto simp: res_bind_Inr_iff rule_set_ok written_in)

lemma scan_of_ok:
  "(\<exists>r. scan_of m = Inr r) \<longleftrightarrow> section_ok ''scan'' [''sca'', ''secrets''] m \<and> bool_ok (written_setting ''scan'' ''sca'' m) \<and> bool_ok (written_setting ''scan'' ''secrets'' m)"
  unfolding scan_of_def in_section
  using bool_setting_ok [of _ "''sca''" False] bool_setting_ok [of _ "''secrets''" False]
  by (simp add: res_bind_Inr_iff flip: written_in) blast

lemma suppression_of_ok:
  "(\<exists>r. suppression_of m = Inr r) \<longleftrightarrow> section_ok ''suppression'' [''enabled''] m \<and> bool_ok (written_setting ''suppression'' ''enabled'' m)"
  unfolding suppression_of_def in_section by (simp add: res_bind_Inr_iff bool_setting_ok written_in)

lemma output_of_ok:
  "(\<exists>r. output_of m = Inr r) \<longleftrightarrow> section_ok ''output'' [''format''] m \<and> format_ok (written_setting ''output'' ''format'' m)"
  unfolding output_of_def in_section by (simp add: res_bind_Inr_iff format_setting_ok written_in)

text \<open>A document is accepted exactly when it follows the schema.\<close>
theorem document_accepted_iff: "(\<exists>cfg. parse_document path (YMap m) = Inr cfg) \<longleftrightarrow> valid_document m"
proof -
  have "(\<exists>cfg. parse_document path (YMap m) = Inr cfg) \<longleftrightarrow>
      unknown_keys [''version'', ''rules'', ''scan'', ''suppression'', ''output''] m = [] \<and> (\<exists>i. version_setting m = Inr i)
      \<and> (\<exists>r. rules_of m = Inr r) \<and> (\<exists>s. scan_of m = Inr s) \<and> (\<exists>s. suppression_of m = Inr s) \<and> (\<exists>out. output_of m = Inr out)"
    unfolding parse_document_def yaml.case res_bind_Inr_iff check_keys_Inr by blast
  then show ?thesis
    unfolding valid_document_def version_setting_ok rules_of_ok scan_of_ok suppression_of_ok output_of_ok by blast
qed

section \<open>Which rules run\<close>

text \<open>Where rules are enabled, exactly these run; where some are disabled, all the others of the supported ones.\<close>
theorem named_rules_run:
  assumes "parse_document path v = Inr cfg" and "rules_enabled (cfg_rules cfg) \<noteq> {}"
  shows "is_rule_enabled cfg cwe \<longleftrightarrow> py_upper (py_strip cwe) \<in> rules_enabled (cfg_rules cfg)"
  using document_valid [OF assms(1)] assms(2) by (auto simp: is_rule_enabled_def effective_rules_def valid_settings_def)

text \<open>Disabling one rule takes every rule out of the scan that is not one of the six of the schema.\<close>
theorem disabling_narrows:
  assumes "parse_document path v = Inr cfg" and "rules_disabled (cfg_rules cfg) \<noteq> {}"
  shows "is_rule_enabled cfg cwe \<longleftrightarrow>
    py_upper (py_strip cwe) \<in> (if rules_enabled (cfg_rules cfg) = {} then supported_rules else rules_enabled (cfg_rules cfg)) - rules_disabled (cfg_rules cfg)"
  using assms(2) by (simp add: is_rule_enabled_def effective_rules_def)

definition sample_document :: "yaml \<Rightarrow> (yaml \<times> yaml) list" where
  "sample_document v =
     [(YStr ''version'', YInt 1), (YStr ''rules'', YMap [(YStr ''enabled'', YList [YStr '' cwe-89 '']), (YStr ''disabled'', YList [v])]),
      (YStr ''output'', YMap [(YStr ''format'', YStr ''SARIF'')])]"

definition sample_settings :: settings where
  "sample_settings =
     \<lparr>cfg_version = 1, cfg_rules = \<lparr>rules_enabled = {''CWE-89''}, rules_disabled = {''CWE-22''}\<rparr>,
      cfg_scan = \<lparr>scan_sca = False, scan_secrets = False\<rparr>, cfg_suppression = \<lparr>suppression_enabled = True\<rparr>,
      cfg_output = \<lparr>output_format = ''sarif''\<rparr>, config_path = Some ''c.yml''\<rparr>"

lemma sample_read: "parse_document (Some ''c.yml'') (YMap (sample_document (YStr ''CWE-22''))) = Inr sample_settings"
  by code_simp

theorem loaded_settings_valid_witness: "valid_settings sample_settings"
proof (rule loaded_settings_valid)
  show "load_config (Some (\<lambda>_. Some (YMap (sample_document (YStr ''CWE-22''))))) id (\<lambda>_. Contents []) (Some ''c.yml'') ''.''
    = Inr sample_settings"
    by (simp add: load_config_def parse_config_def sample_read)
qed

theorem named_rules_run_witness: "is_rule_enabled sample_settings ''CWE-89'' \<and> \<not> is_rule_enabled sample_settings ''CWE-79''"
proof -
  have "rules_enabled (cfg_rules sample_settings) = {''CWE-89''}" by (simp add: sample_settings_def)
  with named_rules_run [OF sample_read, of "''CWE-89''"] named_rules_run [OF sample_read, of "''CWE-79''"]
  show ?thesis by (simp add: py_upper_def py_strip_def py_lstrip_def py_rstrip_def is_space_code upper_char_code)
qed

lemma contradiction_rejected:
  "parse_document None (YMap (sample_document (YStr ''CWE-89''))) = Inl (Contradictory {''CWE-89''})"
  by code_simp

text \<open>With no file all rules run, but the effective rules are six; a file that disables one of them stops the others.\<close>
theorem one_rule_disabled:
  "is_rule_enabled default_settings ''CWE-79'' \<and> effective_rules default_settings = supported_rules
   \<and> (\<exists>cfg. parse_document None (YMap [(YStr ''version'', YInt 1), (YStr ''rules'', YMap [(YStr ''disabled'', YList [YStr ''CWE-22''])])]) = Inr cfg
        \<and> \<not> is_rule_enabled cfg ''CWE-79'')"
proof -
  have "parse_document None (YMap [(YStr ''version'', YInt 1), (YStr ''rules'', YMap [(YStr ''disabled'', YList [YStr ''CWE-22''])])])
      = Inr (default_settings\<lparr>cfg_rules := \<lparr>rules_enabled = {}, rules_disabled = {''CWE-22''}\<rparr>\<rparr>)"
    by code_simp
  moreover have "\<not> is_rule_enabled (default_settings\<lparr>cfg_rules := \<lparr>rules_enabled = {}, rules_disabled = {''CWE-22''}\<rparr>\<rparr>) ''CWE-79''"
    by code_simp
  moreover have "is_rule_enabled default_settings ''CWE-79''" "effective_rules default_settings = supported_rules"
    by (simp_all add: is_rule_enabled_def effective_rules_def default_settings_def)
  ultimately show ?thesis by blast
qed

end
