(* ===== verification/Symbol_Index.thy ===== *)
theory Symbol_Index
  imports Py_Ast "HOL-Library.AList" "HOL-Library.Sublist"
begin

text \<open>
  \<open>symbol_indexer.py\<close>: the index of the modules of a project, their definitions and imports, and how the name a module
  uses is resolved to a definition of another. The file system, Python's parser and the worker pool are arguments; the
  counters and times that no decision reads are left out.
\<close>

section \<open>The index\<close>

type_synonym fpath = "string list"

record symbol_definition =
  sd_name :: string
  sd_kind :: string
  sd_file :: fpath
  sd_line :: nat
  sd_params :: "string list"

record import_binding =
  ib_alias :: string
  ib_module :: string
  ib_name :: string
  ib_line :: nat
  ib_star :: bool

record module_index =
  mi_name :: string
  mi_file :: fpath
  mi_definitions :: "(string \<times> symbol_definition) list"
  mi_imports :: "(string \<times> import_binding) list"
  mi_stars :: "string list"

record symbol_index =
  ix_modules :: "(string \<times> module_index) list"
  ix_file_to_module :: "(fpath \<times> string) list"
  ix_module_to_file :: "(string \<times> fpath) list"
  ix_trees :: "(string \<times> ast) list"
  ix_suffixes :: "(string \<times> string) list"

definition empty_index :: symbol_index where
  "empty_index = \<lparr>ix_modules = [], ix_file_to_module = [], ix_module_to_file = [], ix_trees = [], ix_suffixes = []\<rparr>"

section \<open>Files and modules\<close>

text \<open>A directory as \<open>os.walk\<close> sees it: its files, and its subdirectories with whether they are links.\<close>

datatype dir_entry = FileE string | DirE string bool "dir_entry list"

fun files_in :: "dir_entry list \<Rightarrow> string list" where
  "files_in [] = []"
| "files_in (FileE f # es) = f # files_in es"
| "files_in (DirE d link sub # es) = files_in es"

fun walk_below :: "fpath \<Rightarrow> dir_entry list \<Rightarrow> (fpath \<times> string list) list" where
  "walk_below dir [] = []"
| "walk_below dir (FileE f # es) = walk_below dir es"
| "walk_below dir (DirE d link sub # es) =
     (if link then [] else (dir @ [d], files_in sub) # walk_below (dir @ [d]) sub) @ walk_below dir es"

definition skipped_parts :: "string list" where
  "skipped_parts = [''.venv'', ''venv'', ''env'', ''__pycache__'', ''.git'']"

definition py_files :: "fpath \<Rightarrow> dir_entry list \<Rightarrow> fpath list" where
  "py_files root es =
     concat (map (\<lambda>(dir, fs).
       filter (\<lambda>p. \<not> list_ex (\<lambda>x. x \<in> set p) skipped_parts) (map (\<lambda>f. dir @ [f]) (filter (\<lambda>f. py_endswith f ''.py'') fs)))
       ((root, files_in es) # walk_below root es))"

text \<open>\<open>Path.with_suffix("")\<close> on the last part.\<close>

definition path_stem :: "string \<Rightarrow> string" where
  "path_stem f =
     (let (a, b) = rsplit_once (CHR ''.'') f in if CHR ''.'' \<in> set f \<and> a \<noteq> [] \<and> b \<noteq> [] then a else f)"

text \<open>A \<open>ValueError\<close> of \<open>relative_to\<close>: the file is a link that leads out of the root.\<close>

datatype index_error = Outside_Root fpath

definition file_to_modname :: "fpath \<Rightarrow> (fpath \<Rightarrow> fpath) \<Rightarrow> fpath \<Rightarrow> index_error + string" where
  "file_to_modname root real p =
     (let r = real p; rel = drop (length root) r in
      if \<not> prefix root r \<or> rel = [] then Inl (Outside_Root p)
      else (let parts = butlast rel @ [path_stem (last rel)] in
            Inr (py_join ''.'' (if last parts = ''__init__'' then butlast parts else parts))))"

fun register :: "fpath \<Rightarrow> (fpath \<Rightarrow> fpath) \<Rightarrow> fpath list \<Rightarrow> symbol_index \<Rightarrow> index_error + symbol_index" where
  "register root real [] ix = Inr ix"
| "register root real (p # ps) ix =
     res_bind (file_to_modname root real p) (\<lambda>m.
       register root real ps
         (ix\<lparr>ix_file_to_module := AList.update p m (ix_file_to_module ix),
             ix_module_to_file := AList.update m p (ix_module_to_file ix),
             ix_modules := AList.update m \<lparr>mi_name = m, mi_file = p, mi_definitions = [], mi_imports = [], mi_stars = []\<rparr> (ix_modules ix)\<rparr>))"

text \<open>The proper dotted suffixes of a name, and the first module for every one.\<close>

definition proper_suffixes :: "string \<Rightarrow> string list" where
  "proper_suffixes m = (let parts = py_split (CHR ''.'') m in map (\<lambda>i. py_join ''.'' (drop i parts)) [1..<length parts])"

definition add_suffix :: "string \<Rightarrow> (string \<times> string) list \<Rightarrow> string \<Rightarrow> (string \<times> string) list" where
  "add_suffix m idx s = (if s \<in> fst ` set idx then idx else idx @ [(s, m)])"

definition suffix_index :: "string list \<Rightarrow> (string \<times> string) list" where
  "suffix_index ms = foldl (\<lambda>idx m. foldl (add_suffix m) idx (proper_suffixes m)) [] ms"

definition build_suffix_index :: "symbol_index \<Rightarrow> symbol_index" where
  "build_suffix_index ix = ix\<lparr>ix_suffixes := suffix_index (map fst (ix_modules ix))\<rparr>"

definition match_registered_module :: "symbol_index \<Rightarrow> string \<Rightarrow> string option" where
  "match_registered_module ix c = (if c \<in> fst ` set (ix_modules ix) then Some c else map_of (ix_suffixes ix) c)"

section \<open>One file\<close>

definition resolve_from_module :: "string \<Rightarrow> string option \<Rightarrow> nat \<Rightarrow> string" where
  "resolve_from_module current rel level =
     (if level = 0 then (case rel of None \<Rightarrow> [] | Some r \<Rightarrow> r)
      else (let parts = py_split (CHR ''.'') current;
                base = (if level \<le> length parts then take (length parts - level) parts else [])
            in py_join ''.'' (case rel of None \<Rightarrow> base | Some r \<Rightarrow> if r = [] then base else base @ [r])))"

fun param_names :: "ast \<Rightarrow> string list" where
  "param_names (Arguments po args va ko kd kw ds) = map arg_name args"
| "param_names _ = []"

fun method_definition :: "fpath \<Rightarrow> string \<Rightarrow> ast \<Rightarrow> symbol_definition list" where
  "method_definition file cls (FunctionDef a l n args b ds r) =
     [\<lparr>sd_name = cls @ ''.'' @ n, sd_kind = ''method'', sd_file = file, sd_line = l, sd_params = param_names args\<rparr>]"
| "method_definition file cls _ = []"

fun definitions_of :: "fpath \<Rightarrow> ast \<Rightarrow> symbol_definition list" where
  "definitions_of file (FunctionDef a l n args b ds r) =
     [\<lparr>sd_name = n, sd_kind = (if a then ''async_function'' else ''function''), sd_file = file, sd_line = l, sd_params = param_names args\<rparr>]"
| "definitions_of file (ClassDef l n bs ks b ds) =
     \<lparr>sd_name = n, sd_kind = ''class'', sd_file = file, sd_line = l, sd_params = []\<rparr> # concat (map (method_definition file n) b)"
| "definitions_of file _ = []"

definition add_definition :: "module_index \<Rightarrow> symbol_definition \<Rightarrow> module_index" where
  "add_definition mi d = mi\<lparr>mi_definitions := AList.update (sd_name d) d (mi_definitions mi)\<rparr>"

fun import_key :: "ast \<Rightarrow> string" where
  "import_key (Alias l n asname) = (case asname of None \<Rightarrow> n | Some a \<Rightarrow> if a = [] then n else a)"
| "import_key _ = []"

fun alias_target :: "ast \<Rightarrow> string" where
  "alias_target (Alias l n asname) = n"
| "alias_target _ = []"

definition bind_import :: "nat \<Rightarrow> module_index \<Rightarrow> ast \<Rightarrow> module_index" where
  "bind_import line mi a =
     mi\<lparr>mi_imports := AList.update (import_key a)
         \<lparr>ib_alias = import_key a, ib_module = alias_target a, ib_name = [], ib_line = line, ib_star = False\<rparr> (mi_imports mi)\<rparr>"

definition bind_from :: "string \<Rightarrow> nat \<Rightarrow> module_index \<Rightarrow> ast \<Rightarrow> module_index" where
  "bind_from target line mi a =
     (if alias_target a = ''*'' then mi\<lparr>mi_stars := mi_stars mi @ [target]\<rparr>
      else mi\<lparr>mi_imports := AList.update (import_key a)
             \<lparr>ib_alias = import_key a, ib_module = target, ib_name = alias_target a, ib_line = line, ib_star = False\<rparr> (mi_imports mi)\<rparr>)"

fun index_statement :: "string \<Rightarrow> fpath \<Rightarrow> module_index \<Rightarrow> ast \<Rightarrow> module_index" where
  "index_statement m file mi (Import l names) = foldl (bind_import l) mi names"
| "index_statement m file mi (ImportFrom l md names level) = foldl (bind_from (resolve_from_module m md level) l) mi names"
| "index_statement m file mi s = foldl add_definition mi (definitions_of file s)"

text \<open>A tree that is no module has no body; the error is swallowed by the caller.\<close>

fun index_tree :: "string \<Rightarrow> fpath \<Rightarrow> ast \<Rightarrow> module_index \<Rightarrow> module_index" where
  "index_tree m file (Module b) mi = foldl (index_statement m file) mi b"
| "index_tree m file _ mi = mi"

definition index_file :: "string \<Rightarrow> fpath \<Rightarrow> ast \<Rightarrow> symbol_index \<Rightarrow> symbol_index" where
  "index_file m file t ix = ix\<lparr>ix_modules := AList.map_entry m (index_tree m file t) (ix_modules ix)\<rparr>"

section \<open>The two passes\<close>

text \<open>What the passes ask of the outside: a text on disk, the parser, the trees that are offered for reuse, and the pool.\<close>

record sources =
  src_read :: "fpath \<Rightarrow> string option"
  src_parse :: "string \<Rightarrow> ast option"
  src_reuse :: "fpath \<Rightarrow> (string \<times> ast option) option"
  src_fanout :: "(fpath list \<Rightarrow> ast option list) option"

definition read_and_parse_one :: "sources \<Rightarrow> fpath \<Rightarrow> ast option" where
  "read_and_parse_one s p = (case src_read s p of None \<Rightarrow> None | Some text \<Rightarrow> src_parse s text)"

definition parallel_read_min_files :: nat where
  "parallel_read_min_files = 2000"

definition read_and_parse :: "sources \<Rightarrow> fpath list \<Rightarrow> ast option list" where
  "read_and_parse s ps =
     (case src_fanout s of
        Some pool \<Rightarrow> if parallel_read_min_files \<le> length ps then pool ps else map (read_and_parse_one s) ps
      | None \<Rightarrow> map (read_and_parse_one s) ps)"

text \<open>A tree is reused when the file still is the text it was made from.\<close>

definition reusable_tree :: "sources \<Rightarrow> fpath \<Rightarrow> ast option" where
  "reusable_tree s p =
     (case src_reuse s p of
        Some (source, Some tree) \<Rightarrow> if src_read s p = Some source then Some tree else None
      | _ \<Rightarrow> None)"

text \<open>The parsed entries are taken in turn where no tree is reused.\<close>

fun take_turns :: "ast option list \<Rightarrow> ast option list \<Rightarrow> ast option list" where
  "take_turns [] parsed = []"
| "take_turns (Some t # rs) parsed = Some t # take_turns rs parsed"
| "take_turns (None # rs) (e # parsed) = e # take_turns rs parsed"
| "take_turns (None # rs) [] = None # take_turns rs []"

definition module_of_file :: "symbol_index \<Rightarrow> fpath \<Rightarrow> string" where
  "module_of_file ix p = (case map_of (ix_file_to_module ix) p of Some m \<Rightarrow> m | None \<Rightarrow> [])"

definition keep_and_index :: "symbol_index \<Rightarrow> fpath \<times> ast option \<Rightarrow> symbol_index" where
  "keep_and_index ix e =
     (case e of
        (p, None) \<Rightarrow> ix
      | (p, Some t) \<Rightarrow> (let m = module_of_file ix p in index_file m p t (ix\<lparr>ix_trees := AList.update m t (ix_trees ix)\<rparr>)))"

definition registered :: "fpath \<Rightarrow> (fpath \<Rightarrow> fpath) \<Rightarrow> dir_entry list \<Rightarrow> index_error + symbol_index" where
  "registered root real es = res_bind (register root real (py_files root es) empty_index) (\<lambda>ix. Inr (build_suffix_index ix))"

definition build :: "sources \<Rightarrow> fpath \<Rightarrow> (fpath \<Rightarrow> fpath) \<Rightarrow> dir_entry list \<Rightarrow> index_error + symbol_index" where
  "build s root real es =
     res_bind (registered root real es) (\<lambda>ix.
       let ps = py_files root es;
           reused = map (reusable_tree s) ps;
           parsed = read_and_parse s (filter (\<lambda>p. reusable_tree s p = None) ps)
       in Inr (foldl keep_and_index ix (zip ps (take_turns reused parsed))))"

definition stream_one ::
  "sources \<Rightarrow> (string \<Rightarrow> fpath \<Rightarrow> ast \<Rightarrow> 's \<Rightarrow> 's) \<Rightarrow> symbol_index \<times> 's \<Rightarrow> fpath \<Rightarrow> symbol_index \<times> 's" where
  "stream_one s on_indexed st p =
     (case (case reusable_tree s p of Some t \<Rightarrow> Some t | None \<Rightarrow> read_and_parse_one s p) of
        None \<Rightarrow> st
      | Some t \<Rightarrow> (let m = module_of_file (fst st) p in (index_file m p t (fst st), on_indexed m p t (snd st))))"

definition build_streaming ::
  "sources \<Rightarrow> (string \<Rightarrow> fpath \<Rightarrow> ast \<Rightarrow> 's \<Rightarrow> 's) \<Rightarrow> 's \<Rightarrow> fpath \<Rightarrow> (fpath \<Rightarrow> fpath) \<Rightarrow> dir_entry list \<Rightarrow> index_error + symbol_index \<times> 's" where
  "build_streaming s on_indexed st root real es =
     res_bind (registered root real es) (\<lambda>ix. Inr (foldl (stream_one s on_indexed) (ix, st) (py_files root es)))"

section \<open>Resolution\<close>

definition defined_in :: "symbol_index \<Rightarrow> string option \<Rightarrow> string \<Rightarrow> symbol_definition option" where
  "defined_in ix target name =
     (case target of
        None \<Rightarrow> None
      | Some m \<Rightarrow>
          if m = [] then None
          else (case map_of (ix_modules ix) m of None \<Rightarrow> None | Some mi \<Rightarrow> map_of (mi_definitions mi) name))"

fun first_star :: "symbol_index \<Rightarrow> string \<Rightarrow> string list \<Rightarrow> symbol_definition option" where
  "first_star ix name [] = None"
| "first_star ix name (m # ms) =
     (case defined_in ix (match_registered_module ix m) name of Some d \<Rightarrow> Some d | None \<Rightarrow> first_star ix name ms)"

definition resolve_symbol :: "symbol_index \<Rightarrow> string \<Rightarrow> string \<Rightarrow> symbol_definition option" where
  "resolve_symbol ix caller name =
     (case map_of (ix_modules ix) caller of
        None \<Rightarrow> None
      | Some mi \<Rightarrow>
          (case map_of (mi_definitions mi) name of
             Some d \<Rightarrow> Some d
           | None \<Rightarrow>
               (case (case map_of (mi_imports mi) name of
                        None \<Rightarrow> None
                      | Some b \<Rightarrow> defined_in ix (match_registered_module ix (ib_module b)) (if ib_name b = [] then name else ib_name b)) of
                  Some d \<Rightarrow> Some d
                | None \<Rightarrow> first_star ix name (mi_stars mi))))"

section \<open>The suffix index against the scan it replaces\<close>

definition scan_modules :: "string list \<Rightarrow> string \<Rightarrow> string option" where
  "scan_modules ms c = (if c \<in> set ms then Some c else find (\<lambda>m. py_endswith m (CHR ''.'' # c)) ms)"

lemma endswith_iff: "py_endswith s p \<longleftrightarrow> (\<exists>u. s = u @ p)"
proof -
  have starts: "py_startswith a b \<longleftrightarrow> prefix b a" for a b
    by (induction a b rule: py_startswith.induct) auto
  show ?thesis by (auto simp: py_endswith_def starts prefix_def rev_eq_append_conv) (metis rev_append rev_rev_ident)
qed

lemma join_split: "py_join [d] (py_split d s) = s"
proof (induction s)
  case (Cons c s)
  show ?case
  proof (cases "py_split d s")
    case Nil
    with Cons show ?thesis by auto
  next
    case (Cons w ws)
    with Cons.IH show ?thesis by (cases ws) auto
  qed
qed simp

lemma split_nonempty: "py_split d s \<noteq> []"
  by (induction s) (auto split: list.splits)

lemma split_at: "py_split d (x @ d # y) = py_split d x @ py_split d y"
proof (induction x)
  case (Cons c x)
  then show ?case using split_nonempty [of d x] by (auto split: list.splits)
qed simp

lemma join_append: "xs \<noteq> [] \<Longrightarrow> ys \<noteq> [] \<Longrightarrow> py_join sep (xs @ ys) = py_join sep xs @ sep @ py_join sep ys"
proof (induction sep xs rule: py_join.induct)
  case (2 sep x)
  then show ?case by (cases ys) auto
qed auto

lemma join_drop_suffix:
  assumes "0 < i" and "i < length ws"
  shows "\<exists>u. py_join sep ws = u @ sep @ py_join sep (drop i ws)"
proof -
  have "py_join sep (take i ws @ drop i ws) = py_join sep (take i ws) @ sep @ py_join sep (drop i ws)"
    by (rule join_append) (use assms in auto)
  then show ?thesis by auto
qed

text \<open>The dotted suffixes are the texts that follow a dot.\<close>

lemma proper_suffix_iff: "c \<in> set (proper_suffixes m) \<longleftrightarrow> py_endswith m (CHR ''.'' # c)"
proof
  assume "c \<in> set (proper_suffixes m)"
  then obtain i where "i \<in> set [1..<length (py_split (CHR ''.'') m)]" "c = py_join ''.'' (drop i (py_split (CHR ''.'') m))"
    unfolding proper_suffixes_def Let_def by auto
  then show "py_endswith m (CHR ''.'' # c)"
    using join_drop_suffix [of i "py_split (CHR ''.'') m" "''.''"] by (auto simp: endswith_iff join_split)
next
  assume "py_endswith m (CHR ''.'' # c)"
  then obtain u where "m = u @ CHR ''.'' # c" by (auto simp: endswith_iff)
  then have "py_split (CHR ''.'') m = py_split (CHR ''.'') u @ py_split (CHR ''.'') c" by (simp add: split_at)
  then show "c \<in> set (proper_suffixes m)"
    using split_nonempty [of "CHR ''.''" u] split_nonempty [of "CHR ''.''" c] join_split [of "CHR ''.''" c]
    by (auto simp: proper_suffixes_def Let_def image_iff Suc_le_eq intro!: bexI [of _ "length (py_split (CHR ''.'') u)"])
qed

lemma map_of_snoc_new: "k \<notin> fst ` set xs \<Longrightarrow> map_of (xs @ [(k, v)]) = (map_of xs)(k \<mapsto> v)"
  by (induction xs) (auto simp: fun_upd_twist)

lemma add_suffixes:
  "map_of (foldl (add_suffix m) idx ss) c = (case map_of idx c of Some v \<Rightarrow> Some v | None \<Rightarrow> if c \<in> set ss then Some m else None)"
proof (induction ss arbitrary: idx)
  case (Cons s ss)
  have "map_of (add_suffix m idx s) c = (case map_of idx c of Some v \<Rightarrow> Some v | None \<Rightarrow> if c = s then Some m else None)"
  proof (cases "s \<in> fst ` set idx")
    case True
    then have "map_of idx s \<noteq> None" by (simp add: map_of_eq_None_iff)
    with True show ?thesis by (auto simp: add_suffix_def split: option.splits)
  next
    case False
    then have "map_of idx s = None" by (simp add: map_of_eq_None_iff)
    with False show ?thesis by (auto simp: add_suffix_def map_of_snoc_new simp del: map_of_append split: option.splits)
  qed
  then show ?case using Cons by (auto split: option.splits)
qed (simp split: option.splits)

lemma suffix_index_first: "map_of (suffix_index ms) c = find (\<lambda>m. py_endswith m (CHR ''.'' # c)) ms"
proof -
  have "map_of (foldl (\<lambda>idx m. foldl (add_suffix m) idx (proper_suffixes m)) idx ms) c
      = (case map_of idx c of Some v \<Rightarrow> Some v | None \<Rightarrow> find (\<lambda>m. py_endswith m (CHR ''.'' # c)) ms)" for idx
    by (induction ms arbitrary: idx) (auto simp: add_suffixes proper_suffix_iff split: option.splits)
  then show ?thesis by (simp add: suffix_index_def)
qed

section \<open>What the passes leave in the index\<close>

lemma index_file_frame:
  "ix_suffixes (index_file m p t ix) = ix_suffixes ix" "map fst (ix_modules (index_file m p t ix)) = map fst (ix_modules ix)"
  "ix_file_to_module (index_file m p t ix) = ix_file_to_module ix" "ix_module_to_file (index_file m p t ix) = ix_module_to_file ix"
  "ix_trees (index_file m p t ix) = ix_trees ix"
proof -
  have "map fst (AList.map_entry m f xs) = map fst xs" for f and xs :: "(string \<times> module_index) list"
    by (induction xs) auto
  then show "map fst (ix_modules (index_file m p t ix)) = map fst (ix_modules ix)" by (simp add: index_file_def)
qed (simp_all add: index_file_def)

definition same_names :: "symbol_index \<Rightarrow> symbol_index \<Rightarrow> bool" where
  "same_names ix jx = (ix_suffixes ix = ix_suffixes jx \<and> map fst (ix_modules ix) = map fst (ix_modules jx)
     \<and> ix_file_to_module ix = ix_file_to_module jx \<and> ix_module_to_file ix = ix_module_to_file jx)"

lemma keep_same_names: "same_names (keep_and_index ix e) ix"
  by (auto simp: same_names_def keep_and_index_def index_file_frame Let_def split: prod.splits option.splits)

lemma keeps_same_names: "same_names (foldl keep_and_index ix xs) ix"
proof (induction xs arbitrary: ix)
  case (Cons e xs)
  then show ?case using keep_same_names [of ix e] by (simp add: same_names_def)
qed (simp add: same_names_def)

lemma build_registered:
  "build s root real es = Inr ix \<Longrightarrow> \<exists>jx. registered root real es = Inr jx \<and> same_names ix jx"
  using keeps_same_names by (fastforce simp: build_def res_bind_Inr_iff Let_def)

lemma registered_suffixes: "registered root real es = Inr jx \<Longrightarrow> ix_suffixes jx = suffix_index (map fst (ix_modules jx))"
  by (auto simp: registered_def res_bind_Inr_iff build_suffix_index_def)

text \<open>C25: the suffix index answers every lookup as the scan over all modules in their order does.\<close>
theorem match_equals_scan:
  assumes "build s root real es = Inr ix"
  shows "match_registered_module ix c = scan_modules (map fst (ix_modules ix)) c"
proof -
  obtain jx where "registered root real es = Inr jx" "same_names ix jx" using build_registered [OF assms] by blast
  then have "ix_suffixes ix = suffix_index (map fst (ix_modules ix))"
    using registered_suffixes by (simp add: same_names_def)
  then show ?thesis by (simp add: match_registered_module_def scan_modules_def suffix_index_first)
qed

section \<open>Streaming, reuse and the pool make no difference\<close>

definition tree_of :: "sources \<Rightarrow> fpath \<Rightarrow> ast option" where
  "tree_of s p = (case reusable_tree s p of Some t \<Rightarrow> Some t | None \<Rightarrow> read_and_parse_one s p)"

lemma turns_taken:
  "take_turns (map (reusable_tree s) ps) (map (read_and_parse_one s) (filter (\<lambda>p. reusable_tree s p = None) ps)) = map (tree_of s) ps"
  by (induction ps) (auto simp: tree_of_def split: option.splits)

definition pool_in_order :: "sources \<Rightarrow> bool" where
  "pool_in_order s = (\<forall>pool. src_fanout s = Some pool \<longrightarrow> (\<forall>ps. pool ps = map (read_and_parse_one s) ps))"

lemma read_all: "pool_in_order s \<Longrightarrow> read_and_parse s ps = map (read_and_parse_one s) ps"
  by (auto simp: pool_in_order_def read_and_parse_def split: option.splits)

definition index_files :: "sources \<Rightarrow> fpath list \<Rightarrow> symbol_index \<Rightarrow> symbol_index" where
  "index_files s ps ix = foldl (\<lambda>ix p. keep_and_index ix (p, tree_of s p)) ix ps"

lemma zip_map_right: "zip ps (map f ps) = map (\<lambda>p. (p, f p)) ps"
  by (induction ps) auto

lemma foldl_map_simp: "foldl f a (map g xs) = foldl (\<lambda>a x. f a (g x)) a xs"
  by (induction xs arbitrary: a) auto

lemma build_indexed:
  "pool_in_order s \<Longrightarrow> build s root real es = res_bind (registered root real es) (\<lambda>ix. Inr (index_files s (py_files root es) ix))"
  by (simp add: build_def Let_def read_all turns_taken zip_map_right foldl_map_simp index_files_def)

text \<open>What the consumer of the streaming pass is given: the trees of the files in order, with their modules.\<close>

definition visited :: "sources \<Rightarrow> symbol_index \<Rightarrow> fpath list \<Rightarrow> (string \<times> fpath \<times> ast) list" where
  "visited s ix ps = concat (map (\<lambda>p. case tree_of s p of None \<Rightarrow> [] | Some t \<Rightarrow> [(module_of_file ix p, p, t)]) ps)"

lemma module_of_same: "ix_file_to_module ix = ix_file_to_module jx \<Longrightarrow> module_of_file ix p = module_of_file jx p"
  by (simp add: module_of_file_def)

lemma visited_same: "ix_file_to_module ix = ix_file_to_module jx \<Longrightarrow> visited s ix ps = visited s jx ps"
  by (simp add: visited_def module_of_same [of ix jx] cong: option.case_cong)

lemma index_file_trees: "index_file m p t (ix\<lparr>ix_trees := ts\<rparr>) = (index_file m p t ix)\<lparr>ix_trees := ts\<rparr>"
  by (simp add: index_file_def)

lemma stream_step:
  "stream_one s f (ix\<lparr>ix_trees := []\<rparr>, st) p =
     ((keep_and_index ix (p, tree_of s p))\<lparr>ix_trees := []\<rparr>,
      foldl (\<lambda>st (m, p, t). f m p t st) st (visited s ix [p]))"
  by (auto simp: stream_one_def keep_and_index_def tree_of_def visited_def Let_def index_file_trees module_of_file_def split: option.splits)

lemma stream_all:
  "foldl (stream_one s f) (ix\<lparr>ix_trees := []\<rparr>, st) ps =
     ((index_files s ps ix)\<lparr>ix_trees := []\<rparr>, foldl (\<lambda>st (m, p, t). f m p t st) st (visited s ix ps))"
proof (induction ps arbitrary: ix st)
  case (Cons p ps)
  let ?jx = "keep_and_index ix (p, tree_of s p)"
  have "visited s ?jx ps = visited s ix ps"
    using keep_same_names [of ix "(p, tree_of s p)"] by (intro visited_same) (simp add: same_names_def)
  moreover have "visited s ix (p # ps) = visited s ix [p] @ visited s ix ps"
    by (simp add: visited_def)
  ultimately show ?case
    using Cons.IH [of ?jx "foldl (\<lambda>st (m, p, t). f m p t st) st (visited s ix [p])"]
    by (simp add: stream_step index_files_def)
qed (simp add: index_files_def visited_def)

lemma registered_no_trees: "registered root real es = Inr ix \<Longrightarrow> ix\<lparr>ix_trees := []\<rparr> = ix"
proof -
  have keep: "register root real ps jx = Inr ix \<Longrightarrow> ix_trees ix = ix_trees jx" for ps jx ix
    by (induction ps arbitrary: jx) (fastforce simp: res_bind_Inr_iff)+
  show "registered root real es = Inr ix \<Longrightarrow> ix\<lparr>ix_trees := []\<rparr> = ix"
    by (auto simp: registered_def res_bind_Inr_iff build_suffix_index_def empty_index_def dest!: keep)
qed

text \<open>C24: the streaming pass builds the index of the pass that keeps all trees, without the trees, and hands every tree to its
  consumer, in the order of the files.\<close>
theorem streaming_equals_batch:
  assumes "pool_in_order s"
  shows "build_streaming s f st root real es =
    res_bind (build s root real es) (\<lambda>ix. Inr (ix\<lparr>ix_trees := []\<rparr>, foldl (\<lambda>st (m, p, t). f m p t st) st (visited s ix (py_files root es))))"
proof (cases "registered root real es")
  case (Inr ix)
  have "visited s (index_files s ps ix) ps = visited s ix ps" for ps
    unfolding index_files_def by (rule visited_same) (metis same_names_def keeps_same_names foldl_map_simp)
  then show ?thesis
    using stream_all [of s f ix st "py_files root es"] registered_no_trees [OF Inr]
    by (simp add: build_streaming_def build_indexed [OF assms] Inr)
qed (simp add: build_streaming_def build_indexed [OF assms])

definition without_reuse :: "sources \<Rightarrow> sources" where
  "without_reuse s = s\<lparr>src_reuse := \<lambda>_. None, src_fanout := None\<rparr>"

definition reuse_honest :: "sources \<Rightarrow> bool" where
  "reuse_honest s = (\<forall>p source t. src_reuse s p = Some (source, Some t) \<longrightarrow> src_parse s source = Some t)"

lemma tree_of_parsed: "reuse_honest s \<Longrightarrow> tree_of s p = tree_of (without_reuse s) p"
  by (auto simp: tree_of_def reusable_tree_def reuse_honest_def without_reuse_def read_and_parse_one_def split: option.splits prod.splits)

text \<open>Trees that are offered for reuse, where they were parsed from the texts they come with, and the pool change nothing.\<close>
theorem reuse_and_pool_transparent:
  assumes "pool_in_order s" and "reuse_honest s"
  shows "build s root real es = build (without_reuse s) root real es"
proof -
  have "pool_in_order (without_reuse s)" by (simp add: pool_in_order_def without_reuse_def)
  moreover have "index_files s ps ix = index_files (without_reuse s) ps ix" for ps ix
    by (simp add: index_files_def tree_of_parsed [OF assms(2)])
  ultimately show ?thesis by (simp add: build_indexed assms(1))
qed

section \<open>What a module defines\<close>

definition tree_definitions :: "fpath \<Rightarrow> ast \<Rightarrow> symbol_definition list" where
  "tree_definitions p t = (case t of Module b \<Rightarrow> concat (map (definitions_of p) b) | _ \<Rightarrow> [])"

definition left_or :: "'a option \<Rightarrow> 'a option \<Rightarrow> 'a option" where
  "left_or x y = (case x of None \<Rightarrow> y | Some a \<Rightarrow> Some a)"

lemma left_or_simps [simp]: "left_or None y = y" "left_or (Some a) y = Some a" "left_or x None = x" "left_or (left_or x y) z = left_or x (left_or y z)"
  by (auto simp: left_or_def split: option.splits)

lemma find_appended: "find P (xs @ ys) = left_or (find P xs) (find P ys)"
  by (simp add: left_or_def find_in_append)

definition last_named :: "string \<Rightarrow> symbol_definition list \<Rightarrow> symbol_definition option" where
  "last_named n ds = find (\<lambda>d. sd_name d = n) (rev ds)"

lemma last_named_simps [simp]: "last_named n [] = None" "last_named n (ds @ es) = left_or (last_named n es) (last_named n ds)"
  by (simp_all add: last_named_def find_appended)

lemma last_named_Cons: "last_named n (d # ds) = left_or (last_named n ds) (if sd_name d = n then Some d else None)"
  by (simp add: last_named_def find_appended)

lemma add_definitions: "map_of (mi_definitions (foldl add_definition mi ds)) n = left_or (last_named n ds) (map_of (mi_definitions mi) n)"
  by (induction ds arbitrary: mi) (auto simp: last_named_Cons add_definition_def update_conv')

lemma statement_definitions: 
  "mi_definitions (index_statement m p mi s) = mi_definitions (foldl add_definition mi (definitions_of p s))"
proof -
  have "mi_definitions (foldl (bind_import l) mi ns) = mi_definitions mi" for l ns mi
    by (induction ns arbitrary: mi) (auto simp: bind_import_def)
  moreover have "mi_definitions (foldl (bind_from g l) mi ns) = mi_definitions mi" for g l ns mi
    by (induction ns arbitrary: mi) (auto simp: bind_from_def)
  ultimately show ?thesis by (cases "(m, p, mi, s)" rule: index_statement.cases) auto
qed

lemma tree_definitions_found:
  "map_of (mi_definitions (index_tree m p t mi)) n = left_or (last_named n (tree_definitions p t)) (map_of (mi_definitions mi) n)"
proof -
  have "map_of (mi_definitions (foldl (index_statement m p) mi b)) n
      = left_or (last_named n (concat (map (definitions_of p) b))) (map_of (mi_definitions mi) n)" for b
    by (induction b arbitrary: mi) (simp_all add: statement_definitions add_definitions)
  then show ?thesis by (cases t) (simp_all add: tree_definitions_def)
qed

definition lookup_definition :: "symbol_index \<Rightarrow> string \<Rightarrow> string \<Rightarrow> symbol_definition option" where
  "lookup_definition ix m n = (case map_of (ix_modules ix) m of None \<Rightarrow> None | Some mi \<Rightarrow> map_of (mi_definitions mi) n)"

definition file_definitions :: "sources \<Rightarrow> fpath \<Rightarrow> symbol_definition list" where
  "file_definitions s p = (case tree_of s p of None \<Rightarrow> [] | Some t \<Rightarrow> tree_definitions p t)"

lemma lookup_kept:
  assumes "map_of (ix_modules ix) m \<noteq> None"
  shows "lookup_definition (keep_and_index ix (p, tree_of s p)) m n
    = left_or (last_named n (if module_of_file ix p = m then file_definitions s p else [])) (lookup_definition ix m n)"
  using assms
  by (auto simp: lookup_definition_def keep_and_index_def file_definitions_def index_file_def Let_def AList.map_of_map_entry
      tree_definitions_found split: option.splits)

lemma lookup_indexed:
  "map_of (ix_modules ix) m \<noteq> None \<Longrightarrow>
     lookup_definition (index_files s ps ix) m n
     = left_or (last_named n (concat (map (\<lambda>p. if module_of_file ix p = m then file_definitions s p else []) ps))) (lookup_definition ix m n)"
proof (induction ps arbitrary: ix)
  case (Cons p ps)
  let ?jx = "keep_and_index ix (p, tree_of s p)"
  have same: "same_names ?jx ix" by (rule keep_same_names)
  then have "map_of (ix_modules ?jx) m \<noteq> None"
    using Cons.prems by (simp add: same_names_def map_of_eq_None_iff flip: set_map)
  moreover have "module_of_file ?jx = module_of_file ix"
    using same by (auto simp: same_names_def module_of_file_def)
  ultimately show ?case
    using Cons.IH [of ?jx] Cons.prems by (simp add: index_files_def lookup_kept)
qed (simp add: index_files_def)

lemma register_step:
  "register root real (p # ps) ix = Inr jx \<Longrightarrow> \<exists>m. file_to_modname root real p = Inr m
     \<and> register root real ps
         (ix\<lparr>ix_file_to_module := AList.update p m (ix_file_to_module ix), ix_module_to_file := AList.update m p (ix_module_to_file ix),
             ix_modules := AList.update m \<lparr>mi_name = m, mi_file = p, mi_definitions = [], mi_imports = [], mi_stars = []\<rparr> (ix_modules ix)\<rparr>) = Inr jx"
  by (auto simp: res_bind_Inr_iff)

lemma registered_files:
  "register root real ps ix = Inr jx \<Longrightarrow> p \<in> set ps \<or> (\<exists>m. map_of (ix_file_to_module ix) p = Some m \<and> file_to_modname root real p = Inr m) \<Longrightarrow>
     \<exists>m. file_to_modname root real p = Inr m \<and> map_of (ix_file_to_module jx) p = Some m"
proof (induction ps arbitrary: ix)
  case (Cons q ps)
  obtain m where m: "file_to_modname root real q = Inr m"
    and rest: "register root real ps
         (ix\<lparr>ix_file_to_module := AList.update q m (ix_file_to_module ix), ix_module_to_file := AList.update m q (ix_module_to_file ix),
             ix_modules := AList.update m \<lparr>mi_name = m, mi_file = q, mi_definitions = [], mi_imports = [], mi_stars = []\<rparr> (ix_modules ix)\<rparr>) = Inr jx"
    using register_step [OF Cons.prems(1)] by blast
  show ?case using Cons.prems(2) m by (intro Cons.IH [OF rest]) (auto simp: update_conv')
qed auto

lemma registered_modules:
  "register root real ps ix = Inr jx \<Longrightarrow>
     fst ` set (ix_modules jx) = fst ` set (ix_modules ix) \<union> {m. \<exists>p \<in> set ps. file_to_modname root real p = Inr m}"
proof (induction ps arbitrary: ix)
  case (Cons q ps)
  obtain m where m: "file_to_modname root real q = Inr m"
    and rest: "register root real ps
         (ix\<lparr>ix_file_to_module := AList.update q m (ix_file_to_module ix), ix_module_to_file := AList.update m q (ix_module_to_file ix),
             ix_modules := AList.update m \<lparr>mi_name = m, mi_file = q, mi_definitions = [], mi_imports = [], mi_stars = []\<rparr> (ix_modules ix)\<rparr>) = Inr jx"
    using register_step [OF Cons.prems] by blast
  have "{k. \<exists>p \<in> set (q # ps). file_to_modname root real p = Inr k} = insert m {k. \<exists>p \<in> set ps. file_to_modname root real p = Inr k}"
    using m by auto
  then show ?case using Cons.IH [OF rest] by (simp add: dom_update)
qed simp

lemma registered_empty:
  "register root real ps ix = Inr jx \<Longrightarrow> (\<And>m mi. map_of (ix_modules ix) m = Some mi \<Longrightarrow> mi_definitions mi = []) \<Longrightarrow>
     map_of (ix_modules jx) m = Some mi \<Longrightarrow> mi_definitions mi = []"
proof (induction ps arbitrary: ix)
  case (Cons q ps)
  obtain k where rest: "register root real ps
         (ix\<lparr>ix_file_to_module := AList.update q k (ix_file_to_module ix), ix_module_to_file := AList.update k q (ix_module_to_file ix),
             ix_modules := AList.update k \<lparr>mi_name = k, mi_file = q, mi_definitions = [], mi_imports = [], mi_stars = []\<rparr> (ix_modules ix)\<rparr>) = Inr jx"
    using register_step [OF Cons.prems(1)] by blast
  show ?case
    by (rule Cons.IH [OF rest _ Cons.prems(3)]) (use Cons.prems(2) in \<open>auto simp: update_conv' split: if_splits\<close>)
qed auto

lemma register_fails_iff: "(\<exists>e. register root real ps ix = Inl e) \<longleftrightarrow> (\<exists>p \<in> set ps. \<exists>e. file_to_modname root real p = Inl e)"
proof (induction ps arbitrary: ix)
  case (Cons q ps)
  then show ?case by (cases "file_to_modname root real q") auto
qed simp

definition module_definitions :: "sources \<Rightarrow> fpath \<Rightarrow> (fpath \<Rightarrow> fpath) \<Rightarrow> dir_entry list \<Rightarrow> string \<Rightarrow> symbol_definition list" where
  "module_definitions s root real es m =
     concat (map (\<lambda>p. if file_to_modname root real p = Inr m then file_definitions s p else []) (py_files root es))"

lemma lookup_built:
  assumes "build s root real es = Inr ix" and "pool_in_order s"
  shows "lookup_definition ix m n = last_named n (module_definitions s root real es m)"
proof -
  let ?ps = "py_files root es"
  obtain rx where rx: "register root real ?ps empty_index = Inr rx" "ix = index_files s ?ps (build_suffix_index rx)"
    using assms(1) by (auto simp: build_indexed [OF assms(2)] registered_def res_bind_Inr_iff)
  have same: "module_of_file (build_suffix_index rx) p = m \<longleftrightarrow> file_to_modname root real p = Inr m" if "p \<in> set ?ps" for p
    using registered_files [OF rx(1), of p] that by (auto simp: module_of_file_def build_suffix_index_def)
  then have files: "concat (map (\<lambda>p. if module_of_file (build_suffix_index rx) p = m then file_definitions s p else []) ?ps)
      = module_definitions s root real es m"
    unfolding module_definitions_def by (intro arg_cong [of _ _ concat] map_cong) auto
  show ?thesis
  proof (cases "map_of (ix_modules (build_suffix_index rx)) m")
    case None
    then have "m \<notin> fst ` set (ix_modules rx)" by (simp add: build_suffix_index_def map_of_eq_None_iff)
    then have "module_definitions s root real es m = []"
      using registered_modules [OF rx(1)] by (auto simp: module_definitions_def)
    moreover have "map_of (ix_modules ix) m = None"
      using None keeps_same_names [of "build_suffix_index rx" "map (\<lambda>p. (p, tree_of s p)) ?ps"]
      by (simp add: rx(2) index_files_def same_names_def foldl_map_simp map_of_eq_None_iff flip: set_map)
    ultimately show ?thesis by (simp add: lookup_definition_def)
  next
    case (Some mi)
    then have "mi_definitions mi = []"
      using registered_empty [OF rx(1)] by (simp add: build_suffix_index_def empty_index_def)
    then have "lookup_definition (build_suffix_index rx) m n = None"
      using Some by (simp add: lookup_definition_def)
    with lookup_indexed [of "build_suffix_index rx" m s ?ps n] Some show ?thesis
      by (simp add: rx(2) files)
  qed
qed

text \<open>A module of the index has the definitions of its files, in their order; of two with one name it has the last.\<close>
theorem module_definitions_exact:
  assumes "build s root real es = Inr ix" and "pool_in_order s"
  shows "lookup_definition ix m n = last_named n (module_definitions s root real es m)"
  by (rule lookup_built [OF assms])

text \<open>The index is built unless a file that it collects is a link out of the root.\<close>
theorem build_fails_iff:
  "(\<exists>e. build s root real es = Inl e) \<longleftrightarrow> (\<exists>p \<in> set (py_files root es). \<exists>e. file_to_modname root real p = Inl e)"
  using register_fails_iff [of root real "py_files root es" empty_index]
  by (auto simp: build_def registered_def res_bind_Inl_iff Let_def)

lemma last_named_in: "last_named n ds = Some d \<Longrightarrow> d \<in> set ds \<and> sd_name d = n"
  using found_in [of "\<lambda>d. sd_name d = n" "rev ds" d] by (simp add: last_named_def)

lemma defined_in_lookup: "defined_in ix target n = Some d \<Longrightarrow> \<exists>m k. lookup_definition ix m k = Some d"
proof -
  assume "defined_in ix target n = Some d"
  then have "lookup_definition ix (the target) n = Some d"
    by (auto simp: defined_in_def lookup_definition_def split: option.splits if_splits)
  then show ?thesis by blast
qed

lemma first_star_lookup: "first_star ix n ms = Some d \<Longrightarrow> \<exists>m k. lookup_definition ix m k = Some d"
  by (induction ms) (auto split: option.splits dest: defined_in_lookup)

lemma resolved_lookup: "resolve_symbol ix caller n = Some d \<Longrightarrow> \<exists>m k. lookup_definition ix m k = Some d"
proof -
  assume r: "resolve_symbol ix caller n = Some d"
  then obtain mi where mi: "map_of (ix_modules ix) caller = Some mi"
    by (auto simp: resolve_symbol_def split: option.splits)
  show ?thesis
  proof (cases "map_of (mi_definitions mi) n")
    case (Some e)
    then have "lookup_definition ix caller n = Some d" using r mi by (simp add: resolve_symbol_def lookup_definition_def)
    then show ?thesis by blast
  next
    case None
    then show ?thesis using r mi
      by (simp add: resolve_symbol_def split: option.splits) (blast dest: defined_in_lookup first_star_lookup)+
  qed
qed

lemma definition_file: "d \<in> set (file_definitions s p) \<Longrightarrow> sd_file d = p"
proof -
  have "sd_file e = p" if "e \<in> set (method_definition p cls x)" for e cls x
    using that by (cases "(p, cls, x)" rule: method_definition.cases) auto
  then have "sd_file e = p" if "e \<in> set (definitions_of p x)" for e x
    using that by (cases "(p, x)" rule: definitions_of.cases) auto
  then show "d \<in> set (file_definitions s p) \<Longrightarrow> sd_file d = p"
    by (auto simp: file_definitions_def tree_definitions_def split: option.splits ast.splits)
qed


section \<open>Relative imports\<close>

text \<open>Python's rule: dots are counted from the package a module is in, and a package is in itself.\<close>

definition python_from :: "bool \<Rightarrow> string \<Rightarrow> string option \<Rightarrow> nat \<Rightarrow> string option" where
  "python_from is_package current rel level =
     (let parts = py_split (CHR ''.'') current; package = (if is_package then parts else butlast parts);
          base = take (length package - (level - 1)) package
      in if level = 0 then rel
         else if length package < level then None
         else Some (py_join ''.'' (case rel of None \<Rightarrow> base | Some r \<Rightarrow> if r = [] then base else base @ [r])))"

text \<open>In a module that is no package, an import is resolved as Python does where Python accepts it.\<close>
theorem relative_import_agrees:
  assumes "python_from False current rel level = Some t"
  shows "resolve_from_module current rel level = t"
proof (cases "level = 0")
  case True
  then show ?thesis using assms by (simp add: python_from_def resolve_from_module_def Let_def)
next
  case False
  let ?parts = "py_split (CHR ''.'') current"
  obtain k where k: "length ?parts = Suc k" using split_nonempty [of "CHR ''.''" current] by (cases ?parts) auto
  have base: "take (Suc k - level) (butlast ?parts) = take (Suc k - level) ?parts"
    using False k by (simp add: butlast_conv_take min_def)
  show ?thesis using assms False base k
    by (cases rel) (auto simp: python_from_def resolve_from_module_def Let_def split: if_splits)
qed

theorem relative_import_agrees_witness: "resolve_from_module ''a.b.c'' (Some ''d'') 2 = ''a.d''"
proof (rule relative_import_agrees)
  show "python_from False ''a.b.c'' (Some ''d'') 2 = Some ''a.d''" by code_simp
qed

lemma join_length: "xs \<noteq> [] \<Longrightarrow> Suc (length (py_join [d] xs)) = sum_list (map (\<lambda>x. Suc (length x)) xs)"
proof (induction "[d]" xs rule: py_join.induct)
  case (3 x y ys)
  then show ?case by simp
qed simp_all

text \<open>In the \<open>__init__.py\<close> of a package every relative import is resolved one level too high.\<close>
theorem package_import_misses:
  assumes "python_from True current (Some r) level = Some t" and "0 < level" and "r \<noteq> []"
  shows "resolve_from_module current (Some r) level \<noteq> t"
proof -
  let ?parts = "py_split (CHR ''.'') current"
  let ?k = "length ?parts - level"
  have level: "level \<le> length ?parts" and t: "t = py_join ''.'' (take (Suc ?k) ?parts @ [r])"
    using assms by (auto simp: python_from_def Let_def Suc_diff_le split: if_splits)
  have "?k < length ?parts" using level assms(2) by linarith
  then have "take (Suc ?k) ?parts = take ?k ?parts @ [?parts ! ?k]" by (rule take_Suc_conv_app_nth)
  then have "length (py_join ''.'' (take ?k ?parts @ [r])) < length t"
    using join_length [of "take ?k ?parts @ [r]" "CHR ''.''"] join_length [of "take (Suc ?k) ?parts @ [r]" "CHR ''.''"]
    by (simp add: t)
  then show ?thesis using level assms(2,3) by (auto simp: resolve_from_module_def Let_def)
qed

section \<open>A project\<close>

definition no_arguments :: ast where
  "no_arguments = Arguments [] [] None [] [] None []"

definition function_at :: "nat \<Rightarrow> string \<Rightarrow> ast" where
  "function_at l n = FunctionDef False l n no_arguments [] [] None"

definition project_entries :: "dir_entry list" where
  "project_entries = [DirE ''pkg'' False [FileE ''__init__.py'', FileE ''helper.py''], FileE ''helper.py'', FileE ''main.py'', FileE ''notes.txt'']"

definition project_texts :: "(string \<times> ast) list" where
  "project_texts =
     [(''/p/helper.py'', Module [function_at 5 ''run'']),
      (''/p/main.py'', Module [Import 1 [Alias 1 ''helper'' None], ImportFrom 2 (Some ''pkg.helper'') [Alias 2 ''run'' (Some ''go'')] 0]),
      (''/p/pkg/__init__.py'', Module [ImportFrom 1 (Some ''helper'') [Alias 1 ''run'' None] 1]),
      (''/p/pkg/helper.py'', Module [function_at 1 ''run''])]"

text \<open>The text of a file is its path, which the parser looks up.\<close>

definition project_sources :: sources where
  "project_sources =
     \<lparr>src_read = (\<lambda>p. Some (py_join ''/'' ([] # p))), src_parse = map_of project_texts, src_reuse = (\<lambda>_. None), src_fanout = None\<rparr>"

definition project_index :: symbol_index where
  "project_index = (case build project_sources [''p''] id project_entries of Inr ix \<Rightarrow> ix | Inl _ \<Rightarrow> empty_index)"

definition helper_run :: "fpath \<Rightarrow> nat \<Rightarrow> (string \<times> symbol_definition) list" where
  "helper_run p l = [(''run'', \<lparr>sd_name = ''run'', sd_kind = ''function'', sd_file = p, sd_line = l, sd_params = []\<rparr>)]"

definition bound_name :: "string \<Rightarrow> string \<Rightarrow> string \<Rightarrow> nat \<Rightarrow> string \<times> import_binding" where
  "bound_name a m n l = (a, \<lparr>ib_alias = a, ib_module = m, ib_name = n, ib_line = l, ib_star = False\<rparr>)"

lemma project_index_value [code]:
  "project_index =
     \<lparr>ix_modules =
        [(''helper'', \<lparr>mi_name = ''helper'', mi_file = [''p'', ''helper.py''], mi_definitions = helper_run [''p'', ''helper.py''] 5,
           mi_imports = [], mi_stars = []\<rparr>),
         (''main'', \<lparr>mi_name = ''main'', mi_file = [''p'', ''main.py''], mi_definitions = [],
           mi_imports = [bound_name ''helper'' ''helper'' [] 1, bound_name ''go'' ''pkg.helper'' ''run'' 2], mi_stars = []\<rparr>),
         (''pkg'', \<lparr>mi_name = ''pkg'', mi_file = [''p'', ''pkg'', ''__init__.py''], mi_definitions = [],
           mi_imports = [bound_name ''run'' ''helper'' ''run'' 1], mi_stars = []\<rparr>),
         (''pkg.helper'', \<lparr>mi_name = ''pkg.helper'', mi_file = [''p'', ''pkg'', ''helper.py''],
           mi_definitions = helper_run [''p'', ''pkg'', ''helper.py''] 1, mi_imports = [], mi_stars = []\<rparr>)],
      ix_file_to_module =
        [([''p'', ''helper.py''], ''helper''), ([''p'', ''main.py''], ''main''), ([''p'', ''pkg'', ''__init__.py''], ''pkg''),
         ([''p'', ''pkg'', ''helper.py''], ''pkg.helper'')],
      ix_module_to_file =
        [(''helper'', [''p'', ''helper.py'']), (''main'', [''p'', ''main.py'']), (''pkg'', [''p'', ''pkg'', ''__init__.py'']),
         (''pkg.helper'', [''p'', ''pkg'', ''helper.py''])],
      ix_trees = zip [''helper'', ''main'', ''pkg'', ''pkg.helper''] (map snd project_texts),
      ix_suffixes = [(''helper'', ''pkg.helper'')]\<rparr>"
  by code_simp

lemma project_built: "build project_sources [''p''] id project_entries = Inr project_index"
proof -
  have "\<not> list_ex (\<lambda>p. isl (file_to_modname [''p''] id p)) (py_files [''p''] project_entries)" by code_simp
  then have "\<nexists>e. build project_sources [''p''] id project_entries = Inl e"
    using register_fails_iff [of "[''p'']" id "py_files [''p''] project_entries" empty_index]
    by (auto simp: build_def registered_def res_bind_Inl_iff Let_def list_ex_iff)
  then show ?thesis by (cases "build project_sources [''p''] id project_entries") (auto simp: project_index_def)
qed

lemma project_pool: "pool_in_order project_sources" and project_reuse: "reuse_honest project_sources"
  by (simp_all add: pool_in_order_def reuse_honest_def project_sources_def)

theorem match_equals_scan_witness:
  "match_registered_module project_index ''helper'' = Some ''helper'' \<and> scan_modules (map fst (ix_modules project_index)) ''helper'' = Some ''helper''"
proof -
  have "match_registered_module project_index ''helper'' = Some ''helper''" by code_simp
  with match_equals_scan [OF project_built, of "''helper''"] show ?thesis by simp
qed

definition count_trees :: "string \<Rightarrow> fpath \<Rightarrow> ast \<Rightarrow> nat \<Rightarrow> nat" where
  "count_trees m p t n = Suc n"

theorem streaming_equals_batch_witness:
  "build_streaming project_sources count_trees 0 [''p''] id project_entries = Inr (project_index\<lparr>ix_trees := []\<rparr>, 4)"
proof -
  have "foldl (\<lambda>st (m, p, t). count_trees m p t st) 0 (visited project_sources project_index (py_files [''p''] project_entries)) = 4"
    by code_simp
  with streaming_equals_batch [OF project_pool, of count_trees 0 "[''p'']" id project_entries] project_built
  show ?thesis by simp
qed

theorem reuse_and_pool_transparent_witness:
  "build project_sources [''p''] id project_entries = build (without_reuse project_sources) [''p''] id project_entries"
  by (rule reuse_and_pool_transparent [OF project_pool project_reuse])

theorem module_definitions_exact_witness: "map_option sd_line (lookup_definition project_index ''pkg.helper'' ''run'') = Some 1"
proof -
  have "map_option sd_line (last_named ''run'' (module_definitions project_sources [''p''] id project_entries ''pkg.helper'')) = Some 1"
    by code_simp
  with module_definitions_exact [OF project_built project_pool] show ?thesis by simp
qed


text \<open>In this project \<open>pkg\<close> runs the function of its own helper, on line 1; the index finds that of the helper beside the package.\<close>
theorem package_import_wrong_module:
  "python_from True ''pkg'' (Some ''helper'') 1 = Some ''pkg.helper''
   \<and> map_option (\<lambda>d. (sd_file d, sd_line d)) (resolve_symbol project_index ''pkg'' ''run'') = Some ([''p'', ''helper.py''], 5)"
  by code_simp

lemma main_imports_helper:
  "case map_of (ix_modules project_index) ''main'' of None \<Rightarrow> False | Some mi \<Rightarrow> map fst (mi_imports mi) = [''helper'', ''go'']"
  by code_simp

lemma helper_defines_run: "map_option sd_line (lookup_definition project_index ''helper'' ''run'') = Some 5"
  by code_simp

text \<open>The function of an imported module is not found by its dotted name.\<close>
theorem dotted_name_unresolved:
  "(case map_of (ix_modules project_index) ''main'' of None \<Rightarrow> False | Some mi \<Rightarrow> map fst (mi_imports mi) = [''helper'', ''go''])
   \<and> map_option sd_line (lookup_definition project_index ''helper'' ''run'') = Some 5
   \<and> map_option sd_line (resolve_symbol project_index ''main'' ''helper.run'') = None"
proof -
  have "map_option sd_line (resolve_symbol project_index ''main'' ''helper.run'') = None" by code_simp
  then show ?thesis using main_imports_helper helper_defines_run by blast
qed

theorem package_import_misses_witness: "resolve_from_module ''pkg'' (Some ''helper'') 1 \<noteq> ''pkg.helper''"
proof (rule package_import_misses)
  show "python_from True ''pkg'' (Some ''helper'') 1 = Some ''pkg.helper''" by code_simp
qed simp_all

lemma walk_below_root: "(d, fs) \<in> set (walk_below root es) \<Longrightarrow> set root \<subseteq> set d"
  by (induction root es rule: walk_below.induct) (auto split: if_splits)

text \<open>Below a directory whose own path has a part named \<open>env\<close>, nothing is index_files at all.\<close>
theorem root_below_env: "x \<in> set skipped_parts \<Longrightarrow> x \<in> set root \<Longrightarrow> py_files root es = []"
proof -
  assume x: "x \<in> set skipped_parts" "x \<in> set root"
  have "list_ex (\<lambda>x. x \<in> set (dir @ [f])) skipped_parts" if "(dir, fs) \<in> set ((root, files_in es) # walk_below root es)" for dir fs f
  proof -
    have "set root \<subseteq> set dir" using that by (auto dest!: walk_below_root)
    then show ?thesis using x unfolding list_ex_iff by auto
  qed
  then show ?thesis unfolding py_files_def by (fastforce simp: filter_empty_conv)
qed

theorem root_below_env_witness: "py_files [''home'', ''env'', ''app''] project_entries = []"
  by (rule root_below_env [of "''env''"]) (simp_all add: skipped_parts_def)

text \<open>A file that is a link out of the project stops the whole index.\<close>
theorem link_out_of_root:
  "build project_sources [''p''] (\<lambda>p. if p = [''p'', ''main.py''] then [''lib'', ''main.py''] else p) project_entries
     = Inl (Outside_Root [''p'', ''main.py''])"
  by code_simp

end
