(* ===== verification/Spec2Isabelle.thy ===== *)
theory Spec2Isabelle
  imports Def_Use Contracts Summaries Service Reach_Engine Report Remedy_Project Tolerant_Parse Regex_Cost
    Proof_Graph Const_Timeline Sink_Index Secret_Filter Path_Config Config_File Symbol_Index
begin

text \<open>
  TimeCodeSecurity scans Python repositories: a scanner built on syntax trees and taint
  (\<open>ast_scanner.py\<close>), a composition analysis that asks which vulnerable dependencies a program
  reaches (\<open>osv_client.py\<close>, \<open>version_matcher.py\<close>, \<open>sca_reachability/\<close>), a command line that merges,
  folds and filters what they find (\<open>cli.py\<close>, \<open>suppression_resolver.py\<close>, \<open>diff_scan.py\<close>), a remediation
  engine that patches findings and verifies its patches (\<open>remediation/\<close>, \<open>verification_engine.py\<close>), and
  an event pipeline that turns a finished scan into notifications and webhook deliveries.

  \<^bold>\<open>The model of Python.\<close> \<open>Prelude\<close>, \<open>Rx\<close>, \<open>Py_Values\<close>, \<open>Py_Ast\<close> and \<open>Text_Lines\<close> hold what the components
  share: texts as lists of 8-bit characters, the operations on them, regular expressions with
  Python's order of backtracking, dynamic values and their JSON, syntax trees, lines. A call that
  may raise has a sum type, with the exception on the left; attributes that are assigned are a
  record that is returned updated; a lock region is a step of a transition relation.

  \<^bold>\<open>Static analysis.\<close> \<open>Def_Use\<close> (\<open>tcs/analysis/def_use.py\<close>) is shown to compute a kill and gen analysis and
  to terminate on alias cycles, with a bound on the fuel of its loop; \<open>Contracts\<close>
  (\<open>function_contracts.py\<close>) to drop sinks only behind hardened wrappers; \<open>Summaries\<close>
  (\<open>function_summarizer.py\<close>) to report only justified flows.

  \<^bold>\<open>The scanner.\<close> Of \<open>ast_scanner.py\<close> its algorithms are modelled, not its rules. \<open>Tolerant_Parse\<close>: how an
  unreadable module is read, in at most 32 rounds as in the code. \<open>Regex_Cost\<close>: which expressions are
  called exponential, against a semantics of the expressions. \<open>Assign_Table\<close>: the table of assignments,
  its side indexes and its assembly from parallel workers. \<open>Const_Timeline\<close>: the sweep that answers which
  constant a name has on a line. \<open>Sink_Index\<close>: the incremental indexes over the sinks, against the scans
  they replace, in every history of the lists (the locale \<open>incremental_index\<close>, interpreted on the five
  indexes). \<open>Proof_Graph\<close>: provenance, the merge of branches, the proof of a finding.

  \<^bold>\<open>Composition analysis.\<close> \<open>Sca_Records\<close>, \<open>Version_Bounds\<close>, \<open>Version_Match\<close>: version ranges, what the
  classifier of two ranges may conclude, that no advisory is dropped silently. \<open>Dist_Resolver\<close>,
  \<open>Reach_Records\<close>, \<open>Call_Graph\<close>, \<open>Reach_Visitor\<close>, \<open>Reach_Engine\<close>: from an import to a distribution, the call
  graph and its shortest paths, the verdict of every call and of a finding.

  \<^bold>\<open>The project index.\<close> \<open>Symbol_Index\<close> (\<open>symbol_indexer.py\<close>): modules, definitions and imports of a project; the
  suffix index against the scan it replaces, the streaming pass against the pass that keeps all trees, what a name is
  resolved to, and where relative imports go astray.

  \<^bold>\<open>Configuration.\<close> \<open>Glob\<close>, \<open>Yaml_Doc\<close>, \<open>Path_Config\<close> (\<open>tcs_config.py\<close>): which paths a pattern selects, that the second
  pass over anchored patterns is exact, what is read from a file. \<open>Config_File\<close> (\<open>config_loader.py\<close>): the schema, and
  which rules the settings leave active.

  \<^bold>\<open>Secrets.\<close> \<open>Text_Replace\<close>: what \<open>str.replace\<close> does when texts are put in and taken out in turn.
  \<open>Secret_Vault\<close> (\<open>SecretVault\<close> of \<open>secret_scanner.py\<close>): which texts count as secrets, with the entropy exact and
  its threshold decided over integers; that redaction hides every secret and that restoring undoes it,
  with the sources where it does not. \<open>Secret_Scan\<close> (\<open>scan_text\<close>): the detectors of a line, their order when
  they overlap, the masks and the redacted context, and that a finding depends on the secret through its
  mask only. \<open>Secret_Filter\<close> (\<open>secret_filters.py\<close>): which findings are suppressed, and why.

  \<^bold>\<open>Report.\<close> \<open>Directives\<close>: the suppression directives, against a specification of the lines they cover.
  \<open>Diff_Scan\<close>: the lines a patch adds. \<open>Report\<close>: merge, rollup, confidence, exit status, SARIF.

  \<^bold>\<open>Remediation.\<close> \<open>Remedy_Records\<close>, \<open>Remedy_Verify\<close>, \<open>Remedy_Engine\<close>, \<open>Remedy_Project\<close>: outcomes and their
  dictionaries, the two gates of a patch, one attempt, and the transactional run over a project. What
  the disk holds after a run is what was verified, or what it held before.

  \<^bold>\<open>Events.\<close> \<open>Events\<close> and \<open>Publisher\<close> (\<open>event_taxonomy.py\<close>, \<open>event_bus.py\<close>, \<open>event_publisher.py\<close>),
  \<open>Notif_Models\<close>, \<open>Policy\<close>, \<open>Notif_Store\<close>, \<open>In_App\<close>: tenants, keys, the table and its constraints (the locale
  \<open>notification_repository\<close>, interpreted on the SQLite model). \<open>Delivery\<close> (the locale \<open>delivery_sink\<close>,
  interpreted on the sink in memory and the durable one), \<open>Ssrf\<close> with addresses as 32-bit and 128-bit
  words, \<open>Webhook_Format\<close>, \<open>Webhook_Client\<close>, \<open>Webhook_Queue\<close>: one delivery with its deadlines, and the queue
  with its workers and its shutdown as a step relation. \<open>Service\<close> puts them together.

  \<^bold>\<open>Interaction.\<close> A scan result enters \<open>Publisher\<close>, whose events run through the bus to \<open>Service\<close>, which asks
  \<open>Policy\<close> for intents and hands them to \<open>In_App\<close> and \<open>Webhook_Queue\<close>; the latter calls \<open>Webhook_Client\<close>, which
  asks \<open>Ssrf\<close>, and records in \<open>Delivery\<close>. \<open>Reach_Engine\<close> reads \<open>Version_Match\<close>, \<open>Call_Graph\<close> and \<open>Reach_Visitor\<close>.
  \<open>Report\<close> takes the findings of all scanners through \<open>Directives\<close> and \<open>Diff_Scan\<close>. \<open>Remedy_Project\<close> runs
  \<open>Remedy_Engine\<close> for every finding and \<open>Remedy_Verify\<close> on what comes out.

  \<^bold>\<open>Arguments of the model.\<close> Python's parser, tokenizer, \<open>re\<close> parser and \<open>difflib\<close>, hash functions, the clock,
  the network, git, the file system, the transformers of single CWEs and the taint analysis where the
  remediation calls it are arguments of the definitions that use them; what is assumed of them is a
  hypothesis of the theorem, with a witness.

  \<^bold>\<open>Not modelled.\<close> The rules of the scanner (collectors per CWE, their tables, the resolution of
  expressions on whole trees), the cross-file engine, the JavaScript, HTML and
  infrastructure scanners, the compilation of the bank of further secret expressions, the other command lines, windows and web
  handlers, process pools, the tree-sitter converter, benchmarks and data. Floating point confidences
  are rationals; characters above 8 bits do not occur in the texts of the model, except in the payload formatters.
\<close>

end
